(* ===== verification/Prelude.thy ===== *)
theory Prelude
  imports Main "HOL-Library.Word" "HOL-Library.Monad_Syntax" "HOL-Library.Multiset"
begin

text \<open>
  Shared vocabulary of the development: the machine integer types of the C sources, the
  outcome type of operations that may not return, the theorem collections the component
  theories fill, and generic facts on lists, multisets and words.

  Every operation of the C code that can fail an \<^verbatim>\<open>assert\<close>, dereference a null or wild
  pointer, or spin forever is a function into \<open>option\<close>; \<open>None\<close> is "does not return
  normally". Operations that always return are plain functions.
\<close>

unbundle bit_operations_syntax

type_synonym u8 = "8 word"
type_synonym u16 = "16 word"
type_synonym u32 = "32 word"
type_synonym u64 = "64 word"

text \<open>Application memory: one byte per 64-bit virtual address.\<close>

type_synonym memory = "u64 \<Rightarrow> u8"

named_theorems layout \<comment> \<open>byte positions of wire and struct fields\<close>
named_theorems inv_intros \<comment> \<open>preservation lemmas of the component invariants\<close>

section \<open>The C \<open>assert\<close> macro\<close>

definition assert_c :: "bool \<Rightarrow> unit option" where
  "assert_c b = (if b then Some () else None)"

lemma assert_c_simps [simp]:
  "assert_c True = Some ()" "assert_c False = None"
  by (simp_all add: assert_c_def)

lemma assert_c_bind_Some [simp]:
  "(assert_c b \<bind> f) = Some y \<longleftrightarrow> b \<and> f () = Some y"
  by (simp add: assert_c_def)

section \<open>Loops over a list\<close>

text \<open>
  The \<^verbatim>\<open>list_for_each_safe\<close> loops of the code remove at most the current element, so they
  visit the elements the list had on entry; the theory \<open>Ccan_List_Refine\<close> proves this of the
  macro with its saved pointer.
\<close>

fun for_each :: "('a \<Rightarrow> 's \<Rightarrow> 's option) \<Rightarrow> 'a list \<Rightarrow> 's \<Rightarrow> 's option" where
  "for_each f [] s = Some s"
| "for_each f (x # xs) s = f x s \<bind> for_each f xs"

lemma for_each_invariant:
  assumes "for_each f xs s = Some s'" "P s"
    and "\<And>x s s'. x \<in> set xs \<Longrightarrow> P s \<Longrightarrow> f x s = Some s' \<Longrightarrow> P s'"
  shows "P s'"
  using assms
proof (induction xs arbitrary: s)
  case (Cons x xs)
  obtain s1 where s1: "f x s = Some s1" "for_each f xs s1 = Some s'"
    using Cons.prems(1) by (auto split: Option.bind_splits)
  have "P s1" using Cons.prems(2,3) s1(1) by (meson list.set_intros(1))
  then show ?case using Cons.IH [OF s1(2)] Cons.prems(3) by (meson list.set_intros(2))
qed simp

section \<open>Error numbers and results\<close>

text \<open>
  The results of the functions that return \<^verbatim>\<open>int\<close>: zero, or an error number. The C code is
  not uniform in the sign it gives to error numbers, and some callers test \<open>ret < 0\<close>, so the
  sign is kept: \<open>Neg e\<close> is \<open>-e\<close>, \<open>Pos e\<close> is \<open>e\<close>.
\<close>

datatype errno = EIO | ENOMEM | ENOENT | ENOSPC | EINVAL | EBUSY | ENOSYS | EOPNOTSUPP | ENOBUFS | EDQUOT | EOTHER int

datatype ret = Ok | Neg errno | Pos errno

fun is_neg :: "ret \<Rightarrow> bool" where
  "is_neg (Neg e) \<longleftrightarrow> True"
| "is_neg _ \<longleftrightarrow> False"

section \<open>Lists and multisets\<close>

lemma mset_swap_nth:
  assumes "i < length xs" "j < length xs"
  shows "mset (xs[i := xs ! j, j := xs ! i]) = mset xs"
  using assms by (simp add: mset_swap)

lemma take_swap:
  assumes "i < n" "j < n"
  shows "take n (xs[i := a, j := b]) = (take n xs)[i := a, j := b]"
  by (simp add: take_update_swap)

lemma Min_mset_eqI:
  assumes "x \<in># M" "\<And>y. y \<in># M \<Longrightarrow> x \<le> y"
  shows "Min_mset M = (x :: 'a :: linorder)"
  using assms by (intro Min_eqI) auto

section \<open>Words\<close>

lemma word_diff_less_iff_unat:
  fixes a b :: "'a :: len word"
  shows "a \<le> b \<Longrightarrow> unat (b - a) = unat b - unat a"
  by (rule unat_sub)

lemma unat_add_no_overflow:
  fixes a b :: "'a :: len word"
  shows "unat a + unat b < 2 ^ LENGTH('a) \<Longrightarrow> unat (a + b) = unat a + unat b"
  using unat_add_lem [of a b] by simp

lemma unat_bound: "unat (w :: 'a :: len word) < 2 ^ LENGTH('a)"
  by (rule unsigned_less)

lemma unat_min: "unat (min a b) = min (unat a) (unat b)"
  by (simp add: min_def word_le_nat_alt)

end
