(* ===== verification/Bytes.thy ===== *)
theory Bytes
  imports Prelude
begin

text \<open>
  Bytes in memory and on the wire. Every multi-byte field of a packet goes through
  \<^verbatim>\<open>rte_cpu_to_be_*\<close> before it is stored and \<^verbatim>\<open>rte_be_to_cpu_*\<close> after it is read, so the
  bytes of a field are the big-endian bytes of its value on every host: \<open>put_be\<close> and \<open>get_be\<close>.
  The one field that is not converted is the sink tag of an RDMA READ, which the responder copies
  from the request to the responses; reading and writing it in the same byte order gives the same bytes.
  \<open>put_le\<close> is the memory image of an unconverted integer on the little-endian hosts the
  program is built for. A packet buffer is a function from offsets to bytes; \<open>holds_at\<close> says
  that a buffer carries a byte string at an offset.
\<close>

section \<open>Byte images of integers\<close>

definition byte_at :: "'a :: len word \<Rightarrow> nat \<Rightarrow> u8" where
  "byte_at v k = ucast (drop_bit (8 * k) v)"

definition put_le :: "nat \<Rightarrow> 'a :: len word \<Rightarrow> u8 list" where
  "put_le n v = map (byte_at v) [0..<n]"

definition put_be :: "nat \<Rightarrow> 'a :: len word \<Rightarrow> u8 list" where
  "put_be n v = rev (put_le n v)"

fun join_le :: "u8 list \<Rightarrow> 'a :: len word" where
  "join_le [] = 0"
| "join_le (b # bs) = ucast b OR push_bit 8 (join_le bs)"

definition get_be :: "nat \<Rightarrow> (nat \<Rightarrow> u8) \<Rightarrow> nat \<Rightarrow> 'a :: len word" where
  "get_be n buf i = join_le (rev (map (\<lambda>k. buf (i + k)) [0..<n]))"

lemma length_put_le [simp]: "length (put_le n v) = n"
  by (simp add: put_le_def)

lemma length_put_be [simp]: "length (put_be n v) = n"
  by (simp add: put_be_def)

lemma bit_byte_at: "bit (byte_at v k) j \<longleftrightarrow> j < 8 \<and> bit v (8 * k + j)"
  by (auto simp: byte_at_def bit_simps)

lemma bit_join_le:
  "bit (join_le bs :: 'a :: len word) j \<longleftrightarrow>
     j < LENGTH('a) \<and> j < 8 * length bs \<and> bit (bs ! (j div 8)) (j mod 8)"
proof (induction bs arbitrary: j)
  case (Cons b bs)
  show ?case
  proof (cases "j < 8")
    case True
    then show ?thesis by (auto simp: bit_simps)
  next
    case False
    then obtain i where j: "j = i + 8" by (metis add.commute le_Suc_ex not_less)
    have "\<not> bit b j" using False by (auto dest: bit_imp_le_length)
    moreover have "j div 8 = Suc (i div 8)" "j mod 8 = i mod 8"
      using div_add_self2 [of 8 i] by (simp_all add: j)
    ultimately show ?thesis using Cons.IH [of i] by (auto simp: j bit_simps)
  qed
qed simp

lemma join_put_le:
  assumes "LENGTH('a) = 8 * n"
  shows "join_le (put_le n v) = (v :: 'a :: len word)"
proof (rule bit_word_eqI)
  fix j assume "j < LENGTH('a)"
  then show "bit (join_le (put_le n v) :: 'a word) j = bit v j"
    using assms by (simp add: bit_join_le put_le_def bit_byte_at less_mult_imp_div_less mult.commute)
qed

section \<open>Buffers\<close>

definition holds_at :: "(nat \<Rightarrow> u8) \<Rightarrow> nat \<Rightarrow> u8 list \<Rightarrow> bool" where
  "holds_at buf i bs \<longleftrightarrow> (\<forall>k < length bs. buf (i + k) = bs ! k)"

lemma holds_at_Nil [simp]: "holds_at buf i []"
  by (simp add: holds_at_def)

lemma holds_at_append [simp]:
  "holds_at buf i (xs @ ys) \<longleftrightarrow> holds_at buf i xs \<and> holds_at buf (i + length xs) ys"
proof
  assume "holds_at buf i (xs @ ys)"
  then have *: "buf (i + k) = (xs @ ys) ! k" if "k < length xs + length ys" for k
    using that by (simp add: holds_at_def)
  have "buf (i + length xs + k) = ys ! k" if "k < length ys" for k
    using * [of "length xs + k"] that by (simp add: add.assoc)
  moreover have "buf (i + k) = xs ! k" if "k < length xs" for k
    using * [of k] that by (simp add: nth_append)
  ultimately show "holds_at buf i xs \<and> holds_at buf (i + length xs) ys"
    by (simp add: holds_at_def)
next
  assume h: "holds_at buf i xs \<and> holds_at buf (i + length xs) ys"
  show "holds_at buf i (xs @ ys)"
    unfolding holds_at_def
  proof (intro allI impI)
    fix k assume k: "k < length (xs @ ys)"
    show "buf (i + k) = (xs @ ys) ! k"
    proof (cases "k < length xs")
      case True
      then show ?thesis using h by (simp add: holds_at_def nth_append)
    next
      case False
      have "\<forall>j < length ys. buf (i + length xs + j) = ys ! j"
        using h by (simp add: holds_at_def)
      moreover have "k - length xs < length ys" "i + length xs + (k - length xs) = i + k"
        using False k by auto
      ultimately have "buf (i + k) = ys ! (k - length xs)" by metis
      then show ?thesis using False by (simp add: nth_append)
    qed
  qed
qed

lemma holds_at_Cons [simp]: "holds_at buf i (b # bs) \<longleftrightarrow> buf i = b \<and> holds_at buf (Suc i) bs"
  using holds_at_append [of buf i "[b]" bs] by (simp add: holds_at_def)

lemma holds_at_map: "holds_at buf i bs \<longleftrightarrow> map (\<lambda>k. buf (i + k)) [0..<length bs] = bs"
  unfolding holds_at_def list_eq_iff_nth_eq by simp

section \<open>The contract of a field codec\<close>

text \<open>
  A fixed-width field: what is written is read back, from any buffer that holds it.
\<close>

locale field_codec =
  fixes width :: nat
    and enc :: "'v \<Rightarrow> u8 list"
    and dec :: "(nat \<Rightarrow> u8) \<Rightarrow> nat \<Rightarrow> 'v"
  assumes enc_width: "length (enc v) = width"
    and dec_enc: "holds_at buf i (enc v) \<Longrightarrow> dec buf i = v"
begin

lemma enc_inj: "enc v = enc w \<Longrightarrow> v = w"
proof -
  assume eq: "enc v = enc w"
  have *: "holds_at (\<lambda>k. enc v ! k) 0 (enc v)" by (simp add: holds_at_def)
  then have "holds_at (\<lambda>k. enc v ! k) 0 (enc w)" by (simp only: eq)
  then show "v = w" by (rule trans [OF dec_enc [OF *, symmetric] dec_enc])
qed

end

lemma get_be_put_be:
  assumes "LENGTH('a) = 8 * n" "holds_at buf i (put_be n (v :: 'a :: len word))"
  shows "get_be n buf i = v"
proof -
  have "map (\<lambda>k. buf (i + k)) [0..<n] = put_be n v"
    using assms(2) by (simp add: holds_at_map)
  then show ?thesis using assms(1) by (simp add: get_be_def put_be_def join_put_le)
qed

interpretation be16: field_codec 2 "put_be 2 :: u16 \<Rightarrow> u8 list" "get_be 2"
  by unfold_locales (simp_all add: get_be_put_be)

interpretation be32: field_codec 4 "put_be 4 :: u32 \<Rightarrow> u8 list" "get_be 4"
  by unfold_locales (simp_all add: get_be_put_be)

interpretation be64: field_codec 8 "put_be 8 :: u64 \<Rightarrow> u8 list" "get_be 8"
  by unfold_locales (simp_all add: get_be_put_be)

lemmas be_fields = be16.dec_enc be32.dec_enc be64.dec_enc

end
