(* ===== verification/Dpdk.thy ===== *)
theory Dpdk
  imports Bytes
begin

text \<open>
  The environment of the data path: the DPDK functions and the C library calls that
  \<^verbatim>\<open>liburdma\<close> makes and that are not part of the program. They are the fields of one record,
  an argument of every definition that uses them. Calls whose outcome depends on the outside
  world (allocation, the clock, the network card) take the number of environment calls made so
  far. A pointer stored in an \<^verbatim>\<open>rte_ring\<close> is the index of the object in its storage array.
  The type \<open>'r\<close> of rings is opaque.
\<close>

datatype mempool = tx_ddp_mempool | tx_hdr_mempool

text \<open>The transmit offload flags the code uses.\<close>

datatype tx_flag = PKT_TX_UDP_CKSUM | PKT_TX_IPV4 | PKT_TX_IP_CKSUM

text \<open>
  A transmit mbuf: the bytes of its data area and the private area behind it, where the code
  keeps \<^verbatim>\<open>struct pending_datagram_info\<close>. The pointers of that structure are indices into the
  send work requests and the read response slots of the queue pair.
\<close>

record tx_mbuf =
  mb_addr :: u64
  mb_data :: "u8 list"
  next_retransmit :: u64
  pd_wqe :: "nat option"
  pd_readresp :: "nat option"
  transmit_count :: u16
  ddp_length :: u16
  ddp_raw_cksum :: u32
  pd_psn :: u32

text \<open>
  A received mbuf: whether the hardware flagged its checksums as bad, the length of its data,
  and the data. \<^verbatim>\<open>rte_pktmbuf_adj\<close> returns null when it is asked to remove more than there is.
  Otherwise the code reads without looking at the length, so the data is a byte at every offset.
\<close>

record rx_mbuf =
  rx_cksum_bad :: bool
  rx_len :: nat
  rx_data :: "nat \<Rightarrow> u8"

text \<open>A frame ready for transmission: header mbuf and chained payload as one byte string.\<close>

record frame =
  fr_data :: "u8 list"
  fr_headroom :: nat
  fr_flags :: "tx_flag list"
  fr_l2_len :: nat
  fr_l3_len :: nat
  fr_l4_len :: nat

record 'r dpdk =
  rte_malloc :: "nat \<Rightarrow> bool"
  rte_errno :: "nat \<Rightarrow> errno"
  rte_ring_init :: "nat \<Rightarrow> ret \<times> 'r"
  rte_ring_enqueue :: "'r \<Rightarrow> nat \<Rightarrow> 'r option"
  rte_ring_dequeue :: "'r \<Rightarrow> (nat \<times> 'r) option"
  rte_ring_dequeue_burst :: "'r \<Rightarrow> nat \<Rightarrow> nat list \<times> 'r"
  rte_ring_enqueue_burst :: "'r \<Rightarrow> nat list \<Rightarrow> nat \<times> 'r"
  rte_ring_empty :: "'r \<Rightarrow> bool"
  rte_pktmbuf_alloc :: "mempool \<Rightarrow> nat \<Rightarrow> tx_mbuf option"
  rte_pktmbuf_clone :: "nat \<Rightarrow> bool"
  pktmbuf_tailroom :: "mempool \<Rightarrow> nat"
  pktmbuf_headroom :: "mempool \<Rightarrow> nat"
  stale_byte :: "tx_mbuf \<Rightarrow> nat \<Rightarrow> u8"
  rte_get_timer_cycles :: "nat \<Rightarrow> u64"
  rte_get_timer_hz :: u64
  rte_eth_tx_burst :: "nat \<Rightarrow> nat \<Rightarrow> nat"
  rte_eth_rx_burst :: "nat \<Rightarrow> nat \<Rightarrow> rx_mbuf list"
  rx_mbuf_at :: "nat \<Rightarrow> rx_mbuf"
  rte_eth_macaddr_get :: "u16 \<Rightarrow> u8 list"
  rte_raw_cksum :: "u8 list \<Rightarrow> u16"
  rte_ipv4_cksum :: "u8 list \<Rightarrow> u16"
  rte_ipv4_phdr_cksum :: "u8 list \<Rightarrow> tx_flag list \<Rightarrow> u16"
  calloc :: "nat \<Rightarrow> bool"

section \<open>Documented behaviour\<close>

text \<open>
  \<open>ring_spec D q cap\<close>: rings are bounded FIFO queues. \<open>q r\<close> is the sequence of entries of a
  ring, oldest first, and \<open>cap r\<close> the number of entries it can hold. Enqueue fails exactly when
  the ring is full, dequeue exactly when it is empty; the burst forms move as many entries as
  they can.
\<close>

definition ring_spec :: "'r dpdk \<Rightarrow> ('r \<Rightarrow> nat list) \<Rightarrow> ('r \<Rightarrow> nat) \<Rightarrow> bool" where
  "ring_spec D q cap \<longleftrightarrow>
     (\<forall>r x. if length (q r) < cap r
        then \<exists>r'. rte_ring_enqueue D r x = Some r' \<and> q r' = q r @ [x] \<and> cap r' = cap r
        else rte_ring_enqueue D r x = None) \<and>
     (\<forall>r. case q r of
        [] \<Rightarrow> rte_ring_dequeue D r = None
      | x # xs \<Rightarrow> \<exists>r'. rte_ring_dequeue D r = Some (x, r') \<and> q r' = xs \<and> cap r' = cap r) \<and>
     (\<forall>r n. \<exists>r'. rte_ring_dequeue_burst D r n = (take n (q r), r') \<and> q r' = drop n (q r) \<and> cap r' = cap r) \<and>
     (\<forall>r xs. \<exists>r'. rte_ring_enqueue_burst D r xs = (min (length xs) (cap r - length (q r)), r') \<and>
        q r' = q r @ take (cap r - length (q r)) xs \<and> cap r' = cap r) \<and>
     (\<forall>r. rte_ring_empty D r \<longleftrightarrow> q r = [])"

lemma ring_spec_enqueue:
  assumes "ring_spec D q cap" "length (q r) < cap r"
  obtains r' where "rte_ring_enqueue D r x = Some r'" "q r' = q r @ [x]" "cap r' = cap r"
proof -
  from assms(1) have "if length (q r) < cap r
        then \<exists>r'. rte_ring_enqueue D r x = Some r' \<and> q r' = q r @ [x] \<and> cap r' = cap r
        else rte_ring_enqueue D r x = None"
    unfolding ring_spec_def by blast
  with assms(2) that show thesis by auto
qed

lemma ring_spec_enqueue_full:
  assumes "ring_spec D q cap" "\<not> length (q r) < cap r"
  shows "rte_ring_enqueue D r x = None"
proof -
  from assms(1) have "if length (q r) < cap r
        then \<exists>r'. rte_ring_enqueue D r x = Some r' \<and> q r' = q r @ [x] \<and> cap r' = cap r
        else rte_ring_enqueue D r x = None"
    unfolding ring_spec_def by blast
  with assms(2) show ?thesis by simp
qed

lemma ring_spec_enqueue_Some:
  assumes "ring_spec D q cap" "rte_ring_enqueue D r x = Some r'"
  shows "q r' = q r @ [x]" "cap r' = cap r" "length (q r) < cap r"
proof -
  show lt: "length (q r) < cap r"
    using assms ring_spec_enqueue_full by fastforce
  show "q r' = q r @ [x]" "cap r' = cap r"
    by (rule ring_spec_enqueue [OF assms(1) lt, of x], use assms(2) in simp)+
qed

lemma ring_spec_dequeue:
  assumes "ring_spec D q cap"
  shows "q r = [] \<Longrightarrow> rte_ring_dequeue D r = None"
    and "q r = x # xs \<Longrightarrow> \<exists>r'. rte_ring_dequeue D r = Some (x, r') \<and> q r' = xs \<and> cap r' = cap r"
proof -
  from assms have *: "case q r of
        [] \<Rightarrow> rte_ring_dequeue D r = None
      | x # xs \<Rightarrow> \<exists>r'. rte_ring_dequeue D r = Some (x, r') \<and> q r' = xs \<and> cap r' = cap r"
    unfolding ring_spec_def by blast
  show "q r = [] \<Longrightarrow> rte_ring_dequeue D r = None" using * by simp
  show "q r = x # xs \<Longrightarrow> \<exists>r'. rte_ring_dequeue D r = Some (x, r') \<and> q r' = xs \<and> cap r' = cap r"
    using * by simp
qed

lemma ring_spec_dequeue_Some:
  assumes "ring_spec D q cap" "rte_ring_dequeue D r = Some (x, r')"
  shows "q r = x # q r'" "cap r' = cap r"
  using ring_spec_dequeue [OF assms(1), of r] assms(2) by (cases "q r"; auto)+

lemma ring_spec_dequeue_None:
  assumes "ring_spec D q cap" "rte_ring_dequeue D r = None"
  shows "q r = []"
  using ring_spec_dequeue [OF assms(1), of r] assms(2) by (cases "q r") auto

lemma ring_spec_dequeue_burst:
  assumes "ring_spec D q cap" "rte_ring_dequeue_burst D r n = (xs, r')"
  shows "xs = take n (q r)" "q r' = drop n (q r)" "cap r' = cap r"
proof -
  from assms(1) have "\<exists>r'. rte_ring_dequeue_burst D r n = (take n (q r), r') \<and> q r' = drop n (q r) \<and> cap r' = cap r"
    unfolding ring_spec_def by blast
  with assms(2) show "xs = take n (q r)" "q r' = drop n (q r)" "cap r' = cap r" by auto
qed

lemma ring_spec_empty: "ring_spec D q cap \<Longrightarrow> rte_ring_empty D r \<longleftrightarrow> q r = []"
  unfolding ring_spec_def by blast

lemma ring_spec_enqueue_burst:
  assumes "ring_spec D q cap" "rte_ring_enqueue_burst D r xs = (n, r')"
  shows "n = min (length xs) (cap r - length (q r))"
    "q r' = q r @ take (cap r - length (q r)) xs" "cap r' = cap r"
proof -
  from assms(1) have "\<exists>r'. rte_ring_enqueue_burst D r xs = (min (length xs) (cap r - length (q r)), r') \<and>
        q r' = q r @ take (cap r - length (q r)) xs \<and> cap r' = cap r"
    unfolding ring_spec_def by blast
  with assms(2) show "n = min (length xs) (cap r - length (q r))"
    "q r' = q r @ take (cap r - length (q r)) xs" "cap r' = cap r" by auto
qed

text \<open>
  \<open>tx_burst_spec D\<close>: the network card never accepts more packets than it is offered.
  \<open>tx_burst_progress D\<close>: it accepts at least one packet of a non-empty burst. This holds of a card
  that keeps up; what the code does with one that does not is the lemma \<open>flush_tx_queue_stuck\<close>.
\<close>

definition tx_burst_spec :: "'r dpdk \<Rightarrow> bool" where
  "tx_burst_spec D \<longleftrightarrow> (\<forall>t n. rte_eth_tx_burst D t n \<le> n)"

definition tx_burst_progress :: "'r dpdk \<Rightarrow> bool" where
  "tx_burst_progress D \<longleftrightarrow> (\<forall>t n. 0 < n \<longrightarrow> 0 < rte_eth_tx_burst D t n)"

text \<open>
  \<open>ring_init_spec D q cap\<close>: a ring initialised for a power of two \<open>n\<close> is empty and holds up to
  \<open>n - 1\<close> entries.
\<close>

definition ring_init_spec :: "'r dpdk \<Rightarrow> ('r \<Rightarrow> nat list) \<Rightarrow> ('r \<Rightarrow> nat) \<Rightarrow> bool" where
  "ring_init_spec D q cap \<longleftrightarrow>
     (\<forall>k. \<exists>r. rte_ring_init D (2 ^ k) = (Ok, r) \<and> q r = [] \<and> cap r = 2 ^ k - 1)"

text \<open>\<open>mbuf_spec D\<close>: a freshly allocated mbuf holds no data.\<close>

definition mbuf_spec :: "'r dpdk \<Rightarrow> bool" where
  "mbuf_spec D \<longleftrightarrow> (\<forall>p t m. rte_pktmbuf_alloc D p t = Some m \<longrightarrow> mb_data m = [])"

section \<open>A concrete environment\<close>

text \<open>
  Used by the witnesses: rings are bounded lists, allocation always succeeds, the clock counts
  calls, the network card takes one packet at a time, checksums are sums of bytes.
\<close>

definition example_env :: "(nat list \<times> nat) dpdk" where
  "example_env = \<lparr>
     rte_malloc = \<lambda>t. True,
     rte_errno = \<lambda>t. ENOMEM,
     rte_ring_init = \<lambda>n. (Ok, ([], n - 1)),
     rte_ring_enqueue = \<lambda>(xs, c) x. if length xs < c then Some (xs @ [x], c) else None,
     rte_ring_dequeue = \<lambda>(xs, c). case xs of [] \<Rightarrow> None | x # xs \<Rightarrow> Some (x, (xs, c)),
     rte_ring_dequeue_burst = \<lambda>(xs, c) n. (take n xs, (drop n xs, c)),
     rte_ring_enqueue_burst = \<lambda>(xs, c) ys. (min (length ys) (c - length xs), (xs @ take (c - length xs) ys, c)),
     rte_ring_empty = \<lambda>(xs, c). xs = [],
     rte_pktmbuf_alloc = \<lambda>p t. Some \<lparr>mb_addr = 0x7f0000001000 + of_nat t * 64, mb_data = [], next_retransmit = 0,
        pd_wqe = None, pd_readresp = None, transmit_count = 0, ddp_length = 0, ddp_raw_cksum = 0, pd_psn = 0\<rparr>,
     rte_pktmbuf_clone = \<lambda>t. True,
     pktmbuf_tailroom = \<lambda>p. 2048,
     pktmbuf_headroom = \<lambda>p. 128,
     stale_byte = \<lambda>m k. 0,
     rte_get_timer_cycles = of_nat,
     rte_get_timer_hz = 1000,
     rte_eth_tx_burst = \<lambda>t n. min 1 n,
     rte_eth_rx_burst = \<lambda>t n. [],
     rx_mbuf_at = \<lambda>i. \<lparr>rx_cksum_bad = False, rx_len = 60, rx_data = \<lambda>_. 0\<rparr>,
     rte_eth_macaddr_get = \<lambda>p. [2, 0, 0, 0, 0, 1],
     rte_raw_cksum = \<lambda>bs. of_nat (sum_list (map unat bs)),
     rte_ipv4_cksum = \<lambda>bs. NOT (of_nat (sum_list (map unat bs))),
     rte_ipv4_phdr_cksum = \<lambda>bs fl. of_nat (sum_list (map unat bs)),
     calloc = \<lambda>t. True\<rparr>"

lemma example_env_ring_spec: "ring_spec example_env fst snd"
  by (auto simp: ring_spec_def example_env_def split: list.splits)

lemma example_env_ring_init_spec: "ring_init_spec example_env fst snd"
  by (auto simp: ring_init_spec_def example_env_def)

lemma example_env_tx: "tx_burst_spec example_env" "tx_burst_progress example_env"
  by (auto simp: tx_burst_spec_def tx_burst_progress_def example_env_def)

lemma example_env_mbuf: "mbuf_spec example_env"
  by (auto simp: mbuf_spec_def example_env_def)

end
