(* ===== verification/Proto.thy ===== *)
theory Proto
  imports Bytes
begin

text \<open>
  The wire formats of \<^verbatim>\<open>include/proto.h\<close> and \<^verbatim>\<open>include/proto_trp.h\<close>: the packed RDMAP/DDP
  headers as records that extend each other the way the C structs nest, their byte images,
  the readers of their fields in a received packet, and the flag macros.
\<close>

section \<open>Constants\<close>

definition DDP_V1_UNTAGGED_DF :: u8 where "DDP_V1_UNTAGGED_DF = 0x01"
definition DDP_V1_TAGGED_DF :: u8 where "DDP_V1_TAGGED_DF = 0x81"
definition DDP_V1_UNTAGGED_LAST_DF :: u8 where "DDP_V1_UNTAGGED_LAST_DF = 0x41"
definition DDP_V1_TAGGED_LAST_DF :: u8 where "DDP_V1_TAGGED_LAST_DF = 0xc1"

definition DDP_GET_T :: "u8 \<Rightarrow> u8" where "DDP_GET_T flags = drop_bit 7 flags AND 1"
definition DDP_GET_L :: "u8 \<Rightarrow> u8" where "DDP_GET_L flags = drop_bit 6 flags AND 1"
definition DDP_GET_DV :: "u8 \<Rightarrow> u8" where "DDP_GET_DV flags = flags AND 3"

definition RDMAP_V1 :: u8 where "RDMAP_V1 = 0x40"
definition RDMAP_GET_RV :: "u8 \<Rightarrow> u8" where "RDMAP_GET_RV flags = drop_bit 6 flags AND 3"
definition RDMAP_GET_OPCODE :: "u8 \<Rightarrow> u8" where "RDMAP_GET_OPCODE flags = flags AND 0xf"

definition rdmap_opcode_rdma_write :: u8 where "rdmap_opcode_rdma_write = 0"
definition rdmap_opcode_rdma_read_request :: u8 where "rdmap_opcode_rdma_read_request = 1"
definition rdmap_opcode_rdma_read_response :: u8 where "rdmap_opcode_rdma_read_response = 2"
definition rdmap_opcode_send :: u8 where "rdmap_opcode_send = 3"
definition rdmap_opcode_send_inv :: u8 where "rdmap_opcode_send_inv = 4"
definition rdmap_opcode_send_se :: u8 where "rdmap_opcode_send_se = 5"
definition rdmap_opcode_send_se_inv :: u8 where "rdmap_opcode_send_se_inv = 6"
definition rdmap_opcode_terminate :: u8 where "rdmap_opcode_terminate = 7"

lemmas rdmap_opcodes =
  rdmap_opcode_rdma_write_def rdmap_opcode_rdma_read_request_def rdmap_opcode_rdma_read_response_def
  rdmap_opcode_send_def rdmap_opcode_send_inv_def rdmap_opcode_send_se_def
  rdmap_opcode_send_se_inv_def rdmap_opcode_terminate_def

lemmas ddp_macros =
  DDP_V1_UNTAGGED_DF_def DDP_V1_TAGGED_DF_def DDP_V1_UNTAGGED_LAST_DF_def DDP_V1_TAGGED_LAST_DF_def
  DDP_GET_T_def DDP_GET_L_def DDP_GET_DV_def RDMAP_V1_def RDMAP_GET_RV_def RDMAP_GET_OPCODE_def

definition rdmap_hdrct_m :: u8 where "rdmap_hdrct_m = 1"
definition rdmap_hdrct_d :: u8 where "rdmap_hdrct_d = 2"
definition rdmap_hdrct_r :: u8 where "rdmap_hdrct_r = 4"

lemmas rdmap_hdrcts = rdmap_hdrct_m_def rdmap_hdrct_d_def rdmap_hdrct_r_def

text \<open>The error codes of a Terminate message.\<close>

datatype rdmap_errno =
    rdmap_error_local_catastrophic
  | rdmap_error_stag_invalid
  | rdmap_error_base_or_bounds_violation
  | rdmap_error_access_violation
  | rdmap_error_stag_wrong_stream
  | rdmap_error_to_wrap
  | rdmap_error_protection_stag_not_invalidated
  | rdmap_error_remote_protection_unspecified
  | rdmap_error_version_invalid
  | rdmap_error_opcode_unexpected
  | rdmap_error_remote_stream_catastrophic
  | rdmap_error_remote_global_catastrophic
  | rdmap_error_operation_stag_not_invalidated
  | rdmap_error_remote_operation_unspecified
  | ddp_error_local_catastrophic
  | ddp_error_tagged_stag_invalid
  | ddp_error_tagged_base_or_bounds_violation
  | ddp_error_tagged_stag_wrong_stream
  | ddp_error_tagged_to_wrap
  | ddp_error_tagged_version_invalid
  | ddp_error_untagged_invalid_qn
  | ddp_error_untagged_no_buffer
  | ddp_error_untagged_invalid_msn
  | ddp_error_untagged_invalid_mo
  | ddp_error_untagged_message_too_long
  | ddp_error_untagged_version_invalid

fun rdmap_errno_code :: "rdmap_errno \<Rightarrow> u16" where
  "rdmap_errno_code rdmap_error_local_catastrophic = 0x0000"
| "rdmap_errno_code rdmap_error_stag_invalid = 0x0100"
| "rdmap_errno_code rdmap_error_base_or_bounds_violation = 0x0101"
| "rdmap_errno_code rdmap_error_access_violation = 0x0102"
| "rdmap_errno_code rdmap_error_stag_wrong_stream = 0x0103"
| "rdmap_errno_code rdmap_error_to_wrap = 0x0104"
| "rdmap_errno_code rdmap_error_protection_stag_not_invalidated = 0x0109"
| "rdmap_errno_code rdmap_error_remote_protection_unspecified = 0x01ff"
| "rdmap_errno_code rdmap_error_version_invalid = 0x0205"
| "rdmap_errno_code rdmap_error_opcode_unexpected = 0x0206"
| "rdmap_errno_code rdmap_error_remote_stream_catastrophic = 0x0207"
| "rdmap_errno_code rdmap_error_remote_global_catastrophic = 0x0208"
| "rdmap_errno_code rdmap_error_operation_stag_not_invalidated = 0x0209"
| "rdmap_errno_code rdmap_error_remote_operation_unspecified = 0x02ff"
| "rdmap_errno_code ddp_error_local_catastrophic = 0x1000"
| "rdmap_errno_code ddp_error_tagged_stag_invalid = 0x1100"
| "rdmap_errno_code ddp_error_tagged_base_or_bounds_violation = 0x1101"
| "rdmap_errno_code ddp_error_tagged_stag_wrong_stream = 0x1102"
| "rdmap_errno_code ddp_error_tagged_to_wrap = 0x1103"
| "rdmap_errno_code ddp_error_tagged_version_invalid = 0x1104"
| "rdmap_errno_code ddp_error_untagged_invalid_qn = 0x1201"
| "rdmap_errno_code ddp_error_untagged_no_buffer = 0x1202"
| "rdmap_errno_code ddp_error_untagged_invalid_msn = 0x1203"
| "rdmap_errno_code ddp_error_untagged_invalid_mo = 0x1204"
| "rdmap_errno_code ddp_error_untagged_message_too_long = 0x1205"
| "rdmap_errno_code ddp_error_untagged_version_invalid = 0x1206"

section \<open>Headers\<close>

record rdmap_packet =
  ddp_flags :: u8
  rdmap_info :: u8
  sink_stag :: u32

record rdmap_tagged_packet = rdmap_packet +
  tg_offset :: u64

record rdmap_untagged_packet = rdmap_packet +
  ut_qn :: u32
  ut_msn :: u32
  ut_mo :: u32

record rdmap_readreq_packet = rdmap_untagged_packet +
  rr_sink_offset :: u64
  rr_read_msg_size :: u32
  rr_source_stag :: u32
  rr_source_offset :: u64

record rdmap_terminate_packet = rdmap_untagged_packet +
  tm_error_code :: u16
  tm_hdrct :: u8
  tm_reserved :: u8

record trp_hdr =
  trp_psn :: u32
  trp_ack_psn :: u32
  trp_opcode :: u16

definition trp_accept :: u16 where "trp_accept = 0x2000"
definition trp_fin :: u16 where "trp_fin = 0x4000"
definition trp_sack :: u16 where "trp_sack = 0x5000"
definition trp_opcode_mask :: u16 where "trp_opcode_mask = 0xf000"

section \<open>Byte images\<close>

definition rdmap_packet_bytes :: "'a rdmap_packet_scheme \<Rightarrow> u8 list" where
  "rdmap_packet_bytes p = [ddp_flags p, rdmap_info p] @ put_be 4 (sink_stag p)"

definition rdmap_tagged_bytes :: "rdmap_tagged_packet \<Rightarrow> u8 list" where
  "rdmap_tagged_bytes p = rdmap_packet_bytes p @ put_be 8 (tg_offset p)"

definition rdmap_untagged_bytes :: "'a rdmap_untagged_packet_scheme \<Rightarrow> u8 list" where
  "rdmap_untagged_bytes p =
     rdmap_packet_bytes p @ put_be 4 (ut_qn p) @ put_be 4 (ut_msn p) @ put_be 4 (ut_mo p)"

definition rdmap_readreq_bytes :: "rdmap_readreq_packet \<Rightarrow> u8 list" where
  "rdmap_readreq_bytes p =
     rdmap_untagged_bytes p @ put_be 8 (rr_sink_offset p) @ put_be 4 (rr_read_msg_size p)
     @ put_be 4 (rr_source_stag p) @ put_be 8 (rr_source_offset p)"

definition rdmap_terminate_bytes :: "rdmap_terminate_packet \<Rightarrow> u8 list" where
  "rdmap_terminate_bytes p =
     rdmap_untagged_bytes p @ put_be 2 (tm_error_code p) @ [tm_hdrct p, tm_reserved p]"

definition trp_hdr_bytes :: "trp_hdr \<Rightarrow> u8 list" where
  "trp_hdr_bytes t = put_be 4 (trp_psn t) @ put_be 4 (trp_ack_psn t) @ put_be 2 (trp_opcode t)"

lemma header_sizes [simp]:
  "length (rdmap_packet_bytes p) = 6" "length (rdmap_tagged_bytes t) = 14"
  "length (rdmap_untagged_bytes u) = 18" "length (rdmap_readreq_bytes r) = 42"
  "length (rdmap_terminate_bytes e) = 22" "length (trp_hdr_bytes h) = 10"
  by (simp_all add: rdmap_packet_bytes_def rdmap_tagged_bytes_def rdmap_untagged_bytes_def
      rdmap_readreq_bytes_def rdmap_terminate_bytes_def trp_hdr_bytes_def)

section \<open>Reading a header from a received packet\<close>

definition get_rdmap_packet :: "(nat \<Rightarrow> u8) \<Rightarrow> nat \<Rightarrow> rdmap_packet" where
  "get_rdmap_packet b i = \<lparr>ddp_flags = b i, rdmap_info = b (1 + i), sink_stag = get_be 4 b (2 + i)\<rparr>"

definition get_rdmap_tagged :: "(nat \<Rightarrow> u8) \<Rightarrow> nat \<Rightarrow> rdmap_tagged_packet" where
  "get_rdmap_tagged b i =
     rdmap_packet.extend (get_rdmap_packet b i) (rdmap_tagged_packet.fields (get_be 8 b (6 + i)))"

definition get_rdmap_untagged :: "(nat \<Rightarrow> u8) \<Rightarrow> nat \<Rightarrow> rdmap_untagged_packet" where
  "get_rdmap_untagged b i =
     rdmap_packet.extend (get_rdmap_packet b i)
       (rdmap_untagged_packet.fields (get_be 4 b (6 + i)) (get_be 4 b (10 + i)) (get_be 4 b (14 + i)))"

definition get_rdmap_readreq :: "(nat \<Rightarrow> u8) \<Rightarrow> nat \<Rightarrow> rdmap_readreq_packet" where
  "get_rdmap_readreq b i =
     rdmap_untagged_packet.extend (get_rdmap_untagged b i)
       (rdmap_readreq_packet.fields (get_be 8 b (18 + i)) (get_be 4 b (26 + i))
         (get_be 4 b (30 + i)) (get_be 8 b (34 + i)))"

definition get_rdmap_terminate :: "(nat \<Rightarrow> u8) \<Rightarrow> nat \<Rightarrow> rdmap_terminate_packet" where
  "get_rdmap_terminate b i =
     rdmap_untagged_packet.extend (get_rdmap_untagged b i)
       (rdmap_terminate_packet.fields (get_be 2 b (18 + i)) (b (20 + i)) (b (21 + i)))"

definition get_trp_hdr :: "(nat \<Rightarrow> u8) \<Rightarrow> nat \<Rightarrow> trp_hdr" where
  "get_trp_hdr b i = \<lparr>trp_psn = get_be 4 b i, trp_ack_psn = get_be 4 b (i + 4), trp_opcode = get_be 2 b (i + 8)\<rparr>"

lemmas header_defs =
  rdmap_packet_bytes_def rdmap_tagged_bytes_def rdmap_untagged_bytes_def
  rdmap_readreq_bytes_def rdmap_terminate_bytes_def trp_hdr_bytes_def
  get_rdmap_packet_def get_rdmap_tagged_def get_rdmap_untagged_def get_rdmap_readreq_def
  get_rdmap_terminate_def get_trp_hdr_def
  rdmap_packet.defs rdmap_tagged_packet.defs rdmap_untagged_packet.defs rdmap_readreq_packet.defs
  rdmap_terminate_packet.defs

lemma get_rdmap_tagged_bytes: "holds_at b i (rdmap_tagged_bytes p) \<Longrightarrow> get_rdmap_tagged b i = p"
  by (cases p) (auto simp: header_defs be_fields add.assoc)

lemma get_rdmap_untagged_bytes: "holds_at b i (rdmap_untagged_bytes p) \<Longrightarrow> get_rdmap_untagged b i = rdmap_untagged_packet.truncate p"
  by (cases p) (auto simp: header_defs be_fields add.assoc)

lemma get_rdmap_readreq_bytes: "holds_at b i (rdmap_readreq_bytes p) \<Longrightarrow> get_rdmap_readreq b i = p"
  by (cases p) (auto simp: header_defs be_fields add.assoc)

lemma get_rdmap_terminate_bytes: "holds_at b i (rdmap_terminate_bytes p) \<Longrightarrow> get_rdmap_terminate b i = p"
  by (cases p) (auto simp: header_defs be_fields add.assoc)

lemma get_trp_hdr_bytes: "holds_at b i (trp_hdr_bytes p) \<Longrightarrow> get_trp_hdr b i = p"
  by (cases p) (auto simp: header_defs be_fields add.assoc)

interpretation trp_codec: field_codec 10 trp_hdr_bytes get_trp_hdr
  by unfold_locales (simp_all add: get_trp_hdr_bytes)

interpretation tagged_codec: field_codec 14 rdmap_tagged_bytes get_rdmap_tagged
  by unfold_locales (simp_all add: get_rdmap_tagged_bytes)

interpretation readreq_codec: field_codec 42 rdmap_readreq_bytes get_rdmap_readreq
  by unfold_locales (simp_all add: get_rdmap_readreq_bytes)

interpretation terminate_codec: field_codec 22 rdmap_terminate_bytes get_rdmap_terminate
  by unfold_locales (simp_all add: get_rdmap_terminate_bytes)

section \<open>Properties\<close>

text \<open>
  Headers survive the wire. A receive buffer that holds the bytes of a header at an offset
  is read back as that header, for the tagged, untagged, read request, terminate and TRP
  headers, and the headers have the sizes the static assertions of the code demand.
\<close>

theorem header_round_trip:
  "(holds_at b i (rdmap_tagged_bytes tg) \<longrightarrow> get_rdmap_tagged b i = tg) \<and>
   (holds_at b i (rdmap_untagged_bytes ut) \<longrightarrow> get_rdmap_untagged b i = ut) \<and>
   (holds_at b i (rdmap_readreq_bytes rr) \<longrightarrow> get_rdmap_readreq b i = rr) \<and>
   (holds_at b i (rdmap_terminate_bytes tm) \<longrightarrow> get_rdmap_terminate b i = tm) \<and>
   (holds_at b i (trp_hdr_bytes th) \<longrightarrow> get_trp_hdr b i = th) \<and>
   length (rdmap_tagged_bytes tg) = 14 \<and> length (rdmap_untagged_bytes ut) = 18 \<and>
   length (rdmap_readreq_bytes rr) = 42 \<and> length (rdmap_terminate_bytes tm) = 22 \<and> length (trp_hdr_bytes th) = 10"
  using tagged_codec.dec_enc readreq_codec.dec_enc terminate_codec.dec_enc trp_codec.dec_enc
    get_rdmap_untagged_bytes [of b i ut]
  by (auto simp: rdmap_untagged_packet.defs)

definition example_readreq :: rdmap_readreq_packet where
  "example_readreq = \<lparr>ddp_flags = DDP_V1_UNTAGGED_LAST_DF, rdmap_info = RDMAP_V1 OR rdmap_opcode_rdma_read_request,
     sink_stag = 0x01020304, ut_qn = 1, ut_msn = 7, ut_mo = 0, rr_sink_offset = 0x1122334455667788,
     rr_read_msg_size = 4096, rr_source_stag = 5, rr_source_offset = 0x8000\<rparr>"

theorem header_round_trip_example:
  "get_rdmap_readreq (\<lambda>k. rdmap_readreq_bytes example_readreq ! k) 0 = example_readreq \<and>
   take 6 (rdmap_readreq_bytes example_readreq) = [0x41, 0x41, 1, 2, 3, 4]"
proof (rule conjI)
  have "holds_at (\<lambda>k. rdmap_readreq_bytes example_readreq ! k) 0 (rdmap_readreq_bytes example_readreq)"
    by (simp add: holds_at_def)
  then show "get_rdmap_readreq (\<lambda>k. rdmap_readreq_bytes example_readreq ! k) 0 = example_readreq"
    using header_round_trip [of "\<lambda>k. rdmap_readreq_bytes example_readreq ! k" 0] by blast
qed code_simp

end
