(* ===== verification/Iov.thy ===== *)
theory Iov
  imports Bytes
begin

text \<open>
  Scatter/gather lists: application memory, \<^verbatim>\<open>struct iovec\<close>, and the two copy loops
  \<^verbatim>\<open>memcpy_from_iov\<close> and \<^verbatim>\<open>memcpy_to_iov\<close> of \<^verbatim>\<open>liburdma/interface.c\<close>, with every \<^verbatim>\<open>size_t\<close> a
  64-bit word. The loops are compared with the obvious reference: the concatenation of the
  segments, of which a slice is read or overwritten.
\<close>

section \<open>Memory\<close>

definition mem_read :: "memory \<Rightarrow> u64 \<Rightarrow> nat \<Rightarrow> u8 list" where
  "mem_read m a n = map (\<lambda>k. m (a + of_nat k)) [0..<n]"

definition mem_write :: "memory \<Rightarrow> u64 \<Rightarrow> u8 list \<Rightarrow> memory" where
  "mem_write m a bs = (\<lambda>x. if unat (x - a) < length bs then bs ! unat (x - a) else m x)"

text \<open>\<^verbatim>\<open>memcpy\<close> into a local buffer at a position.\<close>

definition overlay :: "'a list \<Rightarrow> nat \<Rightarrow> 'a list \<Rightarrow> 'a list" where
  "overlay xs i ys = take i xs @ ys @ drop (i + length ys) xs"

lemma length_mem_read [simp]: "length (mem_read m a n) = n"
  by (simp add: mem_read_def)

lemma length_overlay [simp]: "i + length ys \<le> length xs \<Longrightarrow> length (overlay xs i ys) = length xs"
  by (simp add: overlay_def)

lemma nth_mem_read [simp]: "k < n \<Longrightarrow> mem_read m a n ! k = m (a + of_nat k)"
  by (simp add: mem_read_def)

lemma mem_read_add: "mem_read m a (i + j) = mem_read m a i @ mem_read m (a + of_nat i) j"
proof (rule nth_equalityI)
  fix k assume "k < length (mem_read m a (i + j))"
  then have k: "k < i + j" by simp
  show "mem_read m a (i + j) ! k = (mem_read m a i @ mem_read m (a + of_nat i) j) ! k"
  proof (cases "k < i")
    case False
    then have "(of_nat k :: u64) = of_nat i + of_nat (k - i)"
      by (metis le_add_diff_inverse not_less of_nat_add)
    then show ?thesis using k False by (simp add: nth_append add.assoc)
  qed (use k in \<open>simp add: nth_append\<close>)
qed simp

lemma take_mem_read [simp]: "take k (mem_read m a n) = mem_read m a (min k n)"
  by (rule nth_equalityI) auto

lemma drop_mem_read: "k \<le> n \<Longrightarrow> drop k (mem_read m a n) = mem_read m (a + of_nat k) (n - k)"
  using mem_read_add [of m a k "n - k"] by simp

section \<open>Segments\<close>

record iovec =
  iov_base :: u64
  iov_len :: u64

definition iov_data :: "memory \<Rightarrow> iovec \<Rightarrow> u8 list" where
  "iov_data m v = mem_read m (iov_base v) (unat (iov_len v))"

definition gather :: "memory \<Rightarrow> iovec list \<Rightarrow> u8 list" where
  "gather m vs = concat (map (iov_data m) vs)"

definition iov_total :: "iovec list \<Rightarrow> nat" where
  "iov_total vs = sum_list (map (unat \<circ> iov_len) vs)"

lemma length_iov_data [simp]: "length (iov_data m v) = unat (iov_len v)"
  by (simp add: iov_data_def)

lemma gather_simps [simp]: "gather m [] = []" "gather m (v # vs) = iov_data m v @ gather m vs"
  by (simp_all add: gather_def)

lemma iov_total_simps [simp]: "iov_total [] = 0" "iov_total (v # vs) = unat (iov_len v) + iov_total vs"
  by (simp_all add: iov_total_def)

lemma length_gather [simp]: "length (gather m vs) = iov_total vs"
  by (induction vs) auto

text \<open>
  The iovec array at the end of a work request is a byte area that also holds inline data:
  the memory image of an array of iovecs, and the array read back from such an image.
\<close>

definition iov_image :: "iovec list \<Rightarrow> u8 list" where
  "iov_image vs = concat (map (\<lambda>v. put_le 8 (iov_base v) @ put_le 8 (iov_len v)) vs)"

definition iov_at :: "u8 list \<Rightarrow> nat \<Rightarrow> iovec" where
  "iov_at area i = \<lparr>iov_base = join_le (take 8 (drop (16 * i) area)),
                    iov_len = join_le (take 8 (drop (16 * i + 8) area))\<rparr>"

definition iovs_of :: "u8 list \<Rightarrow> nat \<Rightarrow> iovec list" where
  "iovs_of area n = map (iov_at area) [0..<n]"

lemma length_iov_image [simp]: "length (iov_image vs) = 16 * length vs"
  by (induction vs) (auto simp: iov_image_def)

lemma iov_at_Suc: "iov_at area (Suc i) = iov_at (drop 16 area) i"
  by (simp add: iov_at_def add.commute [of _ 16])

lemma iovs_of_image [simp]: "iovs_of (iov_image vs @ rest) (length vs) = vs"
proof (induction vs)
  case Nil
  show ?case by (simp add: iovs_of_def)
next
  case (Cons v vs)
  have "drop 16 (iov_image (v # vs) @ rest) = iov_image vs @ rest"
    by (simp add: iov_image_def)
  then have "iov_at (iov_image (v # vs) @ rest) (Suc i) = iov_at (iov_image vs @ rest) i" for i
    by (simp only: iov_at_Suc)
  then have "map (iov_at (iov_image (v # vs) @ rest)) (map Suc [0..<length vs]) = vs"
    using Cons.IH by (simp add: iovs_of_def comp_def)
  moreover have "iov_at (iov_image (v # vs) @ rest) 0 = v"
    by (simp add: iov_at_def iov_image_def join_put_le)
  ultimately show ?case
    by (simp add: iovs_of_def upt_conv_Cons map_Suc_upt del: upt_Suc)
qed

section \<open>The copy loops\<close>

text \<open>
  The loop of \<^verbatim>\<open>memcpy_from_iov\<close>: \<open>prev\<close> is the sum of the lengths of the segments passed,
  \<open>pos\<close> the bytes copied so far, \<open>ofs\<close> the position in the message of the next byte to copy.
\<close>

fun memcpy_from_iov_loop ::
  "memory \<Rightarrow> iovec list \<Rightarrow> u64 \<Rightarrow> u64 \<Rightarrow> u64 \<Rightarrow> u64 \<Rightarrow> u8 list \<Rightarrow> u8 list" where
  "memcpy_from_iov_loop m [] dest_size prev pos ofs dest = dest"
| "memcpy_from_iov_loop m (v # src) dest_size prev pos ofs dest =
     (if pos < dest_size then
        if prev \<le> ofs \<and> ofs < prev + iov_len v then
          let cur = min (prev + iov_len v - ofs) (dest_size - pos);
              dest = overlay dest (unat pos) (mem_read m (iov_base v + ofs - prev) (unat cur))
          in memcpy_from_iov_loop m src dest_size (prev + iov_len v) (pos + cur) (ofs + cur) dest
        else memcpy_from_iov_loop m src dest_size (prev + iov_len v) pos ofs dest
      else dest)"

definition memcpy_from_iov :: "memory \<Rightarrow> u8 list \<Rightarrow> u64 \<Rightarrow> iovec list \<Rightarrow> u64 \<Rightarrow> u8 list" where
  "memcpy_from_iov m dest dest_size src ofs = memcpy_from_iov_loop m src dest_size 0 0 ofs dest"

fun memcpy_to_iov_loop ::
  "iovec list \<Rightarrow> u8 list \<Rightarrow> u64 \<Rightarrow> u64 \<Rightarrow> u64 \<Rightarrow> u64 \<Rightarrow> memory \<Rightarrow> memory" where
  "memcpy_to_iov_loop [] src src_size prev pos ofs m = m"
| "memcpy_to_iov_loop (v # dest) src src_size prev pos ofs m =
     (if pos < src_size then
        if prev \<le> ofs \<and> ofs < prev + iov_len v then
          let cur = min (prev + iov_len v - ofs) (src_size - pos);
              m = mem_write m (iov_base v + ofs - prev) (take (unat cur) (drop (unat pos) src))
          in memcpy_to_iov_loop dest src src_size (prev + iov_len v) (pos + cur) (ofs + cur) m
        else memcpy_to_iov_loop dest src src_size (prev + iov_len v) pos ofs m
      else m)"

definition memcpy_to_iov :: "memory \<Rightarrow> iovec list \<Rightarrow> u8 list \<Rightarrow> u64 \<Rightarrow> u64 \<Rightarrow> memory" where
  "memcpy_to_iov m dest src src_size ofs = memcpy_to_iov_loop dest src src_size 0 0 ofs m"

section \<open>Gathering is a slice of the concatenation\<close>

lemma slice_iov_data:
  assumes "prev \<le> ofs"
  shows "unat ofs - unat prev \<le> unat (iov_len v) \<Longrightarrow>
    drop (unat ofs - unat prev) (iov_data m v) =
      mem_read m (iov_base v + ofs - prev) (unat (iov_len v) - (unat ofs - unat prev))"
proof -
  have "of_nat (unat ofs - unat prev) = ofs - prev"
    using assms by (simp flip: unat_sub)
  then show "unat ofs - unat prev \<le> unat (iov_len v) \<Longrightarrow> ?thesis"
    by (simp add: iov_data_def drop_mem_read add_diff_eq)
qed

lemma take_drop_segment:
  assumes le: "prev \<le> ofs" and inside: "unat ofs < unat prev + unat (iov_len v)"
    and cur: "cur = min (unat prev + unat (iov_len v) - unat ofs) (sz - pos)"
  shows "take (sz - pos) (drop (unat ofs - unat prev) (gather m (v # src))) =
    mem_read m (iov_base v + ofs - prev) cur
    @ take (sz - (pos + cur)) (drop (unat ofs + cur - (unat prev + unat (iov_len v))) (gather m src))"
proof -
  have le': "unat prev \<le> unat ofs" using le by (simp add: word_le_nat_alt)
  have "drop (unat ofs - unat prev) (gather m (v # src)) =
      mem_read m (iov_base v + ofs - prev) (unat prev + unat (iov_len v) - unat ofs) @ gather m src"
    using slice_iov_data [OF le, of v m] le' inside by (simp add: add.commute)
  moreover have "unat ofs + (unat prev + unat (iov_len v) - unat ofs) - (unat prev + unat (iov_len v)) = 0"
    using inside by simp
  ultimately show ?thesis
    using cur by (cases "unat prev + unat (iov_len v) - unat ofs \<le> sz - pos")
      (simp_all only: min_def if_True if_False, simp_all)
qed

lemma memcpy_from_iov_loop_slice:
  assumes "unat prev + iov_total src < 2 ^ 64"
    and "pos < dest_size \<Longrightarrow> prev \<le> ofs"
    and "pos \<le> dest_size" "length dest = unat dest_size"
    and "unat ofs + (unat dest_size - unat pos) \<le> unat prev + iov_total src"
  shows "memcpy_from_iov_loop m src dest_size prev pos ofs dest =
     take (unat pos) dest @ take (unat dest_size - unat pos) (drop (unat ofs - unat prev) (gather m src))"
  using assms
proof (induction src arbitrary: prev pos ofs dest)
  case Nil
  then have "unat pos = unat dest_size" using Nil
    by (cases "pos < dest_size") (auto simp: word_less_nat_alt word_le_nat_alt)
  then show ?case using Nil by simp
next
  case (Cons v src)
  show ?case
  proof (cases "pos < dest_size")
    case False
    then show ?thesis using Cons.prems by (simp add: word_less_nat_alt word_le_nat_alt)
  next
    case True
    have sum: "unat (prev + iov_len v) = unat prev + unat (iov_len v)"
      using Cons.prems(1) by (intro unat_add_no_overflow) simp
    have le: "prev \<le> ofs" using Cons.prems(2) True .
    show ?thesis
    proof (cases "ofs < prev + iov_len v")
      case False
      then have "memcpy_from_iov_loop m src dest_size (prev + iov_len v) pos ofs dest =
        take (unat pos) dest @ take (unat dest_size - unat pos)
          (drop (unat ofs - unat (prev + iov_len v)) (gather m src))"
        using Cons.prems by (intro Cons.IH) (auto simp: sum)
      then show ?thesis using True False le sum
        by (simp add: word_less_nat_alt word_le_nat_alt)
    next
      case inside: True
      define cur where "cur = min (prev + iov_len v - ofs) (dest_size - pos)"
      have room: "unat (prev + iov_len v - ofs) = unat prev + unat (iov_len v) - unat ofs"
        using inside by (simp add: unat_sub sum)
      have need: "unat (dest_size - pos) = unat dest_size - unat pos"
        using True by (simp add: unat_sub)
      have cur: "unat cur = min (unat prev + unat (iov_len v) - unat ofs) (unat dest_size - unat pos)"
        by (simp add: cur_def unat_min room need)
      have pos': "unat (pos + cur) = unat pos + unat cur"
        by (rule unat_add_no_overflow) (use cur True unat_bound [of dest_size] in \<open>simp add: word_less_nat_alt\<close>)
      have ofs': "unat (ofs + cur) = unat ofs + unat cur"
        by (rule unat_add_no_overflow)
          (use cur inside sum Cons.prems(1) in \<open>simp add: word_less_nat_alt\<close>)
      let ?d = "overlay dest (unat pos) (mem_read m (iov_base v + ofs - prev) (unat cur))"
      have len: "length ?d = unat dest_size"
        using cur True Cons.prems(4) by (subst length_overlay) (auto simp: word_less_nat_alt)
      have rec: "memcpy_from_iov_loop m src dest_size (prev + iov_len v) (pos + cur) (ofs + cur) ?d =
         take (unat pos + unat cur) ?d @ take (unat dest_size - (unat pos + unat cur))
           (drop (unat ofs + unat cur - (unat prev + unat (iov_len v))) (gather m src))"
        unfolding pos' [symmetric] ofs' [symmetric] sum [symmetric]
        using Cons.prems cur inside True le len
        by (intro Cons.IH) (auto simp: pos' ofs' sum word_less_nat_alt word_le_nat_alt)
      have "take (unat pos + unat cur) ?d = take (unat pos) dest @ mem_read m (iov_base v + ofs - prev) (unat cur)"
        using Cons.prems(4) True by (simp add: overlay_def word_less_nat_alt)
      moreover have "take (unat dest_size - unat pos) (drop (unat ofs - unat prev) (gather m (v # src))) =
          mem_read m (iov_base v + ofs - prev) (unat cur)
          @ take (unat dest_size - (unat pos + unat cur))
              (drop (unat ofs + unat cur - (unat prev + unat (iov_len v))) (gather m src))"
        by (rule take_drop_segment [OF le])
          (use cur inside sum in \<open>simp_all add: word_less_nat_alt\<close>)
      ultimately show ?thesis using True inside le rec
        by (simp add: Let_def cur_def)
    qed
  qed
qed

section \<open>Scattering overwrites a slice and nothing else\<close>

definition iov_range :: "iovec \<Rightarrow> u64 set" where
  "iov_range v = {x. unat (x - iov_base v) < unat (iov_len v)}"

definition iovs_disjoint :: "iovec list \<Rightarrow> bool" where
  "iovs_disjoint = sorted_wrt (\<lambda>v w. iov_range v \<inter> iov_range w = {})"

lemma mem_read_cong:
  "(\<And>k. k < n \<Longrightarrow> m (a + of_nat k) = m' (a + of_nat k)) \<Longrightarrow> mem_read m a n = mem_read m' a n"
  by (rule nth_equalityI) auto

lemma unat_of_nat_64: "k < 2 ^ 64 \<Longrightarrow> unat (of_nat k :: u64) = k"
  by (simp add: unsigned_of_nat take_bit_nat_eq_self)

lemma in_iov_range: "k < unat (iov_len v) \<Longrightarrow> iov_base v + of_nat k \<in> iov_range v"
  using unat_bound [of "iov_len v"] by (simp add: iov_range_def unat_of_nat_64)

lemma iov_data_cong: "(\<And>x. x \<in> iov_range v \<Longrightarrow> m x = m' x) \<Longrightarrow> iov_data m v = iov_data m' v"
  unfolding iov_data_def by (intro mem_read_cong) (simp add: in_iov_range)

lemma gather_cong:
  "(\<And>v x. v \<in> set vs \<Longrightarrow> x \<in> iov_range v \<Longrightarrow> m x = m' x) \<Longrightarrow> gather m vs = gather m' vs"
  by (induction vs) (simp_all, metis iov_data_cong)

lemma mem_write_frame:
  assumes "i + length bs \<le> unat (iov_len v)" "x \<notin> iov_range v"
  shows "mem_write m (iov_base v + of_nat i) bs x = m x"
proof -
  have "\<not> unat (x - (iov_base v + of_nat i)) < length bs"
  proof
    assume h: "unat (x - (iov_base v + of_nat i)) < length bs"
    define k where "k = unat (x - (iov_base v + of_nat i))"
    have "x = iov_base v + of_nat (i + k)" by (simp add: k_def)
    then show False using in_iov_range [of "i + k" v] assms h by (simp add: k_def)
  qed
  then show ?thesis by (simp add: mem_write_def)
qed

lemma iov_data_mem_write:
  assumes "i + length bs \<le> unat (iov_len v)"
  shows "iov_data (mem_write m (iov_base v + of_nat i) bs) v = overlay (iov_data m v) i bs"
proof (rule nth_equalityI)
  show "length (iov_data (mem_write m (iov_base v + of_nat i) bs) v) = length (overlay (iov_data m v) i bs)"
    using assms by simp
next
  fix k assume "k < length (iov_data (mem_write m (iov_base v + of_nat i) bs) v)"
  then have k: "k < unat (iov_len v)" by simp
  have small: "unat (iov_len v) < 2 ^ 64" using unat_bound [of "iov_len v"] by simp
  show "iov_data (mem_write m (iov_base v + of_nat i) bs) v ! k = overlay (iov_data m v) i bs ! k"
  proof (cases "i \<le> k \<and> k < i + length bs")
    case True
    then have "iov_base v + of_nat k - (iov_base v + of_nat i) = (of_nat (k - i) :: u64)" by simp
    then have "unat (iov_base v + of_nat k - (iov_base v + of_nat i)) = k - i"
      using k small by (simp only: unat_of_nat_64)
    then show ?thesis using True k assms by (auto simp: iov_data_def mem_write_def overlay_def nth_append)
  next
    case False
    define j where "j = unat (iov_base v + of_nat k - (iov_base v + of_nat i))"
    have "(of_nat k :: u64) = of_nat (i + j)" by (simp add: j_def)
    then have "j < length bs \<Longrightarrow> k = i + j"
      using assms k small unat_of_nat_64 [of k] unat_of_nat_64 [of "i + j"] by simp
    then have "\<not> j < length bs" using False by auto
    then show ?thesis using False k assms
      by (auto simp: iov_data_def mem_write_def overlay_def nth_append j_def)
  qed
qed

lemma overlay_Nil [simp]: "overlay xs i [] = xs"
  by (simp add: overlay_def)

lemma overlay_append_right: "length xs \<le> i \<Longrightarrow> overlay (xs @ ys) i zs = xs @ overlay ys (i - length xs) zs"
  by (simp add: overlay_def)

lemma overlay_append_both:
  assumes "i \<le> length xs" "c = min (length xs - i) (length zs)"
  shows "overlay (xs @ ys) i zs = overlay xs i (take c zs) @ overlay ys (i + c - length xs) (drop c zs)"
proof (cases "length xs - i \<le> length zs")
  case True
  then have "c = length xs - i" using assms by simp
  then show ?thesis using assms True append_take_drop_id [of c zs]
    by (auto simp: overlay_def add.commute)
next
  case False
  then have "c = length zs" using assms by simp
  then show ?thesis using False by (simp add: overlay_def)
qed

lemma memcpy_to_iov_loop_frame:
  assumes "unat prev + iov_total dest < 2 ^ 64" "\<And>v. v \<in> set dest \<Longrightarrow> x \<notin> iov_range v"
  shows "memcpy_to_iov_loop dest src src_size prev pos ofs m x = m x"
  using assms
proof (induction dest arbitrary: prev pos ofs m)
  case (Cons v dest)
  have sum: "unat (prev + iov_len v) = unat prev + unat (iov_len v)"
    using Cons.prems(1) by (intro unat_add_no_overflow) simp
  define cur where "cur = min (prev + iov_len v - ofs) (src_size - pos)"
  show ?case
  proof (cases "pos < src_size \<and> prev \<le> ofs \<and> ofs < prev + iov_len v")
    case True
    then have le: "prev \<le> ofs" and lt: "ofs < prev + iov_len v" by simp_all
    have i: "(of_nat (unat ofs - unat prev) :: u64) = ofs - prev"
      using le by (simp flip: unat_sub)
    have "unat (prev + iov_len v - ofs) = unat prev + unat (iov_len v) - unat ofs"
      using lt by (simp add: unat_sub sum)
    then have "unat cur \<le> unat prev + unat (iov_len v) - unat ofs"
      by (simp add: cur_def unat_min)
    then have "(unat ofs - unat prev) + length (take (unat cur) (drop (unat pos) src)) \<le> unat (iov_len v)"
      using True sum by (auto simp: word_less_nat_alt word_le_nat_alt)
    from mem_write_frame [OF this, of x m]
    have "mem_write m (iov_base v + ofs - prev) (take (unat cur) (drop (unat pos) src)) x = m x"
      using Cons.prems(2) by (simp add: i add_diff_eq)
    then show ?thesis using True Cons.IH [of "prev + iov_len v" "pos + cur"] Cons.prems sum
      by (simp add: Let_def cur_def)
  next
    case False
    then show ?thesis using Cons.IH [of "prev + iov_len v" pos] Cons.prems sum by auto
  qed
qed simp

lemma memcpy_to_iov_loop_overlay:
  assumes "unat prev + iov_total dest < 2 ^ 64" "iovs_disjoint dest"
    and "pos < src_size \<Longrightarrow> prev \<le> ofs" "pos \<le> src_size" "unat src_size \<le> length src"
    and "unat ofs + (unat src_size - unat pos) \<le> unat prev + iov_total dest"
  shows "gather (memcpy_to_iov_loop dest src src_size prev pos ofs m) dest =
    overlay (gather m dest) (unat ofs - unat prev) (drop (unat pos) (take (unat src_size) src))"
  using assms
proof (induction dest arbitrary: prev pos ofs m)
  case Nil
  have "\<not> pos < src_size"
  proof
    assume "pos < src_size"
    then show False using Nil.prems(3) Nil.prems(6) by (simp add: word_less_nat_alt word_le_nat_alt)
  qed
  then show ?case by (simp add: overlay_def word_less_nat_alt)
next
  case (Cons v dest)
  have sum: "unat (prev + iov_len v) = unat prev + unat (iov_len v)"
    using Cons.prems(1) by (intro unat_add_no_overflow) simp
  have disj: "iovs_disjoint dest" and vdisj: "\<And>w x. w \<in> set dest \<Longrightarrow> x \<in> iov_range v \<Longrightarrow> x \<notin> iov_range w"
    using Cons.prems(2) by (auto simp: iovs_disjoint_def)
  have tail: "iov_data (memcpy_to_iov_loop dest src src_size (prev + iov_len v) p q m') v = iov_data m' v"
    for p q m'
    using Cons.prems(1) sum by (intro iov_data_cong memcpy_to_iov_loop_frame) (auto dest: vdisj)
  consider (finished) "pos = src_size" | (skip) "pos < src_size" "prev + iov_len v \<le> ofs"
    | (inside) "pos < src_size" "prev \<le> ofs" "ofs < prev + iov_len v"
    using Cons.prems(3,4) by fastforce
  then show ?case
  proof cases
    case finished
    then show ?thesis by simp
  next
    case skip
    have le: "unat prev + unat (iov_len v) \<le> unat ofs"
      using skip(2) sum by (simp add: word_le_nat_alt)
    have "gather (memcpy_to_iov_loop dest src src_size (prev + iov_len v) pos ofs m) dest =
      overlay (gather m dest) (unat ofs - unat (prev + iov_len v)) (drop (unat pos) (take (unat src_size) src))"
      using Cons.prems skip sum disj by (intro Cons.IH) auto
    moreover have "\<not> ofs < prev + iov_len v" using skip(2) by simp
    ultimately show ?thesis using skip le sum tail
      by (simp add: overlay_append_right)
  next
    case inside
    define i where "i = unat ofs - unat prev"
    define cur where "cur = min (prev + iov_len v - ofs) (src_size - pos)"
    define zs where "zs = drop (unat pos) (take (unat src_size) src)"
    define m1 where "m1 = mem_write m (iov_base v + ofs - prev) (take (unat cur) (drop (unat pos) src))"
    have le: "unat prev \<le> unat ofs" using inside(2) by (simp add: word_le_nat_alt)
    have ofs: "unat ofs = unat prev + i" using le by (simp add: i_def)
    have lt: "i < unat (iov_len v)"
      using inside(3) sum ofs by (simp add: word_less_nat_alt)
    have i: "iov_base v + ofs - prev = iov_base v + of_nat i"
      using inside(2) by (simp add: i_def add_diff_eq flip: unat_sub)
    have room: "unat (prev + iov_len v - ofs) = unat (iov_len v) - i"
      using inside(3) sum ofs by (simp add: unat_sub)
    have zlen: "length zs = unat src_size - unat pos" using Cons.prems(5) by (simp add: zs_def)
    have cur: "unat cur = min (unat (iov_len v) - i) (length zs)"
      using inside(1) room by (simp add: cur_def unat_min unat_sub zlen)
    have chunk: "take (unat cur) (drop (unat pos) src) = take (unat cur) zs"
      using cur zlen by (simp add: zs_def drop_take)
    have "iov_data m1 v = overlay (iov_data m v) i (take (unat cur) zs)"
      unfolding m1_def i chunk using cur lt by (intro iov_data_mem_write) auto
    moreover have "gather m1 dest = gather m dest"
      unfolding m1_def i chunk using cur lt
      by (intro gather_cong mem_write_frame) (auto dest: vdisj)
    moreover have "gather (memcpy_to_iov_loop dest src src_size (prev + iov_len v) (pos + cur) (ofs + cur) m1) dest =
        overlay (gather m1 dest) (i + unat cur - unat (iov_len v)) (drop (unat cur) zs)"
    proof -
      have pos': "unat (pos + cur) = unat pos + unat cur"
        by (rule unat_add_no_overflow)
          (use cur zlen inside(1) unat_bound [of src_size] in \<open>auto simp: word_less_nat_alt\<close>)
      have ofs': "unat (ofs + cur) = unat ofs + unat cur"
        by (rule unat_add_no_overflow) (use cur lt ofs Cons.prems(1) in auto)
      have "drop (unat (pos + cur)) (take (unat src_size) src) = drop (unat cur) zs"
        unfolding pos' zs_def drop_drop by (simp add: add.commute)
      moreover have "unat (ofs + cur) - unat (prev + iov_len v) = i + unat cur - unat (iov_len v)"
        by (simp add: ofs' sum ofs)
      moreover have "gather (memcpy_to_iov_loop dest src src_size (prev + iov_len v) (pos + cur) (ofs + cur) m1) dest =
        overlay (gather m1 dest) (unat (ofs + cur) - unat (prev + iov_len v))
          (drop (unat (pos + cur)) (take (unat src_size) src))"
      proof (rule Cons.IH)
        show "unat (prev + iov_len v) + iov_total dest < 2 ^ 64" using Cons.prems(1) sum by simp
        show "iovs_disjoint dest" by (fact disj)
        show "prev + iov_len v \<le> ofs + cur" if "pos + cur < src_size"
          using that cur zlen ofs lt by (auto simp: pos' ofs' sum word_less_nat_alt word_le_nat_alt min_def split: if_splits)
        show "pos + cur \<le> src_size"
          using cur zlen inside(1) by (simp add: pos' word_le_nat_alt word_less_nat_alt)
        show "unat src_size \<le> length src" by (fact Cons.prems(5))
        show "unat (ofs + cur) + (unat src_size - unat (pos + cur)) \<le> unat (prev + iov_len v) + iov_total dest"
          using Cons.prems(6) cur zlen lt ofs inside(1)
          by (auto simp: pos' ofs' sum min_def word_less_nat_alt split: if_splits)
      qed
      ultimately show ?thesis by simp
    qed
    moreover have "overlay (iov_data m v @ gather m dest) i zs =
        overlay (iov_data m v) i (take (unat cur) zs) @ overlay (gather m dest) (i + unat cur - unat (iov_len v)) (drop (unat cur) zs)"
      using overlay_append_both [of i "iov_data m v" "unat cur" zs "gather m dest"] lt cur by simp
    ultimately show ?thesis using inside tail
      by (simp add: Let_def cur_def m1_def zs_def i_def)
  qed
qed

lemma iov_range_no_wrap:
  assumes "x \<in> iov_range v" "unat (iov_base v) + unat (iov_len v) \<le> 2 ^ 64"
  shows "unat (iov_base v) \<le> unat x \<and> unat x < unat (iov_base v) + unat (iov_len v)"
proof -
  have "unat (x - iov_base v) < unat (iov_len v)" using assms by (simp add: iov_range_def)
  moreover have "unat (iov_base v + (x - iov_base v)) = unat (iov_base v) + unat (x - iov_base v)"
    by (rule unat_add_no_overflow) (use assms calculation in simp)
  ultimately show ?thesis by simp
qed

section \<open>Properties\<close>

text \<open>
  C24. \<^verbatim>\<open>memcpy_from_iov\<close> computes the slice of the message that starts at \<open>ofs\<close>: whenever the
  scatter/gather list holds the requested bytes, the destination is filled with exactly those
  bytes of the concatenated segments, across segment boundaries.
\<close>

theorem memcpy_from_iov_slice:
  assumes "iov_total src < 2 ^ 64" "length dest = unat dest_size"
    and "unat ofs + unat dest_size \<le> iov_total src"
  shows "memcpy_from_iov m dest dest_size src ofs =
    take (unat dest_size) (drop (unat ofs) (gather m src))"
  using memcpy_from_iov_loop_slice [of 0 src 0 dest_size ofs dest m] assms
  by (simp add: memcpy_from_iov_def)

definition two_segments :: "iovec list" where
  "two_segments = [\<lparr>iov_base = 100, iov_len = 3\<rparr>, \<lparr>iov_base = 200, iov_len = 4\<rparr>]"

theorem memcpy_from_iov_slice_witness:
  "memcpy_from_iov (\<lambda>a. ucast a) (replicate 4 0) 4 two_segments 2 =
     take 4 (drop 2 (gather (\<lambda>a. ucast a) two_segments)) \<and>
   memcpy_from_iov (\<lambda>a. ucast a) (replicate 4 0) 4 two_segments 2 = [102, 200, 201, 202]"
proof (rule conjI)
  show "memcpy_from_iov (\<lambda>a. ucast a) (replicate 4 0) 4 two_segments 2 =
     take 4 (drop 2 (gather (\<lambda>a. ucast a) two_segments))"
    using memcpy_from_iov_slice [of two_segments "replicate 4 0" 4 2 "\<lambda>a. ucast a"]
    by (simp add: two_segments_def)
qed code_simp

text \<open>
  C23. \<^verbatim>\<open>memcpy_to_iov\<close> overwrites exactly the slice of the message that starts at \<open>ofs\<close>:
  when the segments do not overlap and the source fits, the concatenated segments afterwards
  are the old ones with that slice replaced by the source, and no byte outside the segments
  changes.
\<close>

theorem memcpy_to_iov_overlay:
  assumes "iov_total dest < 2 ^ 64" "iovs_disjoint dest" "unat src_size \<le> length src"
    and "unat ofs + unat src_size \<le> iov_total dest"
  shows "gather (memcpy_to_iov m dest src src_size ofs) dest =
      overlay (gather m dest) (unat ofs) (take (unat src_size) src) \<and>
    ((\<forall>v. v \<in> set dest \<longrightarrow> x \<notin> iov_range v) \<longrightarrow> memcpy_to_iov m dest src src_size ofs x = m x)"
  using memcpy_to_iov_loop_overlay [of 0 dest 0 src_size ofs src m]
    memcpy_to_iov_loop_frame [of 0 dest x src src_size 0 ofs m] assms
  by (simp add: memcpy_to_iov_def)

lemma two_segments_disjoint: "iovs_disjoint two_segments"
  using iov_range_no_wrap [of _ "two_segments ! 0"] iov_range_no_wrap [of _ "two_segments ! 1"]
  by (fastforce simp: iovs_disjoint_def two_segments_def)

theorem memcpy_to_iov_overlay_witness:
  "gather (memcpy_to_iov (\<lambda>_. 0) two_segments [1, 2, 3, 4] 4 2) two_segments = [0, 0, 1, 2, 3, 4, 0] \<and>
   memcpy_to_iov (\<lambda>_. 0) two_segments [1, 2, 3, 4] 4 2 103 = 0"
proof -
  have "gather (memcpy_to_iov (\<lambda>_. 0) two_segments [1, 2, 3, 4] 4 2) two_segments =
      overlay (gather (\<lambda>_. 0) two_segments) 2 [1, 2, 3, 4] \<and>
    memcpy_to_iov (\<lambda>_. 0) two_segments [1, 2, 3, 4] 4 2 103 = 0"
    using memcpy_to_iov_overlay [of two_segments 4 "[1, 2, 3, 4]" 2 "\<lambda>_. 0" 103] two_segments_disjoint
    by (simp add: two_segments_def iov_range_def)
  moreover have "overlay (gather (\<lambda>_. 0) two_segments) 2 [1, 2, 3, 4] = [0, 0, 1, 2, 3, 4, 0]"
    by code_simp
  ultimately show ?thesis by simp
qed

end
