(* ===== verification/Mr_Table.thy ===== *)
theory Mr_Table
  imports Prelude
begin

text \<open>
  Memory regions: the hash table of a protection domain (\<^verbatim>\<open>struct usiw_mr_table\<close> of
  \<^verbatim>\<open>liburdma/interface.h\<close>), its lookup and removal (\<^verbatim>\<open>interface.c\<close>) and the verbs that fill and
  empty it (\<^verbatim>\<open>verbs.c\<close>). A bucket is the list of the regions chained from its head; a
  \<^verbatim>\<open>struct usiw_mr **\<close> is the position of a link: bucket number and index in the chain.
  The identity of a region, what a \<^verbatim>\<open>struct usiw_mr *\<close> compares, is the number \<open>mr_ptr\<close>.
\<close>

section \<open>Data\<close>

record usiw_mr =
  mr_ptr :: nat
  mr_addr :: u64
  mr_length :: u64
  mr_handle :: u32
  mr_lkey :: u32
  mr_rkey :: u32
  mr_access :: u32

record usiw_mr_table =
  mt_capacity :: nat
  mr_count :: nat
  mt_entries :: "usiw_mr list list"

definition MAX_MR_SIZE :: u64 where "MAX_MR_SIZE = push_bit 30 1"

type_synonym mr_link = "nat \<times> nat"

definition deref_link :: "usiw_mr_table \<Rightarrow> mr_link \<Rightarrow> usiw_mr" where
  "deref_link tbl l = mt_entries tbl ! fst l ! snd l"

section \<open>Operations\<close>

fun mr_chain_find :: "usiw_mr list \<Rightarrow> u32 \<Rightarrow> nat \<Rightarrow> nat option" where
  "mr_chain_find [] rkey i = None"
| "mr_chain_find (mr # chain) rkey i =
     (if mr_rkey mr = rkey then Some i else mr_chain_find chain rkey (Suc i))"

text \<open>The remainder by a zero capacity does not return.\<close>

definition usiw_mr_lookup :: "usiw_mr_table \<Rightarrow> u32 \<Rightarrow> mr_link option option" where
  "usiw_mr_lookup tbl rkey =
     (if mt_capacity tbl = 0 then None
      else let b = unat rkey mod mt_capacity tbl
           in Some (map_option (Pair b) (mr_chain_find (mt_entries tbl ! b) rkey 0)))"

definition usiw_dereg_mr_real :: "usiw_mr_table \<Rightarrow> mr_link \<Rightarrow> usiw_mr_table" where
  "usiw_dereg_mr_real tbl l =
     tbl\<lparr>mt_entries := (mt_entries tbl)
       [fst l := take (snd l) (mt_entries tbl ! fst l) @ drop (Suc (snd l)) (mt_entries tbl ! fst l)]\<rparr>"

text \<open>\<open>alloc\<close> is the result of \<^verbatim>\<open>malloc\<close>: \<open>None\<close> for a null pointer.\<close>

definition urdma_reg_mr_with_rkey ::
  "nat option \<Rightarrow> usiw_mr_table \<Rightarrow> u64 \<Rightarrow> u64 \<Rightarrow> u32 \<Rightarrow> u32 \<Rightarrow> (usiw_mr option \<times> usiw_mr_table) option" where
  "urdma_reg_mr_with_rkey alloc tbl addr len access rkey =
     (if mt_capacity tbl = 0 then None
      else let h = unat rkey mod mt_capacity tbl in
        case alloc of
          None \<Rightarrow> Some (None, tbl)
        | Some p \<Rightarrow>
            let mr = \<lparr>mr_ptr = p, mr_addr = addr, mr_length = len, mr_handle = 0,
                      mr_lkey = rkey, mr_rkey = rkey, mr_access = access\<rparr>
            in Some (Some mr, tbl\<lparr>mt_entries := (mt_entries tbl)[h := mr # mt_entries tbl ! h]\<rparr>))"

text \<open>\<open>jhash\<close> is \<^verbatim>\<open>rte_jhash_3words\<close>.\<close>

definition usiw_hash_mr :: "(u32 \<Rightarrow> u32 \<Rightarrow> u32 \<Rightarrow> u32 \<Rightarrow> u32) \<Rightarrow> u64 \<Rightarrow> u64 \<Rightarrow> u32" where
  "usiw_hash_mr jhash addr len =
     jhash (ucast (drop_bit 32 addr)) (ucast (addr AND 0xffffffff)) (ucast (len AND 0xffffffff)) 0 AND 0xffffff"

definition usiw_reg_mr ::
  "(u32 \<Rightarrow> u32 \<Rightarrow> u32 \<Rightarrow> u32 \<Rightarrow> u32) \<Rightarrow> nat option \<Rightarrow> usiw_mr_table \<Rightarrow> u64 \<Rightarrow> u64 \<Rightarrow> u32 \<Rightarrow>
   (usiw_mr option \<times> usiw_mr_table) option" where
  "usiw_reg_mr jhash alloc tbl addr len access =
     (if len > MAX_MR_SIZE then Some (None, tbl)
      else urdma_reg_mr_with_rkey alloc tbl addr len access (usiw_hash_mr jhash addr len))"

text \<open>The candidate is dereferenced without a null test.\<close>

definition usiw_dereg_mr :: "usiw_mr_table \<Rightarrow> usiw_mr \<Rightarrow> (ret \<times> usiw_mr_table) option" where
  "usiw_dereg_mr tbl mr = do {
     candidate \<leftarrow> usiw_mr_lookup tbl (mr_rkey mr);
     l \<leftarrow> candidate;
     Some (if mr_ptr mr \<noteq> mr_ptr (deref_link tbl l) then (Neg EINVAL, tbl)
           else (Ok, usiw_dereg_mr_real tbl l))
   }"

text \<open>
  \<open>calloc_ok\<close> says whether \<^verbatim>\<open>calloc\<close> succeeds, \<open>cmd\<close> is the result of the kernel command
  \<^verbatim>\<open>ibv_cmd_alloc_pd\<close> or \<^verbatim>\<open>ibv_cmd_dealloc_pd\<close>.
\<close>

definition usiw_alloc_pd :: "bool \<Rightarrow> ret \<Rightarrow> usiw_mr_table option" where
  "usiw_alloc_pd calloc_ok cmd =
     (if \<not> calloc_ok then None
      else if cmd \<noteq> Ok then None
      else Some \<lparr>mt_capacity = 1023, mr_count = 0, mt_entries = replicate 1023 []\<rparr>)"

definition usiw_dealloc_pd :: "usiw_mr_table \<Rightarrow> ret \<Rightarrow> ret \<times> bool" where
  "usiw_dealloc_pd tbl cmd =
     (if mr_count tbl \<noteq> 0 then (Neg EBUSY, False) else (cmd, True))"

section \<open>Invariant\<close>

text \<open>
  The bucket array has \<open>capacity\<close> chains, and every region sits in the chain of its key.
\<close>

definition all_mrs :: "usiw_mr_table \<Rightarrow> usiw_mr list" where
  "all_mrs tbl = concat (mt_entries tbl)"

definition mr_table_inv :: "usiw_mr_table \<Rightarrow> bool" where
  "mr_table_inv tbl \<longleftrightarrow> 0 < mt_capacity tbl \<and> length (mt_entries tbl) = mt_capacity tbl \<and>
     (\<forall>b < mt_capacity tbl. \<forall>mr \<in> set (mt_entries tbl ! b). unat (mr_rkey mr) mod mt_capacity tbl = b)"

text \<open>Abstraction: the regions registered under a key, most recent first.\<close>

definition regions :: "usiw_mr_table \<Rightarrow> u32 \<Rightarrow> usiw_mr list" where
  "regions tbl k = filter (\<lambda>mr. mr_rkey mr = k) (mt_entries tbl ! (unat k mod mt_capacity tbl))"

definition mr_of :: "usiw_mr_table \<Rightarrow> u32 \<Rightarrow> usiw_mr option" where
  "mr_of tbl k = (case usiw_mr_lookup tbl k of Some (Some l) \<Rightarrow> Some (deref_link tbl l) | _ \<Rightarrow> None)"

lemma mr_table_inv_bucket: "mr_table_inv tbl \<Longrightarrow> unat k mod mt_capacity tbl < length (mt_entries tbl)"
  by (simp add: mr_table_inv_def)

lemma mr_chain_find_None: "mr_chain_find chain k i = None \<longleftrightarrow> filter (\<lambda>mr. mr_rkey mr = k) chain = []"
  by (induction chain arbitrary: i) auto

lemma mr_chain_find_Some:
  "mr_chain_find chain k i = Some j \<Longrightarrow>
     i \<le> j \<and> j - i < length chain \<and> mr_rkey (chain ! (j - i)) = k \<and>
     filter (\<lambda>mr. mr_rkey mr = k) chain =
       chain ! (j - i) # filter (\<lambda>mr. mr_rkey mr = k) (take (j - i) chain @ drop (Suc (j - i)) chain) \<and>
     filter (\<lambda>mr. mr_rkey mr = k) (take (j - i) chain) = []"
proof (induction chain arbitrary: i)
  case (Cons mr chain)
  show ?case
  proof (cases "mr_rkey mr = k")
    case False
    then have *: "mr_chain_find chain k (Suc i) = Some j" using Cons.prems by simp
    have "Suc i \<le> j" using Cons.IH [OF *] by simp
    then have "j - i = Suc (j - Suc i)" by simp
    then show ?thesis using Cons.IH [OF *] False by auto
  qed (use Cons.prems in auto)
qed simp

section \<open>The contract of a region store\<close>

text \<open>
  What the data path relies on: a lookup finds the most recently registered region of its key,
  and registering or removing a region leaves the other keys alone.
\<close>

locale region_store =
  fixes inv :: "'t \<Rightarrow> bool"
    and stored :: "'t \<Rightarrow> u32 \<Rightarrow> usiw_mr list"
    and find :: "'t \<Rightarrow> u32 \<Rightarrow> usiw_mr option"
    and add :: "usiw_mr \<Rightarrow> 't \<Rightarrow> 't"
    and del :: "u32 \<Rightarrow> 't \<Rightarrow> 't"
  assumes find_stored: "inv t \<Longrightarrow> find t k = (case stored t k of [] \<Rightarrow> None | mr # _ \<Rightarrow> Some mr)"
    and stored_key: "inv t \<Longrightarrow> mr \<in> set (stored t k) \<Longrightarrow> mr_rkey mr = k"
    and add_inv: "inv t \<Longrightarrow> inv (add mr t)"
    and add_stored: "inv t \<Longrightarrow> stored (add mr t) k = (if k = mr_rkey mr then mr # stored t k else stored t k)"
    and del_inv: "inv t \<Longrightarrow> stored t k \<noteq> [] \<Longrightarrow> inv (del k t)"
    and del_stored: "inv t \<Longrightarrow> stored t k \<noteq> [] \<Longrightarrow> stored (del k t) j = (if j = k then tl (stored t j) else stored t j)"
begin

lemma find_key: "inv t \<Longrightarrow> find t k = Some mr \<Longrightarrow> mr_rkey mr = k \<and> mr \<in> set (stored t k)"
  using stored_key [of t mr k] by (auto simp: find_stored split: list.splits)

lemma find_add: "inv t \<Longrightarrow> find (add mr t) k = (if k = mr_rkey mr then Some mr else find t k)"
  by (simp add: find_stored add_inv add_stored)

lemma find_del_other: "inv t \<Longrightarrow> stored t k \<noteq> [] \<Longrightarrow> j \<noteq> k \<Longrightarrow> find (del k t) j = find t j"
  by (simp add: find_stored del_inv del_stored)

lemma del_add: "inv t \<Longrightarrow> find (del (mr_rkey mr) (add mr t)) k = find t k"
  by (simp add: find_stored del_inv del_stored add_inv add_stored)

end

definition mr_add :: "usiw_mr \<Rightarrow> usiw_mr_table \<Rightarrow> usiw_mr_table" where
  "mr_add mr tbl = (let h = unat (mr_rkey mr) mod mt_capacity tbl
     in tbl\<lparr>mt_entries := (mt_entries tbl)[h := mr # mt_entries tbl ! h]\<rparr>)"

definition mr_del :: "u32 \<Rightarrow> usiw_mr_table \<Rightarrow> usiw_mr_table" where
  "mr_del k tbl = (case usiw_mr_lookup tbl k of Some (Some l) \<Rightarrow> usiw_dereg_mr_real tbl l | _ \<Rightarrow> tbl)"

lemma usiw_mr_lookup_None:
  assumes "mr_table_inv tbl" "regions tbl k = []"
  shows "usiw_mr_lookup tbl k = Some None"
  using assms by (simp add: usiw_mr_lookup_def mr_table_inv_def regions_def mr_chain_find_None Let_def)

lemma usiw_mr_lookup_Some:
  assumes "mr_table_inv tbl" "regions tbl k = mr # ms"
  obtains j where "usiw_mr_lookup tbl k = Some (Some (unat k mod mt_capacity tbl, j))"
    and "j < length (mt_entries tbl ! (unat k mod mt_capacity tbl))"
    and "mt_entries tbl ! (unat k mod mt_capacity tbl) ! j = mr"
    and "filter (\<lambda>mr. mr_rkey mr = k)
      (take j (mt_entries tbl ! (unat k mod mt_capacity tbl))
        @ drop (Suc j) (mt_entries tbl ! (unat k mod mt_capacity tbl))) = ms"
    and "mr_rkey mr = k"
proof -
  let ?c = "mt_entries tbl ! (unat k mod mt_capacity tbl)"
  have cap: "mt_capacity tbl \<noteq> 0" using assms by (simp add: mr_table_inv_def)
  have "mr_chain_find ?c k 0 \<noteq> None"
    using assms(2) by (simp add: mr_chain_find_None regions_def)
  then obtain j where j: "mr_chain_find ?c k 0 = Some j" by auto
  then have "usiw_mr_lookup tbl k = Some (Some (unat k mod mt_capacity tbl, j))"
    using cap by (simp add: usiw_mr_lookup_def)
  moreover have "?c ! j = mr"
    "filter (\<lambda>mr. mr_rkey mr = k) (take j ?c @ drop (Suc j) ?c) = ms" "j < length ?c" "mr_rkey mr = k"
    using mr_chain_find_Some [OF j] assms(2) by (auto simp: regions_def)
  ultimately show thesis using that by blast
qed

lemma mr_of_regions:
  assumes "mr_table_inv tbl"
  shows "mr_of tbl k = (case regions tbl k of [] \<Rightarrow> None | mr # _ \<Rightarrow> Some mr)"
proof (cases "regions tbl k")
  case Nil
  then show ?thesis using usiw_mr_lookup_None [OF assms] by (simp add: mr_of_def)
next
  case (Cons mr ms)
  show ?thesis
    by (rule usiw_mr_lookup_Some [OF assms Cons]) (simp add: Cons mr_of_def deref_link_def)
qed

lemma mr_add_inv: "mr_table_inv tbl \<Longrightarrow> mr_table_inv (mr_add mr tbl)"
  by (auto simp: mr_table_inv_def mr_add_def Let_def nth_list_update)

lemma regions_mr_add:
  "mr_table_inv tbl \<Longrightarrow> regions (mr_add mr tbl) k = (if k = mr_rkey mr then mr # regions tbl k else regions tbl k)"
  using mr_table_inv_bucket [of tbl "mr_rkey mr"]
  by (auto simp: regions_def mr_add_def Let_def nth_list_update)

lemma mr_del_unlink:
  assumes "mr_table_inv tbl" "regions tbl k \<noteq> []"
  shows "mr_table_inv (mr_del k tbl)"
    and "regions (mr_del k tbl) j = (if j = k then tl (regions tbl j) else regions tbl j)"
proof -
  obtain mr ms where r: "regions tbl k = mr # ms" using assms(2) by (cases "regions tbl k") auto
  let ?b = "unat k mod mt_capacity tbl" and ?c = "mt_entries tbl ! (unat k mod mt_capacity tbl)"
  obtain i where i: "usiw_mr_lookup tbl k = Some (Some (?b, i))" "i < length ?c" "?c ! i = mr"
    "filter (\<lambda>mr. mr_rkey mr = k) (take i ?c @ drop (Suc i) ?c) = ms" "mr_rkey mr = k"
    by (rule usiw_mr_lookup_Some [OF assms(1) r])
  have del: "mr_del k tbl = tbl\<lparr>mt_entries := (mt_entries tbl)[?b := take i ?c @ drop (Suc i) ?c]\<rparr>"
    by (simp add: mr_del_def i(1) usiw_dereg_mr_real_def)
  show "mr_table_inv (mr_del k tbl)"
    using assms(1) unfolding del mr_table_inv_def
    by (auto simp: nth_list_update dest: in_set_takeD in_set_dropD)
  have other: "filter (\<lambda>mr. mr_rkey mr = j) (take i ?c @ drop (Suc i) ?c) = filter (\<lambda>mr. mr_rkey mr = j) ?c"
    if "j \<noteq> k"
  proof -
    have "?c = take i ?c @ [mr] @ drop (Suc i) ?c"
      using i(2,3) by (metis append_Cons append_Nil id_take_nth_drop)
    then have "filter (\<lambda>mr. mr_rkey mr = j) ?c = filter (\<lambda>mr. mr_rkey mr = j) (take i ?c @ [mr] @ drop (Suc i) ?c)"
      by simp
    then show ?thesis using that i(5) by simp
  qed
  have at: "regions (mr_del k tbl) j = filter (\<lambda>mr. mr_rkey mr = j)
      (if ?b = unat j mod mt_capacity tbl then take i ?c @ drop (Suc i) ?c
       else mt_entries tbl ! (unat j mod mt_capacity tbl))"
    using mr_table_inv_bucket [OF assms(1), of k] unfolding del regions_def
    by (simp add: nth_list_update)
  show "regions (mr_del k tbl) j = (if j = k then tl (regions tbl j) else regions tbl j)"
  proof (cases "j = k")
    case True
    then show ?thesis using at i(4) r by simp
  next
    case False
    then have "regions (mr_del k tbl) j = filter (\<lambda>mr. mr_rkey mr = j) (mt_entries tbl ! (unat j mod mt_capacity tbl))"
      unfolding at using other by (auto simp del: filter_append split: if_splits)
    then show ?thesis using False by (simp add: regions_def)
  qed
qed

interpretation mrs: region_store mr_table_inv regions mr_of mr_add mr_del
proof
  fix t k mr
  show "mr_table_inv t \<Longrightarrow> mr_of t k = (case regions t k of [] \<Rightarrow> None | mr # x \<Rightarrow> Some mr)"
    by (rule mr_of_regions)
  show "mr_table_inv t \<Longrightarrow> mr \<in> set (regions t k) \<Longrightarrow> mr_rkey mr = k"
    by (simp add: regions_def)
qed (simp_all add: mr_add_inv regions_mr_add mr_del_unlink)

lemma usiw_mr_lookup_mr_of:
  assumes "mr_table_inv tbl"
  shows "mr_of tbl k = None \<Longrightarrow> usiw_mr_lookup tbl k = Some None"
    and "mr_of tbl k = Some mr \<Longrightarrow> \<exists>l. usiw_mr_lookup tbl k = Some (Some l) \<and> deref_link tbl l = mr"
  using assms
  by (auto simp: mr_of_def usiw_mr_lookup_def mr_table_inv_def Let_def split: option.splits)

lemma usiw_dereg_mr_regions:
  assumes "mr_table_inv tbl"
  shows "usiw_dereg_mr tbl mr = (case regions tbl (mr_rkey mr) of
      [] \<Rightarrow> None
    | m # _ \<Rightarrow> if mr_ptr mr \<noteq> mr_ptr m then Some (Neg EINVAL, tbl) else Some (Ok, mr_del (mr_rkey mr) tbl))"
proof (cases "regions tbl (mr_rkey mr)")
  case Nil
  then show ?thesis using usiw_mr_lookup_None [OF assms] by (simp add: usiw_dereg_mr_def)
next
  case (Cons m ms)
  show ?thesis
    by (rule usiw_mr_lookup_Some [OF assms Cons]) (simp add: usiw_dereg_mr_def mr_del_def deref_link_def Cons)
qed

lemma urdma_reg_mr_with_rkey_add:
  assumes "mr_table_inv tbl"
  shows "urdma_reg_mr_with_rkey (Some p) tbl addr len access rkey =
    (let mr = \<lparr>mr_ptr = p, mr_addr = addr, mr_length = len, mr_handle = 0, mr_lkey = rkey,
       mr_rkey = rkey, mr_access = access\<rparr> in Some (Some mr, mr_add mr tbl))"
  using assms by (simp add: urdma_reg_mr_with_rkey_def mr_add_def mr_table_inv_def Let_def)

lemma usiw_alloc_pd_inv: "usiw_alloc_pd c cmd = Some tbl \<Longrightarrow> mr_table_inv tbl \<and> mr_count tbl = 0 \<and> regions tbl k = []"
  by (auto simp: usiw_alloc_pd_def mr_table_inv_def regions_def split: if_splits)

section \<open>Properties\<close>

text \<open>
  C20. The table of a protection domain implements, for every key, the stack of the regions
  registered under it. On every well-formed table: a registration fails without effect when
  memory is short; otherwise it pushes a region with the given address, length and access on
  the stack of its key. A lookup always returns, and finds the top of the stack of its key.
  Deregistering a region that is the top of its stack, wherever in the chain of its bucket it
  sits, pops it; a region below the top is refused with \<^verbatim>\<open>-EINVAL\<close> and no effect, and with an
  empty stack the code dereferences a null pointer. No operation touches the stack of another
  key, also of one that shares the bucket, and the table stays well-formed.
\<close>

theorem urdma_reg_dereg_mr:
  assumes "mr_table_inv tbl"
  shows "urdma_reg_mr_with_rkey None tbl addr len access rkey = Some (None, tbl) \<and>
    (\<exists>mr tbl'. urdma_reg_mr_with_rkey (Some p) tbl addr len access rkey = Some (Some mr, tbl') \<and>
       mr_ptr mr = p \<and> mr_addr mr = addr \<and> mr_length mr = len \<and> mr_rkey mr = rkey \<and> mr_lkey mr = rkey \<and> mr_access mr = access \<and>
       mr_table_inv tbl' \<and> (\<forall>k. regions tbl' k = (if k = rkey then mr # regions tbl k else regions tbl k))) \<and>
    (\<forall>k. map_option (map_option (deref_link tbl)) (usiw_mr_lookup tbl k) =
       Some (case regions tbl k of [] \<Rightarrow> None | newest # _ \<Rightarrow> Some newest)) \<and>
    (case regions tbl (mr_rkey r) of
       [] \<Rightarrow> usiw_dereg_mr tbl r = None
     | newest # below \<Rightarrow>
         if mr_ptr r \<noteq> mr_ptr newest then usiw_dereg_mr tbl r = Some (Neg EINVAL, tbl)
         else \<exists>tbl'. usiw_dereg_mr tbl r = Some (Ok, tbl') \<and> mr_table_inv tbl' \<and>
           (\<forall>k. regions tbl' k = (if k = mr_rkey r then below else regions tbl k)))"
proof (intro conjI)
  show "urdma_reg_mr_with_rkey None tbl addr len access rkey = Some (None, tbl)"
    using assms by (simp add: urdma_reg_mr_with_rkey_def mr_table_inv_def)
  show "\<exists>mr tbl'. urdma_reg_mr_with_rkey (Some p) tbl addr len access rkey = Some (Some mr, tbl') \<and>
       mr_ptr mr = p \<and> mr_addr mr = addr \<and> mr_length mr = len \<and> mr_rkey mr = rkey \<and> mr_lkey mr = rkey \<and> mr_access mr = access \<and>
       mr_table_inv tbl' \<and> (\<forall>k. regions tbl' k = (if k = rkey then mr # regions tbl k else regions tbl k))"
    using mrs.add_inv [OF assms] mrs.add_stored [OF assms] by (simp add: urdma_reg_mr_with_rkey_add [OF assms] Let_def)
  have "map_option (map_option (deref_link tbl)) (usiw_mr_lookup tbl k) = Some (mr_of tbl k)" for k
    using usiw_mr_lookup_mr_of [OF assms, of k] by (cases "mr_of tbl k") auto
  then show "\<forall>k. map_option (map_option (deref_link tbl)) (usiw_mr_lookup tbl k) =
       Some (case regions tbl k of [] \<Rightarrow> None | newest # _ \<Rightarrow> Some newest)"
    by (simp add: mrs.find_stored [OF assms])
  show "case regions tbl (mr_rkey r) of
       [] \<Rightarrow> usiw_dereg_mr tbl r = None
     | newest # below \<Rightarrow>
         if mr_ptr r \<noteq> mr_ptr newest then usiw_dereg_mr tbl r = Some (Neg EINVAL, tbl)
         else \<exists>tbl'. usiw_dereg_mr tbl r = Some (Ok, tbl') \<and> mr_table_inv tbl' \<and>
           (\<forall>k. regions tbl' k = (if k = mr_rkey r then below else regions tbl k))"
    using mrs.del_inv [OF assms] mrs.del_stored [OF assms] by (simp add: usiw_dereg_mr_regions [OF assms] split: list.split)
qed

definition pd_example :: usiw_mr_table where
  "pd_example = \<lparr>mt_capacity = 4, mr_count = 0, mt_entries = replicate 4 []\<rparr>"

lemma pd_example_inv: "mr_table_inv pd_example"
  by (auto simp: mr_table_inv_def pd_example_def)

definition mr_example :: "nat \<Rightarrow> u32 \<Rightarrow> usiw_mr" where
  "mr_example p key = \<lparr>mr_ptr = p, mr_addr = 4096, mr_length = 64, mr_handle = 0, mr_lkey = key, mr_rkey = key, mr_access = 7\<rparr>"

text \<open>Two regions with different keys in one bucket; the one deregistered is not the first of its chain.\<close>

theorem urdma_reg_dereg_mr_witness:
  "let tbl = mr_add (mr_example 2 1) (mr_add (mr_example 1 5) pd_example) in
   mr_table_inv tbl \<and> mt_entries tbl ! 1 = [mr_example 2 1, mr_example 1 5] \<and>
   (\<exists>tbl'. usiw_dereg_mr tbl (mr_example 1 5) = Some (Ok, tbl') \<and> regions tbl' 5 = [] \<and> regions tbl' 1 = [mr_example 2 1])"
proof -
  let ?tbl = "mr_add (mr_example 2 1) (mr_add (mr_example 1 5) pd_example)"
  have inv: "mr_table_inv ?tbl" by (intro mrs.add_inv pd_example_inv)
  have four: "replicate 4 ([] :: usiw_mr list) = [[], [], [], []]" by (simp add: numeral_eq_Suc)
  have e: "mt_entries ?tbl ! 1 = [mr_example 2 1, mr_example 1 5]"
    by (simp add: mr_add_def pd_example_def four) (simp add: mr_example_def)
  have "regions ?tbl 5 = [mr_example 1 5]" "regions ?tbl 1 = [mr_example 2 1]" "mr_rkey (mr_example 1 5) = 5"
    by (simp_all add: mrs.add_stored mrs.add_inv pd_example_inv) (simp_all add: mr_example_def regions_def pd_example_def)
  then show ?thesis
    using urdma_reg_dereg_mr [OF inv, of 0 0 0 0 0 "mr_example 1 5"] inv e unfolding Let_def by auto
qed

text \<open>
  The outcome of \<^verbatim>\<open>usiw_dereg_mr\<close>. It succeeds exactly when the region is the most recent
  one registered under its key, and then the previous one, if any, becomes visible again. A
  region shadowed by a later one with the same hash cannot be deregistered (\<^verbatim>\<open>EINVAL\<close>), and a
  region whose key is no longer in the table makes the code dereference a null pointer.
\<close>

lemma usiw_dereg_mr_outcome:
  assumes "mr_table_inv tbl"
  shows "usiw_dereg_mr tbl mr = (case regions tbl (mr_rkey mr) of
      [] \<Rightarrow> None
    | m # _ \<Rightarrow> if mr_ptr mr = mr_ptr m then Some (Ok, mr_del (mr_rkey mr) tbl) else Some (Neg EINVAL, tbl)) \<and>
    (\<forall>m ms k. regions tbl (mr_rkey mr) = m # ms \<longrightarrow>
      regions (mr_del (mr_rkey mr) tbl) k = (if k = mr_rkey mr then ms else regions tbl k))"
  using usiw_dereg_mr_regions [OF assms] mrs.del_stored [OF assms, of "mr_rkey mr"]
  by (auto split: list.splits)

lemma usiw_dereg_mr_outcome_example:
  "\<exists>a b. usiw_dereg_mr (mr_add b (mr_add a pd_example)) a = Some (Neg EINVAL, mr_add b (mr_add a pd_example)) \<and>
     usiw_dereg_mr pd_example a = None"
proof -
  define a b :: usiw_mr where
    "a = \<lparr>mr_ptr = 1, mr_addr = 4096, mr_length = 64, mr_handle = 0, mr_lkey = 5, mr_rkey = 5, mr_access = 7\<rparr>"
    and "b = a\<lparr>mr_ptr := 2, mr_addr := 8192\<rparr>"
  have inv: "mr_table_inv (mr_add b (mr_add a pd_example))"
    by (intro mrs.add_inv pd_example_inv)
  have "regions (mr_add b (mr_add a pd_example)) (mr_rkey a) = [b, a]" "regions pd_example (mr_rkey a) = []"
    by (code_simp | simp add: mrs.add_stored mrs.add_inv pd_example_inv a_def b_def regions_def pd_example_def)+
  then show ?thesis
    using usiw_dereg_mr_outcome [OF inv, of a] usiw_dereg_mr_outcome [OF pd_example_inv, of a]
    by (intro exI [of _ a] exI [of _ b]) (simp add: a_def b_def)
qed

text \<open>
  Tables as the verbs leave them: allocated empty, then registrations, deregistrations, and
  the removals of the data path.
\<close>

inductive mr_table_reach :: "usiw_mr_table \<Rightarrow> bool" where
  alloc: "usiw_alloc_pd c cmd = Some tbl \<Longrightarrow> mr_table_reach tbl"
| reg: "mr_table_reach tbl \<Longrightarrow> urdma_reg_mr_with_rkey a tbl addr len access rkey = Some (r, tbl') \<Longrightarrow> mr_table_reach tbl'"
| dereg: "mr_table_reach tbl \<Longrightarrow> usiw_dereg_mr tbl mr = Some (r, tbl') \<Longrightarrow> mr_table_reach tbl'"
| remove: "mr_table_reach tbl \<Longrightarrow> usiw_mr_lookup tbl k = Some (Some l) \<Longrightarrow> mr_table_reach (usiw_dereg_mr_real tbl l)"

lemma mr_count_frame:
  "urdma_reg_mr_with_rkey a tbl addr len access rkey = Some (r, tbl') \<Longrightarrow> mr_count tbl' = mr_count tbl"
  "usiw_dereg_mr tbl mr = Some (r', tbl'') \<Longrightarrow> mr_count tbl'' = mr_count tbl"
  "mr_count (usiw_dereg_mr_real tbl l) = mr_count tbl"
  by (auto simp: urdma_reg_mr_with_rkey_def usiw_dereg_mr_def usiw_dereg_mr_real_def Let_def
      split: if_splits option.splits Option.bind_splits)

lemma mr_table_reach_inv: "mr_table_reach tbl \<Longrightarrow> mr_table_inv tbl"
proof (induction rule: mr_table_reach.induct)
  case (alloc c cmd tbl)
  then show ?case using usiw_alloc_pd_inv by blast
next
  case (reg tbl a addr len access rkey r tbl')
  then show ?case
    using urdma_reg_mr_with_rkey_add [OF reg.IH, of _ addr len access rkey]
    by (cases a) (auto simp: urdma_reg_mr_with_rkey_def [of None] Let_def mr_add_inv split: if_splits)
next
  case (dereg tbl mr r tbl')
  then show ?case
    by (auto simp: usiw_dereg_mr_regions mr_del_unlink split: list.splits if_splits)
next
  case (remove tbl k l)
  have "regions tbl k \<noteq> []"
    using remove by (auto dest: usiw_mr_lookup_None)
  then show ?case using mr_del_unlink(1) [OF remove.IH, of k] remove.hyps by (simp add: mr_del_def)
qed

text \<open>
  \<^verbatim>\<open>usiw_dealloc_pd\<close> never reports \<^verbatim>\<open>EBUSY\<close>: the region counter it tests is never
  incremented, so a protection domain is freed with regions still registered in it.
\<close>

lemma usiw_dealloc_pd_never_busy:
  assumes "mr_table_reach tbl"
  shows "usiw_dealloc_pd tbl cmd = (cmd, True)"
proof -
  from assms have "mr_count tbl = 0"
    by (induction rule: mr_table_reach.induct)
      (auto simp: mr_count_frame dest: mr_count_frame(1,2) usiw_alloc_pd_inv)
  then show ?thesis by (simp add: usiw_dealloc_pd_def)
qed

lemma usiw_dealloc_pd_never_busy_example:
  "\<exists>tbl mr. mr_table_reach tbl \<and> mr_of tbl 5 = Some mr \<and> usiw_dealloc_pd tbl Ok = (Ok, True)"
proof -
  obtain tbl where tbl: "usiw_alloc_pd True Ok = Some tbl" by (simp add: usiw_alloc_pd_def)
  have inv: "mr_table_inv tbl" using usiw_alloc_pd_inv [OF tbl] by simp
  define mr where "mr = \<lparr>mr_ptr = 1, mr_addr = 4096, mr_length = 64, mr_handle = 0, mr_lkey = 5,
    mr_rkey = 5, mr_access = 7\<rparr>"
  have "urdma_reg_mr_with_rkey (Some 1) tbl 4096 64 7 5 = Some (Some mr, mr_add mr tbl)"
    using urdma_reg_mr_with_rkey_add [OF inv] by (simp add: mr_def Let_def)
  then have "mr_table_reach (mr_add mr tbl)"
    using mr_table_reach.alloc [OF tbl] mr_table_reach.reg by blast
  moreover have "mr_of (mr_add mr tbl) 5 = Some mr"
    using mrs.find_add [OF inv, of mr] by (simp add: mr_def)
  ultimately show ?thesis using usiw_dealloc_pd_never_busy by blast
qed

end
