(* ===== verification/Binheap.thy ===== *)
theory Binheap
  imports Prelude
begin

text \<open>
  The binary heap of \<^verbatim>\<open>src/util/binheap.c\<close>, which orders the sequence numbers of the last
  segments of RDMA READ responses. The heap is the array of the C code with its size and
  capacity. \<^verbatim>\<open>binheap_peek\<close> and \<^verbatim>\<open>binheap_pop\<close> return \<open>None\<close> where the C code returns
  \<open>-1\<close>; \<^verbatim>\<open>binheap_new\<close> and \<^verbatim>\<open>binheap_insert\<close>, which have an assertion, return \<open>None\<close> where it
  fails and the C return value otherwise. Sizes and indices are natural numbers: the \<^verbatim>\<open>int\<close> of the
  code holds \<open>2 * index + 2\<close> for heaps of less than \<open>2 ^ 30\<close> elements, and the only heap of the program
  has the capacity \<^verbatim>\<open>ord_max\<close>, an 8-bit number. The theory proves the heap
  invariant of every operation and interprets the locale \<open>min_queue\<close>, the contract the queue
  pair relies on, with the C operations.
\<close>

section \<open>The data structure\<close>

record binheap =
  bh_size :: nat
  bh_capacity :: nat
  bh_arr :: "u32 list"

definition binheap_new :: "u32 list option \<Rightarrow> nat \<Rightarrow> binheap option option" where
  \<comment> \<open>\<open>memory\<close> is the outcome of \<^verbatim>\<open>malloc\<close>: no memory, or an array with unspecified content\<close>
  "binheap_new memory capacity = do {
     assert_c (capacity \<noteq> 0);
     Some (case memory of
       None \<Rightarrow> None
     | Some junk \<Rightarrow> Some \<lparr>bh_size = 0, bh_capacity = capacity, bh_arr = junk\<rparr>) }"

definition array_min :: "u32 list \<Rightarrow> nat \<Rightarrow> nat \<Rightarrow> nat" where
  "array_min arr i j = (if arr ! j < arr ! i then j else i)"

definition array_swap :: "u32 list \<Rightarrow> nat \<Rightarrow> nat \<Rightarrow> u32 list" where
  "array_swap arr i j = arr[i := arr ! j, j := arr ! i]"

fun push_down :: "u32 list \<Rightarrow> nat \<Rightarrow> u32 list" where
  "push_down arr index =
     (if index \<noteq> 0 then
        let next = (index - 1) div 2 in
        if arr ! index < arr ! next then push_down (array_swap arr index next) next else arr
      else arr)"

declare push_down.simps [simp del]

definition binheap_empty :: "binheap \<Rightarrow> bool" where
  "binheap_empty h \<longleftrightarrow> bh_size h = 0"

definition binheap_insert :: "binheap \<Rightarrow> u32 \<Rightarrow> (int \<times> binheap) option" where
  "binheap_insert h v = do {
     assert_c (bh_size h \<le> bh_capacity h);
     Some (if bh_size h = bh_capacity h then (-1, h)
           else (0, h\<lparr>bh_arr := push_down ((bh_arr h)[bh_size h := v]) (bh_size h),
                      bh_size := bh_size h + 1\<rparr>)) }"

definition binheap_peek :: "binheap \<Rightarrow> u32 option" where
  "binheap_peek h = (if bh_size h = 0 then None else Some (bh_arr h ! 0))"

text \<open>The loop of \<^verbatim>\<open>binheap_pop\<close>, from the current index.\<close>

definition pop_min_child :: "u32 list \<Rightarrow> nat \<Rightarrow> nat \<Rightarrow> nat" where
  "pop_min_child arr n index =
     (let left = index * 2 + 1; m = array_min arr index left; right = left + 1 in
      if right < n then array_min arr m right else m)"

lemma pop_min_child_range:
  assumes "index * 2 + 1 < n"
  shows "pop_min_child arr n index \<in> {index, 2 * index + 1, 2 * index + 2}"
    and "pop_min_child arr n index < n"
  using assms by (auto simp: pop_min_child_def array_min_def Let_def)

function binheap_pop_loop :: "u32 list \<Rightarrow> nat \<Rightarrow> nat \<Rightarrow> u32 list" where
  "binheap_pop_loop arr n index =
     (if index * 2 + 1 < n then
        let m = pop_min_child arr n index in
        if m \<noteq> index then binheap_pop_loop (array_swap arr index m) n m else arr
      else arr)"
  by pat_completeness auto
termination
proof (relation "measure (\<lambda>(arr, n, index). n - index)")
  fix arr :: "u32 list" and n index m :: nat
  assume lt: "index * 2 + 1 < n" and m: "m = pop_min_child arr n index" and neq: "m \<noteq> index"
  have "m \<in> {index, 2 * index + 1, 2 * index + 2}" "m < n"
    unfolding m using pop_min_child_range [OF lt] by blast+
  then have "index < m" using neq by auto
  with \<open>m < n\<close> show "((array_swap arr index m, n, m), (arr, n, index)) \<in> measure (\<lambda>(arr, n, index). n - index)"
    by simp
qed simp

declare binheap_pop_loop.simps [simp del]

definition binheap_pop :: "binheap \<Rightarrow> binheap option" where
  "binheap_pop h =
     (if bh_size h = 0 then None
      else let n = bh_size h - 1 in
        Some (h\<lparr>bh_size := n, bh_arr := binheap_pop_loop (array_swap (bh_arr h) 0 n) n 0\<rparr>))"

section \<open>The heap invariant\<close>

abbreviation parent :: "nat \<Rightarrow> nat" where
  "parent i \<equiv> (i - 1) div 2"

definition heap_at :: "u32 list \<Rightarrow> nat \<Rightarrow> bool" where
  "heap_at arr i \<longleftrightarrow> arr ! parent i \<le> arr ! i"

definition heap_ordered :: "u32 list \<Rightarrow> nat \<Rightarrow> bool" where
  "heap_ordered arr n \<longleftrightarrow> (\<forall>i. 0 < i \<and> i < n \<longrightarrow> heap_at arr i)"

definition binheap_inv :: "binheap \<Rightarrow> bool" where
  "binheap_inv h \<longleftrightarrow>
     bh_size h \<le> bh_capacity h \<and> length (bh_arr h) = bh_capacity h \<and> heap_ordered (bh_arr h) (bh_size h)"

definition binheap_mset :: "binheap \<Rightarrow> u32 multiset" where
  "binheap_mset h = mset (take (bh_size h) (bh_arr h))"

lemma length_array_swap [simp]: "length (array_swap arr i j) = length arr"
  by (simp add: array_swap_def)

lemma nth_array_swap:
  assumes "i < length arr" "j < length arr" "k < length arr"
  shows "array_swap arr i j ! k = (if k = j then arr ! i else if k = i then arr ! j else arr ! k)"
  using assms by (auto simp: array_swap_def nth_list_update)

lemma mset_take_array_swap:
  assumes "i < n" "j < n" "n \<le> length arr"
  shows "mset (take n (array_swap arr i j)) = mset (take n arr)"
  using assms mset_swap_nth [of i "take n arr" j]
  by (simp add: array_swap_def take_update_swap)

lemma heap_ordered_root_least:
  assumes "heap_ordered arr n" "i < n"
  shows "arr ! 0 \<le> arr ! i"
  using assms(2)
proof (induction i rule: less_induct)
  case (less i)
  show ?case
  proof (cases "i = 0")
    case False
    then have "parent i < i" "parent i < n" using less.prems by auto
    then have "arr ! 0 \<le> arr ! parent i" using less.IH by blast
    also have "\<dots> \<le> arr ! i"
      using assms(1) False less.prems by (simp add: heap_ordered_def heap_at_def)
    finally show ?thesis .
  qed simp
qed

section \<open>Inserting: the element moves towards the root\<close>

text \<open>
  While an element moves up, every position except its own is ordered, and its children are
  ordered with respect to its parent.
\<close>

definition up_inv :: "u32 list \<Rightarrow> nat \<Rightarrow> nat \<Rightarrow> bool" where
  "up_inv arr n k \<longleftrightarrow>
     (\<forall>i. 0 < i \<and> i < n \<and> i \<noteq> k \<longrightarrow> heap_at arr i)
     \<and> (\<forall>c. 0 < c \<and> c < n \<and> parent c = k \<and> 0 < k \<longrightarrow> arr ! parent k \<le> arr ! c)"

lemma up_inv_step:
  assumes inv: "up_inv arr n k" and k: "0 < k" "k < n" "n \<le> length arr"
    and lt: "arr ! k < arr ! parent k"
  shows "up_inv (array_swap arr k (parent k)) n (parent k)"
proof -
  have p: "parent k < k" "parent k < n" using k by auto
  have nth: "array_swap arr k (parent k) ! i =
      (if i = parent k then arr ! k else if i = k then arr ! parent k else arr ! i)" if "i < n" for i
    using that p k by (intro nth_array_swap) auto
  show ?thesis
    unfolding up_inv_def heap_at_def
  proof (intro conjI allI impI)
    fix i assume i: "0 < i \<and> i < n \<and> i \<noteq> parent k"
    then have pi: "parent i < n" by auto
    show "array_swap arr k (parent k) ! parent i \<le> array_swap arr k (parent k) ! i"
    proof (cases "i = k")
      case True
      then show ?thesis using lt p k nth [of k] nth [of "parent k"] by simp
    next
      case False
      have ord: "arr ! parent i \<le> arr ! i"
        using inv i False unfolding up_inv_def heap_at_def by blast
      show ?thesis
      proof (cases "parent i = k")
        case True
        then have "arr ! parent k \<le> arr ! i" using inv i k(1) unfolding up_inv_def by blast
        then show ?thesis using True i False nth [OF pi] nth [of i] p by auto
      next
        case ne: False
        then show ?thesis using ord lt i False nth [OF pi] nth [of i] by auto
      qed
    qed
  next
    fix c assume c: "0 < c \<and> c < n \<and> parent c = parent k \<and> 0 < parent k"
    then have pp: "parent (parent k) < n" "parent (parent k) \<noteq> parent k" "parent (parent k) \<noteq> k"
      using p by linarith+
    have "arr ! parent (parent k) \<le> arr ! parent k"
      using inv c p unfolding up_inv_def heap_at_def by (metis less_irrefl)
    moreover have "arr ! parent k \<le> arr ! c" if "c \<noteq> k"
      using inv c that unfolding up_inv_def heap_at_def by metis
    ultimately show "array_swap arr k (parent k) ! parent (parent k) \<le> array_swap arr k (parent k) ! c"
      using c pp unfolding nth [OF pp(1)] nth [OF conjunct1 [OF conjunct2 [OF c]]] by auto
  qed
qed

lemma push_down_correct:
  assumes "up_inv arr n k" "k < n" "n \<le> length arr"
  shows "heap_ordered (push_down arr k) n \<and> length (push_down arr k) = length arr
    \<and> mset (take n (push_down arr k)) = mset (take n arr)"
  using assms
proof (induction arr k rule: push_down.induct)
  case (1 arr k)
  show ?case
  proof (cases "0 < k \<and> arr ! k < arr ! parent k")
    case True
    then have "up_inv (array_swap arr k (parent k)) n (parent k)"
      using "1.prems" by (intro up_inv_step) auto
    moreover have "parent k < n" using "1.prems" by auto
    ultimately show ?thesis
      using "1.IH" [OF _ refl] "1.prems" True
      by (subst (1 2 3) push_down.simps) (simp add: Let_def mset_take_array_swap)
  next
    case False
    then have "heap_ordered arr n"
      using "1.prems"(1) unfolding up_inv_def heap_ordered_def heap_at_def
      by (metis not_less gr_implies_not0 leI)
    then show ?thesis
      using False by (subst (1 2 3) push_down.simps) (auto simp: Let_def)
  qed
qed


section \<open>Removing: the element moves towards the leaves\<close>

definition down_inv :: "u32 list \<Rightarrow> nat \<Rightarrow> nat \<Rightarrow> bool" where
  "down_inv arr n k \<longleftrightarrow>
     (\<forall>i. 0 < i \<and> i < n \<and> parent i \<noteq> k \<longrightarrow> heap_at arr i)
     \<and> (\<forall>c. 0 < c \<and> c < n \<and> parent c = k \<and> 0 < k \<longrightarrow> arr ! parent k \<le> arr ! c)"

lemma children_iff: "0 < c \<and> parent c = k \<longleftrightarrow> c = 2 * k + 1 \<or> c = 2 * k + 2"
  by auto

lemma pop_min_child_least:
  assumes "2 * k + 1 < n" "0 < c" "c < n" "parent c = k"
  shows "arr ! pop_min_child arr n k \<le> arr ! c" "arr ! pop_min_child arr n k \<le> arr ! k"
proof -
  have c: "c = 2 * k + 1 \<or> c = 2 * k + 2" using assms children_iff by blast
  show "arr ! pop_min_child arr n k \<le> arr ! c" "arr ! pop_min_child arr n k \<le> arr ! k"
    using c assms(1,3) by (auto simp: pop_min_child_def array_min_def Let_def mult.commute)
qed

lemma down_inv_step:
  assumes inv: "down_inv arr n k" and k: "2 * k + 1 < n" "n \<le> length arr"
    and m: "m = pop_min_child arr n k" "m \<noteq> k"
  shows "down_inv (array_swap arr k m) n m"
proof -
  have mr: "m = 2 * k + 1 \<or> m = 2 * k + 2" "m < n"
    using pop_min_child_range [of k n arr] k m by (auto simp: mult.commute)
  then have pm: "parent m = k" "0 < m" "k < m" by auto
  have least: "arr ! m \<le> arr ! c" if "0 < c" "c < n" "parent c = k" for c
    using pop_min_child_least [OF k(1) that] m(1) by simp
  have mk: "arr ! m \<le> arr ! k"
    using pop_min_child_least(2) [OF k(1) pm(2) mr(2) pm(1)] m(1) by simp
  have nth: "array_swap arr k m ! i = (if i = m then arr ! k else if i = k then arr ! m else arr ! i)"
    if "i < n" for i
    using that mr pm k by (intro nth_array_swap) auto
  have up: "arr ! parent i \<le> arr ! i" if "0 < i" "i < n" "parent i \<noteq> k" for i
    using inv that unfolding down_inv_def heap_at_def by blast
  show ?thesis
    unfolding down_inv_def heap_at_def
  proof (intro conjI allI impI)
    fix i assume i: "0 < i \<and> i < n \<and> parent i \<noteq> m"
    then have pi: "parent i < n" by auto
    show "array_swap arr k m ! parent i \<le> array_swap arr k m ! i"
    proof (cases "parent i = k")
      case True
      have "array_swap arr k m ! parent i = arr ! m"
        using nth [OF pi] True pm by simp
      then show ?thesis using i True least [of i] mk nth [of i] by auto
    next
      case False
      have "i \<noteq> m" using False pm by auto
      show ?thesis
      proof (cases "i = k")
        case True
        have "arr ! parent k \<le> arr ! m"
          using inv True i mr(2) pm unfolding down_inv_def by blast
        then show ?thesis using True i pi False pm by (auto simp: nth)
      next
        case ne: False
        then show ?thesis using up [of i] False i pi \<open>i \<noteq> m\<close> by (simp add: nth)
      qed
    qed
  next
    fix c assume c: "0 < c \<and> c < n \<and> parent c = m \<and> 0 < m"
    then have "c \<noteq> m" "c \<noteq> k" "parent c \<noteq> k" using pm by auto
    then show "array_swap arr k m ! parent m \<le> array_swap arr k m ! c"
      using up [of c] c pm mr(2) by (auto simp: nth)
  qed
qed

lemma binheap_pop_loop_correct:
  assumes "down_inv arr n k" "n \<le> length arr"
  shows "heap_ordered (binheap_pop_loop arr n k) n \<and> length (binheap_pop_loop arr n k) = length arr
    \<and> mset (take n (binheap_pop_loop arr n k)) = mset (take n arr)"
  using assms
proof (induction arr n k rule: binheap_pop_loop.induct)
  case (1 arr n k)
  let ?m = "pop_min_child arr n k"
  show ?case
  proof (cases "2 * k + 1 < n \<and> ?m \<noteq> k")
    case True
    then have "down_inv (array_swap arr k ?m) n ?m"
      using "1.prems" by (intro down_inv_step) auto
    moreover have "?m < n" using pop_min_child_range [of k n arr] True by (simp add: mult.commute)
    ultimately show ?thesis
      using "1.IH" [OF _ refl] "1.prems" True
      by (subst (1 2 3) binheap_pop_loop.simps) (simp add: Let_def mset_take_array_swap mult.commute)
  next
    case False
    have "arr ! k \<le> arr ! c" if "0 < c" "c < n" "parent c = k" for c
      using that False pop_min_child_least(1) [of k n c arr] children_iff [of c k] by fastforce
    then have "heap_ordered arr n"
      using "1.prems"(1) unfolding down_inv_def heap_ordered_def heap_at_def by metis
    then show ?thesis
      using False by (subst (1 2 3) binheap_pop_loop.simps) (auto simp: Let_def mult.commute)
  qed
qed

section \<open>The contract of a minimum queue\<close>

text \<open>
  What the queue pair relies on: a bounded collection of sequence numbers from which the
  least one can be read and removed. \<open>drain_below\<close> is the client's loop (the RDMA READ part of
  \<^verbatim>\<open>progress_qp\<close>): it removes elements while the least one is below a bound.
\<close>

locale min_queue =
  fixes insert_q :: "'q \<Rightarrow> u32 \<Rightarrow> (int \<times> 'q) option"
    and peek_q :: "'q \<Rightarrow> u32 option"
    and pop_q :: "'q \<Rightarrow> 'q option"
    and cap_q :: "'q \<Rightarrow> nat"
    and inv_q :: "'q \<Rightarrow> bool"
    and mset_q :: "'q \<Rightarrow> u32 multiset"
  assumes insert_full: "inv_q q \<Longrightarrow> size (mset_q q) = cap_q q \<Longrightarrow> insert_q q v = Some (-1, q)"
    and insert_room: "inv_q q \<Longrightarrow> size (mset_q q) \<noteq> cap_q q \<Longrightarrow>
      \<exists>q'. insert_q q v = Some (0, q') \<and> inv_q q' \<and> mset_q q' = add_mset v (mset_q q) \<and> cap_q q' = cap_q q"
    and peek_empty: "inv_q q \<Longrightarrow> mset_q q = {#} \<Longrightarrow> peek_q q = None"
    and peek_min: "inv_q q \<Longrightarrow> mset_q q \<noteq> {#} \<Longrightarrow> peek_q q = Some (Min_mset (mset_q q))"
    and pop_empty: "inv_q q \<Longrightarrow> mset_q q = {#} \<Longrightarrow> pop_q q = None"
    and pop_min: "inv_q q \<Longrightarrow> mset_q q \<noteq> {#} \<Longrightarrow>
      \<exists>q'. pop_q q = Some q' \<and> inv_q q' \<and> mset_q q' = mset_q q - {#Min_mset (mset_q q)#} \<and> cap_q q' = cap_q q"
    and size_bound: "inv_q q \<Longrightarrow> size (mset_q q) \<le> cap_q q"
begin

inductive drain_below :: "u32 \<Rightarrow> 'q \<Rightarrow> u32 list \<Rightarrow> 'q \<Rightarrow> bool" for bound where
  drain_empty: "peek_q q = None \<Longrightarrow> drain_below bound q [] q"
| drain_stop: "peek_q q = Some v \<Longrightarrow> \<not> v < bound \<Longrightarrow> drain_below bound q [] q"
| drain_pop: "peek_q q = Some v \<Longrightarrow> v < bound \<Longrightarrow> pop_q q = Some q1 \<Longrightarrow>
    drain_below bound q1 vs q' \<Longrightarrow> drain_below bound q (v # vs) q'"

lemma peek_Some_D:
  assumes "inv_q q" "peek_q q = Some v"
  shows "v \<in># mset_q q" "\<And>x. x \<in># mset_q q \<Longrightarrow> v \<le> x"
proof -
  have ne: "mset_q q \<noteq> {#}" using assms peek_empty by fastforce
  then have "v = Min_mset (mset_q q)" using assms peek_min by simp
  then show "v \<in># mset_q q" "\<And>x. x \<in># mset_q q \<Longrightarrow> v \<le> x"
    using ne by auto
qed

lemma drain_below_result:
  assumes "drain_below bound q vs q'" "inv_q q"
  shows "inv_q q' \<and> sorted vs \<and> mset vs = filter_mset (\<lambda>x. x < bound) (mset_q q)
    \<and> mset_q q' = filter_mset (\<lambda>x. \<not> x < bound) (mset_q q)"
  using assms
proof (induction rule: drain_below.induct)
  case (drain_empty q)
  then have "mset_q q = {#}" using peek_min by fastforce
  with drain_empty show ?case by simp
next
  case (drain_stop q v)
  then have "\<not> x < bound" if "x \<in># mset_q q" for x
    using peek_Some_D(2) [of q v x] that by auto
  then have "filter_mset (\<lambda>x. x < bound) (mset_q q) = {#}"
    "filter_mset (\<lambda>x. \<not> x < bound) (mset_q q) = mset_q q"
    by (auto simp: filter_mset_eq_conv multiset_eq_iff not_in_iff [symmetric])
  with drain_stop show ?case by simp
next
  case (drain_pop q v q1 vs q')
  have v: "v \<in># mset_q q" and least: "\<And>x. x \<in># mset_q q \<Longrightarrow> v \<le> x"
    using peek_Some_D drain_pop by blast+
  have "Min_mset (mset_q q) = v" using v least by (rule Min_mset_eqI)
  then have q1: "inv_q q1" "mset_q q = add_mset v (mset_q q1)"
    using pop_min [of q] drain_pop.prems drain_pop.hyps(3) v by fastforce+
  have "sorted (v # vs)"
    using drain_pop.IH [OF q1(1)] least q1(2) by (auto dest: arg_cong [where f = set_mset])
  then show ?case
    using drain_pop.IH [OF q1(1)] q1(2) drain_pop.hyps(2) by simp
qed

lemma drain_below_total:
  assumes "inv_q q"
  shows "\<exists>vs q'. drain_below bound q vs q'"
  using assms
proof (induction "size (mset_q q)" arbitrary: q rule: less_induct)
  case less
  show ?case
  proof (cases "peek_q q")
    case None
    then show ?thesis using drain_empty by blast
  next
    case (Some v)
    show ?thesis
    proof (cases "v < bound")
      case True
      have ne: "mset_q q \<noteq> {#}" using Some less.prems peek_empty by fastforce
      then obtain q1 where q1: "pop_q q = Some q1" "inv_q q1"
        "mset_q q1 = mset_q q - {#Min_mset (mset_q q)#}"
        using pop_min less.prems by blast
      have "size (mset_q q1) < size (mset_q q)"
        using ne q1(3) by (simp add: size_Diff_singleton nonempty_has_size)
      then obtain vs q' where "drain_below bound q1 vs q'"
        using less.hyps q1(2) by blast
      then show ?thesis using Some True q1(1) drain_pop by blast
    next
      case False
      then show ?thesis using Some drain_stop by blast
    qed
  qed
qed

end

lemma size_binheap_mset: "binheap_inv h \<Longrightarrow> size (binheap_mset h) = bh_size h"
  by (simp add: binheap_inv_def binheap_mset_def)

lemma binheap_min:
  assumes "binheap_inv h" "bh_size h \<noteq> 0"
  shows "Min_mset (binheap_mset h) = bh_arr h ! 0"
proof (rule Min_mset_eqI)
  have len: "bh_size h \<le> length (bh_arr h)" "0 < bh_size h" using assms by (auto simp: binheap_inv_def)
  then show "bh_arr h ! 0 \<in># binheap_mset h"
    by (auto simp: binheap_mset_def in_set_conv_nth intro!: exI [of _ 0])
  fix y assume "y \<in># binheap_mset h"
  then obtain i where "i < bh_size h" "y = bh_arr h ! i"
    using len by (auto simp: binheap_mset_def in_set_conv_nth)
  then show "bh_arr h ! 0 \<le> y"
    using assms heap_ordered_root_least by (auto simp: binheap_inv_def)
qed

lemma binheap_insert_correct:
  assumes inv: "binheap_inv h" and room: "bh_size h \<noteq> bh_capacity h"
  shows "\<exists>h'. binheap_insert h v = Some (0, h') \<and> binheap_inv h'
    \<and> binheap_mset h' = add_mset v (binheap_mset h) \<and> bh_capacity h' = bh_capacity h"
proof -
  let ?n = "bh_size h" and ?arr = "(bh_arr h)[bh_size h := v]"
  have n: "?n < length ?arr" using assms by (auto simp: binheap_inv_def)
  have "up_inv ?arr (Suc ?n) ?n"
    using inv unfolding up_inv_def heap_at_def binheap_inv_def heap_ordered_def
    by (auto simp: nth_list_update heap_at_def)
  then have up: "heap_ordered (push_down ?arr ?n) (Suc ?n)" "length (push_down ?arr ?n) = length ?arr"
    "mset (take (Suc ?n) (push_down ?arr ?n)) = mset (take (Suc ?n) ?arr)"
    using push_down_correct [of ?arr "Suc ?n" ?n] n by auto
  have "mset (take (Suc ?n) ?arr) = add_mset v (binheap_mset h)"
    using n by (simp add: take_Suc_conv_app_nth binheap_mset_def)
  with up show ?thesis
    using assms n by (auto simp: binheap_insert_def binheap_inv_def binheap_mset_def)
qed

lemma binheap_pop_correct:
  assumes inv: "binheap_inv h" and ne: "bh_size h \<noteq> 0"
  shows "\<exists>h'. binheap_pop h = Some h' \<and> binheap_inv h'
    \<and> binheap_mset h' = binheap_mset h - {#Min_mset (binheap_mset h)#} \<and> bh_capacity h' = bh_capacity h"
proof -
  let ?n = "bh_size h - 1"
  let ?arr = "array_swap (bh_arr h) 0 ?n"
  have n: "Suc ?n = bh_size h" "bh_size h \<le> length (bh_arr h)"
    using assms by (auto simp: binheap_inv_def)
  have nth: "?arr ! i = (if i = 0 then bh_arr h ! ?n else bh_arr h ! i)" if "i < ?n" for i
    using that n nth_array_swap [of 0 "bh_arr h" ?n i] by (cases "bh_arr h") auto
  have "down_inv ?arr ?n 0"
    unfolding down_inv_def heap_at_def
  proof (intro conjI allI impI)
    fix i assume i: "0 < i \<and> i < ?n \<and> parent i \<noteq> 0"
    then have "parent i < ?n" "i < bh_size h" by auto
    then show "?arr ! parent i \<le> ?arr ! i"
      using inv i nth [of "parent i"] nth [of i] by (simp add: binheap_inv_def heap_ordered_def heap_at_def)
  qed simp
  then have down: "heap_ordered (binheap_pop_loop ?arr ?n 0) ?n"
    "length (binheap_pop_loop ?arr ?n 0) = length ?arr"
    "mset (take ?n (binheap_pop_loop ?arr ?n 0)) = mset (take ?n ?arr)"
    using binheap_pop_loop_correct [of ?arr ?n 0] n by auto
  have last: "?arr ! ?n = bh_arr h ! 0"
    using n ne nth_array_swap [of 0 "bh_arr h" ?n ?n] by (cases "bh_arr h") auto
  have "binheap_mset h = mset (take (Suc ?n) ?arr)"
    using n mset_take_array_swap [of 0 "Suc ?n" ?n "bh_arr h"] ne by (simp add: binheap_mset_def)
  also have "\<dots> = add_mset (bh_arr h ! 0) (mset (take ?n ?arr))"
    using n last take_Suc_conv_app_nth [of ?n ?arr] by simp
  finally have "binheap_mset h = add_mset (Min_mset (binheap_mset h)) (mset (take ?n ?arr))"
    using binheap_min [OF assms] by simp
  then have "mset (take ?n ?arr) = binheap_mset h - {#Min_mset (binheap_mset h)#}"
    by (metis add_mset_remove_trivial)
  with down show ?thesis
    using assms n by (auto simp: binheap_pop_def binheap_inv_def binheap_mset_def Let_def)
qed

interpretation bh: min_queue binheap_insert binheap_peek binheap_pop bh_capacity binheap_inv binheap_mset
proof unfold_locales
  fix q v
  assume inv: "binheap_inv q"
  note sz = size_binheap_mset [OF inv]
  have empty_iff: "binheap_mset q = {#} \<longleftrightarrow> bh_size q = 0" using sz by (metis size_eq_0_iff_empty)
  show "size (binheap_mset q) = bh_capacity q \<Longrightarrow> binheap_insert q v = Some (-1, q)"
    using sz by (simp add: binheap_insert_def)
  show "size (binheap_mset q) \<noteq> bh_capacity q \<Longrightarrow> \<exists>q'. binheap_insert q v = Some (0, q') \<and> binheap_inv q'
      \<and> binheap_mset q' = add_mset v (binheap_mset q) \<and> bh_capacity q' = bh_capacity q"
    using sz binheap_insert_correct [OF inv] by simp
  show "binheap_mset q = {#} \<Longrightarrow> binheap_peek q = None"
    using empty_iff by (simp add: binheap_peek_def)
  show "binheap_mset q \<noteq> {#} \<Longrightarrow> binheap_peek q = Some (Min_mset (binheap_mset q))"
    using empty_iff binheap_min [OF inv] by (simp add: binheap_peek_def)
  show "binheap_mset q = {#} \<Longrightarrow> binheap_pop q = None"
    using empty_iff by (simp add: binheap_pop_def)
  show "binheap_mset q \<noteq> {#} \<Longrightarrow> \<exists>q'. binheap_pop q = Some q' \<and> binheap_inv q'
      \<and> binheap_mset q' = binheap_mset q - {#Min_mset (binheap_mset q)#} \<and> bh_capacity q' = bh_capacity q"
    using empty_iff binheap_pop_correct [OF inv] by simp
  show "size (binheap_mset q) \<le> bh_capacity q"
    using sz inv by (simp add: binheap_inv_def)
qed

section \<open>Properties\<close>

text \<open>
  C21. \<^verbatim>\<open>binheap_insert\<close> never fails its assertion, keeps the heap invariant and adds exactly the
  new element; it returns \<open>-1\<close> and leaves the heap alone exactly when the heap is full.
\<close>

theorem binheap_insert_heap:
  assumes "binheap_inv h"
  shows "if bh_size h = bh_capacity h then binheap_insert h v = Some (-1, h)
    else \<exists>h'. binheap_insert h v = Some (0, h') \<and> binheap_inv h'
      \<and> binheap_mset h' = add_mset v (binheap_mset h)"
  using assms bh.insert_full [of h v] bh.insert_room [of h v] size_binheap_mset [OF assms] by auto

text \<open>
  C22. On a non-empty heap \<^verbatim>\<open>binheap_peek\<close> returns the least element and \<^verbatim>\<open>binheap_pop\<close> removes
  exactly one occurrence of it, keeping the heap invariant; on an empty heap both fail.
\<close>

theorem binheap_peek_pop_min:
  assumes "binheap_inv h"
  shows "if binheap_empty h then binheap_peek h = None \<and> binheap_pop h = None
    else \<exists>h'. binheap_peek h = Some (Min_mset (binheap_mset h)) \<and> binheap_pop h = Some h'
      \<and> binheap_inv h' \<and> add_mset (Min_mset (binheap_mset h)) (binheap_mset h') = binheap_mset h"
proof (cases "binheap_empty h")
  case True
  then show ?thesis by (simp add: binheap_empty_def binheap_peek_def binheap_pop_def)
next
  case False
  then have ne: "binheap_mset h \<noteq> {#}"
    using size_binheap_mset [OF assms] by (auto simp: binheap_empty_def)
  obtain h' where h': "binheap_pop h = Some h'" "binheap_inv h'"
    "binheap_mset h' = binheap_mset h - {#Min_mset (binheap_mset h)#}"
    using bh.pop_min [OF assms ne] by blast
  have "add_mset (Min_mset (binheap_mset h)) (binheap_mset h') = binheap_mset h"
    using ne h'(3) by simp
  then show ?thesis using False h' bh.peek_min [OF assms ne] by auto
qed

definition heap_example :: binheap where
  "heap_example = \<lparr>bh_size = 3, bh_capacity = 4, bh_arr = [2, 7, 5, 0]\<rparr>"

lemma heap_example_inv: "binheap_inv heap_example"
proof -
  have "heap_at [2, 7, 5, 0 :: u32] 1" "heap_at [2, 7, 5, 0 :: u32] 2" by (simp_all add: heap_at_def)
  moreover have "i = 1 \<or> i = 2" if "0 < i" "i < 3" for i :: nat using that by auto
  ultimately show ?thesis by (auto simp: binheap_inv_def heap_example_def heap_ordered_def)
qed

theorem binheap_insert_heap_witness:
  "binheap_inv heap_example \<and> bh_size heap_example < bh_capacity heap_example
   \<and> (\<exists>h'. binheap_insert heap_example 1 = Some (0, h') \<and> bh_arr h' = [1, 2, 5, 7] \<and> binheap_inv h')"
  using heap_example_inv binheap_insert_heap [OF heap_example_inv, of 1]
  by (auto simp: binheap_insert_def heap_example_def push_down.simps array_swap_def Let_def)

theorem binheap_peek_pop_min_witness:
  "binheap_inv heap_example \<and> binheap_peek heap_example = Some 2
   \<and> (\<exists>h'. binheap_pop heap_example = Some h' \<and> binheap_inv h'
       \<and> add_mset 2 (binheap_mset h') = binheap_mset heap_example)"
proof -
  have "\<not> binheap_empty heap_example" "binheap_peek heap_example = Some 2"
    by (simp_all add: binheap_empty_def binheap_peek_def heap_example_def)
  then show ?thesis
    using heap_example_inv binheap_peek_pop_min [OF heap_example_inv] by auto
qed

end
