(* ===== verification/Qp_State.thy ===== *)
theory Qp_State
  imports Dpdk Proto Iov Mr_Table Binheap
begin

text \<open>
  The state of a queue pair: the structures of \<^verbatim>\<open>liburdma/interface.h\<close> and the shared part of
  \<^verbatim>\<open>include/urdmad_private.h\<close>. One record holds the queue pair together with everything its
  pointers reach: the shared \<^verbatim>\<open>urdmad_qp\<close>, the device, the completion queues, the protection
  domain, application memory, and what the code has sent to the outside. A pointer to a work
  request or completion entry is its index in the storage array of its queue; the intrusive
  \<^verbatim>\<open>active\<close> list of a queue is the list of those indices.
\<close>

section \<open>Work requests and completions\<close>

datatype usiw_send_opcode = usiw_wr_send | usiw_wr_write | usiw_wr_read

datatype usiw_send_wqe_state = SEND_WQE_INIT | SEND_WQE_TRANSFER | SEND_WQE_WAIT | SEND_WQE_COMPLETE

definition usiw_send_signaled :: u32 where "usiw_send_signaled = 1"
definition usiw_send_inline :: u32 where "usiw_send_inline = 2"

text \<open>
  \<open>sw_remote_ep\<close>: whether the \<^verbatim>\<open>remote_ep\<close> pointer is set; it then points to the endpoint of
  the queue pair. \<open>sw_iov\<close>: the bytes of the trailing iovec array.
\<close>

record usiw_send_wqe =
  sw_opcode :: usiw_send_opcode
  sw_wr_context :: u64
  sw_remote_ep :: bool
  sw_remote_addr :: u64
  sw_rkey :: u32
  sw_flags :: u32
  sw_state :: usiw_send_wqe_state
  sw_msn :: u32
  sw_local_stag :: u32
  sw_total_length :: u64
  sw_bytes_sent :: u64
  sw_bytes_acked :: u64
  sw_iov_count :: nat
  sw_iov :: "u8 list"

record usiw_recv_wqe =
  rw_wr_context :: u64
  rw_remote_ep :: bool
  rw_msn :: u32
  rw_complete :: bool
  rw_total_request_size :: u64
  rw_recv_size :: u64
  rw_input_size :: u64
  rw_iov_count :: nat
  rw_iov :: "u8 list"

record 'r usiw_send_wqe_queue =
  sq_ring :: 'r
  sq_free_ring :: 'r
  sq_active :: "nat list"
  sq_storage :: "nat \<Rightarrow> usiw_send_wqe"
  sq_max_wr :: nat
  sq_max_sge :: nat
  sq_max_inline :: u32

record 'r usiw_recv_wqe_queue =
  rq_ring :: 'r
  rq_free_ring :: 'r
  rq_active :: "nat list"
  rq_next_msn :: u32
  rq_storage :: "nat \<Rightarrow> usiw_recv_wqe"
  rq_max_wr :: nat
  rq_max_sge :: nat

datatype ibv_wc_status =
    IBV_WC_SUCCESS | IBV_WC_WR_FLUSH_ERR | IBV_WC_REM_ACCESS_ERR | IBV_WC_FATAL_ERR | IBV_WC_RETRY_EXC_ERR

datatype ibv_wc_opcode = IBV_WC_SEND | IBV_WC_RDMA_WRITE | IBV_WC_RDMA_READ | IBV_WC_RECV

record usiw_wc =
  wc_wr_context :: u64
  wc_status :: ibv_wc_status
  wc_opcode :: ibv_wc_opcode
  wc_byte_len :: u32
  wc_qp_num :: u32

record 'r usiw_cq =
  cq_refcnt :: u32
  cqe_ring :: 'r
  cq_free_ring :: 'r
  cq_storage :: "nat \<Rightarrow> usiw_wc"
  cq_capacity :: nat
  cq_qp_count :: u64
  cq_id :: u32
  notify_flag :: bool

section \<open>The remote endpoint\<close>

definition trp_recv_missing :: u32 where "trp_recv_missing = 1"
definition trp_ack_update :: u32 where "trp_ack_update = 2"

text \<open>
  A slot of the \<^verbatim>\<open>tx_pending\<close> array: a null pointer, a transmit mbuf, or pointer bits that do
  not point to one.
\<close>

datatype tx_slot = Null | Mbuf tx_mbuf | Wild u64

record psn_range =
  psn_min :: u32
  psn_max :: u32

record 'r ee_state =
  expected_read_msn :: u32
  expected_ack_msn :: u32
  next_send_msn :: u32
  next_read_msn :: u32
  next_ack_msn :: u32
  send_last_acked_psn :: u32
  send_next_psn :: u32
  send_max_psn :: u32
  recv_ack_psn :: u32
  recv_rresp_last_psn :: binheap
  trp_flags :: u32
  recv_sack_psn :: psn_range
  tx_pending :: "tx_slot list"
  tx_head :: nat
  tx_pending_size :: nat
  rx_queue :: "'r option"

record read_response_state =
  rr_vaddr :: u64
  rr_msg_size :: u32
  rr_sink_stag :: u32
  rr_sink_ofs :: u64
  rr_active :: bool
  rr_sink_ep :: bool

section \<open>Shared state, device, outside world\<close>

datatype urdma_qp_state =
    usiw_qp_unbound | usiw_qp_connected | usiw_qp_running | usiw_qp_shutdown | usiw_qp_error

text \<open>Addresses and ports are kept as the code keeps them, in network byte order.\<close>

record urdmad_qp =
  conn_state :: urdma_qp_state
  ord_max :: u8
  ird_max :: u8
  shm_dev_id :: u16
  shm_qp_id :: u16
  shm_rx_queue :: u16
  shm_tx_queue :: u16
  local_udp_port :: u16
  remote_udp_port :: u16
  local_ipv4_addr :: u32
  remote_ipv4_addr :: u32
  remote_ether_addr :: "u8 list"
  rx_desc_count :: u16
  tx_desc_count :: u16
  rx_burst_size :: u16
  tx_burst_size :: u16
  shm_mtu :: u16

definition port_checksum_offload :: u64 where "port_checksum_offload = 1"
definition port_fdir :: u64 where "port_fdir = 2"

record usiw_device =
  dev_portid :: u16
  dev_max_qp :: u16
  dev_flags :: u64
  dev_ipv4_addr :: u32

record urdma_qp_stats =
  recv_count_histo :: "nat list"
  recv_max_burst_size :: nat
  recv_psn_gap_count :: nat
  recv_retransmit_count :: nat
  recv_sack_count :: nat

text \<open>What the code has done to the outside world, in order.\<close>

datatype sock_msg = Sock_create_qp u16 | Sock_destroy_qp u16 u16

datatype kernel_call = Modify_qp_err | Destroy_qp

record outside =
  io_tick :: nat
  io_wire :: "frame list"
  io_events :: "u32 list"
  io_kernel :: "kernel_call list"
  io_sock :: "sock_msg list"
  io_cq_freed :: "nat list"

section \<open>The queue pair\<close>

definition usiw_qp_sig_all :: u16 where "usiw_qp_sig_all = 1"

record 'r usiw_qp =
  qp_num :: u32
  qp_flags :: u16
  qp_refcnt :: u32
  shm_qp :: urdmad_qp
  qp_dev :: usiw_device
  send_cq :: nat
  recv_cq :: nat
  cqs :: "nat \<Rightarrow> 'r usiw_cq"
  txq :: "frame list"
  sq :: "'r usiw_send_wqe_queue"
  rq0 :: "'r usiw_recv_wqe_queue"
  readresp_store :: "read_response_state list"
  readresp_head_msn :: u32
  ord_active :: u8
  qp_pd :: usiw_mr_table
  remote_ep :: "'r ee_state"
  qp_stats :: urdma_qp_stats
  qp_mem :: memory
  io :: outside

text \<open>Updates of nested fields.\<close>

abbreviation map_ep :: "('r ee_state \<Rightarrow> 'r ee_state) \<Rightarrow> 'r usiw_qp \<Rightarrow> 'r usiw_qp" where
  "map_ep f qp \<equiv> qp\<lparr>remote_ep := f (remote_ep qp)\<rparr>"

abbreviation tick :: "'r usiw_qp \<Rightarrow> nat" where
  "tick qp \<equiv> io_tick (io qp)"

definition ticked :: "'r usiw_qp \<Rightarrow> 'r usiw_qp" where
  "ticked qp = qp\<lparr>io := (io qp)\<lparr>io_tick := Suc (io_tick (io qp))\<rparr>\<rparr>"

abbreviation send_wqe :: "'r usiw_qp \<Rightarrow> nat \<Rightarrow> usiw_send_wqe" where
  "send_wqe qp i \<equiv> sq_storage (sq qp) i"

abbreviation recv_wqe :: "'r usiw_qp \<Rightarrow> nat \<Rightarrow> usiw_recv_wqe" where
  "recv_wqe qp i \<equiv> rq_storage (rq0 qp) i"

definition upd_send_wqe :: "nat \<Rightarrow> (usiw_send_wqe \<Rightarrow> usiw_send_wqe) \<Rightarrow> 'r usiw_qp \<Rightarrow> 'r usiw_qp" where
  "upd_send_wqe i f qp = qp\<lparr>sq := (sq qp)\<lparr>sq_storage := (sq_storage (sq qp))(i := f (sq_storage (sq qp) i))\<rparr>\<rparr>"

definition upd_recv_wqe :: "nat \<Rightarrow> (usiw_recv_wqe \<Rightarrow> usiw_recv_wqe) \<Rightarrow> 'r usiw_qp \<Rightarrow> 'r usiw_qp" where
  "upd_recv_wqe i f qp = qp\<lparr>rq0 := (rq0 qp)\<lparr>rq_storage := (rq_storage (rq0 qp))(i := f (rq_storage (rq0 qp) i))\<rparr>\<rparr>"

definition set_conn_state :: "urdma_qp_state \<Rightarrow> 'r usiw_qp \<Rightarrow> 'r usiw_qp" where
  "set_conn_state c qp = qp\<lparr>shm_qp := (shm_qp qp)\<lparr>conn_state := c\<rparr>\<rparr>"

end
