(* ===== verification/Queues.thy ===== *)
theory Queues
  imports Qp_State
begin

text \<open>
  Work queues and completion queues (\<^verbatim>\<open>liburdma/interface.c\<close>): the free lists of work requests,
  the lists of active requests, posting of completions, and the flush of both queues when the
  connection goes down. Work requests and completion entries are conserved: each is in exactly
  one place, the free ring, the ring between application and progress thread, or the active
  list.
\<close>

section \<open>Send work requests\<close>

text \<open>\<^verbatim>\<open>calloc\<close>ed work request storage.\<close>

definition zero_send_wqe :: "nat \<Rightarrow> usiw_send_wqe" where
  "zero_send_wqe max_sge = \<lparr>sw_opcode = usiw_wr_send, sw_wr_context = 0, sw_remote_ep = False,
     sw_remote_addr = 0, sw_rkey = 0, sw_flags = 0, sw_state = SEND_WQE_INIT, sw_msn = 0,
     sw_local_stag = 0, sw_total_length = 0, sw_bytes_sent = 0, sw_bytes_acked = 0,
     sw_iov_count = 0, sw_iov = replicate (16 * max_sge) 0\<rparr>"

definition zero_recv_wqe :: "nat \<Rightarrow> usiw_recv_wqe" where
  "zero_recv_wqe max_sge = \<lparr>rw_wr_context = 0, rw_remote_ep = False, rw_msn = 0, rw_complete = False,
     rw_total_request_size = 0, rw_recv_size = 0, rw_input_size = 0, rw_iov_count = 0,
     rw_iov = replicate (16 * max_sge) 0\<rparr>"

text \<open>The result of \<^verbatim>\<open>rte_ring_enqueue\<close> is not looked at.\<close>

definition ring_put :: "'r dpdk \<Rightarrow> 'r \<Rightarrow> nat \<Rightarrow> 'r" where
  "ring_put D r x = (case rte_ring_enqueue D r x of Some r' \<Rightarrow> r' | None \<Rightarrow> r)"

fun ring_put_all :: "'r dpdk \<Rightarrow> 'r \<Rightarrow> nat list \<Rightarrow> 'r" where
  "ring_put_all D r [] = r"
| "ring_put_all D r (x # xs) = ring_put_all D (ring_put D r x) xs"

text \<open>
  The environment calls are, in order, the allocation of the two rings and of the storage;
  \<open>t\<close> is the number of the first of them.
\<close>

definition usiw_send_wqe_queue_init ::
  "'r dpdk \<Rightarrow> nat \<Rightarrow> 'r usiw_send_wqe_queue \<Rightarrow> nat \<Rightarrow> nat \<Rightarrow> ret \<times> 'r usiw_send_wqe_queue" where
  "usiw_send_wqe_queue_init D t q max_send_wr max_send_sge =
     (if \<not> rte_malloc D t then (Neg (rte_errno D t), q)
      else let (ret, ring) = rte_ring_init D (max_send_wr + 1); q = q\<lparr>sq_ring := ring\<rparr> in
        if ret \<noteq> Ok then (ret, q)
        else if \<not> rte_malloc D (t + 1) then (Neg (rte_errno D (t + 1)), q)
        else let (ret, free_ring) = rte_ring_init D (max_send_wr + 1); q = q\<lparr>sq_free_ring := free_ring\<rparr> in
          if ret \<noteq> Ok then (ret, q)
          else if \<not> calloc D (t + 2) then (Neg ENOMEM, q)
          else (Ok, q\<lparr>sq_storage := \<lambda>_. zero_send_wqe max_send_sge,
                      sq_free_ring := ring_put_all D free_ring [0..<max_send_wr],
                      sq_active := [], sq_max_wr := max_send_wr, sq_max_sge := max_send_sge\<rparr>))"

definition usiw_send_wqe_queue_add_active :: "'r usiw_send_wqe_queue \<Rightarrow> nat \<Rightarrow> 'r usiw_send_wqe_queue" where
  "usiw_send_wqe_queue_add_active q wqe = q\<lparr>sq_active := sq_active q @ [wqe]\<rparr>"

text \<open>Unlinking a node that is not linked follows stale pointers.\<close>

definition usiw_send_wqe_queue_del_active :: "'r usiw_send_wqe_queue \<Rightarrow> nat \<Rightarrow> 'r usiw_send_wqe_queue option" where
  "usiw_send_wqe_queue_del_active q wqe = do {
     assert_c (wqe \<in> set (sq_active q));
     Some (q\<lparr>sq_active := remove1 wqe (sq_active q)\<rparr>)
   }"

fun send_wqe_match :: "usiw_send_wqe \<Rightarrow> usiw_send_opcode \<Rightarrow> u32 \<Rightarrow> bool" where
  "send_wqe_match w wr_opcode wr_key_data \<longleftrightarrow>
     sw_opcode w = wr_opcode \<and>
     (case sw_opcode w of
        usiw_wr_send \<Rightarrow> wr_key_data = sw_msn w
      | usiw_wr_write \<Rightarrow> wr_key_data = sw_rkey w
      | usiw_wr_read \<Rightarrow> wr_key_data = sw_local_stag w)"

definition usiw_send_wqe_queue_lookup ::
  "'r usiw_send_wqe_queue \<Rightarrow> usiw_send_opcode \<Rightarrow> u32 \<Rightarrow> nat option" where
  "usiw_send_wqe_queue_lookup q wr_opcode wr_key_data =
     find (\<lambda>i. send_wqe_match (sq_storage q i) wr_opcode wr_key_data) (sq_active q)"

section \<open>Receive work requests\<close>

definition usiw_recv_wqe_queue_init ::
  "'r dpdk \<Rightarrow> nat \<Rightarrow> 'r usiw_recv_wqe_queue \<Rightarrow> nat \<Rightarrow> nat \<Rightarrow> ret \<times> 'r usiw_recv_wqe_queue" where
  "usiw_recv_wqe_queue_init D t q max_recv_wr max_recv_sge =
     (if \<not> rte_malloc D t then (Neg (rte_errno D t), q)
      else let (ret, ring) = rte_ring_init D (max_recv_wr + 1); q = q\<lparr>rq_ring := ring\<rparr> in
        if ret \<noteq> Ok then (ret, q)
        else if \<not> rte_malloc D (t + 1) then (Neg (rte_errno D (t + 1)), q)
        else let (ret, free_ring) = rte_ring_init D (max_recv_wr + 1); q = q\<lparr>rq_free_ring := free_ring\<rparr> in
          if ret \<noteq> Ok then (ret, q)
          else if \<not> calloc D (t + 2) then (Neg ENOMEM, q)
          else (Ok, q\<lparr>rq_storage := \<lambda>_. zero_recv_wqe max_recv_sge,
                      rq_free_ring := ring_put_all D free_ring [0..<max_recv_wr],
                      rq_active := [], rq_max_wr := max_recv_wr, rq_max_sge := max_recv_sge,
                      rq_next_msn := 1\<rparr>))"

definition usiw_recv_wqe_queue_add_active :: "'r usiw_recv_wqe_queue \<Rightarrow> nat \<Rightarrow> 'r usiw_recv_wqe_queue" where
  "usiw_recv_wqe_queue_add_active q wqe = q\<lparr>rq_active := rq_active q @ [wqe]\<rparr>"

definition usiw_recv_wqe_queue_del_active :: "'r usiw_recv_wqe_queue \<Rightarrow> nat \<Rightarrow> 'r usiw_recv_wqe_queue option" where
  "usiw_recv_wqe_queue_del_active q wqe = do {
     assert_c (wqe \<in> set (rq_active q));
     Some (q\<lparr>rq_active := remove1 wqe (rq_active q)\<rparr>)
   }"

definition usiw_recv_wqe_queue_lookup :: "'r usiw_recv_wqe_queue \<Rightarrow> u32 \<Rightarrow> nat option" where
  "usiw_recv_wqe_queue_lookup q msn = find (\<lambda>i. rw_msn (rq_storage q i) = msn) (rq_active q)"

section \<open>Free lists\<close>

definition qp_free_send_wqe :: "'r dpdk \<Rightarrow> 'r usiw_qp \<Rightarrow> nat \<Rightarrow> bool \<Rightarrow> 'r usiw_qp option" where
  "qp_free_send_wqe D qp wqe still_active = do {
     q \<leftarrow> (if still_active then usiw_send_wqe_queue_del_active (sq qp) wqe else Some (sq qp));
     Some (qp\<lparr>sq := q\<lparr>sq_free_ring := ring_put D (sq_free_ring q) wqe\<rparr>\<rparr>)
   }"

definition qp_free_recv_wqe :: "'r dpdk \<Rightarrow> 'r usiw_qp \<Rightarrow> nat \<Rightarrow> 'r usiw_qp option" where
  "qp_free_recv_wqe D qp wqe = do {
     q \<leftarrow> usiw_recv_wqe_queue_del_active (rq0 qp) wqe;
     Some (qp\<lparr>rq0 := q\<lparr>rq_free_ring := ring_put D (rq_free_ring q) wqe\<rparr>\<rparr>)
   }"

definition qp_get_next_send_wqe :: "'r dpdk \<Rightarrow> 'r usiw_qp \<Rightarrow> ret \<times> nat option \<times> 'r usiw_qp" where
  "qp_get_next_send_wqe D qp =
     (case rte_ring_dequeue D (sq_free_ring (sq qp)) of
        None \<Rightarrow> (Neg ENOSPC, None, qp)
      | Some (wqe, r) \<Rightarrow> (Ok, Some wqe, qp\<lparr>sq := (sq qp)\<lparr>sq_free_ring := r\<rparr>\<rparr>))"

definition qp_get_next_recv_wqe :: "'r dpdk \<Rightarrow> 'r usiw_qp \<Rightarrow> ret \<times> nat option \<times> 'r usiw_qp" where
  "qp_get_next_recv_wqe D qp =
     (case rte_ring_dequeue D (rq_free_ring (rq0 qp)) of
        None \<Rightarrow> (Neg ENOSPC, None, qp)
      | Some (wqe, r) \<Rightarrow> (Ok, Some wqe, qp\<lparr>rq0 := (rq0 qp)\<lparr>rq_free_ring := r\<rparr>\<rparr>))"

section \<open>Completions\<close>

definition get_next_cqe :: "'r dpdk \<Rightarrow> 'r usiw_cq \<Rightarrow> ret \<times> nat option \<times> 'r usiw_cq" where
  "get_next_cqe D cq =
     (case rte_ring_dequeue D (cq_free_ring cq) of
        None \<Rightarrow> (Neg ENOENT, None, cq)
      | Some (p, r) \<Rightarrow> (Ok, Some p, cq\<lparr>cq_free_ring := r\<rparr>))"

text \<open>The event is written to the event descriptor of the context; a failed write is only logged.\<close>

definition finish_post_cqe :: "'r dpdk \<Rightarrow> 'r usiw_qp \<Rightarrow> nat \<Rightarrow> nat \<Rightarrow> 'r usiw_qp option" where
  "finish_post_cqe D qp cq cqe = do {
     r \<leftarrow> rte_ring_enqueue D (cqe_ring (cqs qp cq)) cqe;
     let qp = qp\<lparr>cqs := (cqs qp)(cq := (cqs qp cq)\<lparr>cqe_ring := r, notify_flag := False\<rparr>),
                 io := (if notify_flag (cqs qp cq)
                        then (io qp)\<lparr>io_events := io_events (io qp) @ [cq_id (cqs qp cq)]\<rparr> else io qp)\<rparr>;
     Some qp
   }"

definition post_recv_cqe :: "'r dpdk \<Rightarrow> 'r usiw_qp \<Rightarrow> nat \<Rightarrow> ibv_wc_status \<Rightarrow> (ret \<times> 'r usiw_qp) option" where
  "post_recv_cqe D qp wqe status =
     (case get_next_cqe D (cqs qp (recv_cq qp)) of
        (ret, None, _) \<Rightarrow> Some (ret, qp)
      | (_, Some cqe, cq) \<Rightarrow> do {
          let w = recv_wqe qp wqe;
          let cq = cq\<lparr>cq_storage := (cq_storage cq)(cqe := \<lparr>wc_wr_context = rw_wr_context w, wc_status = status,
                 wc_opcode = IBV_WC_RECV, wc_byte_len = ucast (rw_input_size w), wc_qp_num = qp_num qp\<rparr>)\<rparr>;
          let qp = qp\<lparr>cqs := (cqs qp)(recv_cq qp := cq)\<rparr>;
          qp \<leftarrow> qp_free_recv_wqe D qp wqe;
          qp \<leftarrow> finish_post_cqe D qp (recv_cq qp) cqe;
          Some (Ok, qp)
        })"

fun get_ibv_send_wc_opcode :: "usiw_send_opcode \<Rightarrow> ibv_wc_opcode" where
  "get_ibv_send_wc_opcode usiw_wr_send = IBV_WC_SEND"
| "get_ibv_send_wc_opcode usiw_wr_write = IBV_WC_RDMA_WRITE"
| "get_ibv_send_wc_opcode usiw_wr_read = IBV_WC_RDMA_READ"

text \<open>The byte length of the completion entry is not written.\<close>

definition post_send_cqe :: "'r dpdk \<Rightarrow> 'r usiw_qp \<Rightarrow> nat \<Rightarrow> ibv_wc_status \<Rightarrow> (ret \<times> 'r usiw_qp) option" where
  "post_send_cqe D qp wqe status =
     (case get_next_cqe D (cqs qp (send_cq qp)) of
        (ret, None, _) \<Rightarrow> Some (ret, qp)
      | (_, Some cqe, cq) \<Rightarrow> do {
          let w = send_wqe qp wqe;
          let cq = cq\<lparr>cq_storage := (cq_storage cq)(cqe := (cq_storage cq cqe)\<lparr>wc_wr_context := sw_wr_context w,
                 wc_status := status, wc_opcode := get_ibv_send_wc_opcode (sw_opcode w), wc_qp_num := qp_num qp\<rparr>)\<rparr>;
          let qp = qp\<lparr>cqs := (cqs qp)(send_cq qp := cq)\<rparr>;
          qp \<leftarrow> qp_free_send_wqe D qp wqe True;
          qp \<leftarrow> finish_post_cqe D qp (send_cq qp) cqe;
          Some (Ok, qp)
        })"

section \<open>Flushing\<close>

partial_function (option) rq_flush_drain :: "'r dpdk \<Rightarrow> 'r usiw_qp \<Rightarrow> 'r usiw_qp option" where
  "rq_flush_drain D qp =
     (case rte_ring_dequeue D (rq_ring (rq0 qp)) of
        None \<Rightarrow> Some qp
      | Some (wqe, r) \<Rightarrow>
          let qp = qp\<lparr>rq0 := (rq0 qp)\<lparr>rq_ring := r\<rparr>\<rparr>;
              qp = upd_recv_wqe wqe (\<lambda>w. w\<lparr>rw_msn := rq_next_msn (rq0 qp)\<rparr>) qp;
              qp = qp\<lparr>rq0 := (rq0 qp)\<lparr>rq_next_msn := rq_next_msn (rq0 qp) + 1\<rparr>\<rparr>;
              qp = qp\<lparr>rq0 := usiw_recv_wqe_queue_add_active (rq0 qp) wqe\<rparr>
          in rq_flush_drain D qp)"

definition rq_flush :: "'r dpdk \<Rightarrow> 'r usiw_qp \<Rightarrow> 'r usiw_qp option" where
  "rq_flush D qp = do {
     qp \<leftarrow> rq_flush_drain D qp;
     for_each (\<lambda>wqe qp. map_option snd (post_recv_cqe D qp wqe IBV_WC_WR_FLUSH_ERR)) (rq_active (rq0 qp)) qp
   }"

partial_function (option) sq_flush_drain :: "'r dpdk \<Rightarrow> 'r usiw_qp \<Rightarrow> 'r usiw_qp option" where
  "sq_flush_drain D qp =
     (case rte_ring_dequeue D (sq_ring (sq qp)) of
        None \<Rightarrow> Some qp
      | Some (wqe, r) \<Rightarrow>
          let qp = qp\<lparr>sq := (sq qp)\<lparr>sq_ring := r\<rparr>\<rparr>;
              qp = qp\<lparr>sq := usiw_send_wqe_queue_add_active (sq qp) wqe\<rparr>
          in sq_flush_drain D qp)"

definition sq_flush :: "'r dpdk \<Rightarrow> 'r usiw_qp \<Rightarrow> 'r usiw_qp option" where
  "sq_flush D qp = do {
     qp \<leftarrow> sq_flush_drain D qp;
     for_each (\<lambda>wqe qp. map_option snd (post_send_cqe D qp wqe IBV_WC_WR_FLUSH_ERR)) (sq_active (sq qp)) qp
   }"

section \<open>Conservation of entries\<close>

text \<open>
  \<open>pool_ok n xs\<close>: \<open>xs\<close>, the entries of a storage array of \<open>n\<close> elements that are in some list or
  ring, are distinct indices into the array.
\<close>

definition pool_ok :: "nat \<Rightarrow> nat list \<Rightarrow> bool" where
  "pool_ok n xs \<longleftrightarrow> distinct xs \<and> set xs \<subseteq> {..<n}"

definition sq_entries :: "('r \<Rightarrow> nat list) \<Rightarrow> 'r usiw_send_wqe_queue \<Rightarrow> nat list" where
  "sq_entries q s = q (sq_free_ring s) @ q (sq_ring s) @ sq_active s"

definition rq_entries :: "('r \<Rightarrow> nat list) \<Rightarrow> 'r usiw_recv_wqe_queue \<Rightarrow> nat list" where
  "rq_entries q s = q (rq_free_ring s) @ q (rq_ring s) @ rq_active s"

definition cq_entries :: "('r \<Rightarrow> nat list) \<Rightarrow> 'r usiw_cq \<Rightarrow> nat list" where
  "cq_entries q c = q (cq_free_ring c) @ q (cqe_ring c)"

definition sq_ok :: "('r \<Rightarrow> nat list) \<Rightarrow> ('r \<Rightarrow> nat) \<Rightarrow> 'r usiw_send_wqe_queue \<Rightarrow> bool" where
  "sq_ok q cap s \<longleftrightarrow> pool_ok (sq_max_wr s) (sq_entries q s) \<and>
     sq_max_wr s \<le> cap (sq_free_ring s) \<and> sq_max_wr s \<le> cap (sq_ring s)"

definition rq_ok :: "('r \<Rightarrow> nat list) \<Rightarrow> ('r \<Rightarrow> nat) \<Rightarrow> 'r usiw_recv_wqe_queue \<Rightarrow> bool" where
  "rq_ok q cap s \<longleftrightarrow> pool_ok (rq_max_wr s) (rq_entries q s) \<and>
     rq_max_wr s \<le> cap (rq_free_ring s) \<and> rq_max_wr s \<le> cap (rq_ring s)"

definition cq_ok :: "('r \<Rightarrow> nat list) \<Rightarrow> ('r \<Rightarrow> nat) \<Rightarrow> 'r usiw_cq \<Rightarrow> bool" where
  "cq_ok q cap c \<longleftrightarrow> pool_ok (cq_capacity c) (cq_entries q c) \<and>
     cq_capacity c \<le> cap (cq_free_ring c) \<and> cq_capacity c \<le> cap (cqe_ring c)"

definition qp_ok :: "('r \<Rightarrow> nat list) \<Rightarrow> ('r \<Rightarrow> nat) \<Rightarrow> 'r usiw_qp \<Rightarrow> bool" where
  "qp_ok q cap qp \<longleftrightarrow> sq_ok q cap (sq qp) \<and> rq_ok q cap (rq0 qp) \<and>
     cq_ok q cap (cqs qp (send_cq qp)) \<and> cq_ok q cap (cqs qp (recv_cq qp))"

text \<open>The completions waiting in a queue, oldest first.\<close>

definition cq_view :: "('r \<Rightarrow> nat list) \<Rightarrow> 'r usiw_cq \<Rightarrow> usiw_wc list" where
  "cq_view q c = map (cq_storage c) (q (cqe_ring c))"

lemma pool_ok_length: "pool_ok n xs \<Longrightarrow> length xs \<le> n"
  using distinct_card [of xs] card_mono [of "{..<n}" "set xs"] by (simp add: pool_ok_def)

lemma pool_ok_perm: "pool_ok n xs \<Longrightarrow> mset ys = mset xs \<Longrightarrow> pool_ok n ys"
  unfolding pool_ok_def by (metis mset_eq_imp_distinct_iff mset_eq_setD)

text \<open>There is always room to return an entry to a ring.\<close>

lemma ring_enqueue_room:
  assumes "ring_spec D q cap" "pool_ok n (x # q r @ rest)" "n \<le> cap r"
  obtains r' where "rte_ring_enqueue D r x = Some r'" "q r' = q r @ [x]" "cap r' = cap r"
proof -
  have "length (q r) < cap r" using pool_ok_length [OF assms(2)] assms(3) by simp
  then show thesis by (rule ring_spec_enqueue [OF assms(1)]) (rule that)
qed

lemma ring_put_room:
  assumes "ring_spec D q cap" "pool_ok n (x # q r @ rest)" "n \<le> cap r"
  shows "q (ring_put D r x) = q r @ [x]" "cap (ring_put D r x) = cap r"
  by (rule ring_enqueue_room [OF assms], simp add: ring_put_def)+

lemma qp_free_send_wqe_spec:
  assumes "ring_spec D q cap" "sq_ok q cap (sq qp)" "wqe \<in> set (sq_active (sq qp))"
  obtains r where "qp_free_send_wqe D qp wqe True =
      Some (qp\<lparr>sq := (sq qp)\<lparr>sq_active := remove1 wqe (sq_active (sq qp)), sq_free_ring := r\<rparr>\<rparr>)"
    and "q r = q (sq_free_ring (sq qp)) @ [wqe]" "cap r = cap (sq_free_ring (sq qp))"
proof -
  have "pool_ok (sq_max_wr (sq qp)) (wqe # q (sq_free_ring (sq qp)) @ q (sq_ring (sq qp)) @ remove1 wqe (sq_active (sq qp)))"
    by (rule pool_ok_perm [of _ "sq_entries q (sq qp)"])
      (use assms in \<open>auto simp: sq_ok_def sq_entries_def\<close>)
  from ring_put_room [OF assms(1) this] that show thesis
    using assms by (simp add: qp_free_send_wqe_def usiw_send_wqe_queue_del_active_def sq_ok_def)
qed

lemma qp_free_recv_wqe_spec:
  assumes "ring_spec D q cap" "rq_ok q cap (rq0 qp)" "wqe \<in> set (rq_active (rq0 qp))"
  obtains r where "qp_free_recv_wqe D qp wqe =
      Some (qp\<lparr>rq0 := (rq0 qp)\<lparr>rq_active := remove1 wqe (rq_active (rq0 qp)), rq_free_ring := r\<rparr>\<rparr>)"
    and "q r = q (rq_free_ring (rq0 qp)) @ [wqe]" "cap r = cap (rq_free_ring (rq0 qp))"
proof -
  have "pool_ok (rq_max_wr (rq0 qp)) (wqe # q (rq_free_ring (rq0 qp)) @ q (rq_ring (rq0 qp)) @ remove1 wqe (rq_active (rq0 qp)))"
    by (rule pool_ok_perm [of _ "rq_entries q (rq0 qp)"])
      (use assms in \<open>auto simp: rq_ok_def rq_entries_def\<close>)
  from ring_put_room [OF assms(1) this] that show thesis
    using assms by (simp add: qp_free_recv_wqe_def usiw_recv_wqe_queue_del_active_def rq_ok_def)
qed

text \<open>
  One completion: an entry \<open>cqe\<close> is taken from the free ring of the queue, filled, and put on
  the ready ring.
\<close>

lemma cq_post_spec:
  assumes "ring_spec D q cap" "cq_ok q cap c" "rte_ring_dequeue D (cq_free_ring c) = Some (cqe, f)"
  shows "\<exists>r. rte_ring_enqueue D (cqe_ring c) cqe = Some r \<and> q (cq_free_ring c) = cqe # q f \<and>
    (\<forall>wc. cq_ok q cap (c\<lparr>cq_free_ring := f, cq_storage := (cq_storage c)(cqe := wc), cqe_ring := r, notify_flag := b\<rparr>) \<and>
       cq_view q (c\<lparr>cq_free_ring := f, cq_storage := (cq_storage c)(cqe := wc), cqe_ring := r, notify_flag := b\<rparr>)
         = cq_view q c @ [wc])"
proof -
  have f: "q (cq_free_ring c) = cqe # q f" "cap f = cap (cq_free_ring c)"
    using ring_spec_dequeue_Some [OF assms(1,3)] by simp_all
  have pool: "pool_ok (cq_capacity c) (cqe # q (cqe_ring c) @ q f)"
    by (rule pool_ok_perm [of _ "cq_entries q c"]) (use assms(2) in \<open>auto simp: cq_ok_def cq_entries_def f\<close>)
  obtain r where r: "rte_ring_enqueue D (cqe_ring c) cqe = Some r" "q r = q (cqe_ring c) @ [cqe]" "cap r = cap (cqe_ring c)"
    using ring_enqueue_room [OF assms(1) pool] assms(2) by (auto simp: cq_ok_def)
  have "pool_ok (cq_capacity c) (q f @ q (cqe_ring c) @ [cqe])"
    by (rule pool_ok_perm [OF pool]) simp
  moreover have "cqe \<notin> set (q (cqe_ring c))" using pool by (simp add: pool_ok_def)
  ultimately show ?thesis using r f assms(2)
    by (simp add: cq_ok_def cq_entries_def cq_view_def)
qed

lemma post_send_cqe_empty:
  assumes "ring_spec D q cap" "q (cq_free_ring (cqs qp (send_cq qp))) = []"
  shows "post_send_cqe D qp wqe st = Some (Neg ENOENT, qp)"
  using ring_spec_dequeue(1) [OF assms] by (simp add: post_send_cqe_def get_next_cqe_def)

lemma post_recv_cqe_empty:
  assumes "ring_spec D q cap" "q (cq_free_ring (cqs qp (recv_cq qp))) = []"
  shows "post_recv_cqe D qp wqe st = Some (Neg ENOENT, qp)"
  using ring_spec_dequeue(1) [OF assms] by (simp add: post_recv_cqe_def get_next_cqe_def)

text \<open>What posting a completion \<open>wc\<close> to completion queue \<open>i\<close> does to the queue pair.\<close>

definition cqe_posted :: "('r \<Rightarrow> nat list) \<Rightarrow> nat \<Rightarrow> usiw_wc \<Rightarrow> 'r usiw_qp \<Rightarrow> 'r usiw_qp \<Rightarrow> bool" where
  "cqe_posted q i wc qp qp' \<longleftrightarrow>
     cq_view q (cqs qp' i) = cq_view q (cqs qp i) @ [wc] \<and>
     length (q (cq_free_ring (cqs qp i))) = Suc (length (q (cq_free_ring (cqs qp' i)))) \<and>
     (\<forall>j. j \<noteq> i \<longrightarrow> cqs qp' j = cqs qp j) \<and>
     io_events (io qp') = io_events (io qp) @ (if notify_flag (cqs qp i) then [cq_id (cqs qp i)] else []) \<and>
     \<not> notify_flag (cqs qp' i) \<and> cq_id (cqs qp' i) = cq_id (cqs qp i) \<and>
     (io qp')\<lparr>io_events := io_events (io qp)\<rparr> = io qp"

lemma post_send_cqe_spec:
  assumes spec: "ring_spec D q cap" and ok: "qp_ok q cap qp" and act: "wqe \<in> set (sq_active (sq qp))"
    and ne: "q (cq_free_ring (cqs qp (send_cq qp))) \<noteq> []"
  obtains qp' wc where "post_send_cqe D qp wqe st = Some (Ok, qp')" "qp_ok q cap qp'"
    and "cqe_posted q (send_cq qp) wc qp qp'"
    and "wc_wr_context wc = sw_wr_context (send_wqe qp wqe)" "wc_status wc = st"
      "wc_opcode wc = get_ibv_send_wc_opcode (sw_opcode (send_wqe qp wqe))" "wc_qp_num wc = qp_num qp"
    and "sq_active (sq qp') = remove1 wqe (sq_active (sq qp))"
      "q (sq_free_ring (sq qp')) = q (sq_free_ring (sq qp)) @ [wqe]"
    and "(sq qp')\<lparr>sq_active := sq_active (sq qp), sq_free_ring := sq_free_ring (sq qp)\<rparr> = sq qp"
    and "qp'\<lparr>sq := sq qp, cqs := cqs qp, io := io qp\<rparr> = qp"
proof -
  let ?c = "cqs qp (send_cq qp)"
  obtain cqe f where d: "rte_ring_dequeue D (cq_free_ring ?c) = Some (cqe, f)"
    using ne ring_spec_dequeue_None [OF spec] by fastforce
  have cok: "cq_ok q cap ?c" using ok by (simp add: qp_ok_def)
  obtain r where r: "rte_ring_enqueue D (cqe_ring ?c) cqe = Some r"
    and cok': "\<And>wc. cq_ok q cap (?c\<lparr>cq_free_ring := f, cq_storage := (cq_storage ?c)(cqe := wc), cqe_ring := r, notify_flag := False\<rparr>)"
    and view: "\<And>wc. cq_view q (?c\<lparr>cq_free_ring := f, cq_storage := (cq_storage ?c)(cqe := wc), cqe_ring := r, notify_flag := False\<rparr>)
           = cq_view q ?c @ [wc]"
    and f: "q (cq_free_ring ?c) = cqe # q f"
    using cq_post_spec [OF spec cok d, of False] by auto
  define wc where "wc = (cq_storage ?c cqe)\<lparr>wc_wr_context := sw_wr_context (send_wqe qp wqe),
     wc_status := st, wc_opcode := get_ibv_send_wc_opcode (sw_opcode (send_wqe qp wqe)), wc_qp_num := qp_num qp\<rparr>"
  define qp1 where "qp1 = qp\<lparr>cqs := (cqs qp)(send_cq qp := ?c\<lparr>cq_free_ring := f, cq_storage := (cq_storage ?c)(cqe := wc)\<rparr>)\<rparr>"
  have sok: "sq_ok q cap (sq qp1)" using ok by (simp add: qp1_def qp_ok_def)
  obtain s where s: "qp_free_send_wqe D qp1 wqe True =
      Some (qp1\<lparr>sq := (sq qp1)\<lparr>sq_active := remove1 wqe (sq_active (sq qp1)), sq_free_ring := s\<rparr>\<rparr>)"
    "q s = q (sq_free_ring (sq qp)) @ [wqe]" "cap s = cap (sq_free_ring (sq qp))"
    using qp_free_send_wqe_spec [OF spec sok, of wqe] act by (auto simp: qp1_def)
  have pool: "pool_ok (sq_max_wr (sq qp)) (q s @ q (sq_ring (sq qp)) @ remove1 wqe (sq_active (sq qp)))"
    by (rule pool_ok_perm [of _ "sq_entries q (sq qp)"]) (use ok act in \<open>auto simp: qp_ok_def sq_ok_def sq_entries_def s(2)\<close>)
  define qp2 where "qp2 = qp1\<lparr>sq := (sq qp1)\<lparr>sq_active := remove1 wqe (sq_active (sq qp1)), sq_free_ring := s\<rparr>,
    cqs := (cqs qp1)(send_cq qp := (cqs qp1 (send_cq qp))\<lparr>cqe_ring := r, notify_flag := False\<rparr>),
    io := (if notify_flag ?c then (io qp)\<lparr>io_events := io_events (io qp) @ [cq_id ?c]\<rparr> else io qp)\<rparr>"
  have post: "post_send_cqe D qp wqe st = Some (Ok, qp2)"
    by (simp add: post_send_cqe_def get_next_cqe_def d Let_def s(1) finish_post_cqe_def r qp2_def
        wc_def [symmetric] qp1_def [symmetric]) (simp add: qp1_def r)
  show thesis
    using ok cok' [of wc] pool s
    by (intro that [OF post, of wc])
      (simp_all add: qp2_def qp1_def wc_def qp_ok_def sq_ok_def sq_entries_def cqe_posted_def view f)
qed

lemma post_recv_cqe_spec:
  assumes spec: "ring_spec D q cap" and ok: "qp_ok q cap qp" and act: "wqe \<in> set (rq_active (rq0 qp))"
    and ne: "q (cq_free_ring (cqs qp (recv_cq qp))) \<noteq> []"
  obtains qp' wc where "post_recv_cqe D qp wqe st = Some (Ok, qp')" "qp_ok q cap qp'"
    and "cqe_posted q (recv_cq qp) wc qp qp'"
    and "wc_wr_context wc = rw_wr_context (recv_wqe qp wqe)" "wc_status wc = st"
      "wc_opcode wc = IBV_WC_RECV" "wc_byte_len wc = ucast (rw_input_size (recv_wqe qp wqe))" "wc_qp_num wc = qp_num qp"
    and "rq_active (rq0 qp') = remove1 wqe (rq_active (rq0 qp))"
      "q (rq_free_ring (rq0 qp')) = q (rq_free_ring (rq0 qp)) @ [wqe]"
    and "(rq0 qp')\<lparr>rq_active := rq_active (rq0 qp), rq_free_ring := rq_free_ring (rq0 qp)\<rparr> = rq0 qp"
    and "qp'\<lparr>rq0 := rq0 qp, cqs := cqs qp, io := io qp\<rparr> = qp"
proof -
  let ?c = "cqs qp (recv_cq qp)"
  obtain cqe f where d: "rte_ring_dequeue D (cq_free_ring ?c) = Some (cqe, f)"
    using ne ring_spec_dequeue_None [OF spec] by fastforce
  have cok: "cq_ok q cap ?c" using ok by (simp add: qp_ok_def)
  obtain r where r: "rte_ring_enqueue D (cqe_ring ?c) cqe = Some r"
    and cok': "\<And>wc. cq_ok q cap (?c\<lparr>cq_free_ring := f, cq_storage := (cq_storage ?c)(cqe := wc), cqe_ring := r, notify_flag := False\<rparr>)"
    and view: "\<And>wc. cq_view q (?c\<lparr>cq_free_ring := f, cq_storage := (cq_storage ?c)(cqe := wc), cqe_ring := r, notify_flag := False\<rparr>)
           = cq_view q ?c @ [wc]"
    and f: "q (cq_free_ring ?c) = cqe # q f"
    using cq_post_spec [OF spec cok d, of False] by auto
  define wc where "wc = \<lparr>wc_wr_context = rw_wr_context (recv_wqe qp wqe),
     wc_status = st, wc_opcode = IBV_WC_RECV, wc_byte_len = ucast (rw_input_size (recv_wqe qp wqe)), wc_qp_num = qp_num qp\<rparr>"
  define qp1 where "qp1 = qp\<lparr>cqs := (cqs qp)(recv_cq qp := ?c\<lparr>cq_free_ring := f, cq_storage := (cq_storage ?c)(cqe := wc)\<rparr>)\<rparr>"
  have sok: "rq_ok q cap (rq0 qp1)" using ok by (simp add: qp1_def qp_ok_def)
  obtain s where s: "qp_free_recv_wqe D qp1 wqe =
      Some (qp1\<lparr>rq0 := (rq0 qp1)\<lparr>rq_active := remove1 wqe (rq_active (rq0 qp1)), rq_free_ring := s\<rparr>\<rparr>)"
    "q s = q (rq_free_ring (rq0 qp)) @ [wqe]" "cap s = cap (rq_free_ring (rq0 qp))"
    using qp_free_recv_wqe_spec [OF spec sok, of wqe] act by (auto simp: qp1_def)
  have pool: "pool_ok (rq_max_wr (rq0 qp)) (q s @ q (rq_ring (rq0 qp)) @ remove1 wqe (rq_active (rq0 qp)))"
    by (rule pool_ok_perm [of _ "rq_entries q (rq0 qp)"]) (use ok act in \<open>auto simp: qp_ok_def rq_ok_def rq_entries_def s(2)\<close>)
  define qp2 where "qp2 = qp1\<lparr>rq0 := (rq0 qp1)\<lparr>rq_active := remove1 wqe (rq_active (rq0 qp1)), rq_free_ring := s\<rparr>,
    cqs := (cqs qp1)(recv_cq qp := (cqs qp1 (recv_cq qp))\<lparr>cqe_ring := r, notify_flag := False\<rparr>),
    io := (if notify_flag ?c then (io qp)\<lparr>io_events := io_events (io qp) @ [cq_id ?c]\<rparr> else io qp)\<rparr>"
  have post: "post_recv_cqe D qp wqe st = Some (Ok, qp2)"
    by (simp add: post_recv_cqe_def get_next_cqe_def d Let_def s(1) finish_post_cqe_def r qp2_def
        wc_def [symmetric] qp1_def [symmetric]) (simp add: qp1_def r)
  show thesis
    using ok cok' [of wc] pool s
    by (intro that [OF post, of wc])
      (simp_all add: qp2_def qp1_def wc_def qp_ok_def rq_ok_def rq_entries_def cqe_posted_def view f)
qed

section \<open>Flushing completes every outstanding request\<close>

lemma sq_flush_drain_spec:
  assumes "ring_spec D q cap"
  shows "\<exists>r. sq_flush_drain D qp =
      Some (qp\<lparr>sq := (sq qp)\<lparr>sq_ring := r, sq_active := sq_active (sq qp) @ q (sq_ring (sq qp))\<rparr>\<rparr>) \<and>
    q r = [] \<and> cap r = cap (sq_ring (sq qp))"
proof (induction "q (sq_ring (sq qp))" arbitrary: qp)
  case Nil
  then show ?case
    using ring_spec_dequeue(1) [OF assms] by (subst sq_flush_drain.simps) (simp add: exI [of _ "sq_ring (sq qp)"])
next
  case (Cons x xs)
  obtain r where r: "rte_ring_dequeue D (sq_ring (sq qp)) = Some (x, r)" "q r = xs" "cap r = cap (sq_ring (sq qp))"
    using ring_spec_dequeue(2) [OF assms Cons.hyps(2) [symmetric]] by auto
  let ?qp = "qp\<lparr>sq := (sq qp)\<lparr>sq_ring := r, sq_active := sq_active (sq qp) @ [x]\<rparr>\<rparr>"
  have "sq_flush_drain D qp = sq_flush_drain D ?qp"
    by (subst sq_flush_drain.simps) (simp add: r usiw_send_wqe_queue_add_active_def Let_def)
  moreover obtain r' where "sq_flush_drain D ?qp =
      Some (?qp\<lparr>sq := (sq ?qp)\<lparr>sq_ring := r', sq_active := sq_active (sq ?qp) @ q (sq_ring (sq ?qp))\<rparr>\<rparr>)"
    "q r' = []" "cap r' = cap (sq_ring (sq ?qp))"
    using Cons.hyps(1) [of ?qp] r(2) by auto
  ultimately show ?case using r Cons.hyps(2) [symmetric] by (intro exI [of _ r']) simp
qed

lemma sq_flush_posts_stuck:
  assumes "ring_spec D q cap" "q (cq_free_ring (cqs qp (send_cq qp))) = []"
  shows "for_each (\<lambda>wqe qp. map_option snd (post_send_cqe D qp wqe st)) xs qp = Some qp"
  using post_send_cqe_empty [OF assms] by (induction xs) simp_all

definition flushed_send :: "'r usiw_qp \<Rightarrow> ibv_wc_status \<Rightarrow> nat \<Rightarrow> usiw_wc \<Rightarrow> bool" where
  "flushed_send qp st i wc \<longleftrightarrow> wc_wr_context wc = sw_wr_context (send_wqe qp i) \<and> wc_status wc = st \<and>
     wc_opcode wc = get_ibv_send_wc_opcode (sw_opcode (send_wqe qp i)) \<and> wc_qp_num wc = qp_num qp"

lemma sq_flush_posts:
  assumes spec: "ring_spec D q cap"
  shows "qp_ok q cap qp \<Longrightarrow> sq_active (sq qp) = xs \<Longrightarrow>
    n = min (length xs) (length (q (cq_free_ring (cqs qp (send_cq qp))))) \<Longrightarrow>
    \<exists>qp' wcs. for_each (\<lambda>wqe qp. map_option snd (post_send_cqe D qp wqe st)) xs qp = Some qp' \<and>
      qp_ok q cap qp' \<and> sq_active (sq qp') = drop n xs \<and>
      q (sq_free_ring (sq qp')) = q (sq_free_ring (sq qp)) @ take n xs \<and>
      cq_view q (cqs qp' (send_cq qp)) = cq_view q (cqs qp (send_cq qp)) @ wcs \<and>
      list_all2 (flushed_send qp st) (take n xs) wcs \<and>
      (sq qp')\<lparr>sq_active := sq_active (sq qp), sq_free_ring := sq_free_ring (sq qp)\<rparr> = sq qp \<and>
      qp'\<lparr>sq := sq qp, cqs := cqs qp, io := io qp\<rparr> = qp"
proof (induction xs arbitrary: qp n)
  case Nil
  then show ?case by auto
next
  case (Cons x xs)
  show ?case
  proof (cases "q (cq_free_ring (cqs qp (send_cq qp)))")
    case Nil
    then show ?thesis using Cons.prems sq_flush_posts_stuck [OF spec Nil, of st "x # xs"] by auto
  next
    case (Cons c cs)
    have act: "x \<in> set (sq_active (sq qp))" using Cons.prems by simp
    obtain qp1 wc where p: "post_send_cqe D qp x st = Some (Ok, qp1)" "qp_ok q cap qp1"
      "cqe_posted q (send_cq qp) wc qp qp1" "flushed_send qp st x wc"
      "sq_active (sq qp1) = xs" "q (sq_free_ring (sq qp1)) = q (sq_free_ring (sq qp)) @ [x]"
      "(sq qp1)\<lparr>sq_active := sq_active (sq qp), sq_free_ring := sq_free_ring (sq qp)\<rparr> = sq qp"
      "qp1\<lparr>sq := sq qp, cqs := cqs qp, io := io qp\<rparr> = qp"
      by (rule post_send_cqe_spec [OF spec Cons.prems(1) act, of st])
        (use Cons Cons.prems in \<open>auto simp: flushed_send_def\<close>)
    have same: "send_cq qp1 = send_cq qp" "qp_num qp1 = qp_num qp" "sq_storage (sq qp1) = sq_storage (sq qp)"
      using arg_cong [OF p(8), of send_cq] arg_cong [OF p(8), of qp_num] arg_cong [OF p(7), of sq_storage]
      by simp_all
    have fl: "flushed_send qp1 st = flushed_send qp st"
      by (simp add: fun_eq_iff flushed_send_def same)
    define k where "k = min (length xs) (length (q (cq_free_ring (cqs qp1 (send_cq qp1)))))"
    have n: "n = Suc k"
      using Cons.prems(3) p(3) by (simp add: k_def same cqe_posted_def)
    have view: "cq_view q (cqs qp1 (send_cq qp1)) = cq_view q (cqs qp (send_cq qp)) @ [wc]"
      using p(3) by (simp add: same cqe_posted_def)
    obtain qp2 wcs where r: "for_each (\<lambda>wqe qp. map_option snd (post_send_cqe D qp wqe st)) xs qp1 = Some qp2"
      "qp_ok q cap qp2" "sq_active (sq qp2) = drop k xs"
      "q (sq_free_ring (sq qp2)) = q (sq_free_ring (sq qp1)) @ take k xs"
      "cq_view q (cqs qp2 (send_cq qp1)) = cq_view q (cqs qp1 (send_cq qp1)) @ wcs"
      "list_all2 (flushed_send qp1 st) (take k xs) wcs"
      "(sq qp2)\<lparr>sq_active := sq_active (sq qp1), sq_free_ring := sq_free_ring (sq qp1)\<rparr> = sq qp1"
      "qp2\<lparr>sq := sq qp1, cqs := cqs qp1, io := io qp1\<rparr> = qp1"
      using Cons.IH [OF p(2) p(5) k_def] by blast
    have "(sq qp2)\<lparr>sq_active := sq_active (sq qp), sq_free_ring := sq_free_ring (sq qp)\<rparr> = sq qp"
      using arg_cong [OF r(7), of "\<lambda>s. s\<lparr>sq_active := sq_active (sq qp), sq_free_ring := sq_free_ring (sq qp)\<rparr>"] p(7)
      by simp
    moreover have "qp2\<lparr>sq := sq qp, cqs := cqs qp, io := io qp\<rparr> = qp"
      using arg_cong [OF r(8), of "\<lambda>s. s\<lparr>sq := sq qp, cqs := cqs qp, io := io qp\<rparr>"] p(8) by simp
    ultimately show ?thesis
      using r p view fl n same by (intro exI [of _ qp2] exI [of _ "wc # wcs"]) simp
  qed
qed

section \<open>A concrete queue pair\<close>

text \<open>
  Used by the witnesses, on top of \<^const>\<open>example_env\<close>: a running queue pair with one active
  send request, one more in the send ring, one active receive request, a completion queue of
  four entries shared by both directions, a segment size of four bytes and a window of eight
  datagrams.
\<close>

definition example_send_wqe :: "nat \<Rightarrow> usiw_send_wqe" where
  "example_send_wqe i = (zero_send_wqe 2)\<lparr>sw_wr_context := 100 + of_nat i, sw_remote_ep := True,
     sw_flags := 1, sw_state := (if i = 0 then SEND_WQE_TRANSFER else SEND_WQE_INIT), sw_msn := 1,
     sw_total_length := 7, sw_iov_count := 2, sw_iov := iov_image two_segments\<rparr>"

definition example_recv_wqe :: "nat \<Rightarrow> usiw_recv_wqe" where
  "example_recv_wqe i = (zero_recv_wqe 2)\<lparr>rw_wr_context := 200 + of_nat i, rw_remote_ep := True,
     rw_msn := 1, rw_total_request_size := 7, rw_iov_count := 2, rw_iov := iov_image two_segments\<rparr>"

definition example_cq :: "(nat list \<times> nat) usiw_cq" where
  "example_cq = \<lparr>cq_refcnt = 2, cqe_ring = ([], 7), cq_free_ring = ([0, 1, 2, 3], 7),
     cq_storage = \<lambda>_. \<lparr>wc_wr_context = 0, wc_status = IBV_WC_SUCCESS, wc_opcode = IBV_WC_SEND,
       wc_byte_len = 0, wc_qp_num = 0\<rparr>,
     cq_capacity = 4, cq_qp_count = 1, cq_id = 9, notify_flag = True\<rparr>"

definition example_shm :: urdmad_qp where
  "example_shm = \<lparr>conn_state = usiw_qp_running, ord_max = 4, ird_max = 4, shm_dev_id = 0, shm_qp_id = 1,
     shm_rx_queue = 1, shm_tx_queue = 1, local_udp_port = 0x1027, remote_udp_port = 0x1127,
     local_ipv4_addr = 0x0100000a, remote_ipv4_addr = 0x0200000a, remote_ether_addr = [2, 0, 0, 0, 0, 2],
     rx_desc_count = 16, tx_desc_count = 16, rx_burst_size = 4, tx_burst_size = 4, shm_mtu = 4\<rparr>"

definition example_ep :: "(nat list \<times> nat) ee_state" where
  "example_ep = \<lparr>expected_read_msn = 1, expected_ack_msn = 1, next_send_msn = 1, next_read_msn = 1,
     next_ack_msn = 1, send_last_acked_psn = 0, send_next_psn = 0, send_max_psn = 8, recv_ack_psn = 0,
     recv_rresp_last_psn = \<lparr>bh_size = 0, bh_capacity = 4, bh_arr = [0, 0, 0, 0]\<rparr>, trp_flags = 0,
     recv_sack_psn = \<lparr>psn_min = 0, psn_max = 0\<rparr>, tx_pending = replicate 8 Null, tx_head = 0,
     tx_pending_size = 8, rx_queue = None\<rparr>"

definition example_qp :: "(nat list \<times> nat) usiw_qp" where
  "example_qp = \<lparr>qp_num = 1, qp_flags = 0, qp_refcnt = 2, shm_qp = example_shm,
     qp_dev = \<lparr>dev_portid = 0, dev_max_qp = 8, dev_flags = 0, dev_ipv4_addr = 0x0100000a\<rparr>,
     send_cq = 0, recv_cq = 0, cqs = \<lambda>_. example_cq, txq = [],
     sq = \<lparr>sq_ring = ([1], 7), sq_free_ring = ([2, 3], 7), sq_active = [0], sq_storage = example_send_wqe,
       sq_max_wr = 4, sq_max_sge = 2, sq_max_inline = 32\<rparr>,
     rq0 = \<lparr>rq_ring = ([], 7), rq_free_ring = ([1, 2, 3], 7), rq_active = [0], rq_next_msn = 2,
       rq_storage = example_recv_wqe, rq_max_wr = 4, rq_max_sge = 2\<rparr>,
     readresp_store = replicate 4 \<lparr>rr_vaddr = 0, rr_msg_size = 0, rr_sink_stag = 0, rr_sink_ofs = 0,
       rr_active = False, rr_sink_ep = False\<rparr>,
     readresp_head_msn = 1, ord_active = 0, qp_pd = pd_example, remote_ep = example_ep,
     qp_stats = \<lparr>recv_count_histo = replicate 5 0, recv_max_burst_size = 4, recv_psn_gap_count = 0,
       recv_retransmit_count = 0, recv_sack_count = 0\<rparr>,
     qp_mem = \<lambda>a. ucast a,
     io = \<lparr>io_tick = 0, io_wire = [], io_events = [], io_kernel = [], io_sock = [], io_cq_freed = []\<rparr>\<rparr>"

lemma example_qp_ok: "qp_ok fst snd example_qp"
  by (simp add: example_qp_def qp_ok_def sq_ok_def rq_ok_def cq_ok_def pool_ok_def sq_entries_def
      rq_entries_def cq_entries_def example_cq_def)

section \<open>Properties\<close>

text \<open>
  Posting a send completion. With no free completion entry the call fails with \<^verbatim>\<open>-ENOENT\<close>
  and changes nothing: the request stays active. Otherwise it succeeds: one completion with the
  context, opcode and status of the request is appended to the completion queue, the request
  moves from the active list to the free ring, the application is notified exactly if it had
  asked to be, every work request and completion entry is still in exactly one place, and
  nothing else changes. In particular the assertion that the completion ring has room never
  fails.
\<close>

lemma post_send_cqe_posts:
  assumes "ring_spec D q cap" "qp_ok q cap qp" "wqe \<in> set (sq_active (sq qp))"
  shows "if q (cq_free_ring (cqs qp (send_cq qp))) = [] then post_send_cqe D qp wqe st = Some (Neg ENOENT, qp)
    else \<exists>qp' wc. post_send_cqe D qp wqe st = Some (Ok, qp') \<and> qp_ok q cap qp' \<and>
      cqe_posted q (send_cq qp) wc qp qp' \<and> flushed_send qp st wqe wc \<and>
      sq_active (sq qp') = remove1 wqe (sq_active (sq qp)) \<and>
      q (sq_free_ring (sq qp')) = q (sq_free_ring (sq qp)) @ [wqe] \<and>
      (sq qp')\<lparr>sq_active := sq_active (sq qp), sq_free_ring := sq_free_ring (sq qp)\<rparr> = sq qp \<and>
      qp'\<lparr>sq := sq qp, cqs := cqs qp, io := io qp\<rparr> = qp"
proof (cases "q (cq_free_ring (cqs qp (send_cq qp))) = []")
  case True
  then show ?thesis using post_send_cqe_empty [OF assms(1)] by simp
next
  case False
  show ?thesis
    by (rule post_send_cqe_spec [OF assms False, of st]) (use False in \<open>auto simp: flushed_send_def\<close>)
qed

lemma post_send_cqe_posts_example:
  "qp_ok fst snd example_qp \<and>
   (\<exists>qp'. post_send_cqe example_env example_qp 0 IBV_WC_SUCCESS = Some (Ok, qp') \<and>
      sq_active (sq qp') = [] \<and> fst (sq_free_ring (sq qp')) = [2, 3, 0] \<and> io_events (io qp') = [9])"
  using post_send_cqe_posts [OF example_env_ring_spec example_qp_ok, of 0 IBV_WC_SUCCESS] example_qp_ok
  by (auto simp: example_qp_def example_cq_def cqe_posted_def)

text \<open>
  C19. Flushing the send queue. The call always returns. It empties the send ring into the
  active list and then completes with the flush status, in order, as many requests from its front
  as the completion queue has free entries; these are back on the free ring. The requests behind
  them stay on the active list, without a completion. With enough free entries every outstanding
  request is completed and none is left in the ring or on the active list.
\<close>

theorem sq_flush_completes:
  assumes "ring_spec D q cap" "qp_ok q cap qp"
    and "all = sq_active (sq qp) @ q (sq_ring (sq qp))"
    and "n = min (length all) (length (q (cq_free_ring (cqs qp (send_cq qp)))))"
  shows "\<exists>qp' wcs. sq_flush D qp = Some qp' \<and> qp_ok q cap qp' \<and> q (sq_ring (sq qp')) = [] \<and>
      sq_active (sq qp') = drop n all \<and> q (sq_free_ring (sq qp')) = q (sq_free_ring (sq qp)) @ take n all \<and>
      cq_view q (cqs qp' (send_cq qp)) = cq_view q (cqs qp (send_cq qp)) @ wcs \<and>
      list_all2 (flushed_send qp IBV_WC_WR_FLUSH_ERR) (take n all) wcs"
proof -
  obtain r where d: "sq_flush_drain D qp = Some (qp\<lparr>sq := (sq qp)\<lparr>sq_ring := r, sq_active := all\<rparr>\<rparr>)"
    "q r = []" "cap r = cap (sq_ring (sq qp))"
    using sq_flush_drain_spec [OF assms(1), of qp] assms(3) by auto
  let ?qp = "qp\<lparr>sq := (sq qp)\<lparr>sq_ring := r, sq_active := all\<rparr>\<rparr>"
  have "pool_ok (sq_max_wr (sq qp)) (q (sq_free_ring (sq qp)) @ all)"
    by (rule pool_ok_perm [of _ "sq_entries q (sq qp)"])
      (use assms in \<open>auto simp: qp_ok_def sq_ok_def sq_entries_def\<close>)
  then have ok: "qp_ok q cap ?qp" using assms(2) d by (simp add: qp_ok_def sq_ok_def sq_entries_def)
  have fl: "flushed_send ?qp st = flushed_send qp st" for st
    by (simp add: fun_eq_iff flushed_send_def)
  obtain qp' wcs where p: "for_each (\<lambda>wqe qp. map_option snd (post_send_cqe D qp wqe IBV_WC_WR_FLUSH_ERR)) all ?qp = Some qp'"
    "qp_ok q cap qp'" "sq_active (sq qp') = drop n all" "q (sq_free_ring (sq qp')) = q (sq_free_ring (sq qp)) @ take n all"
    "cq_view q (cqs qp' (send_cq qp)) = cq_view q (cqs qp (send_cq qp)) @ wcs"
    "list_all2 (flushed_send qp IBV_WC_WR_FLUSH_ERR) (take n all) wcs"
    "(sq qp')\<lparr>sq_active := all, sq_free_ring := sq_free_ring (sq qp)\<rparr> = sq ?qp"
    using sq_flush_posts [OF assms(1) ok, of all n IBV_WC_WR_FLUSH_ERR] assms(4) by (auto simp: fl)
  have "q (sq_ring (sq qp')) = []" using arg_cong [OF p(7), of sq_ring] d(2) by simp
  then show ?thesis using p d by (auto simp: sq_flush_def)
qed

theorem sq_flush_completes_witness:
  "qp_ok fst snd example_qp \<and>
   (\<exists>qp'. sq_flush example_env example_qp = Some qp' \<and> sq_active (sq qp') = [] \<and>
      fst (sq_free_ring (sq qp')) = [2, 3, 0, 1])"
  using sq_flush_completes [OF example_env_ring_spec example_qp_ok refl refl] example_qp_ok
  by (auto simp: example_qp_def example_cq_def)

end
