(* ===== verification/Tx_Path.thy ===== *)
theory Tx_Path
  imports Queues
begin

text \<open>
  Transmission (\<^verbatim>\<open>liburdma/interface.c\<close>): the transmit queue and its flush, the Ethernet, IPv4
  and UDP headers, first transmission and retransmission of a DDP segment, and the TRP control
  datagrams. The host is little-endian: an unconverted 16-bit or 32-bit value that is already
  in network byte order goes to the wire as its memory image.
\<close>

section \<open>The transmit queue\<close>

definition wired :: "frame list \<Rightarrow> 'r usiw_qp \<Rightarrow> 'r usiw_qp" where
  "wired frs qp = qp\<lparr>io := (io qp)\<lparr>io_wire := io_wire (io qp) @ frs\<rparr>\<rparr>"

text \<open>
  The loop of \<^verbatim>\<open>flush_tx_queue\<close>; \<open>rest\<close> are the frames from \<open>begin\<close> to \<open>txq_end\<close>. A driver that
  claims more packets than it was offered moves \<open>begin\<close> past the end.
\<close>

partial_function (option) flush_tx_loop :: "'r dpdk \<Rightarrow> 'r usiw_qp \<Rightarrow> frame list \<Rightarrow> 'r usiw_qp option" where
  "flush_tx_loop D qp rest =
     (let n = rte_eth_tx_burst D (tick qp) (length rest) in
      if length rest < n then None
      else let qp = wired (take n rest) (ticked qp) in
        if drop n rest = [] then Some qp else flush_tx_loop D qp (drop n rest))"

definition flush_tx_queue :: "'r dpdk \<Rightarrow> 'r usiw_qp \<Rightarrow> 'r usiw_qp option" where
  "flush_tx_queue D qp = do {
     qp \<leftarrow> flush_tx_loop D qp (txq qp);
     Some (qp\<lparr>txq := []\<rparr>)
   }"

definition ETHER_TYPE_IPv4 :: u16 where "ETHER_TYPE_IPv4 = 0x0800"
definition IP_HDR_PROTO_UDP :: u8 where "IP_HDR_PROTO_UDP = 17"

text \<open>\<^verbatim>\<open>rte_pktmbuf_prepend\<close> returns null, and the code faults, when the headroom is too small.\<close>

definition prepend :: "frame \<Rightarrow> u8 list \<Rightarrow> frame option" where
  "prepend fr bs = (if length bs \<le> fr_headroom fr
     then Some (fr\<lparr>fr_data := bs @ fr_data fr, fr_headroom := fr_headroom fr - length bs\<rparr>) else None)"

definition enqueue_ether_frame :: "'r dpdk \<Rightarrow> frame \<Rightarrow> u16 \<Rightarrow> 'r usiw_qp \<Rightarrow> u8 list \<Rightarrow> 'r usiw_qp option" where
  "enqueue_ether_frame D sendmsg ether_type qp dst_addr = do {
     sendmsg \<leftarrow> prepend sendmsg (dst_addr @ rte_eth_macaddr_get D (dev_portid (qp_dev qp)) @ put_be 2 ether_type);
     let sendmsg = sendmsg\<lparr>fr_l2_len := 14\<rparr>;
     assert_c (length (txq qp) < unat (tx_burst_size (shm_qp qp)));
     let qp = qp\<lparr>txq := txq qp @ [sendmsg]\<rparr>;
     if length (txq qp) = unat (tx_burst_size (shm_qp qp)) then flush_tx_queue D qp else Some qp
   }"

definition ipv4_hdr_bytes :: "nat \<Rightarrow> u8 \<Rightarrow> u16 \<Rightarrow> u32 \<Rightarrow> u32 \<Rightarrow> u8 list" where
  "ipv4_hdr_bytes payload_length next_proto_id hdr_checksum src_addr dst_addr =
     [0x45, 0] @ put_be 2 (of_nat (20 + payload_length) :: u16) @ [0, 0] @ [0, 0] @ [64, next_proto_id]
     @ put_le 2 hdr_checksum @ put_le 4 src_addr @ put_le 4 dst_addr"

definition prepend_ipv4_header :: "'r dpdk \<Rightarrow> frame \<Rightarrow> u8 \<Rightarrow> u32 \<Rightarrow> u32 \<Rightarrow> frame option" where
  "prepend_ipv4_header D sendmsg next_proto_id src_addr dst_addr = do {
     let len = length (fr_data sendmsg);
     let ck = (if PKT_TX_IP_CKSUM \<in> set (fr_flags sendmsg) then 0
               else rte_ipv4_cksum D (ipv4_hdr_bytes len next_proto_id 0 src_addr dst_addr));
     sendmsg \<leftarrow> prepend sendmsg (ipv4_hdr_bytes len next_proto_id ck src_addr dst_addr);
     Some (sendmsg\<lparr>fr_l3_len := 20\<rparr>)
   }"

definition udp_hdr_bytes :: "u16 \<Rightarrow> u16 \<Rightarrow> nat \<Rightarrow> u16 \<Rightarrow> u8 list" where
  "udp_hdr_bytes src_port dst_port payload_length dgram_cksum =
     put_le 2 src_port @ put_le 2 dst_port @ put_be 2 (of_nat (8 + payload_length) :: u16) @ put_le 2 dgram_cksum"

definition prepend_udp_header :: "frame \<Rightarrow> u16 \<Rightarrow> u16 \<Rightarrow> frame option" where
  "prepend_udp_header sendmsg src_port dst_port = do {
     sendmsg \<leftarrow> prepend sendmsg (udp_hdr_bytes src_port dst_port (length (fr_data sendmsg)) 0);
     Some (sendmsg\<lparr>fr_l4_len := 8\<rparr>)
   }"

section \<open>The UDP checksum\<close>

definition add_carry :: "u32 \<Rightarrow> u32" where
  "add_carry raw_cksum = drop_bit 16 raw_cksum + (raw_cksum AND 0xffff)"

lemma unat_add_carry: "unat (add_carry raw) = unat raw div 65536 + unat raw mod 65536"
proof -
  have "raw AND 0xffff = take_bit 16 raw" by (simp add: take_bit_eq_mask mask_eq_exp_minus_1)
  then have low: "unat (raw AND 0xffff) = unat raw mod 65536"
    by (simp add: take_bit_eq_mod unat_mod)
  have high: "unat (drop_bit 16 raw) = unat raw div 65536"
    by (simp add: drop_bit_eq_div unat_div)
  have "unat raw < 4294967296" using unat_bound [of raw] by simp
  then have "unat raw div 65536 < 65536" by (simp add: less_mult_imp_div_less)
  then show ?thesis unfolding add_carry_def
    by (subst unat_add_no_overflow) (simp_all add: low high)
qed

function fold_carry :: "u32 \<Rightarrow> u32" where
  "fold_carry raw_cksum = (if raw_cksum > 0xffff then fold_carry (add_carry raw_cksum) else raw_cksum)"
  by pat_completeness auto
termination
proof (relation "measure unat")
  fix raw :: u32 assume "0xffff < raw"
  then have "65536 \<le> unat raw" by (simp add: word_less_nat_alt)
  then have "1 \<le> unat raw div 65536" by simp
  then have "unat raw div 65536 + unat raw mod 65536 < unat raw"
    using div_mult_mod_eq [of "unat raw" 65536] by linarith
  then show "(add_carry raw, raw) \<in> measure unat" by (simp add: unat_add_carry)
qed simp

declare fold_carry.simps [simp del]

text \<open>\<open>rte_cpu_to_be_16\<close>: the integer whose memory image on this host is big-endian.\<close>

definition cpu_to_be_16 :: "u16 \<Rightarrow> u16" where
  "cpu_to_be_16 v = join_le (put_be 2 v)"

definition udp_dgram_cksum :: "u32 \<Rightarrow> u16 \<Rightarrow> u16 \<Rightarrow> u16 \<Rightarrow> u16 \<Rightarrow> u16" where
  "udp_dgram_cksum raw_cksum phdr src_port dst_port dgram_len =
     (let raw_cksum = fold_carry (raw_cksum + (ucast phdr + ucast src_port + ucast dst_port + ucast dgram_len))
      in if raw_cksum = 0xffff then 0xffff else ucast (NOT raw_cksum))"

text \<open>
  \<^verbatim>\<open>udp\<close> points behind the IPv4 header once that is prepended: its checksum is at offset 26.
\<close>

definition send_udp_dgram :: "'r dpdk \<Rightarrow> 'r usiw_qp \<Rightarrow> frame \<Rightarrow> u32 \<Rightarrow> 'r usiw_qp option" where
  "send_udp_dgram D qp sendmsg raw_cksum = do {
     let sendmsg = (if dev_flags (qp_dev qp) AND port_checksum_offload \<noteq> 0
        then sendmsg\<lparr>fr_flags := fr_flags sendmsg @ [PKT_TX_UDP_CKSUM, PKT_TX_IPV4, PKT_TX_IP_CKSUM]\<rparr> else sendmsg);
     let len = length (fr_data sendmsg);
     sendmsg \<leftarrow> prepend_udp_header sendmsg (local_udp_port (shm_qp qp)) (remote_udp_port (shm_qp qp));
     sendmsg \<leftarrow> prepend_ipv4_header D sendmsg IP_HDR_PROTO_UDP (dev_ipv4_addr (qp_dev qp)) (remote_ipv4_addr (shm_qp qp));
     let dgram_cksum = rte_ipv4_phdr_cksum D (take 20 (fr_data sendmsg)) (fr_flags sendmsg);
     let dgram_cksum = (if PKT_TX_UDP_CKSUM \<in> set (fr_flags sendmsg) then dgram_cksum
        else udp_dgram_cksum raw_cksum dgram_cksum (local_udp_port (shm_qp qp)) (remote_udp_port (shm_qp qp))
               (cpu_to_be_16 (of_nat (8 + len))));
     let sendmsg = sendmsg\<lparr>fr_data := overlay (fr_data sendmsg) 26 (put_le 2 dgram_cksum)\<rparr>;
     enqueue_ether_frame D sendmsg ETHER_TYPE_IPv4 qp (remote_ether_addr (shm_qp qp))
   }"

section \<open>DDP segments\<close>

definition RETRANSMIT_MAX :: u16 where "RETRANSMIT_MAX = 5"

text \<open>
  A header mbuf with the TRP header, followed by the chained payload. \<^verbatim>\<open>rte_pktmbuf_append\<close>
  returns null when the tailroom is too small.
\<close>

definition hdr_frame :: "'r dpdk \<Rightarrow> tx_mbuf \<Rightarrow> trp_hdr \<Rightarrow> u8 list \<Rightarrow> frame option" where
  "hdr_frame D hdr trp payload =
     (if 10 \<le> pktmbuf_tailroom D tx_hdr_mempool
      then Some \<lparr>fr_data = mb_data hdr @ trp_hdr_bytes trp @ payload,
                 fr_headroom = pktmbuf_headroom D tx_hdr_mempool, fr_flags = [],
                 fr_l2_len = 0, fr_l3_len = 0, fr_l4_len = 0\<rparr>
      else None)"

definition clear_ack_update :: "'r ee_state \<Rightarrow> 'r ee_state" where
  "clear_ack_update ep = ep\<lparr>trp_flags := trp_flags ep AND NOT trp_ack_update\<rparr>"

definition set_slot :: "nat \<Rightarrow> tx_slot \<Rightarrow> 'r ee_state \<Rightarrow> 'r ee_state" where
  "set_slot i s ep = ep\<lparr>tx_pending := (tx_pending ep)[i := s]\<rparr>"

definition slot_mbuf :: "'r ee_state \<Rightarrow> nat \<Rightarrow> tx_mbuf option" where
  "slot_mbuf ep i = (if i < length (tx_pending ep) then
     case tx_pending ep ! i of Mbuf m \<Rightarrow> Some m | _ \<Rightarrow> None else None)"

text \<open>
  \<open>i\<close> is the slot of the datagram in \<^verbatim>\<open>tx_pending\<close>. The test \<^verbatim>\<open>!qp->dev->flags & port_checksum_offload\<close>
  negates before it masks: it holds exactly when no flag is set.
\<close>

definition resend_ddp_segment :: "'r dpdk \<Rightarrow> 'r usiw_qp \<Rightarrow> nat \<Rightarrow> (ret \<times> 'r usiw_qp) option" where
  "resend_ddp_segment D qp i = do {
     m \<leftarrow> slot_mbuf (remote_ep qp) i;
     let now = rte_get_timer_cycles D (tick qp);
     let qp = ticked qp;
     let old_count = transmit_count m;
     let m = m\<lparr>next_retransmit := now + rte_get_timer_hz D div 100, transmit_count := old_count + 1\<rparr>;
     let qp = map_ep (set_slot i (Mbuf m)) qp;
     if RETRANSMIT_MAX < old_count then Some (Neg EIO, qp)
     else case rte_pktmbuf_alloc D tx_hdr_mempool (tick qp) of
       None \<Rightarrow> Some (Neg ENOMEM, ticked qp)
     | Some hdr \<Rightarrow> do {
         let qp = ticked qp;
         assert_c (rte_pktmbuf_clone D (tick qp));
         let qp = ticked qp;
         let trp = \<lparr>trp_psn = pd_psn m, trp_ack_psn = recv_ack_psn (remote_ep qp), trp_opcode = 0\<rparr>;
         fr \<leftarrow> hdr_frame D hdr trp (mb_data m);
         let qp = (if trp_flags (remote_ep qp) AND trp_recv_missing = 0 then map_ep clear_ack_update qp else qp);
         let cksum = (if dev_flags (qp_dev qp) = 0
            then ddp_raw_cksum m + ucast (rte_raw_cksum D (trp_hdr_bytes trp)) else 0);
         qp \<leftarrow> send_udp_dgram D qp fr cksum;
         Some (Ok, qp)
       }
   }"

definition tx_pending_entry :: "'r ee_state \<Rightarrow> u32 \<Rightarrow> nat" where
  "tx_pending_entry ep psn = unat (psn AND (of_nat (tx_pending_size ep) - 1))"

definition send_ddp_segment ::
  "'r dpdk \<Rightarrow> 'r usiw_qp \<Rightarrow> tx_mbuf \<Rightarrow> nat option \<Rightarrow> nat option \<Rightarrow> u64 \<Rightarrow> (u32 \<times> 'r usiw_qp) option" where
  "send_ddp_segment D qp sendmsg readresp wqe payload_length = do {
     let psn = send_next_psn (remote_ep qp);
     let qp = map_ep (\<lambda>ep. ep\<lparr>send_next_psn := psn + 1\<rparr>) qp;
     let m = sendmsg\<lparr>pd_wqe := wqe, pd_readresp := readresp, transmit_count := 0,
        ddp_length := ucast payload_length,
        ddp_raw_cksum := (if dev_flags (qp_dev qp) = 0 then ucast (rte_raw_cksum D (mb_data sendmsg))
                          else ddp_raw_cksum sendmsg),
        pd_psn := psn\<rparr>;
     let i = tx_pending_entry (remote_ep qp) psn;
     assert_c (i < length (tx_pending (remote_ep qp)));
     assert_c (tx_pending (remote_ep qp) ! i = Null);
     let qp = map_ep (set_slot i (Mbuf m)) qp;
     (_, qp) \<leftarrow> resend_ddp_segment D qp i;
     Some (psn, qp)
   }"

section \<open>Control datagrams\<close>

text \<open>The common tail of the three functions: the header mbuf is not tested for null.\<close>

definition send_trp_control :: "'r dpdk \<Rightarrow> 'r usiw_qp \<Rightarrow> trp_hdr \<Rightarrow> ('r ee_state \<Rightarrow> 'r ee_state) \<Rightarrow> 'r usiw_qp option" where
  "send_trp_control D qp trp upd = do {
     hdr \<leftarrow> rte_pktmbuf_alloc D tx_hdr_mempool (tick qp);
     let qp = ticked qp;
     fr \<leftarrow> hdr_frame D hdr trp [];
     send_udp_dgram D (map_ep upd qp) fr
       (if dev_flags (qp_dev qp) AND port_checksum_offload \<noteq> 0 then 0
        else ucast (rte_raw_cksum D (trp_hdr_bytes trp)))
   }"

definition send_trp_sack :: "'r dpdk \<Rightarrow> 'r usiw_qp \<Rightarrow> 'r usiw_qp option" where
  "send_trp_sack D qp = do {
     let ep = remote_ep qp;
     assert_c (trp_flags ep AND trp_recv_missing \<noteq> 0);
     send_trp_control D qp \<lparr>trp_psn = psn_min (recv_sack_psn ep), trp_ack_psn = psn_max (recv_sack_psn ep),
        trp_opcode = trp_sack\<rparr> clear_ack_update
   }"

definition send_trp_fin :: "'r dpdk \<Rightarrow> 'r usiw_qp \<Rightarrow> 'r usiw_qp option" where
  "send_trp_fin D qp = do {
     let ep = remote_ep qp;
     qp \<leftarrow> send_trp_control D qp \<lparr>trp_psn = send_next_psn ep, trp_ack_psn = recv_ack_psn ep, trp_opcode = trp_fin\<rparr>
        (\<lambda>ep. if trp_flags ep AND trp_recv_missing = 0 then clear_ack_update ep else ep);
     flush_tx_queue D qp
   }"

definition send_trp_ack :: "'r dpdk \<Rightarrow> 'r usiw_qp \<Rightarrow> 'r usiw_qp option" where
  "send_trp_ack D qp = do {
     let ep = remote_ep qp;
     assert_c (trp_flags ep AND trp_recv_missing = 0);
     send_trp_control D qp \<lparr>trp_psn = send_next_psn ep, trp_ack_psn = recv_ack_psn ep, trp_opcode = 0\<rparr> clear_ack_update
   }"

section \<open>The checksum is a correct Internet checksum\<close>

lemma fold_carry_spec:
  "unat (fold_carry r) \<le> 65535 \<and> unat (fold_carry r) mod 65535 = unat r mod 65535"
proof (induction r rule: fold_carry.induct)
  case (1 r)
  show ?case
  proof (cases "r > 0xffff")
    case True
    have "unat r = 65535 * (unat r div 65536) + (unat r div 65536 + unat r mod 65536)"
      using div_mult_mod_eq [of "unat r" 65536] by linarith
    then have "unat r mod 65535 = unat (add_carry r) mod 65535"
      unfolding unat_add_carry by (metis mod_mult_self4)
    then show ?thesis using 1 True by (simp add: fold_carry.simps [of r])
  next
    case False
    then show ?thesis by (simp add: word_less_nat_alt fold_carry.simps [of r])
  qed
qed

lemma unat_not_low:
  assumes "unat (r :: u32) \<le> 65535"
  shows "unat (ucast (NOT r) :: u16) = 65535 - unat r"
proof -
  define s :: u16 where "s = ucast r"
  have us: "unat s = unat r"
    using assms by (simp add: s_def unsigned_ucast_eq take_bit_nat_eq_self)
  have "(ucast (NOT r) :: u16) = NOT s"
    by (rule bit_word_eqI) (auto simp: bit_simps s_def)
  moreover have "unat (NOT s) = 65535 - unat s"
  proof -
    have "NOT s = - 1 - s" by (simp add: not_eq_complement)
    moreover have "unat (- 1 - s) = unat (- 1 :: u16) - unat s"
      by (rule unat_sub) (rule word_order.extremum)
    moreover have "unat (- 1 :: u16) = 65535"
      by (simp add: unsigned_minus_1_eq_mask mask_eq_exp_minus_1)
    ultimately show ?thesis by simp
  qed
  ultimately show ?thesis using us by simp
qed

lemma udp_dgram_cksum_correct:
  assumes "unat raw + unat phdr + unat src + unat dst + unat len < 2 ^ 32"
  shows "udp_dgram_cksum raw phdr src dst len \<noteq> 0"
    and "65535 dvd unat raw + unat phdr + unat src + unat dst + unat len + unat (udp_dgram_cksum raw phdr src dst len)"
proof -
  define t :: u32 where "t = raw + (ucast phdr + ucast src + ucast dst + ucast len)"
  have uc: "unat (ucast x :: u32) = unat x" for x :: u16
    using unat_bound [of x] by (simp add: unsigned_ucast_eq take_bit_nat_eq_self)
  have t: "unat t = unat raw + unat phdr + unat src + unat dst + unat len"
  proof -
    have 1: "unat (ucast phdr + ucast src :: u32) = unat phdr + unat src"
      by (subst unat_add_no_overflow) (use assms in \<open>simp_all add: uc\<close>)
    have 2: "unat (ucast phdr + ucast src + ucast dst :: u32) = unat phdr + unat src + unat dst"
      by (subst unat_add_no_overflow) (use assms in \<open>simp_all add: uc 1\<close>)
    have 3: "unat (ucast phdr + ucast src + ucast dst + ucast len :: u32) = unat phdr + unat src + unat dst + unat len"
      by (subst unat_add_no_overflow) (use assms in \<open>simp_all add: uc 2\<close>)
    show ?thesis unfolding t_def
      by (subst unat_add_no_overflow) (use assms in \<open>simp_all add: 3\<close>)
  qed
  define f where "f = fold_carry t"
  have f: "unat f \<le> 65535" "unat f mod 65535 = unat t mod 65535"
    using fold_carry_spec [of t] by (simp_all add: f_def)
  have ck: "udp_dgram_cksum raw phdr src dst len = (if f = 0xffff then 0xffff else ucast (NOT f))"
    by (simp add: udp_dgram_cksum_def f_def t_def)
  have uck: "unat (udp_dgram_cksum raw phdr src dst len) = (if f = 0xffff then 65535 else 65535 - unat f)"
    using unat_not_low [OF f(1)] by (simp add: ck)
  have "unat f < 65535" if "f \<noteq> 0xffff"
  proof -
    have "unat f \<noteq> unat (0xffff :: u32)" using that by (metis word_unat_eq_iff)
    then show ?thesis using f(1) by simp
  qed
  then have "unat (udp_dgram_cksum raw phdr src dst len) \<noteq> 0" by (auto simp: uck)
  then show "udp_dgram_cksum raw phdr src dst len \<noteq> 0" by (metis unat_0)
  have "(unat t + unat (udp_dgram_cksum raw phdr src dst len)) mod 65535
      = (unat f + unat (udp_dgram_cksum raw phdr src dst len)) mod 65535"
    using f(2) by (metis mod_add_left_eq)
  also have "\<dots> = 0" using f(1) by (auto simp: uck)
  finally show "65535 dvd unat raw + unat phdr + unat src + unat dst + unat len + unat (udp_dgram_cksum raw phdr src dst len)"
    by (simp add: t mod_eq_0_iff_dvd)
qed

section \<open>Frames leave in order\<close>

text \<open>The frames handed to the network card so far, followed by those waiting in the transmit queue.\<close>

definition outgoing :: "'r usiw_qp \<Rightarrow> frame list" where
  "outgoing qp = io_wire (io qp) @ txq qp"

text \<open>
  \<open>transmitted frs qp qp'\<close>: going from \<open>qp\<close> to \<open>qp'\<close>, exactly the frames \<open>frs\<close> were added to the
  outgoing sequence, there is room in the transmit queue, and apart from the transmit queue,
  the wire and the call counter nothing changed.
\<close>

definition transmitted :: "frame list \<Rightarrow> 'r usiw_qp \<Rightarrow> 'r usiw_qp \<Rightarrow> bool" where
  "transmitted frs qp qp' \<longleftrightarrow> outgoing qp' = outgoing qp @ frs \<and> tick qp \<le> tick qp' \<and>
     length (txq qp') < unat (tx_burst_size (shm_qp qp)) \<and>
     (io qp')\<lparr>io_tick := tick qp, io_wire := io_wire (io qp)\<rparr> = io qp \<and> qp'\<lparr>io := io qp, txq := txq qp\<rparr> = qp"

text \<open>
  An environment in which transmission succeeds: the card makes progress, the header pool has
  room for the headers, indirect mbufs can be allocated.
\<close>

definition tx_env :: "'r dpdk \<Rightarrow> bool" where
  "tx_env D \<longleftrightarrow> tx_burst_spec D \<and> tx_burst_progress D \<and> 42 \<le> pktmbuf_headroom D tx_hdr_mempool \<and>
     10 \<le> pktmbuf_tailroom D tx_hdr_mempool \<and> (\<forall>t. rte_pktmbuf_clone D t) \<and>
     (\<forall>p. length (rte_eth_macaddr_get D p) = 6)"

definition tx_ready :: "'r usiw_qp \<Rightarrow> bool" where
  "tx_ready qp \<longleftrightarrow> length (txq qp) < unat (tx_burst_size (shm_qp qp)) \<and> length (remote_ether_addr (shm_qp qp)) = 6"

lemma flush_tx_loop_total:
  assumes "tx_burst_spec D" "tx_burst_progress D"
  shows "\<exists>t. flush_tx_loop D qp rest =
      Some (qp\<lparr>io := (io qp)\<lparr>io_tick := t, io_wire := io_wire (io qp) @ rest\<rparr>\<rparr>) \<and> tick qp < t"
proof (induction "length rest" arbitrary: qp rest rule: less_induct)
  case less
  define n where "n = rte_eth_tx_burst D (tick qp) (length rest)"
  have n: "n \<le> length rest" using assms(1) by (simp add: n_def tx_burst_spec_def)
  let ?qp = "wired (take n rest) (ticked qp)"
  have step: "flush_tx_loop D qp rest = (if drop n rest = [] then Some ?qp else flush_tx_loop D ?qp (drop n rest))"
    using n by (subst flush_tx_loop.simps) (simp add: n_def Let_def)
  show ?case
  proof (cases "drop n rest = []")
    case True
    then show ?thesis using step n by (intro exI [of _ "Suc (tick qp)"]) (simp add: wired_def ticked_def)
  next
    case False
    then have "0 < length rest" by auto
    then have "0 < n" using assms(2) by (simp add: n_def tx_burst_progress_def)
    then obtain t where "flush_tx_loop D ?qp (drop n rest) =
        Some (?qp\<lparr>io := (io ?qp)\<lparr>io_tick := t, io_wire := io_wire (io ?qp) @ drop n rest\<rparr>\<rparr>)" "tick ?qp < t"
      using less.hyps [of "drop n rest" ?qp] \<open>0 < length rest\<close> by auto
    then show ?thesis using step False by (intro exI [of _ t]) (simp add: wired_def ticked_def)
  qed
qed

lemma flush_tx_queue_total:
  assumes "tx_burst_spec D" "tx_burst_progress D"
  shows "\<exists>t. flush_tx_queue D qp =
      Some (qp\<lparr>io := (io qp)\<lparr>io_tick := t, io_wire := io_wire (io qp) @ txq qp\<rparr>, txq := []\<rparr>) \<and> tick qp < t"
  using flush_tx_loop_total [OF assms, of qp "txq qp"] by (auto simp: flush_tx_queue_def)

lemma transmitted_refl: "length (txq qp) < unat (tx_burst_size (shm_qp qp)) \<Longrightarrow> transmitted [] qp qp"
  by (simp add: transmitted_def)

lemma transmitted_same:
  assumes "transmitted frs qp qp'"
  shows "shm_qp qp' = shm_qp qp" "qp_dev qp' = qp_dev qp" "sq qp' = sq qp" "rq0 qp' = rq0 qp" "cqs qp' = cqs qp"
    "remote_ep qp' = remote_ep qp" "send_cq qp' = send_cq qp" "recv_cq qp' = recv_cq qp"
    "qp_mem qp' = qp_mem qp" "qp_pd qp' = qp_pd qp" "io_events (io qp') = io_events (io qp)"
    "readresp_store qp' = readresp_store qp" "readresp_head_msn qp' = readresp_head_msn qp" "ord_active qp' = ord_active qp"
proof -
  from assms have eq: "qp'\<lparr>io := io qp, txq := txq qp\<rparr> = qp"
    and io: "(io qp')\<lparr>io_tick := tick qp, io_wire := io_wire (io qp)\<rparr> = io qp"
    unfolding transmitted_def by blast+
  show "shm_qp qp' = shm_qp qp" "qp_dev qp' = qp_dev qp" "sq qp' = sq qp" "rq0 qp' = rq0 qp" "cqs qp' = cqs qp"
    using arg_cong [OF eq, of shm_qp] arg_cong [OF eq, of qp_dev] arg_cong [OF eq, of sq]
      arg_cong [OF eq, of rq0] arg_cong [OF eq, of cqs] by simp_all
  show "remote_ep qp' = remote_ep qp" "send_cq qp' = send_cq qp" "recv_cq qp' = recv_cq qp"
    "qp_mem qp' = qp_mem qp" "qp_pd qp' = qp_pd qp" "io_events (io qp') = io_events (io qp)"
    using arg_cong [OF eq, of remote_ep] arg_cong [OF eq, of send_cq] arg_cong [OF eq, of recv_cq]
      arg_cong [OF eq, of qp_mem] arg_cong [OF eq, of qp_pd] arg_cong [OF io, of io_events] by simp_all
  show "readresp_store qp' = readresp_store qp" "readresp_head_msn qp' = readresp_head_msn qp" "ord_active qp' = ord_active qp"
    using arg_cong [OF eq, of readresp_store] arg_cong [OF eq, of readresp_head_msn] arg_cong [OF eq, of ord_active]
    by simp_all
qed

lemma transmitted_trans:
  assumes "transmitted frs qp qp'" "transmitted frs' qp' qp''"
  shows "transmitted (frs @ frs') qp qp''"
proof -
  have 1: "(io qp')\<lparr>io_tick := tick qp, io_wire := io_wire (io qp)\<rparr> = io qp" "qp'\<lparr>io := io qp, txq := txq qp\<rparr> = qp"
    and 2: "(io qp'')\<lparr>io_tick := tick qp', io_wire := io_wire (io qp')\<rparr> = io qp'" "qp''\<lparr>io := io qp', txq := txq qp'\<rparr> = qp'"
    using assms by (simp_all add: transmitted_def)
  have "(io qp'')\<lparr>io_tick := tick qp, io_wire := io_wire (io qp)\<rparr> = io qp"
    using arg_cong [OF 2(1), of "\<lambda>i. i\<lparr>io_tick := tick qp, io_wire := io_wire (io qp)\<rparr>"] 1(1) by simp
  moreover have "qp''\<lparr>io := io qp, txq := txq qp\<rparr> = qp"
    using arg_cong [OF 2(2), of "\<lambda>i. i\<lparr>io := io qp, txq := txq qp\<rparr>"] 1(2) by simp
  ultimately show ?thesis
    using assms transmitted_same(1) [OF assms(1)] by (simp add: transmitted_def)
qed

lemma enqueue_ether_frame_total:
  fixes ty :: u16
  assumes "tx_env D" "tx_ready qp" "14 \<le> fr_headroom fr"
  defines "fr' \<equiv> fr\<lparr>fr_data := (remote_ether_addr (shm_qp qp) @ rte_eth_macaddr_get D (dev_portid (qp_dev qp)) @ put_be 2 ty) @ fr_data fr,
     fr_headroom := fr_headroom fr - 14, fr_l2_len := 14\<rparr>"
  shows "\<exists>qp'. enqueue_ether_frame D fr ty qp (remote_ether_addr (shm_qp qp)) = Some qp' \<and> transmitted [fr'] qp qp'"
proof -
  have spec: "tx_burst_spec D" "tx_burst_progress D" and len: "length (rte_eth_macaddr_get D (dev_portid (qp_dev qp))) = 6"
    using assms(1) by (simp_all add: tx_env_def)
  let ?qp = "qp\<lparr>txq := txq qp @ [fr']\<rparr>"
  have step: "enqueue_ether_frame D fr ty qp (remote_ether_addr (shm_qp qp)) =
     (if length (txq ?qp) = unat (tx_burst_size (shm_qp qp)) then flush_tx_queue D ?qp else Some ?qp)"
    using assms(2,3) len by (simp add: enqueue_ether_frame_def prepend_def tx_ready_def fr'_def Let_def)
  obtain t where "flush_tx_queue D ?qp =
      Some (?qp\<lparr>io := (io ?qp)\<lparr>io_tick := t, io_wire := io_wire (io ?qp) @ txq ?qp\<rparr>, txq := []\<rparr>)" "tick ?qp < t"
    using flush_tx_queue_total [OF spec] by blast
  then show ?thesis using assms(2) unfolding step
    by (auto simp: transmitted_def outgoing_def tx_ready_def)
qed

text \<open>The frame of a datagram, as the receiver sees it.\<close>

definition udp_frame_bytes :: "'r dpdk \<Rightarrow> 'r usiw_qp \<Rightarrow> u16 \<Rightarrow> u16 \<Rightarrow> u8 list \<Rightarrow> u8 list" where
  "udp_frame_bytes D qp ip_cksum udp_cksum payload =
     remote_ether_addr (shm_qp qp) @ rte_eth_macaddr_get D (dev_portid (qp_dev qp)) @ put_be 2 ETHER_TYPE_IPv4
     @ ipv4_hdr_bytes (8 + length payload) IP_HDR_PROTO_UDP ip_cksum (dev_ipv4_addr (qp_dev qp)) (remote_ipv4_addr (shm_qp qp))
     @ udp_hdr_bytes (local_udp_port (shm_qp qp)) (remote_udp_port (shm_qp qp)) (length payload) udp_cksum @ payload"

definition dgram_frame :: "'r dpdk \<Rightarrow> 'r usiw_qp \<Rightarrow> nat \<Rightarrow> u32 \<Rightarrow> u8 list \<Rightarrow> frame" where
  "dgram_frame D qp headroom raw_cksum payload =
     (let offload = dev_flags (qp_dev qp) AND port_checksum_offload \<noteq> 0;
          flags = (if offload then [PKT_TX_UDP_CKSUM, PKT_TX_IPV4, PKT_TX_IP_CKSUM] else []);
          ip_hdr = (\<lambda>ck. ipv4_hdr_bytes (8 + length payload) IP_HDR_PROTO_UDP ck (dev_ipv4_addr (qp_dev qp))
                      (remote_ipv4_addr (shm_qp qp)));
          ip_cksum = (if offload then 0 else rte_ipv4_cksum D (ip_hdr 0));
          phdr = rte_ipv4_phdr_cksum D (ip_hdr ip_cksum) flags;
          udp_cksum = (if offload then phdr
            else udp_dgram_cksum raw_cksum phdr (local_udp_port (shm_qp qp)) (remote_udp_port (shm_qp qp))
                   (cpu_to_be_16 (of_nat (8 + length payload))))
      in \<lparr>fr_data = udp_frame_bytes D qp ip_cksum udp_cksum payload, fr_headroom = headroom - 42,
          fr_flags = flags, fr_l2_len = 14, fr_l3_len = 20, fr_l4_len = 8\<rparr>)"

lemma length_ipv4_hdr_bytes [simp]: "length (ipv4_hdr_bytes n p ck a b) = 20"
  by (simp add: ipv4_hdr_bytes_def)

lemma length_udp_hdr_bytes [simp]: "length (udp_hdr_bytes a b n ck) = 8"
  by (simp add: udp_hdr_bytes_def)

lemma overlay_udp_cksum:
  assumes "length ip = 20"
  shows "overlay (ip @ udp_hdr_bytes a b n 0 @ p) 26 (put_le 2 ck) = ip @ udp_hdr_bytes a b n ck @ p"
  using assms by (simp add: overlay_def udp_hdr_bytes_def)

lemma send_udp_dgram_total:
  assumes "tx_env D" "tx_ready qp" "42 \<le> fr_headroom fr" "fr_flags fr = []"
  shows "\<exists>qp'. send_udp_dgram D qp fr raw = Some qp' \<and>
    transmitted [dgram_frame D qp (fr_headroom fr) raw (fr_data fr)] qp qp'"
proof -
  define offload where "offload = (dev_flags (qp_dev qp) AND port_checksum_offload \<noteq> 0)"
  define ip_hdr where "ip_hdr = (\<lambda>ck. ipv4_hdr_bytes (8 + length (fr_data fr)) IP_HDR_PROTO_UDP ck (dev_ipv4_addr (qp_dev qp))
      (remote_ipv4_addr (shm_qp qp)))"
  define udp where "udp = udp_hdr_bytes (local_udp_port (shm_qp qp)) (remote_udp_port (shm_qp qp)) (length (fr_data fr))"
  define flags where "flags = (if offload then [PKT_TX_UDP_CKSUM, PKT_TX_IPV4, PKT_TX_IP_CKSUM] else [])"
  define ip_cksum where "ip_cksum = (if offload then 0 else rte_ipv4_cksum D (ip_hdr 0))"
  define phdr where "phdr = rte_ipv4_phdr_cksum D (ip_hdr ip_cksum) flags"
  define udp_cksum where "udp_cksum = (if offload then phdr
      else udp_dgram_cksum raw phdr (local_udp_port (shm_qp qp)) (remote_udp_port (shm_qp qp))
                   (cpu_to_be_16 (of_nat (8 + length (fr_data fr)))))"
  define fr2 where "fr2 = \<lparr>fr_data = ip_hdr ip_cksum @ udp udp_cksum @ fr_data fr, fr_headroom = fr_headroom fr - 28,
     fr_flags = flags, fr_l2_len = fr_l2_len fr, fr_l3_len = 20, fr_l4_len = 8\<rparr>"
  have room: "8 \<le> fr_headroom fr" "20 \<le> fr_headroom fr - 8" using assms(3) by linarith+
  have lens: "length (ip_hdr c) = 20" "length (udp c) = 8" for c
    by (simp_all add: ip_hdr_def udp_def)
  have "send_udp_dgram D qp fr raw = enqueue_ether_frame D fr2 ETHER_TYPE_IPv4 qp (remote_ether_addr (shm_qp qp))"
    using assms(4) room
    by (cases fr; cases offload) (simp_all add: send_udp_dgram_def prepend_udp_header_def prepend_ipv4_header_def prepend_def
        Let_def overlay_udp_cksum fr2_def udp_cksum_def phdr_def ip_cksum_def flags_def ip_hdr_def udp_def offload_def)
  moreover have "14 \<le> fr_headroom fr2" using assms(3) by (simp add: fr2_def)
  then obtain qp' where "enqueue_ether_frame D fr2 ETHER_TYPE_IPv4 qp (remote_ether_addr (shm_qp qp)) = Some qp'"
    "transmitted [fr2\<lparr>fr_data := (remote_ether_addr (shm_qp qp) @ rte_eth_macaddr_get D (dev_portid (qp_dev qp)) @ put_be 2 ETHER_TYPE_IPv4) @ fr_data fr2,
     fr_headroom := fr_headroom fr2 - 14, fr_l2_len := 14\<rparr>] qp qp'"
    using enqueue_ether_frame_total [OF assms(1,2), of fr2 ETHER_TYPE_IPv4] by blast
  moreover have "fr2\<lparr>fr_data := (remote_ether_addr (shm_qp qp) @ rte_eth_macaddr_get D (dev_portid (qp_dev qp)) @ put_be 2 ETHER_TYPE_IPv4) @ fr_data fr2,
     fr_headroom := fr_headroom fr2 - 14, fr_l2_len := 14\<rparr> = dgram_frame D qp (fr_headroom fr) raw (fr_data fr)"
    by (cases offload) (simp_all add: fr2_def dgram_frame_def Let_def udp_frame_bytes_def
        udp_cksum_def phdr_def ip_cksum_def flags_def ip_hdr_def udp_def offload_def)
  ultimately show ?thesis by auto
qed

section \<open>What transmission leaves alone\<close>

text \<open>These facts need no assumption on the environment: they hold of every call that returns.\<close>

lemma flush_tx_loop_frame:
  "flush_tx_loop D qp rest = Some qp' \<Longrightarrow>
     \<exists>t. qp' = qp\<lparr>io := (io qp)\<lparr>io_tick := t, io_wire := io_wire (io qp) @ rest\<rparr>\<rparr> \<and> tick qp < t"
proof (induction rule: flush_tx_loop.raw_induct [rotated 1, consumes 1])
  case (1 f D qp rest qp')
  define n where "n = rte_eth_tx_burst D (tick qp) (length rest)"
  let ?qp = "wired (take n rest) (ticked qp)"
  have n: "\<not> length rest < n" and r: "(if drop n rest = [] then Some ?qp else f D ?qp (drop n rest)) = Some qp'"
    using 1(2) by (auto simp: n_def Let_def split: if_splits)
  show ?case
  proof (cases "drop n rest = []")
    case True
    then show ?thesis using r n by (intro exI [of _ "Suc (tick qp)"]) (auto simp: wired_def ticked_def)
  next
    case False
    then obtain t where "qp' = ?qp\<lparr>io := (io ?qp)\<lparr>io_tick := t, io_wire := io_wire (io ?qp) @ drop n rest\<rparr>\<rparr>" "tick ?qp < t"
      using 1(1) r by force
    then show ?thesis by (intro exI [of _ t]) (simp add: wired_def ticked_def)
  qed
qed

lemma flush_tx_queue_frame:
  assumes "flush_tx_queue D qp = Some qp'"
  shows "\<exists>t. qp' = qp\<lparr>io := (io qp)\<lparr>io_tick := t, io_wire := io_wire (io qp) @ txq qp\<rparr>, txq := []\<rparr> \<and> tick qp < t"
  using assms flush_tx_loop_frame [of D qp "txq qp"] by (auto simp: flush_tx_queue_def split: Option.bind_splits)

lemma send_udp_dgram_frame:
  assumes "send_udp_dgram D qp fr raw = Some qp'"
  shows "\<exists>fr'. transmitted [fr'] qp qp'"
proof -
  obtain fr1 where e: "enqueue_ether_frame D fr1 ETHER_TYPE_IPv4 qp (remote_ether_addr (shm_qp qp)) = Some qp'"
    using assms by (auto simp: send_udp_dgram_def Let_def split: Option.bind_splits)
  obtain fr2 where room: "length (txq qp) < unat (tx_burst_size (shm_qp qp))"
    and q: "(if length (txq qp @ [fr2]) = unat (tx_burst_size (shm_qp qp))
        then flush_tx_queue D (qp\<lparr>txq := txq qp @ [fr2]\<rparr>) else Some (qp\<lparr>txq := txq qp @ [fr2]\<rparr>)) = Some qp'"
    using e by (auto simp: enqueue_ether_frame_def Let_def split: Option.bind_splits)
  have "transmitted [fr2] qp qp'"
    using q room by (auto simp: transmitted_def outgoing_def split: if_splits dest!: flush_tx_queue_frame)
  then show ?thesis by blast
qed

text \<open>
  \<open>tx_changed qp qp'\<close>: frames may have been added to the outgoing sequence, and apart from the
  transmit queue, the wire, the call counter and the transmit fields of the endpoint nothing
  changed.
\<close>

definition tx_changed :: "'r usiw_qp \<Rightarrow> 'r usiw_qp \<Rightarrow> bool" where
  "tx_changed qp qp' \<longleftrightarrow>
     (io qp')\<lparr>io_tick := tick qp, io_wire := io_wire (io qp)\<rparr> = io qp \<and>
     (remote_ep qp')\<lparr>tx_pending := tx_pending (remote_ep qp), trp_flags := trp_flags (remote_ep qp),
        send_next_psn := send_next_psn (remote_ep qp)\<rparr> = remote_ep qp \<and>
     qp'\<lparr>io := io qp, txq := txq qp, remote_ep := remote_ep qp\<rparr> = qp \<and>
     (\<exists>frs. outgoing qp' = outgoing qp @ frs)"

lemma tx_changed_refl [simp]: "tx_changed qp qp"
  by (simp add: tx_changed_def)

lemma tx_changed_trans [trans]:
  assumes "tx_changed a b" "tx_changed b c"
  shows "tx_changed a c"
proof -
  have 1: "(io b)\<lparr>io_tick := tick a, io_wire := io_wire (io a)\<rparr> = io a"
      "(remote_ep b)\<lparr>tx_pending := tx_pending (remote_ep a), trp_flags := trp_flags (remote_ep a), send_next_psn := send_next_psn (remote_ep a)\<rparr> = remote_ep a"
      "b\<lparr>io := io a, txq := txq a, remote_ep := remote_ep a\<rparr> = a"
    and 2: "(io c)\<lparr>io_tick := tick b, io_wire := io_wire (io b)\<rparr> = io b"
      "(remote_ep c)\<lparr>tx_pending := tx_pending (remote_ep b), trp_flags := trp_flags (remote_ep b), send_next_psn := send_next_psn (remote_ep b)\<rparr> = remote_ep b"
      "c\<lparr>io := io b, txq := txq b, remote_ep := remote_ep b\<rparr> = b"
    using assms by (simp_all add: tx_changed_def)
  have "(io c)\<lparr>io_tick := tick a, io_wire := io_wire (io a)\<rparr> = io a"
    using arg_cong [OF 2(1), of "\<lambda>i. i\<lparr>io_tick := tick a, io_wire := io_wire (io a)\<rparr>"] 1(1) by simp
  moreover have "(remote_ep c)\<lparr>tx_pending := tx_pending (remote_ep a), trp_flags := trp_flags (remote_ep a), send_next_psn := send_next_psn (remote_ep a)\<rparr> = remote_ep a"
    using arg_cong [OF 2(2), of "\<lambda>i. i\<lparr>tx_pending := tx_pending (remote_ep a), trp_flags := trp_flags (remote_ep a), send_next_psn := send_next_psn (remote_ep a)\<rparr>"] 1(2)
    by simp
  moreover have "c\<lparr>io := io a, txq := txq a, remote_ep := remote_ep a\<rparr> = a"
    using arg_cong [OF 2(3), of "\<lambda>i. i\<lparr>io := io a, txq := txq a, remote_ep := remote_ep a\<rparr>"] 1(3) by simp
  moreover have "\<exists>frs. outgoing c = outgoing a @ frs" using assms by (auto simp: tx_changed_def)
  ultimately show ?thesis by (simp add: tx_changed_def)
qed

lemma tx_changed_same:
  assumes "tx_changed qp qp'"
  shows "shm_qp qp' = shm_qp qp" "qp_dev qp' = qp_dev qp" "sq qp' = sq qp" "rq0 qp' = rq0 qp" "cqs qp' = cqs qp"
    "send_cq qp' = send_cq qp" "recv_cq qp' = recv_cq qp" "qp_mem qp' = qp_mem qp" "qp_pd qp' = qp_pd qp"
    "readresp_store qp' = readresp_store qp" "readresp_head_msn qp' = readresp_head_msn qp"
    "ord_active qp' = ord_active qp" "io_events (io qp') = io_events (io qp)" "qp_num qp' = qp_num qp"
    "send_max_psn (remote_ep qp') = send_max_psn (remote_ep qp)" "tx_pending_size (remote_ep qp') = tx_pending_size (remote_ep qp)"
    "recv_ack_psn (remote_ep qp') = recv_ack_psn (remote_ep qp)" "tx_head (remote_ep qp') = tx_head (remote_ep qp)"
    "recv_rresp_last_psn (remote_ep qp') = recv_rresp_last_psn (remote_ep qp)"
    "send_last_acked_psn (remote_ep qp') = send_last_acked_psn (remote_ep qp)"
proof -
  from assms have eq: "qp'\<lparr>io := io qp, txq := txq qp, remote_ep := remote_ep qp\<rparr> = qp"
    and io: "(io qp')\<lparr>io_tick := tick qp, io_wire := io_wire (io qp)\<rparr> = io qp"
    and ep: "(remote_ep qp')\<lparr>tx_pending := tx_pending (remote_ep qp), trp_flags := trp_flags (remote_ep qp),
        send_next_psn := send_next_psn (remote_ep qp)\<rparr> = remote_ep qp"
    unfolding tx_changed_def by blast+
  show "shm_qp qp' = shm_qp qp" "qp_dev qp' = qp_dev qp" "sq qp' = sq qp" "rq0 qp' = rq0 qp" "cqs qp' = cqs qp"
    "send_cq qp' = send_cq qp" "recv_cq qp' = recv_cq qp"
    using arg_cong [OF eq, of shm_qp] arg_cong [OF eq, of qp_dev] arg_cong [OF eq, of sq] arg_cong [OF eq, of rq0]
      arg_cong [OF eq, of cqs] arg_cong [OF eq, of send_cq] arg_cong [OF eq, of recv_cq] by simp_all
  show "qp_mem qp' = qp_mem qp" "qp_pd qp' = qp_pd qp" "qp_num qp' = qp_num qp"
    "readresp_store qp' = readresp_store qp" "readresp_head_msn qp' = readresp_head_msn qp" "ord_active qp' = ord_active qp"
    using arg_cong [OF eq, of qp_mem] arg_cong [OF eq, of qp_pd] arg_cong [OF eq, of qp_num] arg_cong [OF eq, of readresp_store]
      arg_cong [OF eq, of readresp_head_msn] arg_cong [OF eq, of ord_active] by simp_all
  show "io_events (io qp') = io_events (io qp)" using arg_cong [OF io, of io_events] by simp
  show "send_max_psn (remote_ep qp') = send_max_psn (remote_ep qp)" "tx_pending_size (remote_ep qp') = tx_pending_size (remote_ep qp)"
    "recv_ack_psn (remote_ep qp') = recv_ack_psn (remote_ep qp)" "tx_head (remote_ep qp') = tx_head (remote_ep qp)"
    "recv_rresp_last_psn (remote_ep qp') = recv_rresp_last_psn (remote_ep qp)"
    "send_last_acked_psn (remote_ep qp') = send_last_acked_psn (remote_ep qp)"
    using arg_cong [OF ep, of send_max_psn] arg_cong [OF ep, of tx_pending_size] arg_cong [OF ep, of recv_ack_psn]
      arg_cong [OF ep, of tx_head] arg_cong [OF ep, of recv_rresp_last_psn] arg_cong [OF ep, of send_last_acked_psn]
    by simp_all
qed

lemma transmitted_changed:
  assumes "transmitted frs qp qp'"
  shows "tx_changed qp qp'"
proof -
  have "remote_ep qp' = remote_ep qp" using assms by (rule transmitted_same)
  moreover from assms have "qp'\<lparr>io := io qp, txq := txq qp\<rparr> = qp" by (simp add: transmitted_def)
  then have "qp'\<lparr>io := io qp, txq := txq qp, remote_ep := remote_ep qp\<rparr> = qp"
    using arg_cong [of _ _ "\<lambda>i. i\<lparr>remote_ep := remote_ep qp\<rparr>"] by fastforce
  ultimately show ?thesis using assms by (auto simp: tx_changed_def transmitted_def)
qed

lemma ticked_changed [simp]: "tx_changed qp (ticked qp)"
  by (simp add: tx_changed_def ticked_def outgoing_def)

lemma slot_changed [simp]: "tx_changed qp (map_ep (set_slot i m) qp)"
  by (simp add: tx_changed_def set_slot_def outgoing_def)

lemma clear_changed [simp]: "tx_changed qp (map_ep clear_ack_update qp)"
  by (simp add: tx_changed_def clear_ack_update_def outgoing_def)

lemma next_psn_changed [simp]: "tx_changed qp (map_ep (\<lambda>ep. ep\<lparr>send_next_psn := v\<rparr>) qp)"
  by (simp add: tx_changed_def outgoing_def)

lemma send_udp_dgram_changed: "send_udp_dgram D qp fr raw = Some qp' \<Longrightarrow> tx_changed qp qp'"
  using send_udp_dgram_frame transmitted_changed by blast

lemma flush_tx_queue_changed: "flush_tx_queue D qp = Some qp' \<Longrightarrow> tx_changed qp qp'"
  by (auto simp: tx_changed_def outgoing_def dest!: flush_tx_queue_frame)

lemma tx_changed_steps:
  "tx_changed a b \<Longrightarrow> tx_changed a (ticked b)"
  "tx_changed a b \<Longrightarrow> tx_changed a (map_ep (set_slot i m) b)"
  "tx_changed a b \<Longrightarrow> tx_changed a (map_ep clear_ack_update b)"
  "tx_changed a b \<Longrightarrow> send_udp_dgram D b fr raw = Some c \<Longrightarrow> tx_changed a c"
  "tx_changed a b \<Longrightarrow> flush_tx_queue D b = Some c \<Longrightarrow> tx_changed a c"
  using tx_changed_trans send_udp_dgram_changed flush_tx_queue_changed
  by (blast intro: ticked_changed slot_changed clear_changed)+

lemma resend_ddp_segment_changed:
  assumes "resend_ddp_segment D qp i = Some (r, qp')"
  shows "tx_changed qp qp'"
  using assms unfolding resend_ddp_segment_def
  by (auto simp: Let_def split: Option.bind_splits if_splits option.splits
      intro!: tx_changed_steps(1-3) elim!: tx_changed_steps(4) [rotated])

lemma send_ddp_segment_changed:
  assumes "send_ddp_segment D qp m rr wqe len = Some (psn, qp')"
  shows "tx_changed qp qp'"
proof -
  obtain r i m' where r: "resend_ddp_segment D (map_ep (set_slot i m')
      (map_ep (\<lambda>ep. ep\<lparr>send_next_psn := send_next_psn (remote_ep qp) + 1\<rparr>) qp)) i = Some (r, qp')"
    using assms unfolding send_ddp_segment_def
    by (auto simp: Let_def split: Option.bind_splits prod.splits)
  show ?thesis
    by (rule tx_changed_trans [OF _ resend_ddp_segment_changed [OF r]], rule tx_changed_trans [OF next_psn_changed slot_changed])
qed

lemma send_trp_control_changed:
  assumes "send_trp_control D qp trp upd = Some qp'" "\<And>qp. tx_changed qp (map_ep upd qp)"
  shows "tx_changed qp qp'"
  using assms unfolding send_trp_control_def
  by (auto simp: Let_def split: Option.bind_splits intro: tx_changed_steps(4) tx_changed_trans ticked_changed)

lemma send_trp_changed:
  "send_trp_ack D qp = Some qp' \<Longrightarrow> tx_changed qp qp'"
  "send_trp_sack D qp = Some qp' \<Longrightarrow> tx_changed qp qp'"
  "send_trp_fin D qp = Some qp' \<Longrightarrow> tx_changed qp qp'"
proof -
  show "send_trp_ack D qp = Some qp' \<Longrightarrow> tx_changed qp qp'" "send_trp_sack D qp = Some qp' \<Longrightarrow> tx_changed qp qp'"
    by (auto simp: send_trp_ack_def send_trp_sack_def Let_def split: Option.bind_splits
        elim!: send_trp_control_changed)
  show "tx_changed qp qp'" if fin: "send_trp_fin D qp = Some qp'"
  proof -
    obtain qp1 where "send_trp_control D qp \<lparr>trp_psn = send_next_psn (remote_ep qp), trp_ack_psn = recv_ack_psn (remote_ep qp), trp_opcode = trp_fin\<rparr>
        (\<lambda>ep. if trp_flags ep AND trp_recv_missing = 0 then clear_ack_update ep else ep) = Some qp1" and f: "flush_tx_queue D qp1 = Some qp'"
      using fin by (auto simp: send_trp_fin_def Let_def split: Option.bind_splits)
    then have "tx_changed qp qp1"
      by (elim send_trp_control_changed) (simp add: tx_changed_def clear_ack_update_def outgoing_def)
    then show ?thesis using f by (rule tx_changed_steps)
  qed
qed

section \<open>Transmission of a segment\<close>

definition segment_frame :: "'r dpdk \<Rightarrow> 'r usiw_qp \<Rightarrow> tx_mbuf \<Rightarrow> tx_mbuf \<Rightarrow> frame" where
  "segment_frame D qp hdr m =
     (let trp = trp_hdr_bytes \<lparr>trp_psn = pd_psn m, trp_ack_psn = recv_ack_psn (remote_ep qp), trp_opcode = 0\<rparr>
      in dgram_frame D qp (pktmbuf_headroom D tx_hdr_mempool)
           (if dev_flags (qp_dev qp) = 0 then ddp_raw_cksum m + ucast (rte_raw_cksum D trp) else 0)
           (mb_data hdr @ trp @ mb_data m))"

lemma dgram_frame_cong: "shm_qp qp' = shm_qp qp \<Longrightarrow> qp_dev qp' = qp_dev qp \<Longrightarrow> dgram_frame D qp' = dgram_frame D qp"
  by (simp add: fun_eq_iff dgram_frame_def udp_frame_bytes_def Let_def)

lemma resend_ddp_segment_ep:
  assumes "resend_ddp_segment D qp i = Some (r, qp')"
  shows "\<exists>m fl. slot_mbuf (remote_ep qp) i = Some m \<and>
    remote_ep qp' = (set_slot i (Mbuf (m\<lparr>next_retransmit := rte_get_timer_cycles D (tick qp) + rte_get_timer_hz D div 100,
       transmit_count := transmit_count m + 1\<rparr>)) (remote_ep qp))\<lparr>trp_flags := fl\<rparr>"
  using assms unfolding resend_ddp_segment_def
  by (auto simp: Let_def ticked_def clear_ack_update_def set_slot_def
      split: Option.bind_splits if_splits option.splits dest!: send_udp_dgram_frame transmitted_same(6)
      intro: exI [of _ "trp_flags (remote_ep qp)"])

lemma resend_ddp_segment_total:
  assumes "tx_env D" "tx_ready qp" "slot_mbuf (remote_ep qp) i = Some m"
  shows "\<exists>r qp'. resend_ddp_segment D qp i = Some (r, qp') \<and> tx_ready qp' \<and>
    (if RETRANSMIT_MAX < transmit_count m then r = Neg EIO \<and> outgoing qp' = outgoing qp
     else case rte_pktmbuf_alloc D tx_hdr_mempool (Suc (tick qp)) of
       None \<Rightarrow> r = Neg ENOMEM \<and> outgoing qp' = outgoing qp
     | Some hdr \<Rightarrow> r = Ok \<and> outgoing qp' = outgoing qp @ [segment_frame D qp hdr m])"
proof -
  define m' where "m' = m\<lparr>next_retransmit := rte_get_timer_cycles D (tick qp) + rte_get_timer_hz D div 100, transmit_count := transmit_count m + 1\<rparr>"
  define qp1 where "qp1 = map_ep (set_slot i (Mbuf m')) (ticked qp)"
  have t1: "tick qp1 = Suc (tick qp)" "tx_ready qp1" "outgoing qp1 = outgoing qp"
    using assms(2) by (simp_all add: qp1_def ticked_def tx_ready_def outgoing_def)
  consider (eio) "RETRANSMIT_MAX < transmit_count m"
    | (nomem) "\<not> RETRANSMIT_MAX < transmit_count m" "rte_pktmbuf_alloc D tx_hdr_mempool (Suc (tick qp)) = None"
    | (ok) hdr where "\<not> RETRANSMIT_MAX < transmit_count m" "rte_pktmbuf_alloc D tx_hdr_mempool (Suc (tick qp)) = Some hdr"
    by fastforce
  then show ?thesis
  proof cases
    case eio
    then have "resend_ddp_segment D qp i = Some (Neg EIO, qp1)"
      using assms(3) by (simp add: resend_ddp_segment_def Let_def qp1_def m'_def)
    then show ?thesis using eio t1 by simp
  next
    case nomem
    then have "resend_ddp_segment D qp i = Some (Neg ENOMEM, ticked qp1)"
      using assms(3) t1 by (simp add: resend_ddp_segment_def Let_def qp1_def m'_def)
    moreover have "tx_ready (ticked qp1)" "outgoing (ticked qp1) = outgoing qp"
      using t1 by (simp_all add: ticked_def tx_ready_def outgoing_def)
    ultimately show ?thesis using nomem by simp
  next
    case (ok hdr)
    define qp2 where "qp2 = ticked (ticked qp1)"
    define qp3 where "qp3 = (if trp_flags (remote_ep qp2) AND trp_recv_missing = 0 then map_ep clear_ack_update qp2 else qp2)"
    define trp where "trp = \<lparr>trp_psn = pd_psn m, trp_ack_psn = recv_ack_psn (remote_ep qp), trp_opcode = 0\<rparr>"
    define cksum where "cksum = (if dev_flags (qp_dev qp) = 0 then ddp_raw_cksum m + ucast (rte_raw_cksum D (trp_hdr_bytes trp)) else 0)"
    define fr where "fr = \<lparr>fr_data = mb_data hdr @ trp_hdr_bytes trp @ mb_data m,
       fr_headroom = pktmbuf_headroom D tx_hdr_mempool, fr_flags = [], fr_l2_len = 0, fr_l3_len = 0, fr_l4_len = 0\<rparr>"
    have same: "shm_qp qp3 = shm_qp qp" "qp_dev qp3 = qp_dev qp" "outgoing qp3 = outgoing qp" "txq qp3 = txq qp"
      by (simp_all add: qp3_def qp2_def qp1_def ticked_def outgoing_def)
    have ready: "tx_ready qp3" using assms(2) same by (simp add: tx_ready_def)
    have "resend_ddp_segment D qp i = (send_udp_dgram D qp3 fr cksum \<bind> (\<lambda>qp'. Some (Ok, qp')))"
      using ok assms(1,3)
      by (simp add: resend_ddp_segment_def Let_def tx_env_def hdr_frame_def qp3_def qp2_def qp1_def ticked_def
          fr_def cksum_def trp_def m'_def set_slot_def)
    moreover obtain qp' where s: "send_udp_dgram D qp3 fr cksum = Some qp'"
      "transmitted [dgram_frame D qp3 (fr_headroom fr) cksum (fr_data fr)] qp3 qp'"
      using send_udp_dgram_total [OF assms(1) ready, of fr cksum] assms(1) by (auto simp: fr_def tx_env_def)
    moreover have "dgram_frame D qp3 (fr_headroom fr) cksum (fr_data fr) = segment_frame D qp hdr m"
      using dgram_frame_cong [OF same(1,2)] by (simp add: segment_frame_def Let_def fr_def cksum_def trp_def)
    moreover have "tx_ready qp'" using s(2) ready transmitted_same(1) [OF s(2)] by (simp add: transmitted_def tx_ready_def)
    ultimately show ?thesis using ok same by (auto simp: transmitted_def)
  qed
qed

section \<open>The transmit window\<close>

text \<open>
  \<open>tx_window base ep\<close>: the array of pending datagrams has a power of two of slots, \<open>tx_head\<close> is
  the slot of sequence number \<open>base\<close>, the sequence numbers from \<open>base\<close> up to \<open>send_next_psn\<close> sit
  each in its own slot, in order from the head, and every other slot is free.
\<close>

definition window_slot :: "u32 \<Rightarrow> u32 \<Rightarrow> nat \<Rightarrow> tx_slot \<Rightarrow> bool" where
  "window_slot base nxt j s \<longleftrightarrow> (case s of
      Mbuf m \<Rightarrow> j < unat (nxt - base) \<and> pd_psn m = base + of_nat j
    | Null \<Rightarrow> unat (nxt - base) \<le> j
    | Wild _ \<Rightarrow> False)"

definition tx_window :: "u32 \<Rightarrow> 'r ee_state \<Rightarrow> bool" where
  "tx_window base ep \<longleftrightarrow> (\<exists>k \<le> 31. tx_pending_size ep = 2 ^ k) \<and> length (tx_pending ep) = tx_pending_size ep \<and>
     tx_head ep = unat base mod tx_pending_size ep \<and>
     unat (send_next_psn ep - base) \<le> tx_pending_size ep \<and>
     (\<forall>j < tx_pending_size ep. window_slot base (send_next_psn ep) j
        (tx_pending ep ! ((unat base + j) mod tx_pending_size ep)))"

lemma unat_add_of_nat_mod:
  assumes "k \<le> 32"
  shows "unat (base + of_nat j :: u32) mod 2 ^ k = (unat base + j) mod 2 ^ k"
proof -
  have dvd: "(2 :: nat) ^ k dvd 2 ^ 32" using assms by (rule le_imp_power_dvd)
  have "unat (base + of_nat j) = (unat base + unat (of_nat j :: u32)) mod 2 ^ 32"
    by (simp add: unat_word_ariths)
  moreover have "unat (of_nat j :: u32) = j mod 2 ^ 32"
    by (simp add: unsigned_of_nat take_bit_eq_mod)
  ultimately have "unat (base + of_nat j) = (unat base + j) mod 2 ^ 32"
    by (simp add: mod_add_right_eq)
  then show ?thesis using dvd by (simp add: mod_mod_cancel)
qed

lemma tx_pending_entry_mod:
  assumes "tx_pending_size ep = 2 ^ k" "k \<le> 31"
  shows "tx_pending_entry ep psn = unat psn mod tx_pending_size ep"
proof -
  have "psn AND (of_nat (2 ^ k) - 1) = take_bit k psn"
    by (simp add: take_bit_eq_mask mask_eq_exp_minus_1)
  moreover have "unat (take_bit k psn) = unat psn mod 2 ^ k"
    by (simp only: unsigned_take_bit_eq) (simp only: take_bit_eq_mod)
  ultimately show ?thesis using assms by (simp add: tx_pending_entry_def)
qed

lemma tx_window_next:
  assumes "tx_window base ep"
  shows "tx_pending_entry ep (send_next_psn ep) = (unat base + unat (send_next_psn ep - base)) mod tx_pending_size ep"
proof -
  obtain k where k: "k \<le> 31" "tx_pending_size ep = 2 ^ k" using assms by (auto simp: tx_window_def)
  have "send_next_psn ep = base + of_nat (unat (send_next_psn ep - base))" by simp
  then have "unat (send_next_psn ep) mod 2 ^ k = (unat base + unat (send_next_psn ep - base)) mod 2 ^ k"
    using unat_add_of_nat_mod [of k base "unat (send_next_psn ep - base)"] k(1) by simp
  then show ?thesis using tx_pending_entry_mod [OF k(2,1)] k by simp
qed

lemma mod_window_inj:
  assumes "(b + i) mod n = (b + j) mod n" "i < n" "j < (n :: nat)"
  shows "i = j"
proof (rule ccontr)
  assume "i \<noteq> j"
  then consider "i < j" | "j < i" by linarith
  then show False
  proof cases
    case 1
    then have "n dvd (b + j) - (b + i)"
      using assms(1) by (metis add_le_cancel_left less_imp_le mod_eq_dvd_iff_nat)
    then show False using 1 assms(3) by (auto dest: dvd_imp_le)
  next
    case 2
    then have "n dvd (b + i) - (b + j)"
      using assms(1) by (metis add_le_cancel_left less_imp_le mod_eq_dvd_iff_nat)
    then show False using 2 assms(2) by (auto dest: dvd_imp_le)
  qed
qed

lemma tx_window_update:
  assumes "tx_window base ep" "slot_mbuf ep i = Some m" "pd_psn m' = pd_psn m"
  shows "tx_window base ((set_slot i (Mbuf m') ep)\<lparr>trp_flags := fl\<rparr>)"
proof -
  have i: "i < length (tx_pending ep)" "tx_pending ep ! i = Mbuf m"
    using assms(2) by (auto simp: slot_mbuf_def split: if_splits tx_slot.splits)
  have "window_slot base (send_next_psn ep) j ((tx_pending ep)[i := Mbuf m'] ! ((unat base + j) mod tx_pending_size ep))"
    if "j < tx_pending_size ep" for j
  proof -
    have "window_slot base (send_next_psn ep) j (tx_pending ep ! ((unat base + j) mod tx_pending_size ep))"
      using assms(1) that by (simp add: tx_window_def)
    then show ?thesis using i assms(3)
      by (cases "(unat base + j) mod tx_pending_size ep = i") (auto simp: window_slot_def)
  qed
  then show ?thesis using assms(1) by (simp add: tx_window_def set_slot_def)
qed

lemma resend_ddp_segment_window:
  assumes "resend_ddp_segment D qp i = Some (r, qp')" "tx_window base (remote_ep qp)"
  shows "tx_window base (remote_ep qp')"
proof -
  obtain m fl where m: "slot_mbuf (remote_ep qp) i = Some m"
    "remote_ep qp' = (set_slot i (Mbuf (m\<lparr>next_retransmit := rte_get_timer_cycles D (tick qp) + rte_get_timer_hz D div 100,
       transmit_count := transmit_count m + 1\<rparr>)) (remote_ep qp))\<lparr>trp_flags := fl\<rparr>"
    using resend_ddp_segment_ep [OF assms(1)] by blast
  show ?thesis unfolding m(2) by (rule tx_window_update [OF assms(2) m(1)]) simp
qed

text \<open>Placing the next segment in its slot.\<close>

definition ep_push :: "tx_mbuf \<Rightarrow> 'r ee_state \<Rightarrow> 'r ee_state" where
  "ep_push m ep = set_slot (tx_pending_entry ep (send_next_psn ep)) (Mbuf m) (ep\<lparr>send_next_psn := send_next_psn ep + 1\<rparr>)"

lemma tx_window_push:
  assumes w: "tx_window base ep" and room: "unat (send_next_psn ep - base) < tx_pending_size ep"
    and psn: "pd_psn m = send_next_psn ep"
  shows "tx_pending_entry ep (send_next_psn ep) < length (tx_pending ep)"
    and "tx_pending ep ! tx_pending_entry ep (send_next_psn ep) = Null"
    and "tx_window base (ep_push m ep)"
    and "unat (send_next_psn (ep_push m ep) - base) = Suc (unat (send_next_psn ep - base))"
proof -
  define u where "u = unat (send_next_psn ep - base)"
  define n where "n = tx_pending_size ep"
  obtain k where k: "k \<le> 31" "n = 2 ^ k" using w by (auto simp: tx_window_def n_def)
  have n: "0 < n" "n \<le> 2 ^ 31" using k power_increasing [of k 31 "2 :: nat"] by simp_all
  have len: "length (tx_pending ep) = n" using w by (simp add: tx_window_def n_def)
  have u: "u < n" using room by (simp add: u_def n_def)
  have slots: "window_slot base (send_next_psn ep) j (tx_pending ep ! ((unat base + j) mod n))" if "j < n" for j
    using w that by (simp add: tx_window_def n_def)
  have entry: "tx_pending_entry ep (send_next_psn ep) = (unat base + u) mod n"
    using tx_window_next [OF w] by (simp add: u_def n_def)
  show "tx_pending_entry ep (send_next_psn ep) < length (tx_pending ep)"
    using n by (simp add: entry len)
  show "tx_pending ep ! tx_pending_entry ep (send_next_psn ep) = Null"
    using slots [OF u] by (simp add: entry window_slot_def u_def split: tx_slot.splits)
  have next': "unat (send_next_psn ep + 1 - base) = Suc u"
  proof -
    have "send_next_psn ep + 1 - base = (send_next_psn ep - base) + 1" by simp
    moreover have "unat ((send_next_psn ep - base) + 1) = u + 1"
      unfolding u_def by (subst unat_add_no_overflow) (use u n in \<open>simp_all add: u_def\<close>)
    ultimately show ?thesis by (simp only: Suc_eq_plus1)
  qed
  then show "unat (send_next_psn (ep_push m ep) - base) = Suc (unat (send_next_psn ep - base))"
    by (simp add: ep_push_def set_slot_def u_def)
  have "window_slot base (send_next_psn ep + 1) j ((tx_pending ep)[(unat base + u) mod n := Mbuf m] ! ((unat base + j) mod n))"
    if j: "j < n" for j
  proof (cases "j = u")
    case True
    then show ?thesis using len n psn by (simp add: window_slot_def next' u_def)
  next
    case False
    then have "(unat base + u) mod n \<noteq> (unat base + j) mod n"
      using mod_window_inj [of "unat base" u n j] u j by blast
    then show ?thesis using slots [OF j] False
      by (auto simp: window_slot_def next' u_def [symmetric] split: tx_slot.splits)
  qed
  then show "tx_window base (ep_push m ep)"
    using w u len next' k by (auto simp: tx_window_def ep_push_def set_slot_def entry n_def [symmetric])
qed

definition seg_info :: "'r dpdk \<Rightarrow> 'r usiw_qp \<Rightarrow> tx_mbuf \<Rightarrow> nat option \<Rightarrow> nat option \<Rightarrow> u64 \<Rightarrow> tx_mbuf" where
  "seg_info D qp m readresp wqe len = m\<lparr>pd_wqe := wqe, pd_readresp := readresp, transmit_count := 0,
     ddp_length := ucast len,
     ddp_raw_cksum := (if dev_flags (qp_dev qp) = 0 then ucast (rte_raw_cksum D (mb_data m)) else ddp_raw_cksum m),
     pd_psn := send_next_psn (remote_ep qp)\<rparr>"

lemma send_ddp_segment_total:
  assumes "tx_env D" "tx_ready qp" and w: "tx_window base (remote_ep qp)"
    and room: "unat (send_next_psn (remote_ep qp) - base) < tx_pending_size (remote_ep qp)"
  shows "\<exists>qp'. send_ddp_segment D qp m rr wqe len = Some (send_next_psn (remote_ep qp), qp') \<and>
    tx_ready qp' \<and> tx_window base (remote_ep qp') \<and> tx_changed qp qp' \<and>
    send_next_psn (remote_ep qp') = send_next_psn (remote_ep qp) + 1 \<and>
    unat (send_next_psn (remote_ep qp') - base) = Suc (unat (send_next_psn (remote_ep qp) - base)) \<and>
    outgoing qp' = outgoing qp @ (case rte_pktmbuf_alloc D tx_hdr_mempool (Suc (tick qp)) of
       None \<Rightarrow> [] | Some hdr \<Rightarrow> [segment_frame D qp hdr (seg_info D qp m rr wqe len)])"
proof -
  define m' where "m' = seg_info D qp m rr wqe len"
  define i where "i = tx_pending_entry (remote_ep qp) (send_next_psn (remote_ep qp))"
  define qp1 where "qp1 = map_ep (ep_push m') qp"
  note push = tx_window_push [OF w room, of m']
  have psn: "pd_psn m' = send_next_psn (remote_ep qp)" by (simp add: m'_def seg_info_def)
  have i: "i < length (tx_pending (remote_ep qp))" "tx_pending (remote_ep qp) ! i = Null"
    using push(1,2) [OF psn] by (simp_all add: i_def)
  have ready: "tx_ready qp1" using assms(2) by (simp add: qp1_def tx_ready_def)
  have slot: "slot_mbuf (remote_ep qp1) i = Some m'"
    using i(1) by (simp add: slot_mbuf_def qp1_def ep_push_def set_slot_def i_def)
  have entry: "tx_pending_entry (ep\<lparr>send_next_psn := v\<rparr>) p = tx_pending_entry ep p" for ep :: "'a ee_state" and v p
    by (simp add: tx_pending_entry_def)
  have send: "send_ddp_segment D qp m rr wqe len =
      (resend_ddp_segment D qp1 i \<bind> (\<lambda>(_, qp). Some (send_next_psn (remote_ep qp1) - 1, qp)))"
    using i by (simp add: send_ddp_segment_def Let_def entry i_def [symmetric] qp1_def ep_push_def m'_def seg_info_def set_slot_def)
  obtain r qp' where r: "resend_ddp_segment D qp1 i = Some (r, qp')" "tx_ready qp'"
    "outgoing qp' = outgoing qp1 @ (case rte_pktmbuf_alloc D tx_hdr_mempool (Suc (tick qp1)) of
       None \<Rightarrow> [] | Some hdr \<Rightarrow> [segment_frame D qp1 hdr m'])"
    using resend_ddp_segment_total [OF assms(1) ready slot]
    by (auto simp: m'_def seg_info_def RETRANSMIT_MAX_def split: option.splits)
  have next': "send_next_psn (remote_ep qp1) = send_next_psn (remote_ep qp) + 1"
    by (simp add: qp1_def ep_push_def set_slot_def)
  have "send_ddp_segment D qp m rr wqe len = Some (send_next_psn (remote_ep qp), qp')"
    by (simp add: send r(1) next')
  moreover have "send_next_psn (remote_ep qp') = send_next_psn (remote_ep qp1)"
    using resend_ddp_segment_ep [OF r(1)] by (auto simp: set_slot_def)
  moreover have "tx_window base (remote_ep qp')"
    by (rule resend_ddp_segment_window [OF r(1)]) (simp add: qp1_def push(3) [OF psn])
  moreover have seg: "segment_frame D qp1 = segment_frame D qp"
    using dgram_frame_cong [of qp1 qp D] by (simp add: fun_eq_iff segment_frame_def qp1_def ep_push_def set_slot_def)
  have "outgoing qp1 = outgoing qp" "tick qp1 = tick qp" by (simp_all add: qp1_def outgoing_def)
  then have "outgoing qp' = outgoing qp @ (case rte_pktmbuf_alloc D tx_hdr_mempool (Suc (tick qp)) of
       None \<Rightarrow> [] | Some hdr \<Rightarrow> [segment_frame D qp hdr (seg_info D qp m rr wqe len)])"
    using r(3) by (simp add: seg m'_def split: option.split)
  moreover have "unat (send_next_psn (remote_ep qp) + 1 - base) = Suc (unat (send_next_psn (remote_ep qp) - base))"
    using push(4) [OF psn] by (simp add: ep_push_def set_slot_def)
  ultimately show ?thesis
    using r(2) next' send_ddp_segment_changed by (intro exI [of _ qp']) auto
qed

section \<open>Properties\<close>

text \<open>
  \<^verbatim>\<open>flush_tx_queue\<close> returns when the network card accepts at least one packet of every
  non-empty burst. All frames of the transmit queue then have been handed over, in order, the
  queue is empty, and apart from the call counter nothing else changed.
\<close>

theorem flush_tx_queue_sends_all:
  assumes "tx_burst_spec D" "tx_burst_progress D"
  shows "\<exists>t. flush_tx_queue D qp =
    Some (qp\<lparr>io := (io qp)\<lparr>io_tick := t, io_wire := io_wire (io qp) @ txq qp\<rparr>, txq := []\<rparr>)"
  using flush_tx_queue_total [OF assms] by blast

definition example_frame :: frame where
  "example_frame = \<lparr>fr_data = [1, 2, 3], fr_headroom = 86, fr_flags = [], fr_l2_len = 14, fr_l3_len = 20, fr_l4_len = 8\<rparr>"

theorem flush_tx_queue_sends_all_example:
  "\<exists>qp'. flush_tx_queue example_env (example_qp\<lparr>txq := [example_frame, example_frame]\<rparr>) = Some qp' \<and>
     io_wire (io qp') = [example_frame, example_frame] \<and> txq qp' = []"
  using flush_tx_queue_sends_all [OF example_env_tx, of "example_qp\<lparr>txq := [example_frame, example_frame]\<rparr>"]
  by (auto simp: example_qp_def)

lemma flush_tx_loop_stuck:
  "flush_tx_loop D qp rest = Some qp' \<Longrightarrow> (\<And>t n. rte_eth_tx_burst D t n = 0) \<Longrightarrow> rest = []"
proof (induction rule: flush_tx_loop.raw_induct [rotated 1, consumes 1])
  case (1 f D qp rest qp')
  then show ?case by (auto simp: Let_def split: if_splits)
qed

text \<open>
  A card that accepts nothing keeps \<^verbatim>\<open>flush_tx_queue\<close> in its loop forever as soon as one frame
  is queued.
\<close>

lemma flush_tx_queue_stuck:
  assumes "\<And>t n. rte_eth_tx_burst D t n = 0" "txq qp \<noteq> []"
  shows "flush_tx_queue D qp = None"
  using flush_tx_loop_stuck [of D qp "txq qp"] assms
  by (cases "flush_tx_loop D qp (txq qp)") (auto simp: flush_tx_queue_def)

lemma flush_tx_queue_stuck_example:
  "flush_tx_queue (example_env\<lparr>rte_eth_tx_burst := \<lambda>t n. 0\<rparr>) (example_qp\<lparr>txq := [example_frame]\<rparr>) = None"
  using flush_tx_queue_stuck [of "example_env\<lparr>rte_eth_tx_burst := \<lambda>t n. 0\<rparr>" "example_qp\<lparr>txq := [example_frame]\<rparr>"]
  by simp

lemma example_tx_env: "tx_env example_env"
  using example_env_tx by (simp add: tx_env_def example_env_def)

lemma example_tx_ready: "tx_ready example_qp"
  by (simp add: tx_ready_def example_qp_def example_shm_def)

text \<open>
  On a device whose only capability is the flow director, so that checksums are not
  offloaded, the UDP checksum of a DDP segment does not depend on its payload: the precedence
  of \<^verbatim>\<open>!\<close> over \<^verbatim>\<open>&\<close> makes the payload checksum zero whenever any capability is set. Two datagrams
  of the same length with different payloads are sent with the same checksum.
\<close>

lemma fdir_checksum_ignores_payload:
  assumes "tx_env D" "tx_ready qp" "dev_flags (qp_dev qp) = port_fdir"
    and "slot_mbuf (remote_ep qp) i = Some m" "transmit_count m \<le> RETRANSMIT_MAX"
    and "rte_pktmbuf_alloc D tx_hdr_mempool (Suc (tick qp)) = Some hdr" "mb_data hdr = []"
    and "length bs = length (mb_data m)"
  shows "\<exists>qp1 qp2 f1 f2. resend_ddp_segment D qp i = Some (Ok, qp1) \<and> outgoing qp1 = outgoing qp @ [f1] \<and>
    resend_ddp_segment D (map_ep (set_slot i (Mbuf (m\<lparr>mb_data := bs\<rparr>))) qp) i = Some (Ok, qp2) \<and>
    outgoing qp2 = outgoing qp @ [f2] \<and> fr_flags f1 = [] \<and> fr_flags f2 = [] \<and>
    drop 52 (fr_data f1) = mb_data m \<and> drop 52 (fr_data f2) = bs \<and>
    take 2 (drop 40 (fr_data f1)) = take 2 (drop 40 (fr_data f2))"
proof -
  let ?qp = "map_ep (set_slot i (Mbuf (m\<lparr>mb_data := bs\<rparr>))) qp"
  have i: "i < length (tx_pending (remote_ep qp))"
    using assms(4) by (simp add: slot_mbuf_def split: if_splits)
  have slot: "slot_mbuf (remote_ep ?qp) i = Some (m\<lparr>mb_data := bs\<rparr>)"
    using i by (simp add: slot_mbuf_def set_slot_def)
  have ready: "tx_ready ?qp" "tick ?qp = tick qp" "outgoing ?qp = outgoing qp"
    using assms(2) by (simp_all add: tx_ready_def outgoing_def)
  obtain qp1 where r1: "resend_ddp_segment D qp i = Some (Ok, qp1)" "outgoing qp1 = outgoing qp @ [segment_frame D qp hdr m]"
    using resend_ddp_segment_total [OF assms(1,2,4)] leD [OF assms(5)] assms(6) by auto
  obtain qp2 where r2: "resend_ddp_segment D ?qp i = Some (Ok, qp2)"
    "outgoing qp2 = outgoing qp @ [segment_frame D ?qp hdr (m\<lparr>mb_data := bs\<rparr>)]"
    using resend_ddp_segment_total [OF assms(1) ready(1) slot] leD [OF assms(5)] assms(6) ready by auto
  have "length (remote_ether_addr (shm_qp qp)) = 6" "length (rte_eth_macaddr_get D (dev_portid (qp_dev qp))) = 6"
    using assms(1,2) by (simp_all add: tx_env_def tx_ready_def)
  then show ?thesis using r1 r2 assms(3,7,8)
    by (intro exI [of _ qp1] exI [of _ qp2] exI conjI)
      (assumption | simp add: segment_frame_def dgram_frame_def Let_def udp_frame_bytes_def udp_hdr_bytes_def
        set_slot_def port_fdir_def port_checksum_offload_def)+
qed

definition pending_mbuf :: "u32 \<Rightarrow> tx_mbuf" where
  "pending_mbuf psn = \<lparr>mb_addr = 0x7f0000001000, mb_data = [1, 2, 3, 4], next_retransmit = 0, pd_wqe = None,
     pd_readresp = None, transmit_count = 0, ddp_length = 4, ddp_raw_cksum = 10, pd_psn = psn\<rparr>"

lemma fdir_checksum_ignores_payload_example:
  "\<exists>qp1 qp2 f1 f2 qp. dev_flags (qp_dev qp) = port_fdir \<and>
    resend_ddp_segment example_env qp 0 = Some (Ok, qp1) \<and> outgoing qp1 = outgoing qp @ [f1] \<and>
    resend_ddp_segment example_env (map_ep (set_slot 0 (Mbuf ((pending_mbuf 0)\<lparr>mb_data := [9, 9, 9, 9]\<rparr>))) qp) 0 = Some (Ok, qp2) \<and>
    outgoing qp2 = outgoing qp @ [f2] \<and> drop 52 (fr_data f1) = [1, 2, 3, 4] \<and> drop 52 (fr_data f2) = [9, 9, 9, 9] \<and>
    take 2 (drop 40 (fr_data f1)) = take 2 (drop 40 (fr_data f2))"
proof -
  define qp where "qp = (map_ep (set_slot 0 (Mbuf (pending_mbuf 0))) example_qp)\<lparr>qp_dev := (qp_dev example_qp)\<lparr>dev_flags := port_fdir\<rparr>\<rparr>"
  have "slot_mbuf (remote_ep qp) 0 = Some (pending_mbuf 0)"
    by (simp add: qp_def slot_mbuf_def set_slot_def example_qp_def example_ep_def)
  moreover have "tx_ready qp" using example_tx_ready by (simp add: tx_ready_def qp_def)
  moreover have "\<exists>hdr. rte_pktmbuf_alloc example_env tx_hdr_mempool (Suc (tick qp)) = Some hdr \<and> mb_data hdr = []"
    by (simp add: example_env_def)
  moreover have "dev_flags (qp_dev qp) = port_fdir" by (simp add: qp_def)
  ultimately show ?thesis
    using fdir_checksum_ignores_payload [OF example_tx_env, of qp 0 "pending_mbuf 0" _ "[9, 9, 9, 9]"]
    by (fastforce simp: pending_mbuf_def RETRANSMIT_MAX_def)
qed

text \<open>
  C15. Sending a segment inside the window. When fewer datagrams are pending than there are
  slots, \<^verbatim>\<open>send_ddp_segment\<close> finds the slot of the next sequence number free, so its assertion
  holds and no pending datagram is overwritten; the segment takes the next sequence number, the
  window grows by exactly this segment, and if a header can be allocated its frame leaves.
\<close>

theorem send_ddp_segment_in_window:
  assumes "tx_env D" "tx_ready qp" "tx_window base (remote_ep qp)"
    and "unat (send_next_psn (remote_ep qp) - base) < tx_pending_size (remote_ep qp)"
  shows "\<exists>qp'. send_ddp_segment D qp m rr wqe len = Some (send_next_psn (remote_ep qp), qp') \<and>
    tx_ready qp' \<and> tx_window base (remote_ep qp') \<and> tx_changed qp qp' \<and>
    unat (send_next_psn (remote_ep qp') - base) = Suc (unat (send_next_psn (remote_ep qp) - base)) \<and>
    outgoing qp' = outgoing qp @ (case rte_pktmbuf_alloc D tx_hdr_mempool (Suc (tick qp)) of
       None \<Rightarrow> [] | Some hdr \<Rightarrow> [segment_frame D qp hdr (seg_info D qp m rr wqe len)])"
  using send_ddp_segment_total [OF assms] by blast

lemma example_window: "tx_window 0 (remote_ep example_qp)"
  unfolding tx_window_def
proof (intro conjI)
  show "\<exists>k \<le> 31. tx_pending_size (remote_ep example_qp) = 2 ^ k"
    by (intro exI [of _ 3]) (simp add: example_qp_def example_ep_def)
qed (simp_all add: example_qp_def example_ep_def window_slot_def)

theorem send_ddp_segment_in_window_witness:
  "\<exists>qp'. send_ddp_segment example_env example_qp (pending_mbuf 0) None (Some 0) 4 = Some (0, qp') \<and>
     tx_window 0 (remote_ep qp') \<and> length (outgoing qp') = 1"
proof -
  have "send_next_psn (remote_ep example_qp) = 0" "tx_pending_size (remote_ep example_qp) = 8" "outgoing example_qp = []"
    by (simp_all add: example_qp_def example_ep_def outgoing_def)
  moreover obtain hdr where "rte_pktmbuf_alloc example_env tx_hdr_mempool (Suc (tick example_qp)) = Some hdr"
    by (simp add: example_env_def)
  ultimately show ?thesis
    using send_ddp_segment_in_window [OF example_tx_env example_tx_ready example_window, of "pending_mbuf 0" None "Some 0" 4]
    by auto
qed

section \<open>The format of a datagram on the wire\<close>

text \<open>
  Fields of a packet by their offset, in network byte order, and the sum of the 16-bit words of a
  byte string as the host loads them, the last odd byte padded with zero (RFC 1071).
\<close>

definition at16 :: "u8 list \<Rightarrow> nat \<Rightarrow> nat" where
  "at16 bs k = 256 * unat (bs ! k) + unat (bs ! Suc k)"

definition at32 :: "u8 list \<Rightarrow> nat \<Rightarrow> nat" where
  "at32 bs k = 65536 * at16 bs k + at16 bs (k + 2)"

fun word_sum :: "u8 list \<Rightarrow> nat" where
  "word_sum [] = 0"
| "word_sum [b] = unat b"
| "word_sum (a # b # bs) = unat a + 256 * unat b + word_sum bs"

text \<open>
  What DPDK documents of its checksum functions: \<^verbatim>\<open>rte_raw_cksum\<close> is the non-complemented checksum
  of a buffer, \<^verbatim>\<open>rte_ipv4_cksum\<close> the complemented checksum of a header whose checksum field is
  zero, and \<^verbatim>\<open>rte_ipv4_phdr_cksum\<close> the non-complemented checksum of the pseudo-header: addresses,
  protocol, and the length behind the IPv4 header.
\<close>

definition cksum_spec :: "'r dpdk \<Rightarrow> bool" where
  "cksum_spec D \<longleftrightarrow>
     (\<forall>bs. unat (rte_raw_cksum D bs) mod 65535 = word_sum bs mod 65535) \<and>
     (\<forall>h. length h = 20 \<longrightarrow> (word_sum h + unat (rte_ipv4_cksum D h)) mod 65535 = 0) \<and>
     (\<forall>h. length h = 20 \<and> 20 \<le> at16 h 2 \<longrightarrow> unat (rte_ipv4_phdr_cksum D h []) mod 65535 =
        word_sum (take 8 (drop 12 h) @ [0, h ! 9] @ put_be 2 (of_nat (at16 h 2 - 20) :: u16)) mod 65535)"

lemma word_sum_append: "even (length xs) \<Longrightarrow> word_sum (xs @ ys) = word_sum xs + word_sum ys"
  by (induction xs rule: word_sum.induct) simp_all

lemma put_le_2: "put_le 2 v = [byte_at v 0, byte_at v 1]"
  by (simp add: put_le_def numeral_2_eq_2)

lemma unat_bytes_16:
  fixes v :: u16
  shows "unat (byte_at v 0) = unat v mod 256" "unat (byte_at v (Suc 0)) = unat v div 256"
proof -
  show "unat (byte_at v 0) = unat v mod 256" by (simp add: byte_at_def unsigned_ucast_eq take_bit_eq_mod)
  have "unat v < 65536" using unat_bound [of v] by simp
  then have "unat v div 256 < 256" by (simp add: less_mult_imp_div_less)
  then show "unat (byte_at v (Suc 0)) = unat v div 256"
    by (simp add: byte_at_def unsigned_ucast_eq drop_bit_eq_div unat_div take_bit_nat_eq_self)
qed

lemma word_sum_put_le: "word_sum (put_le 2 v) = unat v" for v :: u16
  using div_mult_mod_eq [of "unat v" 256] by (simp add: put_le_2 unat_bytes_16)

lemma put_le_join_le: "length bs = n \<Longrightarrow> LENGTH('a) = 8 * n \<Longrightarrow> put_le n (join_le bs :: 'a :: len word) = bs"
proof (rule nth_equalityI)
  fix k assume n: "length bs = n" "LENGTH('a) = 8 * n" and "k < length (put_le n (join_le bs :: 'a word))"
  then have k: "k < n" by simp
  have "byte_at (join_le bs :: 'a word) k = bs ! k"
  proof (rule bit_word_eqI)
    fix j assume "j < LENGTH(8)"
    then have "j < 8" by simp
    moreover have "8 * k + j < 8 * n" using k calculation by linarith
    ultimately show "bit (byte_at (join_le bs :: 'a word) k) j = bit (bs ! k) j" using n by (simp add: bit_byte_at bit_join_le)
  qed
  then show "put_le n (join_le bs :: 'a word) ! k = bs ! k" using k by (simp add: put_le_def)
qed simp

lemma word_sum_put_be: "word_sum (put_be 2 v) = unat (cpu_to_be_16 v)"
  using word_sum_put_le [of "cpu_to_be_16 v"] by (simp add: cpu_to_be_16_def put_le_join_le)

lemma at16_put_be:
  assumes "k + 2 \<le> length bs" "take 2 (drop k bs) = put_be 2 (v :: u16)"
  shows "at16 bs k = unat v"
proof -
  have "bs ! k = byte_at v 1" "bs ! Suc k = byte_at v 0"
    using arg_cong [OF assms(2), of "\<lambda>xs. xs ! 0"] arg_cong [OF assms(2), of "\<lambda>xs. xs ! 1"] assms(1) by (simp_all add: put_be_def put_le_2)
  then show ?thesis using div_mult_mod_eq [of "unat v" 256] by (simp add: at16_def unat_bytes_16 mult.commute)
qed

lemma at32_put_be:
  assumes "k + 4 \<le> length bs" "take 4 (drop k bs) = put_be 4 (v :: u32)"
  shows "at32 bs k = unat v"
proof -
  define x where "x = unat v"
  have b: "unat (byte_at v j) = x div 2 ^ (8 * j) mod 256" for j
    by (simp add: byte_at_def unsigned_ucast_eq take_bit_eq_mod x_def unat_drop_bit_eq)
      (simp add: drop_bit_eq_div)
  have "bs ! k = byte_at v 3" "bs ! Suc k = byte_at v 2" "bs ! (k + 2) = byte_at v 1" "bs ! Suc (k + 2) = byte_at v 0"
    using arg_cong [OF assms(2), of "\<lambda>xs. xs ! 0"] arg_cong [OF assms(2), of "\<lambda>xs. xs ! 1"] arg_cong [OF assms(2), of "\<lambda>xs. xs ! 2"]
      arg_cong [OF assms(2), of "\<lambda>xs. xs ! 3"] assms(1)
    by (simp_all add: put_be_def put_le_def rev_nth numeral_2_eq_2 eval_nat_numeral(3))
  moreover have "x < 256 * 256 * (256 * 256)" using unat_bound [of v] by (simp add: x_def)
  then have "x div 256 div 256 div 256 mod 256 = x div 256 div 256 div 256" by (simp add: div_mult2_eq [symmetric] less_mult_imp_div_less)
  ultimately have "at32 bs k = 65536 * (256 * (x div 256 div 256 div 256) + x div 256 div 256 mod 256) + (256 * (x div 256 mod 256) + x mod 256)"
    by (simp add: at32_def at16_def b div_mult2_eq [symmetric])
  moreover have "65536 * (256 * e + d) + (256 * c + a) = y" if "256 * p + a = y" "256 * q + c = p" "256 * e + d = q" for a c d e p q y :: nat
    unfolding that(3) that(1) [symmetric] that(2) [symmetric] by simp
  ultimately show ?thesis unfolding x_def [symmetric] by (metis mult_div_mod_eq)
qed


text \<open>
  An Ethernet frame that carries one unfragmented UDP datagram (RFC 791 and RFC 768): the type and
  the protocol, header and total lengths, and both checksums. The UDP checksum is present, and it
  covers the pseudo-header, the UDP header and every byte of the payload.
\<close>

definition udp_over_ipv4 :: "u8 list \<Rightarrow> bool" where
  "udp_over_ipv4 bs \<longleftrightarrow> 42 \<le> length bs \<and> at16 bs 12 = 0x0800 \<and> bs ! 14 = 0x45 \<and> at16 bs 16 + 14 = length bs \<and>
     at16 bs 20 = 0 \<and> 0 < bs ! 22 \<and> bs ! 23 = 17 \<and> word_sum (take 20 (drop 14 bs)) mod 65535 = 0 \<and>
     at16 bs 38 + 34 = length bs \<and> at16 bs 40 \<noteq> 0 \<and>
     word_sum (take 8 (drop 26 bs) @ [0, bs ! 23] @ take 2 (drop 38 bs) @ drop 34 bs) mod 65535 = 0"

lemma length_udp_frame_bytes:
  assumes "length (remote_ether_addr (shm_qp qp)) = 6" "length (rte_eth_macaddr_get D (dev_portid (qp_dev qp))) = 6"
  shows "length (udp_frame_bytes D qp ic uc payload) = 42 + length payload"
  using assms by (simp add: udp_frame_bytes_def)

lemma udp_frame_layout:
  assumes "length (remote_ether_addr (shm_qp qp)) = 6" "length (rte_eth_macaddr_get D (dev_portid (qp_dev qp))) = 6"
    and bs: "bs = udp_frame_bytes D qp ic uc payload"
  shows "take 6 bs = remote_ether_addr (shm_qp qp)" "take 6 (drop 6 bs) = rte_eth_macaddr_get D (dev_portid (qp_dev qp))"
    and "take 2 (drop 12 bs) = put_be 2 ETHER_TYPE_IPv4"
    and "take 20 (drop 14 bs) = ipv4_hdr_bytes (8 + length payload) IP_HDR_PROTO_UDP ic (dev_ipv4_addr (qp_dev qp)) (remote_ipv4_addr (shm_qp qp))"
    and "take 2 (drop 16 bs) = put_be 2 (of_nat (28 + length payload) :: u16)"
    and "take 4 (drop 26 bs) = put_le 4 (dev_ipv4_addr (qp_dev qp))" "take 4 (drop 30 bs) = put_le 4 (remote_ipv4_addr (shm_qp qp))"
    and "take 2 (drop 34 bs) = put_le 2 (local_udp_port (shm_qp qp))" "take 2 (drop 36 bs) = put_le 2 (remote_udp_port (shm_qp qp))"
    and "take 2 (drop 38 bs) = put_be 2 (of_nat (8 + length payload) :: u16)" "take 2 (drop 40 bs) = put_le 2 uc"
    and "drop 42 bs = payload"
  using assms(1,2) unfolding bs udp_frame_bytes_def by (simp_all add: ipv4_hdr_bytes_def udp_hdr_bytes_def)

lemma udp_frame_bytes_at:
  assumes "length (remote_ether_addr (shm_qp qp)) = 6" "length (rte_eth_macaddr_get D (dev_portid (qp_dev qp))) = 6"
    and bs: "bs = udp_frame_bytes D qp ic uc payload"
  shows "bs ! 14 = 0x45" "bs ! 20 = 0" "bs ! 21 = 0" "bs ! 22 = 64" "bs ! 23 = 17"
proof -
  have "bs ! (14 + k) = ipv4_hdr_bytes (8 + length payload) IP_HDR_PROTO_UDP ic (dev_ipv4_addr (qp_dev qp)) (remote_ipv4_addr (shm_qp qp)) ! k"
    if "k < 20" for k
    using that length_udp_frame_bytes [OF assms(1,2), of ic uc payload]
    unfolding udp_frame_layout(4) [OF assms, symmetric] by (simp add: bs)
  from this [of 0] this [of 6] this [of 7] this [of 8] this [of 9]
  show "bs ! 14 = 0x45" "bs ! 20 = 0" "bs ! 21 = 0" "bs ! 22 = 64" "bs ! 23 = 17"
    by (simp_all add: ipv4_hdr_bytes_def IP_HDR_PROTO_UDP_def nth_append put_be_def put_le_def)
qed


lemma word_sum_ipv4_hdr: "word_sum (ipv4_hdr_bytes n p ck a b) = word_sum (ipv4_hdr_bytes n p 0 a b) + unat ck"
proof -
  have "word_sum (ipv4_hdr_bytes n p c a b) = word_sum ([0x45, 0] @ put_be 2 (of_nat (20 + n) :: u16) @ [0, 0] @ [0, 0] @ [64, p])
      + (unat c + word_sum (put_le 4 a @ put_le 4 b))" for c
    unfolding ipv4_hdr_bytes_def word_sum_put_le [symmetric] by (simp add: word_sum_append del: put_le_def)
  then show ?thesis by simp
qed

lemma udp_frame_checksums:
  assumes "length (remote_ether_addr (shm_qp qp)) = 6" "length (rte_eth_macaddr_get D (dev_portid (qp_dev qp))) = 6"
    and "cksum_spec D" "dev_flags (qp_dev qp) = 0" "28 + length payload < 65536"
    and raw: "unat raw mod 65535 = word_sum payload mod 65535" "unat raw < 2 ^ 31"
    and bs: "bs = fr_data (dgram_frame D qp headroom raw payload)"
  shows "word_sum (take 20 (drop 14 bs)) mod 65535 = 0" "at16 bs 40 \<noteq> 0"
    and "word_sum (take 8 (drop 26 bs) @ [0, bs ! 23] @ take 2 (drop 38 bs) @ drop 34 bs) mod 65535 = 0"
proof -
  let ?h = "\<lambda>ck. ipv4_hdr_bytes (8 + length payload) IP_HDR_PROTO_UDP ck (dev_ipv4_addr (qp_dev qp)) (remote_ipv4_addr (shm_qp qp))"
  let ?src = "local_udp_port (shm_qp qp)" and ?dst = "remote_udp_port (shm_qp qp)" and ?len = "of_nat (8 + length payload) :: u16"
  define ic where "ic = rte_ipv4_cksum D (?h 0)"
  define phdr where "phdr = rte_ipv4_phdr_cksum D (?h ic) []"
  define uc where "uc = udp_dgram_cksum raw phdr ?src ?dst (cpu_to_be_16 ?len)"
  have bytes: "bs = udp_frame_bytes D qp ic uc payload"
    using assms(4) by (simp add: bs dgram_frame_def Let_def ic_def phdr_def uc_def)
  note lay = udp_frame_layout [OF assms(1,2) bytes] and at = udp_frame_bytes_at [OF assms(1,2) bytes]
    and len = length_udp_frame_bytes [OF assms(1,2), of ic uc payload, folded bytes]
  have u16: "unat x < 65536" for x :: u16 using unat_bound [of x] by simp
  have ck: "uc \<noteq> 0" "65535 dvd unat raw + unat phdr + unat ?src + unat ?dst + unat (cpu_to_be_16 ?len) + unat uc"
    unfolding uc_def using raw(2) u16 [of phdr] u16 [of ?src] u16 [of ?dst] u16 [of "cpu_to_be_16 ?len"]
    by (intro udp_dgram_cksum_correct; simp)+
  show "word_sum (take 20 (drop 14 bs)) mod 65535 = 0"
    unfolding lay(4) word_sum_ipv4_hdr [of _ _ ic] using assms(3) by (simp add: cksum_spec_def ic_def)
  show "at16 bs 40 \<noteq> 0"
  proof
    assume "at16 bs 40 = 0"
    then have "word_sum (take 2 (drop 40 bs)) = 0"
      using len by (simp add: at16_def take_Suc_conv_app_nth numeral_2_eq_2)
    then show False using ck(1) by (simp add: lay(11) word_sum_put_le unat_eq_0)
  qed
  have tl: "at16 (?h ic) 2 = 28 + length payload"
  proof -
    have "at16 (?h ic) 2 = unat (of_nat (28 + length payload) :: u16)"
      by (rule at16_put_be) (simp_all add: ipv4_hdr_bytes_def)
    then show ?thesis using assms(5) by (simp add: unat_of_nat take_bit_nat_eq_self del: of_nat_add)
  qed
  have ps: "take 8 (drop 12 (?h ic)) = take 8 (drop 26 bs)" "?h ic ! 9 = bs ! 23"
    unfolding lay(4) [symmetric] using len by (simp_all add: take_drop min_def)
  have P: "length h = 20 \<and> 20 \<le> at16 h 2 \<longrightarrow> unat (rte_ipv4_phdr_cksum D h []) mod 65535 =
      word_sum (take 8 (drop 12 h) @ [0, h ! 9] @ put_be 2 (of_nat (at16 h 2 - 20) :: u16)) mod 65535" for h
    using assms(3) unfolding cksum_spec_def by blast
  have "unat phdr mod 65535 = word_sum (take 8 (drop 12 (?h ic)) @ [0, ?h ic ! 9] @ put_be 2 (of_nat (at16 (?h ic) 2 - 20) :: u16)) mod 65535"
    using P [of "?h ic"] unfolding phdr_def tl by simp
  moreover have "28 + length payload - 20 = 8 + length payload" by simp
  ultimately have ph: "unat phdr mod 65535 = word_sum (take 8 (drop 26 bs) @ [0, bs ! 23] @ take 2 (drop 38 bs)) mod 65535"
    unfolding tl ps lay(10) by (simp del: of_nat_add)
  have rest: "drop 34 bs = take 2 (drop 34 bs) @ take 2 (drop 36 bs) @ take 2 (drop 38 bs) @ take 2 (drop 40 bs) @ drop 42 bs"
    using append_take_drop_id [of 2 "drop 34 bs"] append_take_drop_id [of 2 "drop 36 bs"]
      append_take_drop_id [of 2 "drop 38 bs"] append_take_drop_id [of 2 "drop 40 bs"] by simp
  have "word_sum (drop 34 bs) = unat ?src + unat ?dst + unat (cpu_to_be_16 ?len) + unat uc + word_sum payload"
    using arg_cong [OF rest, of word_sum] unfolding lay(8-12) by (simp add: word_sum_append word_sum_put_le word_sum_put_be del: of_nat_add)
  moreover have "word_sum (take 8 (drop 26 bs) @ [0, bs ! 23] @ take 2 (drop 38 bs) @ drop 34 bs) =
      word_sum (take 8 (drop 26 bs) @ [0, bs ! 23] @ take 2 (drop 38 bs)) + word_sum (drop 34 bs)"
    using word_sum_append [of "take 8 (drop 26 bs) @ [0, bs ! 23] @ take 2 (drop 38 bs)" "drop 34 bs"] len by simp
  ultimately have "word_sum (take 8 (drop 26 bs) @ [0, bs ! 23] @ take 2 (drop 38 bs) @ drop 34 bs) mod 65535 =
      (unat phdr + (unat ?src + unat ?dst + unat (cpu_to_be_16 ?len) + unat uc + unat raw)) mod 65535"
    using mod_add_cong [OF ph [symmetric] mod_add_cong [OF refl raw(1) [symmetric]]] by simp
  then show "word_sum (take 8 (drop 26 bs) @ [0, bs ! 23] @ take 2 (drop 38 bs) @ drop 34 bs) mod 65535 = 0"
    using ck(2) by (simp add: ac_simps)
qed


lemma dgram_frame_valid:
  assumes "length (remote_ether_addr (shm_qp qp)) = 6" "length (rte_eth_macaddr_get D (dev_portid (qp_dev qp))) = 6"
    and "cksum_spec D" "dev_flags (qp_dev qp) = 0" "28 + length payload < 65536"
    and "unat raw mod 65535 = word_sum payload mod 65535" "unat raw < 2 ^ 31"
    and bs: "bs = fr_data (dgram_frame D qp headroom raw payload)"
  shows "udp_over_ipv4 bs"
proof -
  obtain ic uc where bytes: "bs = udp_frame_bytes D qp ic uc payload" by (simp add: bs dgram_frame_def Let_def)
  note lay = udp_frame_layout [OF assms(1,2) bytes] and at = udp_frame_bytes_at [OF assms(1,2) bytes]
    and len = length_udp_frame_bytes [OF assms(1,2), of ic uc payload, folded bytes]
  have "at16 bs 12 = 0x0800" using at16_put_be [OF _ lay(3)] len by (simp add: ETHER_TYPE_IPv4_def)
  moreover have "at16 bs 16 = 28 + length payload" "at16 bs 38 = 8 + length payload"
    using at16_put_be [OF _ lay(5)] at16_put_be [OF _ lay(10)] len assms(5)
    by (simp_all add: unat_of_nat take_bit_nat_eq_self del: of_nat_add)
  moreover have "at16 bs 20 = 0" by (simp add: at16_def at)
  ultimately show ?thesis
    unfolding udp_over_ipv4_def using udp_frame_checksums [OF assms] at len by simp
qed

text \<open>
  C16. The datagram on the wire. On a device without capabilities, a segment sent inside the
  window is one Ethernet frame with a valid UDP datagram over IPv4 in it: the lengths of both
  headers are right, the IPv4 header sums to zero, and the UDP checksum is present and sums to
  zero with the pseudo-header, the UDP header and the payload. The frame goes from the port's
  Ethernet address to the peer's, from the device's IPv4 address and the local UDP port to the
  peer's, and the payload is the transport header (the segment's sequence number, the
  acknowledgement, no opcode) and the segment itself.
\<close>

theorem send_ddp_segment_wire_format:
  assumes "tx_env D" "mbuf_spec D" "cksum_spec D" "tx_ready qp" "tx_window base (remote_ep qp)"
    and "unat (send_next_psn (remote_ep qp) - base) < tx_pending_size (remote_ep qp)"
    and "rte_pktmbuf_alloc D tx_hdr_mempool (Suc (tick qp)) \<noteq> None"
    and "dev_flags (qp_dev qp) = 0" "38 + length (mb_data m) < 65536"
  shows "\<exists>qp' fr. send_ddp_segment D qp m rr wqe len = Some (send_next_psn (remote_ep qp), qp') \<and>
    outgoing qp' = outgoing qp @ [fr] \<and> fr_flags fr = [] \<and> udp_over_ipv4 (fr_data fr) \<and>
    take 6 (fr_data fr) = remote_ether_addr (shm_qp qp) \<and>
    take 6 (drop 6 (fr_data fr)) = rte_eth_macaddr_get D (dev_portid (qp_dev qp)) \<and>
    take 4 (drop 26 (fr_data fr)) = put_le 4 (dev_ipv4_addr (qp_dev qp)) \<and>
    take 4 (drop 30 (fr_data fr)) = put_le 4 (remote_ipv4_addr (shm_qp qp)) \<and>
    take 2 (drop 34 (fr_data fr)) = put_le 2 (local_udp_port (shm_qp qp)) \<and>
    take 2 (drop 36 (fr_data fr)) = put_le 2 (remote_udp_port (shm_qp qp)) \<and>
    at32 (fr_data fr) 42 = unat (send_next_psn (remote_ep qp)) \<and>
    at32 (fr_data fr) 46 = unat (recv_ack_psn (remote_ep qp)) \<and> at16 (fr_data fr) 50 = 0 \<and>
    drop 52 (fr_data fr) = mb_data m"
proof -
  obtain hdr where hdr: "rte_pktmbuf_alloc D tx_hdr_mempool (Suc (tick qp)) = Some hdr" "mb_data hdr = []"
    using assms(2,7) by (auto simp: mbuf_spec_def)
  define trp where "trp = trp_hdr_bytes \<lparr>trp_psn = send_next_psn (remote_ep qp), trp_ack_psn = recv_ack_psn (remote_ep qp), trp_opcode = 0\<rparr>"
  define raw :: u32 where "raw = ucast (rte_raw_cksum D (mb_data m)) + ucast (rte_raw_cksum D trp)"
  define fr where "fr = dgram_frame D qp (pktmbuf_headroom D tx_hdr_mempool) raw (trp @ mb_data m)"
  obtain qp' where qp': "send_ddp_segment D qp m rr wqe len = Some (send_next_psn (remote_ep qp), qp')" "outgoing qp' = outgoing qp @ [fr]"
    using send_ddp_segment_total [OF assms(1,4,5,6), of m rr wqe len] hdr assms(8)
    by (auto simp: segment_frame_def seg_info_def fr_def raw_def trp_def Let_def)
  have uc: "unat (ucast x :: u32) = unat x" "unat x < 65536" for x :: u16
    using unat_bound [of x] by (simp_all add: unsigned_ucast_eq take_bit_nat_eq_self)
  have raw: "unat raw = unat (rte_raw_cksum D (mb_data m)) + unat (rte_raw_cksum D trp)"
    unfolding raw_def using uc by (subst unat_add_no_overflow) (simp_all add: add_strict_mono [OF uc(2) uc(2), THEN less_trans])
  have "unat raw mod 65535 = (word_sum (mb_data m) + word_sum trp) mod 65535"
    unfolding raw using assms(3) by (intro mod_add_cong) (simp_all add: cksum_spec_def)
  then have ck: "unat raw mod 65535 = word_sum (trp @ mb_data m) mod 65535" "unat raw < 2 ^ 31"
    using uc(2) [of "rte_raw_cksum D (mb_data m)"] uc(2) [of "rte_raw_cksum D trp"] by (simp_all add: word_sum_append trp_def add.commute raw)
  have mac: "length (remote_ether_addr (shm_qp qp)) = 6" "length (rte_eth_macaddr_get D (dev_portid (qp_dev qp))) = 6"
    using assms(1,4) by (simp_all add: tx_env_def tx_ready_def)
  have valid: "udp_over_ipv4 (fr_data fr)"
    by (rule dgram_frame_valid [OF mac assms(3,8) _ ck]) (use assms(9) in \<open>simp_all add: trp_def fr_def\<close>)
  obtain ic ucs where bytes: "fr_data fr = udp_frame_bytes D qp ic ucs (trp @ mb_data m)" by (simp add: fr_def dgram_frame_def Let_def)
  note lay = udp_frame_layout [OF mac bytes]
  have tail: "take k (drop (42 + n) (fr_data fr)) = take k (drop n (trp @ mb_data m))" for k n
    unfolding lay(12) [symmetric] by (simp add: add.commute)
  have "52 \<le> length (fr_data fr)" using length_udp_frame_bytes [OF mac] by (simp add: bytes trp_def)
  then have "at32 (fr_data fr) 42 = unat (send_next_psn (remote_ep qp))" "at32 (fr_data fr) 46 = unat (recv_ack_psn (remote_ep qp))"
    "at16 (fr_data fr) 50 = 0"
    using at32_put_be [of 42 "fr_data fr"] at32_put_be [of 46 "fr_data fr"] at16_put_be [of 50 "fr_data fr" 0] tail [of 4 0] tail [of 4 4] tail [of 2 8]
    by (simp_all add: trp_def trp_hdr_bytes_def)
  moreover have "drop 52 (fr_data fr) = mb_data m" using arg_cong [OF lay(12), of "drop 10"] by (simp add: trp_def)
  moreover have "fr_flags fr = []" using assms(8) by (simp add: fr_def dgram_frame_def Let_def)
  ultimately show ?thesis using qp' valid lay by (intro exI [of _ qp'] exI [of _ fr]) simp
qed

definition checksum_env :: "(nat list \<times> nat) dpdk" where
  "checksum_env = example_env\<lparr>rte_raw_cksum := \<lambda>bs. of_nat (word_sum bs mod 65535),
     rte_ipv4_cksum := \<lambda>h. of_nat (65535 - word_sum h mod 65535),
     rte_ipv4_phdr_cksum := \<lambda>h fl. of_nat (word_sum (take 8 (drop 12 h) @ [0, h ! 9] @ put_be 2 (of_nat (at16 h 2 - 20) :: u16)) mod 65535)\<rparr>"

lemma checksum_env_spec: "cksum_spec checksum_env"
proof -
  have u: "unat (of_nat n :: u16) = n" if "n \<le> 65535" for n
    using that by (simp add: unat_of_nat take_bit_nat_eq_self)
  have "(n + (65535 - n mod 65535)) mod 65535 = 0" for n :: nat
    by (metis Nat.add_diff_assoc2 add_diff_cancel_left' le_add1 mod_add_left_eq mod_le_divisor mod_self le_add_diff_inverse zero_less_numeral)
  then show ?thesis by (simp add: cksum_spec_def checksum_env_def u del: append.simps append_Cons of_nat_diff)
qed

theorem send_ddp_segment_wire_format_witness:
  "\<exists>qp' fr. send_ddp_segment checksum_env example_qp ((pending_mbuf 0)\<lparr>mb_data := [1, 2, 3]\<rparr>) None (Some 0) 3 = Some (0, qp') \<and>
     outgoing qp' = [fr] \<and> udp_over_ipv4 (fr_data fr) \<and> at32 (fr_data fr) 42 = 0 \<and> drop 52 (fr_data fr) = [1, 2, 3]"
proof -
  have env: "tx_env checksum_env" "mbuf_spec checksum_env"
    using example_tx_env example_env_mbuf
    by (simp_all add: tx_env_def tx_burst_spec_def tx_burst_progress_def mbuf_spec_def checksum_env_def)
  have "send_next_psn (remote_ep example_qp) = 0" "tx_pending_size (remote_ep example_qp) = 8" "outgoing example_qp = []"
    "dev_flags (qp_dev example_qp) = 0"
    by (simp_all add: example_qp_def example_ep_def outgoing_def)
  moreover have "rte_pktmbuf_alloc checksum_env tx_hdr_mempool (Suc (tick example_qp)) \<noteq> None"
    by (simp add: checksum_env_def example_env_def)
  ultimately show ?thesis
    using send_ddp_segment_wire_format [OF env checksum_env_spec example_tx_ready example_window,
        of "(pending_mbuf 0)\<lparr>mb_data := [1, 2, 3]\<rparr>" None "Some 0" 3]
    by auto
qed

end
