(* ===== verification/Serial.thy ===== *)
theory Serial
  imports Prelude
begin

text \<open>
  Serial number arithmetic of packet sequence numbers
  (\<^verbatim>\<open>src/liburdma/interface.c\<close>, \<^verbatim>\<open>serial_less_32\<close> and \<^verbatim>\<open>serial_greater_32\<close>),
  with the window law that lets the protocol proofs reason about unbounded sequence
  numbers: inside a window of less than \<open>2 ^ 31\<close> the comparison of the wrapped numbers is
  the comparison of the unwrapped ones.
\<close>

definition serial_less_32 :: "u32 \<Rightarrow> u32 \<Rightarrow> bool" where
  "serial_less_32 s1 s2 \<longleftrightarrow>
     (s1 < s2 \<and> s2 - s1 < push_bit 31 1) \<or> (s1 > s2 \<and> s1 - s2 > push_bit 31 1)"

definition serial_greater_32 :: "u32 \<Rightarrow> u32 \<Rightarrow> bool" where
  "serial_greater_32 s1 s2 \<longleftrightarrow>
     (s1 < s2 \<and> s2 - s1 > push_bit 31 1) \<or> (s1 > s2 \<and> s1 - s2 < push_bit 31 1)"

section \<open>The comparison as a modular distance\<close>

lemma push_bit_31: "(push_bit 31 1 :: u32) = 0x80000000"
  by simp

lemma mod_distance_32:
  fixes a b :: u32
  shows "(uint b - uint a) mod 2 ^ 32 =
    (if a \<le> b then uint b - uint a else uint b - uint a + 2 ^ 32)"
proof -
  have bounds: "0 \<le> uint a" "uint a < 2 ^ 32" "0 \<le> uint b" "uint b < 2 ^ 32"
    using uint_lt2p [of a] uint_lt2p [of b] by simp_all
  show ?thesis
  proof (cases "a \<le> b")
    case True
    have "(uint b - uint a) mod 2 ^ 32 = uint b - uint a"
    proof (rule mod_pos_pos_trivial)
      show "0 \<le> uint b - uint a" using True by (simp add: word_le_def)
      show "uint b - uint a < 2 ^ 32" using bounds by linarith
    qed
    then show ?thesis using True by simp
  next
    case False
    have "(uint b - uint a + 2 ^ 32) mod 2 ^ 32 = uint b - uint a + 2 ^ 32"
    proof (rule mod_pos_pos_trivial)
      show "0 \<le> uint b - uint a + 2 ^ 32" using bounds by linarith
      show "uint b - uint a + 2 ^ 32 < 2 ^ 32"
        using False unfolding word_le_def by linarith
    qed
    then show ?thesis using False by simp
  qed
qed

lemma uint_diff_32:
  fixes a b :: u32
  shows "uint (b - a) = (if a \<le> b then uint b - uint a else uint b - uint a + 2 ^ 32)"
  by (simp only: uint_word_ariths mod_distance_32 [symmetric]) simp

lemma wrapped_distance_iff:
  "0 \<le> x \<Longrightarrow> x < 4294967296 \<Longrightarrow> 0 \<le> y \<Longrightarrow> (2147483648 :: int) < x - y \<longleftrightarrow>
     0 < y - x + 4294967296 \<and> y - x + 4294967296 < 2147483648"
  by arith

lemma serial_less_32_distance: "serial_less_32 a b \<longleftrightarrow> 0 < uint (b - a) \<and> uint (b - a) < 2 ^ 31"
proof -
  have bounds: "0 \<le> uint a" "uint a < 4294967296" "0 \<le> uint b" "uint b < 4294967296"
    using uint_lt2p [of a] uint_lt2p [of b] by simp_all
  consider "uint a < uint b" | "uint a = uint b" | "uint b < uint a" by linarith
  then show ?thesis
  proof cases
    case 1
    then show ?thesis
      unfolding serial_less_32_def push_bit_31 word_less_def uint_diff_32
      by (auto simp: word_le_def)
  next
    case 2
    then show ?thesis
      unfolding serial_less_32_def push_bit_31 word_less_def uint_diff_32
      by (auto simp: word_le_def)
  next
    case 3
    then have le: "b \<le> a" "\<not> a \<le> b" by (simp_all add: word_le_def)
    have dist: "uint (b - a) = uint b - uint a + 4294967296" "uint (a - b) = uint a - uint b"
      using le by (simp_all add: uint_diff_32)
    have "serial_less_32 a b \<longleftrightarrow> 2147483648 < uint a - uint b"
      using 3 dist(2) unfolding serial_less_32_def push_bit_31 word_less_def by simp
    then show ?thesis
      unfolding dist(1) wrapped_distance_iff [OF bounds(1,2,3)] by simp
  qed
qed

lemma serial_less_32_uint:
  "serial_less_32 a b \<longleftrightarrow> 0 < (uint b - uint a) mod 2 ^ 32 \<and> (uint b - uint a) mod 2 ^ 32 < 2 ^ 31"
  by (simp only: serial_less_32_distance uint_diff_32 mod_distance_32)

lemma serial_greater_32_converse: "serial_greater_32 a b = serial_less_32 b a"
  by (auto simp: serial_greater_32_def serial_less_32_def)

section \<open>Windows of sequence numbers\<close>

text \<open>
  What the protocol code relies on: sequence numbers are images of unbounded integers, and
  the comparison agrees with the integer order as long as the two numbers are less than
  half the number space apart.
\<close>

locale seq_window =
  fixes emb :: "int \<Rightarrow> 'a"
    and lt :: "'a \<Rightarrow> 'a \<Rightarrow> bool"
    and half :: int
  assumes half_pos: "0 < half"
    and lt_emb: "\<bar>x - y\<bar> < half \<Longrightarrow> lt (emb x) (emb y) \<longleftrightarrow> x < y"
    and emb_eq: "\<bar>x - y\<bar> < 2 * half \<Longrightarrow> emb x = emb y \<longleftrightarrow> x = y"
begin

lemma lt_irrefl: "\<not> lt (emb x) (emb x)"
  using lt_emb [of x x] half_pos by simp

lemma lt_total:
  assumes "\<bar>x - y\<bar> < half"
  shows "lt (emb x) (emb y) \<or> emb x = emb y \<or> lt (emb y) (emb x)"
  using assms lt_emb [of x y] lt_emb [of y x] by (auto simp: abs_minus_commute)

lemma lt_trans_window:
  assumes "lo \<le> x" "lo \<le> y" "lo \<le> z" "x < lo + half" "y < lo + half" "z < lo + half"
    and "lt (emb x) (emb y)" "lt (emb y) (emb z)"
  shows "lt (emb x) (emb z)"
proof -
  have "\<bar>x - y\<bar> < half" "\<bar>y - z\<bar> < half" "\<bar>x - z\<bar> < half"
    using assms(1-6) by linarith+
  then show ?thesis
    using assms(7,8) lt_emb [of x y] lt_emb [of y z] lt_emb [of x z] by simp
qed

end

lemma uint_of_int_diff_32:
  "(uint (of_int y :: u32) - uint (of_int x :: u32)) mod 2 ^ 32 = (y - x) mod 2 ^ 32"
  by (simp add: uint_word_of_int mod_diff_eq take_bit_eq_mod)

lemma half_window_mod:
  assumes "\<bar>x - y\<bar> < (2 :: int) ^ 31"
  shows "0 < (y - x) mod 2 ^ 32 \<and> (y - x) mod 2 ^ 32 < 2 ^ 31 \<longleftrightarrow> x < y"
proof (cases "x \<le> y")
  case True
  then have "(y - x) mod 2 ^ 32 = y - x"
    using assms by (intro mod_pos_pos_trivial) auto
  then show ?thesis using True assms by auto
next
  case False
  have "(y - x + 2 ^ 32) mod 2 ^ 32 = y - x + 2 ^ 32"
    using False assms by (intro mod_pos_pos_trivial) auto
  then have "(y - x) mod 2 ^ 32 = y - x + 2 ^ 32" by simp
  then show ?thesis using False assms by auto
qed

lemma of_int_eq_window_32:
  assumes "\<bar>x - y\<bar> < (2 :: int) ^ 32"
  shows "(of_int x :: u32) = of_int y \<longleftrightarrow> x = y"
proof
  assume "(of_int x :: u32) = of_int y"
  then have "x mod 2 ^ 32 = y mod 2 ^ 32"
    by (simp add: word_of_int_eq_iff take_bit_eq_mod)
  then have "2 ^ 32 dvd x - y"
    by (simp only: mod_eq_dvd_iff)
  then show "x = y"
    using assms zdvd_not_zless [of "\<bar>x - y\<bar>" "2 ^ 32"] by (cases "x = y") auto
qed simp

interpretation psn: seq_window "of_int :: int \<Rightarrow> u32" serial_less_32 "2 ^ 31"
proof unfold_locales
  show "(0 :: int) < 2 ^ 31" by simp
next
  fix x y :: int
  assume "\<bar>x - y\<bar> < 2 ^ 31"
  then show "serial_less_32 (of_int x) (of_int y) \<longleftrightarrow> x < y"
    unfolding serial_less_32_uint uint_of_int_diff_32 by (rule half_window_mod)
next
  fix x y :: int
  assume "\<bar>x - y\<bar> < 2 * 2 ^ 31"
  then show "(of_int x :: u32) = of_int y \<longleftrightarrow> x = y"
    by (intro of_int_eq_window_32) simp
qed

section \<open>Properties\<close>

text \<open>
  C27. \<^verbatim>\<open>serial_less_32\<close> is the comparison of RFC 1982 with 32 bits: \<open>a\<close> comes before \<open>b\<close>
  exactly when the modular distance from \<open>a\<close> to \<open>b\<close> is between 1 and \<open>2 ^ 31 - 1\<close>,
  \<^verbatim>\<open>serial_greater_32\<close> is its converse, and two different numbers are incomparable exactly
  when they are \<open>2 ^ 31\<close> apart.
\<close>

theorem serial_less_32_rfc1982:
  "(serial_less_32 a b \<longleftrightarrow> 0 < uint (b - a) \<and> uint (b - a) < 2 ^ 31)
   \<and> serial_greater_32 a b = serial_less_32 b a
   \<and> ((a \<noteq> b \<and> \<not> serial_less_32 a b \<and> \<not> serial_greater_32 a b) \<longleftrightarrow> uint (b - a) = 2 ^ 31)"
proof -
  have swap: "uint (a - b) = (if a = b then 0 else 2 ^ 32 - uint (b - a))"
    by (auto simp: uint_diff_32 word_le_def word_uint_eq_iff)
  have "uint (b - a) < 2 ^ 32" "a = b \<longleftrightarrow> uint (b - a) = 0"
    using uint_lt2p [of "b - a"] by (auto simp: uint_0_iff)
  show ?thesis
    unfolding serial_greater_32_converse serial_less_32_distance swap
    using \<open>uint (b - a) < 2 ^ 32\<close> \<open>a = b \<longleftrightarrow> uint (b - a) = 0\<close> uint_ge_0 [of "b - a"]
    by (auto simp del: uint_ge_0 simp: order.order_iff_strict)
qed

text \<open>
  C28. Inside a window of \<open>2 ^ 31\<close> sequence numbers the wrapped comparison is the order of the
  unbounded numbers, so it is total and transitive there even across the wrap-around.
\<close>

theorem serial_window_refines_int_order:
  assumes "lo \<le> x" "x < lo + 2 ^ 31" "lo \<le> y" "y < lo + 2 ^ 31"
  shows "(serial_less_32 (of_int x) (of_int y) \<longleftrightarrow> x < y)
    \<and> (serial_greater_32 (of_int x) (of_int y) \<longleftrightarrow> y < x)
    \<and> ((of_int x :: u32) = of_int y \<longleftrightarrow> x = y)"
proof -
  have "\<bar>x - y\<bar> < 2 ^ 31" "\<bar>y - x\<bar> < 2 ^ 31"
    using assms by linarith+
  then show ?thesis
    using psn.lt_emb [of x y] psn.lt_emb [of y x] psn.emb_eq [of x y]
    by (simp add: serial_greater_32_converse)
qed

theorem serial_window_refines_int_order_witness:
  "serial_less_32 (of_int 4294967295) (of_int 4294967297)
    \<and> (of_int 4294967295 :: u32) = 0xFFFFFFFF \<and> (of_int 4294967297 :: u32) = 1"
  using serial_window_refines_int_order [of 4294967290 4294967295 4294967297] by simp

end
