(* ===== verification/Rdmap_Send.thy ===== *)
theory Rdmap_Send
  imports Tx_Path Serial
begin

text \<open>
  The sending half of RDMAP over DDP (\<^verbatim>\<open>liburdma/interface.c\<close>): segmentation of SEND and RDMA
  WRITE messages, RDMA READ requests and their responses, and TERMINATE messages.
\<close>

section \<open>Segments of SEND and RDMA WRITE\<close>

text \<open>
  The payload of a segment: inline data is copied from the work request, other data is gathered
  from memory. Reading past the trailing array of the work request does not return.
  \<^verbatim>\<open>rte_pktmbuf_append\<close> takes a 16-bit length.
\<close>

definition wqe_payload :: "'r dpdk \<Rightarrow> 'r usiw_qp \<Rightarrow> tx_mbuf \<Rightarrow> nat \<Rightarrow> usiw_send_wqe \<Rightarrow> u64 \<Rightarrow> u8 list option" where
  "wqe_payload D qp m hdr_len w len =
     (if sw_flags w AND usiw_send_inline \<noteq> 0 then do {
        assert_c (unat (sw_bytes_sent w) + unat len \<le> length (sw_iov w));
        Some (take (unat len) (drop (unat (sw_bytes_sent w)) (sw_iov w)))
      } else do {
        assert_c (16 * sw_iov_count w \<le> length (sw_iov w));
        Some (memcpy_from_iov (qp_mem qp) (map (stale_byte D m) [hdr_len..<hdr_len + unat len]) len
                (iovs_of (sw_iov w) (sw_iov_count w)) (sw_bytes_sent w))
      })"

definition room_for :: "'r dpdk \<Rightarrow> nat \<Rightarrow> unit option" where
  "room_for D n = assert_c (n < 65536 \<and> n \<le> pktmbuf_tailroom D tx_ddp_mempool)"

definition rdmap_send_segment :: "'r dpdk \<Rightarrow> nat \<Rightarrow> 'r usiw_qp \<Rightarrow> 'r usiw_qp option" where
  "rdmap_send_segment D wqe qp = do {
     sendmsg \<leftarrow> rte_pktmbuf_alloc D tx_ddp_mempool (tick qp);
     let qp = ticked qp;
     let w = send_wqe qp wqe;
     let mtu = (ucast (shm_mtu (shm_qp qp)) :: u64);
     let payload_length = min mtu (sw_total_length w - sw_bytes_sent w);
     room_for D (18 + unat payload_length);
     let hdr = \<lparr>ddp_flags = (if sw_total_length w - sw_bytes_sent w \<le> mtu then DDP_V1_UNTAGGED_LAST_DF else DDP_V1_UNTAGGED_DF),
        rdmap_info = rdmap_opcode_send OR RDMAP_V1, sink_stag = 0, ut_qn = 0, ut_msn = sw_msn w,
        ut_mo = ucast (sw_bytes_sent w)\<rparr>;
     payload \<leftarrow> wqe_payload D qp sendmsg 18 w payload_length;
     (_, qp) \<leftarrow> send_ddp_segment D qp (sendmsg\<lparr>mb_data := mb_data sendmsg @ rdmap_untagged_bytes hdr @ payload\<rparr>)
        None (Some wqe) payload_length;
     Some (upd_send_wqe wqe (\<lambda>w. w\<lparr>sw_bytes_sent := sw_bytes_sent w + payload_length\<rparr>) qp)
   }"

definition rdmap_write_segment :: "'r dpdk \<Rightarrow> nat \<Rightarrow> 'r usiw_qp \<Rightarrow> 'r usiw_qp option" where
  "rdmap_write_segment D wqe qp = do {
     sendmsg \<leftarrow> rte_pktmbuf_alloc D tx_ddp_mempool (tick qp);
     let qp = ticked qp;
     let w = send_wqe qp wqe;
     let mtu = (ucast (shm_mtu (shm_qp qp)) :: u64);
     let payload_length = min mtu (sw_total_length w - sw_bytes_sent w);
     assert_c (14 \<le> pktmbuf_headroom D tx_ddp_mempool);
     let hdr = \<lparr>ddp_flags = (if sw_total_length w - sw_bytes_sent w \<le> mtu then DDP_V1_TAGGED_LAST_DF else DDP_V1_TAGGED_DF),
        rdmap_info = RDMAP_V1 OR rdmap_opcode_rdma_write, sink_stag = sw_rkey w,
        tg_offset = sw_remote_addr w + sw_bytes_sent w\<rparr>;
     room_for D (unat payload_length);
     payload \<leftarrow> wqe_payload D qp sendmsg 0 w payload_length;
     (_, qp) \<leftarrow> send_ddp_segment D qp (sendmsg\<lparr>mb_data := rdmap_tagged_bytes hdr @ mb_data sendmsg @ payload\<rparr>)
        None (Some wqe) payload_length;
     Some (upd_send_wqe wqe (\<lambda>w. w\<lparr>sw_bytes_sent := sw_bytes_sent w + payload_length\<rparr>) qp)
   }"

text \<open>Progress of the loops: each segment takes one sequence number of the window.\<close>

lemma upd_send_wqe_ep [simp]: "remote_ep (upd_send_wqe i f qp) = remote_ep qp"
  by (simp add: upd_send_wqe_def)

lemma ticked_ep [simp]: "remote_ep (ticked qp) = remote_ep qp" "send_wqe (ticked qp) = send_wqe qp"
  "shm_qp (ticked qp) = shm_qp qp" "qp_mem (ticked qp) = qp_mem qp" "qp_dev (ticked qp) = qp_dev qp"
  "txq (ticked qp) = txq qp" "outgoing (ticked qp) = outgoing qp" "tick (ticked qp) = Suc (tick qp)"
  "sq (ticked qp) = sq qp" "rq0 (ticked qp) = rq0 qp" "cqs (ticked qp) = cqs qp"
  "readresp_store (ticked qp) = readresp_store qp" "ord_active (ticked qp) = ord_active qp"
  by (simp_all add: ticked_def outgoing_def)

lemma send_ddp_segment_psn:
  assumes "send_ddp_segment D qp m rr wqe len = Some (psn, qp')"
  shows "psn = send_next_psn (remote_ep qp)" "send_next_psn (remote_ep qp') = send_next_psn (remote_ep qp) + 1"
    "send_max_psn (remote_ep qp') = send_max_psn (remote_ep qp)"
proof -
  show "psn = send_next_psn (remote_ep qp)" "send_next_psn (remote_ep qp') = send_next_psn (remote_ep qp) + 1"
    using assms unfolding send_ddp_segment_def
    by (auto simp: Let_def set_slot_def split: Option.bind_splits dest!: resend_ddp_segment_ep)
  show "send_max_psn (remote_ep qp') = send_max_psn (remote_ep qp)"
    using tx_changed_same(15) [OF send_ddp_segment_changed [OF assms]] .
qed

definition psn_room :: "'r usiw_qp \<Rightarrow> nat" where
  "psn_room qp = unat (send_max_psn (remote_ep qp) - send_next_psn (remote_ep qp))"

lemma serial_less_room: "serial_less_32 a b \<Longrightarrow> 0 < unat (b - a)"
  by (auto simp: serial_less_32_def unat_gt_0)

lemma psn_room_decreases:
  assumes "serial_less_32 (send_next_psn (remote_ep qp)) (send_max_psn (remote_ep qp))"
    and "send_next_psn (remote_ep qp') = send_next_psn (remote_ep qp) + 1" "send_max_psn (remote_ep qp') = send_max_psn (remote_ep qp)"
  shows "psn_room qp' < psn_room qp"
proof -
  have "0 < psn_room qp" using serial_less_room [OF assms(1)] by (simp add: psn_room_def)
  moreover have "send_max_psn (remote_ep qp') - send_next_psn (remote_ep qp') =
      (send_max_psn (remote_ep qp) - send_next_psn (remote_ep qp)) - 1"
    using assms(2,3) by simp
  ultimately show ?thesis
    by (simp add: psn_room_def) (metis diff_less unat_minus_one unat_0 less_numeral_extra(1) neq0_conv)
qed

lemma segment_room:
  "rdmap_send_segment D i qp = Some qp' \<Longrightarrow> send_next_psn (remote_ep qp') = send_next_psn (remote_ep qp) + 1 \<and>
     send_max_psn (remote_ep qp') = send_max_psn (remote_ep qp)"
  "rdmap_write_segment D i qp = Some qp' \<Longrightarrow> send_next_psn (remote_ep qp') = send_next_psn (remote_ep qp) + 1 \<and>
     send_max_psn (remote_ep qp') = send_max_psn (remote_ep qp)"
  by (auto simp: rdmap_send_segment_def rdmap_write_segment_def Let_def split: Option.bind_splits prod.splits
      dest: send_ddp_segment_psn)

function do_rdmap_send_loop :: "'r dpdk \<Rightarrow> nat \<Rightarrow> 'r usiw_qp \<Rightarrow> 'r usiw_qp option" where
  "do_rdmap_send_loop D wqe qp =
     (if sw_bytes_sent (send_wqe qp wqe) < sw_total_length (send_wqe qp wqe) then
        if \<not> sw_remote_ep (send_wqe qp wqe) then None
        else if serial_less_32 (send_next_psn (remote_ep qp)) (send_max_psn (remote_ep qp))
          then rdmap_send_segment D wqe qp \<bind> do_rdmap_send_loop D wqe else Some qp
      else Some qp)"
  by pat_completeness auto
termination
  by (relation "measure (\<lambda>(D, i, qp). psn_room qp)") (auto dest!: segment_room intro: psn_room_decreases)

function do_rdmap_write_loop :: "'r dpdk \<Rightarrow> nat \<Rightarrow> 'r usiw_qp \<Rightarrow> 'r usiw_qp option" where
  "do_rdmap_write_loop D wqe qp =
     (if sw_bytes_sent (send_wqe qp wqe) < sw_total_length (send_wqe qp wqe) then
        if \<not> sw_remote_ep (send_wqe qp wqe) then None
        else if serial_less_32 (send_next_psn (remote_ep qp)) (send_max_psn (remote_ep qp))
          then rdmap_write_segment D wqe qp \<bind> do_rdmap_write_loop D wqe else Some qp
      else Some qp)"
  by pat_completeness auto
termination
  by (relation "measure (\<lambda>(D, i, qp). psn_room qp)") (auto dest!: segment_room intro: psn_room_decreases)

declare do_rdmap_send_loop.simps [simp del] do_rdmap_write_loop.simps [simp del]

definition wait_if_sent :: "nat \<Rightarrow> 'r usiw_qp \<Rightarrow> 'r usiw_qp" where
  "wait_if_sent wqe qp = (if sw_bytes_sent (send_wqe qp wqe) = sw_total_length (send_wqe qp wqe)
     then upd_send_wqe wqe (\<lambda>w. w\<lparr>sw_state := SEND_WQE_WAIT\<rparr>) qp else qp)"

definition do_rdmap_send :: "'r dpdk \<Rightarrow> 'r usiw_qp \<Rightarrow> nat \<Rightarrow> 'r usiw_qp option" where
  "do_rdmap_send D qp wqe = map_option (wait_if_sent wqe) (do_rdmap_send_loop D wqe qp)"

definition do_rdmap_write :: "'r dpdk \<Rightarrow> 'r usiw_qp \<Rightarrow> nat \<Rightarrow> 'r usiw_qp option" where
  "do_rdmap_write D qp wqe = map_option (wait_if_sent wqe) (do_rdmap_write_loop D wqe qp)"

section \<open>RDMA READ requests\<close>

definition do_rdmap_read_request :: "'r dpdk \<Rightarrow> 'r usiw_qp \<Rightarrow> nat \<Rightarrow> 'r usiw_qp option" where
  "do_rdmap_read_request D qp wqe =
     (if sw_state (send_wqe qp wqe) \<noteq> SEND_WQE_TRANSFER then Some qp
      else if ord_max (shm_qp qp) \<le> ord_active qp then Some qp
      else if \<not> sw_remote_ep (send_wqe qp wqe) then None
      else if send_next_psn (remote_ep qp) = send_max_psn (remote_ep qp) \<or>
          serial_greater_32 (send_next_psn (remote_ep qp)) (send_max_psn (remote_ep qp)) then Some qp
      else do {
        let qp = qp\<lparr>ord_active := ord_active qp + 1\<rparr>;
        sendmsg \<leftarrow> rte_pktmbuf_alloc D tx_ddp_mempool (tick qp);
        let qp = ticked qp;
        let w = send_wqe qp wqe;
        room_for D 42;
        assert_c (16 \<le> length (sw_iov w));
        let hdr = \<lparr>ddp_flags = DDP_V1_UNTAGGED_LAST_DF, rdmap_info = rdmap_opcode_rdma_read_request OR RDMAP_V1,
           sink_stag = sw_local_stag w, ut_qn = 1, ut_msn = sw_msn w, ut_mo = 0,
           rr_sink_offset = iov_base (iov_at (sw_iov w) 0), rr_read_msg_size = ucast (iov_len (iov_at (sw_iov w) 0)),
           rr_source_stag = sw_rkey w, rr_source_offset = sw_remote_addr w\<rparr>;
        (_, qp) \<leftarrow> send_ddp_segment D qp (sendmsg\<lparr>mb_data := mb_data sendmsg @ rdmap_readreq_bytes hdr\<rparr>)
           None (Some wqe) 0;
        Some (upd_send_wqe wqe (\<lambda>w. w\<lparr>sw_state := SEND_WQE_WAIT\<rparr>) qp)
      })"

section \<open>TERMINATE messages\<close>

text \<open>The context of a received packet: \<^verbatim>\<open>rdmap\<close> points to bytes that are read without a bound.\<close>

record packet_context =
  ctx_ddp_seg_length :: u64
  ctx_rdmap :: "nat \<Rightarrow> u8"
  ctx_psn :: u32

text \<open>
  The header is copied behind the two bytes of the segment length although only \<open>hdr_size\<close>
  bytes have been appended, so the last two bytes copied are not part of the message.
\<close>

definition terminate_append_ddp_header :: "'r dpdk \<Rightarrow> packet_context \<Rightarrow> (u8 \<times> u8 list) option" where
  "terminate_append_ddp_header D orig = do {
     let hdr_size = (if DDP_GET_T (ctx_rdmap orig 0) \<noteq> 0 then 14 else 18);
     room_for D (22 + hdr_size);
     assert_c (22 + 2 + hdr_size \<le> pktmbuf_tailroom D tx_ddp_mempool);
     Some (rdmap_hdrct_m OR rdmap_hdrct_d,
       take hdr_size (put_be 2 (ctx_ddp_seg_length orig) @ map (ctx_rdmap orig) [0..<hdr_size]))
   }"

definition terminate_payload :: "'r dpdk \<Rightarrow> packet_context option \<Rightarrow> rdmap_errno \<Rightarrow> (u8 \<times> u8 list) option" where
  "terminate_payload D orig errcode =
     (let cls = rdmap_errno_code errcode AND 0xff00
      in if cls = 0x0100 then do {
           orig \<leftarrow> orig;
           room_for D (22 + 2 + 42);
           Some (rdmap_hdrct_m OR rdmap_hdrct_d OR rdmap_hdrct_r,
             put_be 2 (ctx_ddp_seg_length orig) @ map (ctx_rdmap orig) [0..<42])
         }
         else if cls = 0x0200 \<or> cls = 0x1200 then
           (case orig of Some orig \<Rightarrow> terminate_append_ddp_header D orig | None \<Rightarrow> Some (0, []))
         else if cls = 0x1000 \<or> cls = 0x1100 then orig \<bind> terminate_append_ddp_header D
         else Some (0, []))"

definition do_rdmap_terminate :: "'r dpdk \<Rightarrow> 'r usiw_qp \<Rightarrow> packet_context option \<Rightarrow> rdmap_errno \<Rightarrow> 'r usiw_qp option" where
  "do_rdmap_terminate D qp orig errcode = do {
     sendmsg \<leftarrow> rte_pktmbuf_alloc D tx_ddp_mempool (tick qp);
     let qp = ticked qp;
     room_for D 22;
     (hdrct, payload) \<leftarrow> terminate_payload D orig errcode;
     let hdr = \<lparr>ddp_flags = DDP_V1_UNTAGGED_LAST_DF, rdmap_info = rdmap_opcode_terminate OR RDMAP_V1,
        sink_stag = 0, ut_qn = 2, ut_msn = 1, ut_mo = 0,
        tm_error_code = rdmap_errno_code errcode, tm_hdrct = hdrct, tm_reserved = 0\<rparr>;
     (_, qp) \<leftarrow> send_ddp_segment D qp (sendmsg\<lparr>mb_data := mb_data sendmsg @ rdmap_terminate_bytes hdr @ payload\<rparr>)
        None None 0;
     Some qp
   }"

section \<open>RDMA READ responses\<close>

abbreviation readresp :: "'r usiw_qp \<Rightarrow> nat \<Rightarrow> read_response_state" where
  "readresp qp i \<equiv> readresp_store qp ! i"

definition upd_readresp :: "nat \<Rightarrow> (read_response_state \<Rightarrow> read_response_state) \<Rightarrow> 'r usiw_qp \<Rightarrow> 'r usiw_qp" where
  "upd_readresp i f qp = qp\<lparr>readresp_store := (readresp_store qp)[i := f (readresp qp i)]\<rparr>"

text \<open>\<^verbatim>\<open>sink_stag\<close> is kept in network byte order by the code and sent back as it came.\<close>

definition read_response_segment :: "'r dpdk \<Rightarrow> nat \<Rightarrow> 'r usiw_qp \<Rightarrow> 'r usiw_qp option" where
  "read_response_segment D i qp = do {
     sendmsg \<leftarrow> rte_pktmbuf_alloc D tx_ddp_mempool (tick qp);
     let qp = ticked qp;
     let rr = readresp qp i;
     let mtu = (ucast (shm_mtu (shm_qp qp)) :: u32);
     let payload_length = min mtu (rr_msg_size rr);
     room_for D (14 + unat payload_length);
     let hdr = \<lparr>ddp_flags = (if rr_msg_size rr \<le> mtu then DDP_V1_TAGGED_LAST_DF else DDP_V1_TAGGED_DF),
        rdmap_info = RDMAP_V1 OR rdmap_opcode_rdma_read_response, sink_stag = rr_sink_stag rr,
        tg_offset = rr_sink_ofs rr\<rparr>;
     let payload = mem_read (qp_mem qp) (rr_vaddr rr) (unat payload_length);
     (_, qp) \<leftarrow> send_ddp_segment D qp (sendmsg\<lparr>mb_data := mb_data sendmsg @ rdmap_tagged_bytes hdr @ payload\<rparr>)
        (Some i) None (ucast payload_length);
     Some (upd_readresp i (\<lambda>rr. rr\<lparr>rr_vaddr := rr_vaddr rr + ucast payload_length,
        rr_msg_size := rr_msg_size rr - payload_length, rr_sink_ofs := rr_sink_ofs rr + ucast payload_length\<rparr>) qp)
   }"

lemma upd_readresp_same [simp]: "remote_ep (upd_readresp i f qp) = remote_ep qp"
  by (simp add: upd_readresp_def)

lemma read_segment_room:
  "read_response_segment D i qp = Some qp' \<Longrightarrow> send_next_psn (remote_ep qp') = send_next_psn (remote_ep qp) + 1 \<and>
     send_max_psn (remote_ep qp') = send_max_psn (remote_ep qp)"
  by (auto simp: read_response_segment_def Let_def split: Option.bind_splits prod.splits dest: send_ddp_segment_psn)

function read_response_loop :: "'r dpdk \<Rightarrow> nat \<Rightarrow> int \<Rightarrow> 'r usiw_qp \<Rightarrow> (int \<times> 'r usiw_qp) option" where
  "read_response_loop D i cnt qp =
     (if rr_msg_size (readresp qp i) > 0 then
        if \<not> rr_sink_ep (readresp qp i) then None
        else if serial_less_32 (send_next_psn (remote_ep qp)) (send_max_psn (remote_ep qp))
          then read_response_segment D i qp \<bind> read_response_loop D i (cnt + 1) else Some (cnt, qp)
      else Some (cnt, qp))"
  by pat_completeness auto
termination
  by (relation "measure (\<lambda>(D, i, cnt, qp). psn_room qp)") (auto dest!: read_segment_room intro: psn_room_decreases)

declare read_response_loop.simps [simp del]

text \<open>
  \<open>n\<close> is the number of slots still to visit; \<open>msn\<close> is an \<^verbatim>\<open>unsigned long\<close> that starts from a 32-bit
  number and cannot wrap.
\<close>

fun respond_rdma_read_loop :: "'r dpdk \<Rightarrow> nat \<Rightarrow> nat \<Rightarrow> int \<Rightarrow> 'r usiw_qp \<Rightarrow> (int \<times> 'r usiw_qp) option" where
  "respond_rdma_read_loop D 0 msn cnt qp = Some (cnt, qp)"
| "respond_rdma_read_loop D (Suc n) msn cnt qp = do {
     let i = msn mod unat (ird_max (shm_qp qp));
     assert_c (i < length (readresp_store qp));
     if \<not> rr_active (readresp qp i) then Some (cnt, qp)
     else do {
       (cnt, qp) \<leftarrow> read_response_loop D i cnt qp;
       let qp = (if rr_msg_size (readresp qp i) = 0
          then (upd_readresp i (\<lambda>rr. rr\<lparr>rr_active := False\<rparr>) qp)\<lparr>readresp_head_msn := readresp_head_msn qp + 1\<rparr>
          else qp);
       respond_rdma_read_loop D n (Suc msn) cnt qp
     }
   }"

definition respond_rdma_read :: "'r dpdk \<Rightarrow> 'r usiw_qp \<Rightarrow> (int \<times> 'r usiw_qp) option" where
  "respond_rdma_read D qp =
     respond_rdma_read_loop D (unat (ird_max (shm_qp qp))) (unat (readresp_head_msn qp)) 0 qp"

section \<open>Pending segments\<close>

text \<open>
  The segments of the window in the order of their sequence numbers, each with the work request
  or the read response it belongs to and its bytes.
\<close>

type_synonym segment = "nat option \<times> nat option \<times> u8 list"

definition slot_segment :: "tx_slot \<Rightarrow> segment" where
  "slot_segment s = (case s of Mbuf m \<Rightarrow> (pd_wqe m, pd_readresp m, mb_data m) | _ \<Rightarrow> (None, None, []))"

definition pending :: "u32 \<Rightarrow> 'r ee_state \<Rightarrow> segment list" where
  "pending base ep = map (\<lambda>j. slot_segment (tx_pending ep ! ((unat base + j) mod tx_pending_size ep)))
     [0..<unat (send_next_psn ep - base)]"

lemma send_ddp_segment_ep:
  assumes "send_ddp_segment D qp m rr wqe len = Some (psn, qp')"
  shows "\<exists>m' fl. remote_ep qp' = (ep_push m' (remote_ep qp))\<lparr>trp_flags := fl\<rparr> \<and>
    slot_segment (Mbuf m') = (wqe, rr, mb_data m) \<and> pd_psn m' = send_next_psn (remote_ep qp)"
proof -
  define i where "i = tx_pending_entry (remote_ep qp) (send_next_psn (remote_ep qp))"
  define m0 where "m0 = seg_info D qp m rr wqe len"
  have entry: "tx_pending_entry (ep\<lparr>send_next_psn := v\<rparr>) p = tx_pending_entry ep p" for ep :: "'a ee_state" and v p
    by (simp add: tx_pending_entry_def)
  have "i < length (tx_pending (remote_ep qp)) \<and> (\<exists>r. resend_ddp_segment D (map_ep (ep_push m0) qp) i = Some (r, qp'))"
    using assms by (cases "dev_flags (qp_dev qp) = 0")
      (auto simp: send_ddp_segment_def Let_def entry i_def [symmetric] seg_info_def m0_def ep_push_def set_slot_def
        split: Option.bind_splits prod.splits)
  then obtain r where i: "i < length (tx_pending (remote_ep qp))"
    and r: "resend_ddp_segment D (map_ep (ep_push m0) qp) i = Some (r, qp')" by blast
  have slot: "slot_mbuf (ep_push m0 (remote_ep qp)) i = Some m0"
    using i by (simp add: slot_mbuf_def ep_push_def set_slot_def i_def)
  obtain m' fl where "remote_ep qp' = (set_slot i (Mbuf m') (ep_push m0 (remote_ep qp)))\<lparr>trp_flags := fl\<rparr>"
    "slot_segment (Mbuf m') = slot_segment (Mbuf m0)" "pd_psn m' = pd_psn m0"
    using resend_ddp_segment_ep [OF r] slot by (auto simp: slot_segment_def)
  moreover have "set_slot i (Mbuf m') (ep_push m0 (remote_ep qp)) = ep_push m' (remote_ep qp)"
    by (simp add: ep_push_def set_slot_def i_def)
  ultimately show ?thesis by (auto simp: m0_def seg_info_def slot_segment_def)
qed

lemma pending_push:
  assumes w: "tx_window base ep" and room: "unat (send_next_psn ep - base) < tx_pending_size ep"
    and psn: "pd_psn m = send_next_psn ep"
  shows "pending base ((ep_push m ep)\<lparr>trp_flags := fl\<rparr>) = pending base ep @ [slot_segment (Mbuf m)]"
proof -
  define u where "u = unat (send_next_psn ep - base)"
  define n where "n = tx_pending_size ep"
  have len: "length (tx_pending ep) = n" using w by (simp add: tx_window_def n_def)
  have u: "u < n" using room by (simp add: u_def n_def)
  have entry: "tx_pending_entry ep (send_next_psn ep) = (unat base + u) mod n"
    using tx_window_next [OF w] by (simp add: u_def n_def)
  have next': "unat (send_next_psn ep + 1 - base) = Suc u"
    using tx_window_push(4) [OF w room psn] by (simp add: ep_push_def set_slot_def u_def)
  have ne: "(unat base + u) mod n \<noteq> (unat base + j) mod n" if "j < u" for j
    using mod_window_inj [of "unat base" u n j] u that by auto
  have "map (\<lambda>j. slot_segment ((tx_pending ep)[(unat base + u) mod n := Mbuf m] ! ((unat base + j) mod n))) [0..<u]
      = map (\<lambda>j. slot_segment (tx_pending ep ! ((unat base + j) mod n))) [0..<u]"
    using ne by (intro map_cong) auto
  then show ?thesis using u len
    by (simp add: pending_def ep_push_def set_slot_def entry n_def [symmetric] u_def [symmetric] next')
qed

text \<open>Sending while there is a free slot, with what it does to the pending segments.\<close>

lemma send_ddp_segment_pending:
  assumes "tx_env D" "tx_ready qp" and w: "tx_window base (remote_ep qp)"
    and room: "unat (send_next_psn (remote_ep qp) - base) < tx_pending_size (remote_ep qp)"
  shows "\<exists>qp'. send_ddp_segment D qp m rr wqe len = Some (send_next_psn (remote_ep qp), qp') \<and>
    tx_ready qp' \<and> tx_window base (remote_ep qp') \<and> tx_changed qp qp' \<and>
    unat (send_next_psn (remote_ep qp') - base) = Suc (unat (send_next_psn (remote_ep qp) - base)) \<and>
    send_next_psn (remote_ep qp') = send_next_psn (remote_ep qp) + 1 \<and>
    pending base (remote_ep qp') = pending base (remote_ep qp) @ [(wqe, rr, mb_data m)]"
proof -
  obtain qp' where s: "send_ddp_segment D qp m rr wqe len = Some (send_next_psn (remote_ep qp), qp')"
    "tx_ready qp'" "tx_window base (remote_ep qp')" "tx_changed qp qp'"
    "send_next_psn (remote_ep qp') = send_next_psn (remote_ep qp) + 1"
    "unat (send_next_psn (remote_ep qp') - base) = Suc (unat (send_next_psn (remote_ep qp) - base))"
    using send_ddp_segment_total [OF assms, of m rr wqe len] by blast
  obtain m' fl where "remote_ep qp' = (ep_push m' (remote_ep qp))\<lparr>trp_flags := fl\<rparr>"
    "slot_segment (Mbuf m') = (wqe, rr, mb_data m)" "pd_psn m' = send_next_psn (remote_ep qp)"
    using send_ddp_segment_ep [OF s(1)] by blast
  then have "pending base (remote_ep qp') = pending base (remote_ep qp) @ [(wqe, rr, mb_data m)]"
    using pending_push [OF w room, of m' fl] by simp
  then show ?thesis using s by blast
qed

section \<open>Segmentation loops\<close>

lemma ceil_div_step:
  assumes "0 < m" "0 < (n :: nat)"
  shows "(n + m - 1) div m = Suc ((n - m + m - 1) div m)"
proof (cases "m \<le> n")
  case True
  then have "n - m + m - 1 = n - 1" "n + m - 1 = (n - 1) + m" using assms by simp_all
  then show ?thesis using assms(1) by (metis div_add_self2 Suc_eq_plus1 neq0_conv)
next
  case False
  then have "n - m + m - 1 = m - 1" "n + m - 1 = (n - 1) + m" "n - 1 < m" using assms by simp_all
  then show ?thesis using assms(1) by (metis div_add_self2 Suc_eq_plus1 neq0_conv div_less diff_less zero_less_one)
qed

text \<open>
  The three loops that cut a message into segments share one contract. \<open>total\<close> is the length
  of the message, \<open>ofs\<close> the number of bytes already sent, \<open>room\<close> the number of sequence numbers
  left in the window, \<open>out\<close> the segments sent so far and \<open>frag o\<close> the segment at offset \<open>o\<close>.
\<close>

locale segment_loop =
  fixes loop :: "'q \<Rightarrow> 'q option" and seg :: "'q \<Rightarrow> 'q option" and ready :: "'q \<Rightarrow> bool"
    and ofs :: "'q \<Rightarrow> nat" and room :: "'q \<Rightarrow> nat" and out :: "'q \<Rightarrow> 's list"
    and frag :: "nat \<Rightarrow> 's" and total :: nat and mtu :: nat
  assumes ready_mtu: "ready qp \<Longrightarrow> 0 < mtu \<and> ofs qp \<le> total"
    and loop_unfold: "ready qp \<Longrightarrow> loop qp = (if ofs qp < total \<and> 0 < room qp then seg qp \<bind> loop else Some qp)"
    and seg_step: "ready qp \<Longrightarrow> ofs qp < total \<Longrightarrow> 0 < room qp \<Longrightarrow>
      \<exists>qp'. seg qp = Some qp' \<and> ready qp' \<and> ofs qp' = min total (ofs qp + mtu) \<and>
        Suc (room qp') = room qp \<and> out qp' = out qp @ [frag (ofs qp)]"
begin

lemma loop_total:
  assumes "ready qp" and "k = min (room qp) ((total - ofs qp + mtu - 1) div mtu)"
  shows "\<exists>qp'. loop qp = Some qp' \<and> ready qp' \<and> ofs qp' = min total (ofs qp + k * mtu) \<and>
    room qp' = room qp - k \<and> out qp' = out qp @ map (\<lambda>j. frag (ofs qp + j * mtu)) [0..<k]"
  using assms
proof (induction "room qp" arbitrary: qp k)
  case 0
  then show ?case using ready_mtu loop_unfold by simp
next
  case (Suc n)
  note mtu = ready_mtu [OF Suc.prems(1)]
  show ?case
  proof (cases "ofs qp < total")
    case False
    then have "total - ofs qp + mtu - 1 < mtu" "ofs qp = total" using mtu by simp_all
    then have "k = 0" using Suc.prems(2) by simp
    then show ?thesis using False mtu loop_unfold [OF Suc.prems(1)] Suc.prems(1) by simp
  next
    case True
    obtain qp1 where s: "seg qp = Some qp1" "ready qp1" "ofs qp1 = min total (ofs qp + mtu)"
      "Suc (room qp1) = room qp" "out qp1 = out qp @ [frag (ofs qp)]"
      using seg_step [OF Suc.prems(1) True] Suc.hyps(2) by auto
    define k1 where "k1 = min (room qp1) ((total - ofs qp1 + mtu - 1) div mtu)"
    have "total - ofs qp1 = total - ofs qp - mtu" using s(3) by simp
    then have "(total - ofs qp + mtu - 1) div mtu = Suc ((total - ofs qp1 + mtu - 1) div mtu)"
      using ceil_div_step [of mtu "total - ofs qp"] mtu True by simp
    then have k: "k = Suc k1" using Suc.prems(2) s(4) by (metis k1_def min_Suc_Suc)
    have "n = room qp1" using Suc.hyps(2) s(4) by simp
    then obtain qp' where q: "loop qp1 = Some qp'" "ready qp'" "ofs qp' = min total (ofs qp1 + k1 * mtu)"
      "room qp' = room qp1 - k1" "out qp' = out qp1 @ map (\<lambda>j. frag (ofs qp1 + j * mtu)) [0..<k1]"
      using Suc.hyps(1) [OF _ s(2) k1_def] by blast
    have "k1 = 0 \<or> ofs qp1 = ofs qp + mtu"
      using s(3) mtu by (cases "ofs qp + mtu \<le> total") (simp_all add: k1_def)
    then have "map (\<lambda>j. frag (ofs qp1 + j * mtu)) [0..<k1] = map (\<lambda>j. frag (ofs qp + j * mtu)) [Suc 0..<Suc k1]"
      by (auto simp: map_Suc_upt [symmetric] add.assoc simp del: upt_Suc)
    then have "out qp' = out qp @ map (\<lambda>j. frag (ofs qp + j * mtu)) [0..<k]"
      using q(5) s(5) by (simp add: k upt_conv_Cons del: upt_Suc)
    then show ?thesis using q s True Suc.hyps(2) loop_unfold [OF Suc.prems(1)] by (auto simp: k min_def algebra_simps)
  qed
qed

end

section \<open>The loops of SEND and RDMA WRITE\<close>

text \<open>
  An environment in which data segments can be built, and a window with its free sequence
  numbers inside the array of pending segments.
\<close>

definition seg_env :: "'r dpdk \<Rightarrow> nat \<Rightarrow> bool" where
  "seg_env D mtu \<longleftrightarrow> tx_env D \<and> mbuf_spec D \<and> (\<forall>t. rte_pktmbuf_alloc D tx_ddp_mempool t \<noteq> None) \<and>
     18 + mtu \<le> pktmbuf_tailroom D tx_ddp_mempool \<and> 18 + mtu < 65536 \<and> 14 \<le> pktmbuf_headroom D tx_ddp_mempool"

definition open_window :: "u32 \<Rightarrow> 'r usiw_qp \<Rightarrow> bool" where
  "open_window base qp \<longleftrightarrow> tx_ready qp \<and> tx_window base (remote_ep qp) \<and> psn_room qp < 2 ^ 31 \<and>
     unat (send_next_psn (remote_ep qp) - base) + psn_room qp \<le> tx_pending_size (remote_ep qp)"

lemma uint_int_unat: "uint x = int (unat x)" for x :: u32
  by simp

lemma Suc_unat_minus_one: "x \<noteq> 0 \<Longrightarrow> Suc (unat (x - 1)) = unat x" for x :: u32
  using unat_minus_one [of x] unat_gt_0 [of x] by simp

lemma int_below_2_31: "n < 2 ^ 31 \<Longrightarrow> 0 < int n \<and> int n < 2 ^ 31 \<longleftrightarrow> 0 < n"
  by auto

lemma psn_room_serial:
  "psn_room qp < 2 ^ 31 \<Longrightarrow> serial_less_32 (send_next_psn (remote_ep qp)) (send_max_psn (remote_ep qp)) \<longleftrightarrow> 0 < psn_room qp"
  unfolding serial_less_32_distance psn_room_def uint_int_unat by (rule int_below_2_31)

lemma psn_room_Suc:
  assumes "0 < psn_room qp" "send_next_psn (remote_ep qp') = send_next_psn (remote_ep qp) + 1"
    "send_max_psn (remote_ep qp') = send_max_psn (remote_ep qp)"
  shows "Suc (psn_room qp') = psn_room qp"
proof -
  have "send_max_psn (remote_ep qp') - send_next_psn (remote_ep qp') =
      (send_max_psn (remote_ep qp) - send_next_psn (remote_ep qp)) - 1"
    using assms(2,3) by simp
  moreover have "send_max_psn (remote_ep qp) - send_next_psn (remote_ep qp) \<noteq> 0"
    using assms(1) by (auto simp: psn_room_def)
  ultimately show ?thesis unfolding psn_room_def by (metis Suc_unat_minus_one)
qed

text \<open>One segment of whatever kind, sent in an open window.\<close>

lemma open_window_send:
  assumes "tx_env D" "open_window base qp" "0 < psn_room qp"
  shows "\<exists>qp'. send_ddp_segment D (ticked qp) m rr wqe len = Some (send_next_psn (remote_ep qp), qp') \<and>
    open_window base qp' \<and> tx_changed qp qp' \<and> Suc (psn_room qp') = psn_room qp \<and>
    pending base (remote_ep qp') = pending base (remote_ep qp) @ [(wqe, rr, mb_data m)]"
proof -
  have r: "tx_ready (ticked qp)" "tx_window base (remote_ep (ticked qp))"
    "unat (send_next_psn (remote_ep (ticked qp)) - base) < tx_pending_size (remote_ep (ticked qp))"
    using assms(2,3) by (auto simp: open_window_def tx_ready_def)
  obtain qp' where s: "send_ddp_segment D (ticked qp) m rr wqe len = Some (send_next_psn (remote_ep qp), qp')"
    "tx_ready qp'" "tx_window base (remote_ep qp')" "tx_changed (ticked qp) qp'"
    "unat (send_next_psn (remote_ep qp') - base) = Suc (unat (send_next_psn (remote_ep qp) - base))"
    "send_next_psn (remote_ep qp') = send_next_psn (remote_ep qp) + 1"
    "pending base (remote_ep qp') = pending base (remote_ep qp) @ [(wqe, rr, mb_data m)]"
    using send_ddp_segment_pending [OF assms(1) r, of m rr wqe len] by auto
  have c: "tx_changed qp qp'" using tx_changed_trans [OF ticked_changed s(4)] .
  note same = tx_changed_same(15,16) [OF c]
  have "Suc (psn_room qp') = psn_room qp" using psn_room_Suc [OF assms(3) s(6) same(1)] .
  then show ?thesis using s c same assms(2) by (auto simp: open_window_def)
qed

definition wqe_data :: "memory \<Rightarrow> usiw_send_wqe \<Rightarrow> u8 list \<Rightarrow> bool" where
  "wqe_data m w msg \<longleftrightarrow> length msg = unat (sw_total_length w) \<and>
     (if sw_flags w AND usiw_send_inline \<noteq> 0 then msg = take (unat (sw_total_length w)) (sw_iov w)
      else 16 * sw_iov_count w \<le> length (sw_iov w) \<and> msg = gather m (iovs_of (sw_iov w) (sw_iov_count w)))"

lemma wqe_payload_slice:
  assumes "wqe_data (qp_mem qp) w msg" "unat (sw_bytes_sent w) + unat len \<le> length msg"
  shows "wqe_payload D qp m h w len = Some (take (unat len) (drop (unat (sw_bytes_sent w)) msg))"
proof (cases "sw_flags w AND usiw_send_inline \<noteq> 0")
  case True
  then have m: "msg = take (unat (sw_total_length w)) (sw_iov w)" "length msg = unat (sw_total_length w)"
    using assms(1) unfolding wqe_data_def by metis+
  then have "unat (sw_total_length w) \<le> length (sw_iov w)" by (metis length_take min.cobounded1)
  then show ?thesis using True m assms(2) by (simp add: wqe_payload_def drop_take)
next
  case False
  define vs where "vs = iovs_of (sw_iov w) (sw_iov_count w)"
  have m: "msg = gather (qp_mem qp) vs" "iov_total vs = unat (sw_total_length w)" "16 * sw_iov_count w \<le> length (sw_iov w)"
    using False assms(1) by (auto simp: wqe_data_def vs_def)
  then show ?thesis using False memcpy_from_iov_loop_slice [of 0 vs 0 len "sw_bytes_sent w"] assms(2) unat_bound [of "sw_total_length w"]
    by (simp add: wqe_payload_def vs_def [symmetric] memcpy_from_iov_def)
qed

text \<open>
  \<open>sending D base i qp0 msg qp\<close>: the loop started from \<open>qp0\<close> with work request \<open>i\<close>, whose
  message is \<open>msg\<close>; since then only segments have been sent and counted in \<^verbatim>\<open>bytes_sent\<close>.
\<close>

definition sending :: "'r dpdk \<Rightarrow> u32 \<Rightarrow> nat \<Rightarrow> 'r usiw_qp \<Rightarrow> u8 list \<Rightarrow> 'r usiw_qp \<Rightarrow> bool" where
  "sending D base i qp0 msg qp \<longleftrightarrow> seg_env D (unat (shm_mtu (shm_qp qp0))) \<and> 0 < unat (shm_mtu (shm_qp qp0)) \<and>
     open_window base qp \<and> wqe_data (qp_mem qp0) (send_wqe qp0 i) msg \<and> sw_remote_ep (send_wqe qp0 i) \<and>
     send_wqe qp i = (send_wqe qp0 i)\<lparr>sw_bytes_sent := sw_bytes_sent (send_wqe qp i)\<rparr> \<and>
     sw_bytes_sent (send_wqe qp i) \<le> sw_total_length (send_wqe qp0 i) \<and>
     tx_changed qp0 (upd_send_wqe i (\<lambda>_. send_wqe qp0 i) qp)"

lemma tx_changed_upd: 
  assumes "tx_changed a b"
  shows "tx_changed (upd_send_wqe i f a) (upd_send_wqe i f b)"
proof -
  from assms have eq: "b\<lparr>io := io a, txq := txq a, remote_ep := remote_ep a\<rparr> = a" by (simp add: tx_changed_def)
  have "(upd_send_wqe i f b)\<lparr>io := io a, txq := txq a, remote_ep := remote_ep a\<rparr> = upd_send_wqe i f a"
    using arg_cong [OF eq, of "upd_send_wqe i f"] by (cases b) (simp add: upd_send_wqe_def)
  then show ?thesis using assms by (simp add: tx_changed_def upd_send_wqe_def outgoing_def)
qed

lemma upd_send_wqe_twice [simp]: "upd_send_wqe i f (upd_send_wqe i g qp) = upd_send_wqe i (f \<circ> g) qp"
  by (simp add: upd_send_wqe_def)

lemma send_wqe_upd [simp]: "send_wqe (upd_send_wqe i f qp) i = f (send_wqe qp i)"
  by (simp add: upd_send_wqe_def)

lemma unat_ucast_16 [simp]: "unat (ucast x :: u64) = unat x" "unat (ucast x :: u32) = unat x" for x :: u16
  using unat_bound [of x] by (simp_all add: unsigned_ucast_eq take_bit_nat_eq_self)

lemma take_min_length: "take (min n (length xs)) xs = take n xs"
  by (simp add: min_def)

lemma sending_length:
  fixes mtu :: u16 and sent total len :: u64
  assumes "sent \<le> total" "len = min (ucast mtu) (total - sent)"
  shows "unat len = min (unat mtu) (unat total - unat sent)" "unat (sent + len) = min (unat total) (unat sent + unat mtu)"
    "sent + len \<le> total"
proof -
  have le: "unat sent \<le> unat total" using assms(1) by (simp add: word_le_nat_alt)
  have d: "unat (total - sent) = unat total - unat sent" using assms(1) by (rule unat_sub)
  show l: "unat len = min (unat mtu) (unat total - unat sent)"
    using d by (simp add: assms(2) unat_min)
  have "unat (sent + len) = unat sent + unat len"
    by (rule unat_add_no_overflow) (use le l unat_bound [of total] in simp)
  then show "unat (sent + len) = min (unat total) (unat sent + unat mtu)" using le l by simp
  then show "sent + len \<le> total" by (simp add: word_le_nat_alt)
qed

lemma sending_step:
  assumes s: "sending D base i qp0 msg qp" and room: "0 < psn_room qp"
    and len: "len = min (ucast (shm_mtu (shm_qp qp0))) (sw_total_length (send_wqe qp0 i) - sw_bytes_sent (send_wqe qp i))"
  shows "\<exists>qp' qp''. send_ddp_segment D (ticked qp) m None (Some i) len = Some (send_next_psn (remote_ep qp), qp') \<and>
    qp'' = upd_send_wqe i (\<lambda>w. w\<lparr>sw_bytes_sent := sw_bytes_sent w + len\<rparr>) qp' \<and>
    sending D base i qp0 msg qp'' \<and> unat (sw_bytes_sent (send_wqe qp'' i)) =
      min (length msg) (unat (sw_bytes_sent (send_wqe qp i)) + unat (shm_mtu (shm_qp qp0))) \<and>
    Suc (psn_room qp'') = psn_room qp \<and>
    pending base (remote_ep qp'') = pending base (remote_ep qp) @ [(Some i, None, mb_data m)]"
proof -
  define w0 where "w0 = send_wqe qp0 i"
  have env: "tx_env D" and win: "open_window base qp"
    and same: "send_wqe qp i = w0\<lparr>sw_bytes_sent := sw_bytes_sent (send_wqe qp i)\<rparr>"
    and le: "sw_bytes_sent (send_wqe qp i) \<le> sw_total_length w0"
    and ch: "tx_changed qp0 (upd_send_wqe i (\<lambda>_. w0) qp)"
    and msg: "length msg = unat (sw_total_length w0)"
    using s by (simp_all add: sending_def seg_env_def w0_def wqe_data_def)
  obtain qp' where q: "send_ddp_segment D (ticked qp) m None (Some i) len = Some (send_next_psn (remote_ep qp), qp')"
    "open_window base qp'" "tx_changed qp qp'" "Suc (psn_room qp') = psn_room qp"
    "pending base (remote_ep qp') = pending base (remote_ep qp) @ [(Some i, None, mb_data m)]"
    using open_window_send [OF env win room, of m None "Some i" len] by blast
  define qp'' where "qp'' = upd_send_wqe i (\<lambda>w. w\<lparr>sw_bytes_sent := sw_bytes_sent w + len\<rparr>) qp'"
  have sq: "send_wqe qp' = send_wqe qp" using tx_changed_same(3) [OF q(3)] by simp
  have w': "send_wqe qp'' i = (send_wqe qp i)\<lparr>sw_bytes_sent := sw_bytes_sent (send_wqe qp i) + len\<rparr>"
    by (simp add: qp''_def sq)
  have simps: "remote_ep qp'' = remote_ep qp'" "psn_room qp'' = psn_room qp'" "open_window base qp''"
    using q(2) by (simp_all add: qp''_def psn_room_def open_window_def tx_ready_def upd_send_wqe_def)
  note l = sending_length [OF le, of len "shm_mtu (shm_qp qp0)"]
  have "tx_changed qp0 (upd_send_wqe i (\<lambda>_. w0) qp'')"
    using tx_changed_trans [OF ch tx_changed_upd [OF q(3)]] by (simp add: qp''_def comp_def)
  moreover have "send_wqe qp'' i = w0\<lparr>sw_bytes_sent := sw_bytes_sent (send_wqe qp'' i)\<rparr>"
    using arg_cong [OF same, of "\<lambda>w. w\<lparr>sw_bytes_sent := sw_bytes_sent (send_wqe qp'' i)\<rparr>"] w' by simp
  ultimately have "sending D base i qp0 msg qp''"
    using s simps l(3) len w' unfolding sending_def w0_def by simp
  moreover have "unat (sw_bytes_sent (send_wqe qp'' i)) =
      min (length msg) (unat (sw_bytes_sent (send_wqe qp i)) + unat (shm_mtu (shm_qp qp0)))"
    using l(2) len w' msg by (simp add: w0_def)
  ultimately show ?thesis using q simps by (intro exI [of _ qp'] exI [of _ qp'']) (simp add: qp''_def)
qed

text \<open>The segment of a message at offset \<open>o\<close>.\<close>

definition send_frag :: "nat \<Rightarrow> usiw_send_wqe \<Rightarrow> nat \<Rightarrow> u8 list \<Rightarrow> nat \<Rightarrow> segment" where
  "send_frag i w mtu msg ofs = (Some i, None, rdmap_untagged_bytes
     \<lparr>ddp_flags = (if length msg - ofs \<le> mtu then DDP_V1_UNTAGGED_LAST_DF else DDP_V1_UNTAGGED_DF),
      rdmap_info = rdmap_opcode_send OR RDMAP_V1, sink_stag = 0, ut_qn = 0, ut_msn = sw_msn w, ut_mo = of_nat ofs\<rparr>
     @ take mtu (drop ofs msg))"

definition write_frag :: "nat \<Rightarrow> usiw_send_wqe \<Rightarrow> nat \<Rightarrow> u8 list \<Rightarrow> nat \<Rightarrow> segment" where
  "write_frag i w mtu msg ofs = (Some i, None, rdmap_tagged_bytes
     \<lparr>ddp_flags = (if length msg - ofs \<le> mtu then DDP_V1_TAGGED_LAST_DF else DDP_V1_TAGGED_DF),
      rdmap_info = RDMAP_V1 OR rdmap_opcode_rdma_write, sink_stag = sw_rkey w, tg_offset = sw_remote_addr w + of_nat ofs\<rparr>
     @ take mtu (drop ofs msg))"

text \<open>What both segment builders read from the state.\<close>

lemma sending_reads:
  assumes "sending D base i qp0 msg qp"
    and "len = min (ucast (shm_mtu (shm_qp qp0))) (sw_total_length (send_wqe qp0 i) - sw_bytes_sent (send_wqe qp i))"
  shows "\<exists>m. rte_pktmbuf_alloc D tx_ddp_mempool (tick qp) = Some m \<and> mb_data m = []"
    and "shm_mtu (shm_qp qp) = shm_mtu (shm_qp qp0)"
    and "sw_total_length (send_wqe qp i) = sw_total_length (send_wqe qp0 i)" "sw_msn (send_wqe qp i) = sw_msn (send_wqe qp0 i)"
      "sw_rkey (send_wqe qp i) = sw_rkey (send_wqe qp0 i)" "sw_remote_addr (send_wqe qp i) = sw_remote_addr (send_wqe qp0 i)"
      "sw_remote_ep (send_wqe qp i)"
    and "room_for D (18 + unat len) = Some ()" "room_for D (unat len) = Some ()"
    and "wqe_payload D (ticked qp) m h (send_wqe qp i) len =
      Some (take (unat (shm_mtu (shm_qp qp0))) (drop (unat (sw_bytes_sent (send_wqe qp i))) msg))"
    and "sw_total_length (send_wqe qp0 i) - sw_bytes_sent (send_wqe qp i) \<le> ucast (shm_mtu (shm_qp qp0)) \<longleftrightarrow>
      length msg - unat (sw_bytes_sent (send_wqe qp i)) \<le> unat (shm_mtu (shm_qp qp0))"
proof -
  define w0 where "w0 = send_wqe qp0 i"
  have env: "seg_env D (unat (shm_mtu (shm_qp qp0)))"
    and same: "send_wqe qp i = w0\<lparr>sw_bytes_sent := sw_bytes_sent (send_wqe qp i)\<rparr>"
    and le: "sw_bytes_sent (send_wqe qp i) \<le> sw_total_length w0"
    and ch: "tx_changed qp0 (upd_send_wqe i (\<lambda>_. w0) qp)"
    and data: "wqe_data (qp_mem qp0) w0 msg" and ep: "sw_remote_ep w0"
    using assms by (simp_all add: sending_def seg_env_def w0_def)
  have msg: "length msg = unat (sw_total_length w0)" using data by (simp add: wqe_data_def)
  show "\<exists>m. rte_pktmbuf_alloc D tx_ddp_mempool (tick qp) = Some m \<and> mb_data m = []"
    using env unfolding seg_env_def mbuf_spec_def by (metis option.exhaust)
  show "shm_mtu (shm_qp qp) = shm_mtu (shm_qp qp0)"
    using tx_changed_same(1) [OF ch] by (simp add: upd_send_wqe_def)
  show f: "sw_total_length (send_wqe qp i) = sw_total_length (send_wqe qp0 i)" "sw_msn (send_wqe qp i) = sw_msn (send_wqe qp0 i)"
      "sw_rkey (send_wqe qp i) = sw_rkey (send_wqe qp0 i)" "sw_remote_addr (send_wqe qp i) = sw_remote_addr (send_wqe qp0 i)"
      "sw_remote_ep (send_wqe qp i)"
    using arg_cong [OF same, of sw_total_length] arg_cong [OF same, of sw_msn] arg_cong [OF same, of sw_rkey]
      arg_cong [OF same, of sw_remote_addr] arg_cong [OF same, of sw_remote_ep] ep by (simp_all add: w0_def)
  note l = sending_length [OF le, of len "shm_mtu (shm_qp qp0)"]
  have lenu: "unat len = min (unat (shm_mtu (shm_qp qp0))) (length msg - unat (sw_bytes_sent (send_wqe qp i)))"
    using l(1) assms(2) msg by (simp add: w0_def)
  then have lenmtu: "unat len \<le> unat (shm_mtu (shm_qp qp0))" by simp
  show "room_for D (18 + unat len) = Some ()" "room_for D (unat len) = Some ()"
    using env lenmtu by (simp_all add: room_for_def seg_env_def assert_c_def)
  have "qp_mem (ticked qp) = qp_mem qp0" using tx_changed_same(8) [OF ch] by (simp add: upd_send_wqe_def)
  moreover have "wqe_data (qp_mem qp0) (send_wqe qp i) msg"
    using data by (subst same) (simp add: wqe_data_def)
  moreover have "unat (sw_bytes_sent (send_wqe qp i)) \<le> length msg" using le msg by (simp add: word_le_nat_alt)
  ultimately show "wqe_payload D (ticked qp) m h (send_wqe qp i) len =
      Some (take (unat (shm_mtu (shm_qp qp0))) (drop (unat (sw_bytes_sent (send_wqe qp i))) msg))"
    using lenu wqe_payload_slice [of "ticked qp" "send_wqe qp i" msg len D m h]
      take_min_length [of "unat (shm_mtu (shm_qp qp0))" "drop (unat (sw_bytes_sent (send_wqe qp i))) msg"] by simp
  show "sw_total_length (send_wqe qp0 i) - sw_bytes_sent (send_wqe qp i) \<le> ucast (shm_mtu (shm_qp qp0)) \<longleftrightarrow>
      length msg - unat (sw_bytes_sent (send_wqe qp i)) \<le> unat (shm_mtu (shm_qp qp0))"
    using le unat_sub [OF le] msg by (simp add: word_le_nat_alt w0_def)
qed

lemma of_nat_ucast_32: "ucast (x :: u64) = (of_nat (unat x) :: u32)"
  by simp

lemma rdmap_segment_step:
  assumes "sending D base i qp0 msg qp" "0 < psn_room qp" and mtu: "mtu = unat (shm_mtu (shm_qp qp0))"
  shows "\<exists>qp'. rdmap_send_segment D i qp = Some qp' \<and> sending D base i qp0 msg qp' \<and>
      unat (sw_bytes_sent (send_wqe qp' i)) = min (length msg) (unat (sw_bytes_sent (send_wqe qp i)) + mtu) \<and>
      Suc (psn_room qp') = psn_room qp \<and> pending base (remote_ep qp') = pending base (remote_ep qp) @
        [send_frag i (send_wqe qp0 i) mtu msg (unat (sw_bytes_sent (send_wqe qp i)))]"
    and "\<exists>qp'. rdmap_write_segment D i qp = Some qp' \<and> sending D base i qp0 msg qp' \<and>
      unat (sw_bytes_sent (send_wqe qp' i)) = min (length msg) (unat (sw_bytes_sent (send_wqe qp i)) + mtu) \<and>
      Suc (psn_room qp') = psn_room qp \<and> pending base (remote_ep qp') = pending base (remote_ep qp) @
        [write_frag i (send_wqe qp0 i) mtu msg (unat (sw_bytes_sent (send_wqe qp i)))]"
proof -
  define len where "len = min (ucast (shm_mtu (shm_qp qp0))) (sw_total_length (send_wqe qp0 i) - sw_bytes_sent (send_wqe qp i))"
  note reads = sending_reads [OF assms(1) len_def]
  obtain m where m: "rte_pktmbuf_alloc D tx_ddp_mempool (tick qp) = Some m" "mb_data m = []" using reads(1) by blast
  have hr: "14 \<le> pktmbuf_headroom D tx_ddp_mempool" using assms(1) by (simp add: sending_def seg_env_def)
  define sb where "sb = snd (snd (send_frag i (send_wqe qp0 i) mtu msg (unat (sw_bytes_sent (send_wqe qp i)))))"
  define wb where "wb = snd (snd (write_frag i (send_wqe qp0 i) mtu msg (unat (sw_bytes_sent (send_wqe qp i)))))"
  have s: "rdmap_send_segment D i qp = do {
      (_, qp) \<leftarrow> send_ddp_segment D (ticked qp) (m\<lparr>mb_data := sb\<rparr>) None (Some i) len;
      Some (upd_send_wqe i (\<lambda>w. w\<lparr>sw_bytes_sent := sw_bytes_sent w + len\<rparr>) qp) }"
    using m reads by (simp add: rdmap_send_segment_def Let_def len_def [symmetric] sb_def send_frag_def mtu)
  have w: "rdmap_write_segment D i qp = do {
      (_, qp) \<leftarrow> send_ddp_segment D (ticked qp) (m\<lparr>mb_data := wb\<rparr>) None (Some i) len;
      Some (upd_send_wqe i (\<lambda>w. w\<lparr>sw_bytes_sent := sw_bytes_sent w + len\<rparr>) qp) }"
    using m reads hr by (simp add: rdmap_write_segment_def Let_def len_def [symmetric] wb_def write_frag_def mtu)
  have frags: "send_frag i (send_wqe qp0 i) mtu msg (unat (sw_bytes_sent (send_wqe qp i))) = (Some i, None, sb)"
    "write_frag i (send_wqe qp0 i) mtu msg (unat (sw_bytes_sent (send_wqe qp i))) = (Some i, None, wb)"
    by (simp_all add: sb_def wb_def send_frag_def write_frag_def)
  show "\<exists>qp'. rdmap_send_segment D i qp = Some qp' \<and> sending D base i qp0 msg qp' \<and>
      unat (sw_bytes_sent (send_wqe qp' i)) = min (length msg) (unat (sw_bytes_sent (send_wqe qp i)) + mtu) \<and>
      Suc (psn_room qp') = psn_room qp \<and> pending base (remote_ep qp') = pending base (remote_ep qp) @
        [send_frag i (send_wqe qp0 i) mtu msg (unat (sw_bytes_sent (send_wqe qp i)))]"
    using sending_step [OF assms(1,2) len_def, of "m\<lparr>mb_data := sb\<rparr>"] by (auto simp: s frags [unfolded mtu] mtu)
  show "\<exists>qp'. rdmap_write_segment D i qp = Some qp' \<and> sending D base i qp0 msg qp' \<and>
      unat (sw_bytes_sent (send_wqe qp' i)) = min (length msg) (unat (sw_bytes_sent (send_wqe qp i)) + mtu) \<and>
      Suc (psn_room qp') = psn_room qp \<and> pending base (remote_ep qp') = pending base (remote_ep qp) @
        [write_frag i (send_wqe qp0 i) mtu msg (unat (sw_bytes_sent (send_wqe qp i)))]"
    using sending_step [OF assms(1,2) len_def, of "m\<lparr>mb_data := wb\<rparr>"] by (auto simp: w frags [unfolded mtu] mtu)
qed

lemma sending_loop:
  assumes "sending D base i qp0 msg qp"
  shows "do_rdmap_send_loop D i qp = (if unat (sw_bytes_sent (send_wqe qp i)) < length msg \<and> 0 < psn_room qp
      then rdmap_send_segment D i qp \<bind> do_rdmap_send_loop D i else Some qp)"
    and "do_rdmap_write_loop D i qp = (if unat (sw_bytes_sent (send_wqe qp i)) < length msg \<and> 0 < psn_room qp
      then rdmap_write_segment D i qp \<bind> do_rdmap_write_loop D i else Some qp)"
    and "0 < unat (shm_mtu (shm_qp qp0)) \<and> unat (sw_bytes_sent (send_wqe qp i)) \<le> length msg"
proof -
  note reads = sending_reads [OF assms refl]
  have "psn_room qp < 2 ^ 31" and len: "length msg = unat (sw_total_length (send_wqe qp0 i))"
    "sw_bytes_sent (send_wqe qp i) \<le> sw_total_length (send_wqe qp0 i)" "0 < unat (shm_mtu (shm_qp qp0))"
    using assms by (simp_all add: sending_def open_window_def wqe_data_def)
  note serial = psn_room_serial [OF this(1)]
  show "do_rdmap_send_loop D i qp = (if unat (sw_bytes_sent (send_wqe qp i)) < length msg \<and> 0 < psn_room qp
      then rdmap_send_segment D i qp \<bind> do_rdmap_send_loop D i else Some qp)"
    by (subst do_rdmap_send_loop.simps) (simp add: reads(3,7) len serial word_less_nat_alt)
  show "do_rdmap_write_loop D i qp = (if unat (sw_bytes_sent (send_wqe qp i)) < length msg \<and> 0 < psn_room qp
      then rdmap_write_segment D i qp \<bind> do_rdmap_write_loop D i else Some qp)"
    by (subst do_rdmap_write_loop.simps) (simp add: reads(3,7) len serial word_less_nat_alt)
  show "0 < unat (shm_mtu (shm_qp qp0)) \<and> unat (sw_bytes_sent (send_wqe qp i)) \<le> length msg"
    using len by (simp add: word_le_nat_alt)
qed

interpretation snd_loop: segment_loop "do_rdmap_send_loop D i" "rdmap_send_segment D i" "sending D base i qp0 msg"
  "\<lambda>qp. unat (sw_bytes_sent (send_wqe qp i))" psn_room "\<lambda>qp. pending base (remote_ep qp)"
  "send_frag i (send_wqe qp0 i) (unat (shm_mtu (shm_qp qp0))) msg" "length msg" "unat (shm_mtu (shm_qp qp0))"
  for D base i qp0 msg
  by unfold_locales (rule sending_loop, assumption, rule sending_loop, assumption, rule rdmap_segment_step, assumption+, rule refl)

interpretation wr_loop: segment_loop "do_rdmap_write_loop D i" "rdmap_write_segment D i" "sending D base i qp0 msg"
  "\<lambda>qp. unat (sw_bytes_sent (send_wqe qp i))" psn_room "\<lambda>qp. pending base (remote_ep qp)"
  "write_frag i (send_wqe qp0 i) (unat (shm_mtu (shm_qp qp0))) msg" "length msg" "unat (shm_mtu (shm_qp qp0))"
  for D base i qp0 msg
  by unfold_locales (rule sending_loop, assumption, rule sending_loop, assumption, rule rdmap_segment_step, assumption+, rule refl)

text \<open>The payloads of the segments of a message, put together again.\<close>

lemma concat_slices: "concat (map (\<lambda>j. take n (drop (s + j * n) xs)) [0..<k]) = take (k * n) (drop s xs)"
proof (induction k)
  case (Suc k)
  have "take (k * n + n) (drop s xs) = take (k * n) (drop s xs) @ take n (drop (k * n) (drop s xs))"
    by (rule take_add)
  then show ?case using Suc by (simp add: add.commute)
qed simp

text \<open>
  \<open>sent_message D base i qp k frag qp'\<close>: from \<open>qp\<close> to \<open>qp'\<close>, \<open>k\<close> segments of the message of work
  request \<open>i\<close> have entered the window, \<^verbatim>\<open>bytes_sent\<close> counts their bytes, the work request waits
  for acknowledgement when all is sent, and nothing else has changed.
\<close>

definition sent_message :: "u32 \<Rightarrow> nat \<Rightarrow> 'r usiw_qp \<Rightarrow> u8 list \<Rightarrow> nat \<Rightarrow> (nat \<Rightarrow> segment) \<Rightarrow> 'r usiw_qp \<Rightarrow> bool" where
  "sent_message base i qp msg k frag qp' \<longleftrightarrow>
     (let mtu = unat (shm_mtu (shm_qp qp)); sent = unat (sw_bytes_sent (send_wqe qp i));
          sent' = unat (sw_bytes_sent (send_wqe qp' i))
      in pending base (remote_ep qp') = pending base (remote_ep qp) @ map (\<lambda>j. frag (sent + j * mtu)) [0..<k] \<and>
         sent' = min (length msg) (sent + k * mtu) \<and>
         sw_state (send_wqe qp' i) = (if sent' = length msg then SEND_WQE_WAIT else sw_state (send_wqe qp i)) \<and>
         psn_room qp' = psn_room qp - k \<and> open_window base qp' \<and>
         tx_changed qp (upd_send_wqe i (\<lambda>_. send_wqe qp i) qp'))"

lemma sent_message_wait:
  assumes "sending D base i qp msg qp1" "psn_room qp1 = psn_room qp - k"
    "unat (sw_bytes_sent (send_wqe qp1 i)) = min (length msg) (unat (sw_bytes_sent (send_wqe qp i)) + k * unat (shm_mtu (shm_qp qp)))"
    "pending base (remote_ep qp1) = pending base (remote_ep qp) @
       map (\<lambda>j. frag (unat (sw_bytes_sent (send_wqe qp i)) + j * unat (shm_mtu (shm_qp qp)))) [0..<k]"
  shows "sent_message base i qp msg k frag (wait_if_sent i qp1)"
proof -
  have same: "send_wqe qp1 i = (send_wqe qp i)\<lparr>sw_bytes_sent := sw_bytes_sent (send_wqe qp1 i)\<rparr>"
    and win: "open_window base qp1" and ch: "tx_changed qp (upd_send_wqe i (\<lambda>_. send_wqe qp i) qp1)"
    and len: "length msg = unat (sw_total_length (send_wqe qp i))"
    using assms(1) by (simp_all add: sending_def wqe_data_def)
  have total: "sw_total_length (send_wqe qp1 i) = sw_total_length (send_wqe qp i)" "sw_state (send_wqe qp1 i) = sw_state (send_wqe qp i)"
    using arg_cong [OF same, of sw_total_length] arg_cong [OF same, of sw_state] by simp_all
  have all: "sw_bytes_sent (send_wqe qp1 i) = sw_total_length (send_wqe qp i) \<longleftrightarrow> unat (sw_bytes_sent (send_wqe qp1 i)) = length msg"
    using len by (simp add: word_unat_eq_iff)
  have room: "psn_room (upd_send_wqe i f qp1) = psn_room qp1" "open_window base (upd_send_wqe i f qp1)" for f
    using win by (simp_all add: psn_room_def open_window_def tx_ready_def upd_send_wqe_def)
  show ?thesis
    using assms(2-4) total all room win ch
    by (auto simp: sent_message_def Let_def wait_if_sent_def comp_def)
qed

lemma example_seg_env: "seg_env example_env 4"
  using example_tx_env example_env_mbuf by (simp add: seg_env_def) (simp add: example_env_def)

lemma example_open_window: "open_window 0 example_qp"
  using example_tx_ready example_window
  by (simp add: open_window_def psn_room_def) (simp add: example_qp_def example_ep_def)

lemma example_wqe_data: "wqe_data (qp_mem example_qp) (send_wqe example_qp 0) [100, 101, 102, 200, 201, 202, 203]"
proof -
  have "wqe_data (\<lambda>a. ucast a) (example_send_wqe 0) [100, 101, 102, 200, 201, 202, 203]"
    by (simp add: wqe_data_def example_send_wqe_def usiw_send_inline_def) code_simp
  then show ?thesis by (simp add: example_qp_def)
qed

section \<open>The loop of RDMA READ responses\<close>

text \<open>
  \<open>responding D base i qp0 c0 (c, qp)\<close>: the loop started from \<open>qp0\<close> with count \<open>c0\<close>; since then
  only segments of response \<open>i\<close> have been sent, and the response has advanced by their bytes.
\<close>

definition response_sent :: "'r usiw_qp \<Rightarrow> nat \<Rightarrow> 'r usiw_qp \<Rightarrow> nat" where
  "response_sent qp0 i qp = unat (rr_msg_size (readresp qp0 i)) - unat (rr_msg_size (readresp qp i))"

definition advanced :: "nat \<Rightarrow> read_response_state \<Rightarrow> read_response_state" where
  "advanced n r = r\<lparr>rr_vaddr := rr_vaddr r + of_nat n, rr_msg_size := rr_msg_size r - of_nat n,
     rr_sink_ofs := rr_sink_ofs r + of_nat n\<rparr>"

definition responding :: "'r dpdk \<Rightarrow> u32 \<Rightarrow> nat \<Rightarrow> 'r usiw_qp \<Rightarrow> int \<Rightarrow> int \<times> 'r usiw_qp \<Rightarrow> bool" where
  "responding D base i qp0 c0 cq \<longleftrightarrow> (case cq of (c, qp) \<Rightarrow>
     seg_env D (unat (shm_mtu (shm_qp qp0))) \<and> 0 < unat (shm_mtu (shm_qp qp0)) \<and>
     open_window base qp \<and> i < length (readresp_store qp0) \<and> rr_sink_ep (readresp qp0 i) \<and>
     response_sent qp0 i qp \<le> unat (rr_msg_size (readresp qp0 i)) \<and>
     readresp qp i = advanced (response_sent qp0 i qp) (readresp qp0 i) \<and>
     c + int (psn_room qp) = c0 + int (psn_room qp0) \<and>
     tx_changed qp0 (upd_readresp i (\<lambda>_. readresp qp0 i) qp))"

definition read_frag :: "nat \<Rightarrow> memory \<Rightarrow> read_response_state \<Rightarrow> nat \<Rightarrow> nat \<Rightarrow> segment" where
  "read_frag i m r mtu ofs = (None, Some i, rdmap_tagged_bytes
     \<lparr>ddp_flags = (if unat (rr_msg_size r) - ofs \<le> mtu then DDP_V1_TAGGED_LAST_DF else DDP_V1_TAGGED_DF),
      rdmap_info = RDMAP_V1 OR rdmap_opcode_rdma_read_response, sink_stag = rr_sink_stag r,
      tg_offset = rr_sink_ofs r + of_nat ofs\<rparr>
     @ take mtu (drop ofs (mem_read m (rr_vaddr r) (unat (rr_msg_size r)))))"

lemma tx_changed_upd_readresp:
  assumes "tx_changed a b"
  shows "tx_changed (upd_readresp i f a) (upd_readresp i f b)"
proof -
  from assms have eq: "b\<lparr>io := io a, txq := txq a, remote_ep := remote_ep a\<rparr> = a" by (simp add: tx_changed_def)
  have "(upd_readresp i f b)\<lparr>io := io a, txq := txq a, remote_ep := remote_ep a\<rparr> = upd_readresp i f a"
    using arg_cong [OF eq, of "upd_readresp i f"] by (cases b) (simp add: upd_readresp_def)
  then show ?thesis using assms by (simp add: tx_changed_def upd_readresp_def outgoing_def)
qed

lemma unat_diff_of_nat: "n \<le> unat x \<Longrightarrow> unat (x - of_nat n) = unat x - n" for x :: u32
proof -
  assume n: "n \<le> unat x"
  then have u: "unat (of_nat n :: u32) = n"
    using unat_bound [of x] by (simp add: unsigned_of_nat take_bit_nat_eq_self)
  then have "(of_nat n :: u32) \<le> x" using n by (simp add: word_le_nat_alt)
  from unat_sub [OF this] u show ?thesis by simp
qed

lemma responding_size:
  assumes "readresp qp i = advanced (response_sent qp0 i qp) (readresp qp0 i)"
    "response_sent qp0 i qp \<le> unat (rr_msg_size (readresp qp0 i))"
  shows "unat (rr_msg_size (readresp qp i)) = unat (rr_msg_size (readresp qp0 i)) - response_sent qp0 i qp"
  using unat_diff_of_nat [OF assms(2)] by (simp add: assms(1) advanced_def)

lemma advanced_twice: "advanced n (advanced m r) = advanced (m + n) r"
  by (simp add: advanced_def algebra_simps)

lemma upd_readresp_advance:
  "(\<lambda>rr. rr\<lparr>rr_vaddr := rr_vaddr rr + ucast len, rr_msg_size := rr_msg_size rr - len, rr_sink_ofs := rr_sink_ofs rr + ucast len\<rparr>)
    = advanced (unat len)" for len :: u32
  by (rule ext) (simp add: advanced_def)

lemma upd_readresp_twice [simp]:
  "i < length (readresp_store qp) \<Longrightarrow> upd_readresp i f (upd_readresp i g qp) = upd_readresp i (f \<circ> g) qp"
  by (simp add: upd_readresp_def)

lemma readresp_upd [simp]: "i < length (readresp_store qp) \<Longrightarrow> readresp (upd_readresp i f qp) i = f (readresp qp i)"
  by (simp add: upd_readresp_def)

lemma responding_step:
  assumes s: "responding D base i qp0 c0 (c, qp)" and room: "0 < psn_room qp"
    and mtu: "mtu = unat (shm_mtu (shm_qp qp0))" and r0: "r0 = readresp qp0 i" and o: "ofs = response_sent qp0 i qp"
    and lt: "ofs < unat (rr_msg_size r0)"
  shows "\<exists>qp'. read_response_segment D i qp = Some qp' \<and> responding D base i qp0 c0 (c + 1, qp') \<and>
      response_sent qp0 i qp' = min (unat (rr_msg_size r0)) (ofs + mtu) \<and>
      Suc (psn_room qp') = psn_room qp \<and> pending base (remote_ep qp') = pending base (remote_ep qp) @
        [read_frag i (qp_mem qp0) r0 mtu ofs]"
proof -
  have env: "seg_env D mtu" "0 < mtu" and win: "open_window base qp" and i: "i < length (readresp_store qp0)"
    and ep: "rr_sink_ep r0" and le: "ofs \<le> unat (rr_msg_size r0)" and rr: "readresp qp i = advanced ofs r0"
    and cnt: "c + int (psn_room qp) = c0 + int (psn_room qp0)" and ch: "tx_changed qp0 (upd_readresp i (\<lambda>_. r0) qp)"
    using s by (simp_all add: responding_def mtu r0 o)
  define len where "len = min (ucast (shm_mtu (shm_qp qp0))) (rr_msg_size (readresp qp i))"
  have size: "unat (rr_msg_size (readresp qp i)) = unat (rr_msg_size r0) - ofs"
    using unat_diff_of_nat [OF le] by (simp add: rr advanced_def)
  have lenu: "unat len = min mtu (unat (rr_msg_size r0) - ofs)" by (simp add: len_def unat_min size mtu)
  then have lenmtu: "unat len \<le> mtu" by simp
  have fields: "rr_sink_stag (readresp qp i) = rr_sink_stag r0" "rr_sink_ofs (readresp qp i) = rr_sink_ofs r0 + of_nat ofs"
    by (simp_all add: rr advanced_def)
  have same: "shm_mtu (shm_qp qp) = shm_mtu (shm_qp qp0)" "qp_mem qp = qp_mem qp0" "length (readresp_store qp) = length (readresp_store qp0)"
    using tx_changed_same(1,8) [OF ch] arg_cong [OF tx_changed_same(10) [OF ch], of length] by (simp_all add: upd_readresp_def)
  obtain m where m: "rte_pktmbuf_alloc D tx_ddp_mempool (tick qp) = Some m" "mb_data m = []"
    using env unfolding seg_env_def mbuf_spec_def by (metis option.exhaust)
  have room14: "room_for D (14 + unat len) = Some ()"
    using env lenmtu by (simp add: room_for_def seg_env_def assert_c_def)
  have last: "rr_msg_size (readresp qp i) \<le> ucast (shm_mtu (shm_qp qp0)) \<longleftrightarrow> unat (rr_msg_size r0) - ofs \<le> mtu"
    by (simp add: word_le_nat_alt size mtu)
  have payload: "mem_read (qp_mem qp0) (rr_vaddr (readresp qp i)) (unat len) =
      take mtu (drop ofs (mem_read (qp_mem qp0) (rr_vaddr r0) (unat (rr_msg_size r0))))"
    using le by (simp add: drop_mem_read lenu rr advanced_def)
  define bs where "bs = snd (snd (read_frag i (qp_mem qp0) r0 mtu ofs))"
  have seg: "read_response_segment D i qp = do {
      (_, qp) \<leftarrow> send_ddp_segment D (ticked qp) (m\<lparr>mb_data := bs\<rparr>) (Some i) None (ucast len);
      Some (upd_readresp i (advanced (unat len)) qp) }"
    using m room14 last payload same fields
    by (simp add: read_response_segment_def Let_def upd_readresp_advance len_def [symmetric] bs_def read_frag_def)
  have tx: "tx_env D" using env by (simp add: seg_env_def)
  obtain qp' where q: "send_ddp_segment D (ticked qp) (m\<lparr>mb_data := bs\<rparr>) (Some i) None (ucast len) = Some (send_next_psn (remote_ep qp), qp')"
    "open_window base qp'" "tx_changed qp qp'" "Suc (psn_room qp') = psn_room qp"
    "pending base (remote_ep qp') = pending base (remote_ep qp) @ [(None, Some i, bs)]"
    using open_window_send [OF tx win room, of "m\<lparr>mb_data := bs\<rparr>" "Some i" None "ucast len"] by auto
  have store: "readresp_store qp' = readresp_store qp" using tx_changed_same(10) [OF q(3)] .
  define qp'' where "qp'' = upd_readresp i (advanced (unat len)) qp'"
  have rr'': "readresp qp'' i = advanced (ofs + unat len) r0"
    using i same store by (simp add: qp''_def rr advanced_twice)
  have le2: "ofs + unat len \<le> unat (rr_msg_size r0)" and min: "ofs + unat len = min (unat (rr_msg_size r0)) (ofs + mtu)"
    using lenu le by simp_all
  have sent: "response_sent qp0 i qp'' = ofs + unat len"
    using unat_diff_of_nat [OF le2] le2 by (simp add: response_sent_def rr'' advanced_def r0 [symmetric] del: of_nat_add)
  have simps: "remote_ep qp'' = remote_ep qp'" "psn_room qp'' = psn_room qp'" "open_window base qp''"
    using q(2) by (simp_all add: qp''_def psn_room_def open_window_def tx_ready_def upd_readresp_def)
  have "tx_changed qp0 (upd_readresp i (\<lambda>_. r0) qp'')"
    using tx_changed_trans [OF ch tx_changed_upd_readresp [OF q(3)]] i same store by (simp add: qp''_def comp_def)
  then have "responding D base i qp0 c0 (c + 1, qp'')"
    using env i ep rr'' sent simps cnt q(4) lenu le by (auto simp: responding_def mtu r0)
  moreover have "read_frag i (qp_mem qp0) r0 mtu ofs = (None, Some i, bs)" by (simp add: bs_def read_frag_def)
  ultimately show ?thesis using q simps seg sent min by (intro exI [of _ qp'']) (auto simp: qp''_def)
qed

lemma responding_loop:
  assumes "responding D base i qp0 c0 cq"
  shows "(case cq of (c, qp) \<Rightarrow> read_response_loop D i c qp) =
      (if response_sent qp0 i (snd cq) < unat (rr_msg_size (readresp qp0 i)) \<and> 0 < psn_room (snd cq)
       then (case cq of (c, qp) \<Rightarrow> map_option (Pair (c + 1)) (read_response_segment D i qp)) \<bind> (\<lambda>(c, qp). read_response_loop D i c qp)
       else Some cq)"
    and "0 < unat (shm_mtu (shm_qp qp0)) \<and> response_sent qp0 i (snd cq) \<le> unat (rr_msg_size (readresp qp0 i))"
proof -
  obtain c qp where cq: "cq = (c, qp)" by (cases cq)
  have "psn_room qp < 2 ^ 31" and rr: "readresp qp i = advanced (response_sent qp0 i qp) (readresp qp0 i)"
    and le: "response_sent qp0 i qp \<le> unat (rr_msg_size (readresp qp0 i))" and ep: "rr_sink_ep (readresp qp0 i)"
    using assms by (simp_all add: responding_def cq open_window_def)
  note serial = psn_room_serial [OF this(1)]
  have "0 < rr_msg_size (readresp qp i) \<longleftrightarrow> response_sent qp0 i qp < unat (rr_msg_size (readresp qp0 i))"
    using responding_size [OF rr le] by (simp add: word_less_nat_alt)
  moreover have "rr_sink_ep (readresp qp i)" using ep by (simp add: rr advanced_def)
  ultimately show "(case cq of (c, qp) \<Rightarrow> read_response_loop D i c qp) =
      (if response_sent qp0 i (snd cq) < unat (rr_msg_size (readresp qp0 i)) \<and> 0 < psn_room (snd cq)
       then (case cq of (c, qp) \<Rightarrow> map_option (Pair (c + 1)) (read_response_segment D i qp)) \<bind> (\<lambda>(c, qp). read_response_loop D i c qp)
       else Some cq)"
    unfolding cq using read_response_loop.simps [of D i c qp] serial
    by (cases "read_response_segment D i qp") auto
  show "0 < unat (shm_mtu (shm_qp qp0)) \<and> response_sent qp0 i (snd cq) \<le> unat (rr_msg_size (readresp qp0 i))"
    using assms le by (simp add: cq responding_def)
qed

interpretation rd_loop: segment_loop "\<lambda>(c, qp). read_response_loop D i c qp"
  "\<lambda>(c, qp). map_option (Pair (c + 1)) (read_response_segment D i qp)" "responding D base i qp0 c0"
  "\<lambda>cq. response_sent qp0 i (snd cq)" "\<lambda>cq. psn_room (snd cq)" "\<lambda>cq. pending base (remote_ep (snd cq))"
  "read_frag i (qp_mem qp0) (readresp qp0 i) (unat (shm_mtu (shm_qp qp0)))" "unat (rr_msg_size (readresp qp0 i))"
  "unat (shm_mtu (shm_qp qp0))"
  for D base i qp0 c0
proof (unfold_locales, goal_cases)
  case (3 cq)
  then show ?case
    using responding_step [of D base i qp0 c0 "fst cq" "snd cq" _ _ "response_sent qp0 i (snd cq)", OF _ _ refl refl refl]
    by (cases cq) fastforce
qed (rule responding_loop, assumption)+

lemma responding_start:
  assumes "mtu = unat (shm_mtu (shm_qp qp))" "seg_env D mtu" "0 < mtu" "open_window base qp"
    and "i < length (readresp_store qp)" "rr_sink_ep (readresp qp i)"
  shows "responding D base i qp c (c, qp)"
  using assms by (simp add: responding_def response_sent_def advanced_def upd_readresp_def)

lemma psn_room_closed:
  assumes "psn_room qp < 2 ^ 31"
  shows "send_next_psn (remote_ep qp) = send_max_psn (remote_ep qp) \<or>
      serial_greater_32 (send_next_psn (remote_ep qp)) (send_max_psn (remote_ep qp)) \<longleftrightarrow> psn_room qp = 0"
proof -
  have zero: "send_next_psn (remote_ep qp) = send_max_psn (remote_ep qp) \<longleftrightarrow> psn_room qp = 0"
    by (auto simp: psn_room_def unat_eq_zero)
  have "\<not> serial_greater_32 (send_next_psn (remote_ep qp)) (send_max_psn (remote_ep qp))" if "0 < psn_room qp"
    using that psn_room_serial [OF assms] unfolding serial_less_32_def serial_greater_32_def by auto
  then show ?thesis using zero
    unfolding serial_greater_32_def by (metis less_irrefl neq0_conv)
qed

text \<open>A full window: every slot holds a datagram.\<close>

lemma tx_window_full:
  assumes "tx_window base ep" "unat (send_next_psn ep - base) = tx_pending_size ep"
  shows "tx_pending ep ! tx_pending_entry ep (send_next_psn ep) \<noteq> Null"
proof -
  obtain k where "tx_pending_size ep = 2 ^ k" using assms(1) by (auto simp: tx_window_def)
  then have n: "0 < tx_pending_size ep" by simp
  have "tx_pending_entry ep (send_next_psn ep) = (unat base + 0) mod tx_pending_size ep"
    using tx_window_next [OF assms(1)] assms(2) by simp
  moreover have "window_slot base (send_next_psn ep) 0 (tx_pending ep ! ((unat base + 0) mod tx_pending_size ep))"
    using assms(1) n unfolding tx_window_def by blast
  ultimately show ?thesis using assms(2) n by (auto simp: window_slot_def)
qed

section \<open>Properties\<close>

text \<open>
  C12. Segmentation of a SEND. In an open window \<^verbatim>\<open>do_rdmap_send\<close> returns after having queued
  exactly as many segments as the window has room for or the rest of the message needs. Segment
  \<open>j\<close> carries the next \<open>mtu\<close> bytes of the message, gathered or inline, under an untagged header
  with queue 0, the message's sequence number, the byte offset, and the last flag exactly on the
  segment that ends the message; together the payloads are the next bytes of the message without
  gap or overlap. The work request is moved to the waiting state when everything is sent.
\<close>

theorem do_rdmap_send_segments:
  assumes "mtu = unat (shm_mtu (shm_qp qp))" "seg_env D mtu" "0 < mtu" "open_window base qp"
    and "wqe_data (qp_mem qp) (send_wqe qp i) msg" "sw_remote_ep (send_wqe qp i)"
    and "sw_bytes_sent (send_wqe qp i) \<le> sw_total_length (send_wqe qp i)" "sent = unat (sw_bytes_sent (send_wqe qp i))"
    and "k = min (psn_room qp) ((length msg - sent + mtu - 1) div mtu)"
  shows "\<exists>qp'. do_rdmap_send D qp i = Some qp' \<and>
    sent_message base i qp msg k (send_frag i (send_wqe qp i) mtu msg) qp' \<and>
    concat (map (\<lambda>s. drop 18 (snd (snd s))) (drop (length (pending base (remote_ep qp))) (pending base (remote_ep qp')))) =
      take (k * mtu) (drop sent msg)"
proof -
  have "sending D base i qp msg qp"
    using assms by (simp add: sending_def upd_send_wqe_def)
  from snd_loop.loop_total [OF this assms(9) [unfolded assms(1,8)]] obtain qp1 where q: "do_rdmap_send_loop D i qp = Some qp1"
    "sending D base i qp msg qp1" "unat (sw_bytes_sent (send_wqe qp1 i)) = min (length msg) (sent + k * mtu)"
    "psn_room qp1 = psn_room qp - k"
    "pending base (remote_ep qp1) = pending base (remote_ep qp) @ map (\<lambda>j. send_frag i (send_wqe qp i) mtu msg (sent + j * mtu)) [0..<k]"
    unfolding assms(1,8) by blast
  have "sent_message base i qp msg k (send_frag i (send_wqe qp i) mtu msg) (wait_if_sent i qp1)"
    using sent_message_wait [OF q(2,4)] q(3,5) assms(1,8) by simp
  moreover have "concat (map (\<lambda>s. drop 18 (snd (snd s))) (map (\<lambda>j. send_frag i (send_wqe qp i) mtu msg (sent + j * mtu)) [0..<k])) =
      take (k * mtu) (drop sent msg)"
    by (simp add: comp_def send_frag_def concat_slices)
  moreover have "remote_ep (wait_if_sent i qp1) = remote_ep qp1" by (simp add: wait_if_sent_def)
  ultimately show ?thesis using q(1,5)
    by (intro exI [of _ "wait_if_sent i qp1"]) (simp add: do_rdmap_send_def)
qed

theorem do_rdmap_send_segments_witness:
  "\<exists>qp'. do_rdmap_send example_env example_qp 0 = Some qp' \<and>
     sent_message 0 0 example_qp [100, 101, 102, 200, 201, 202, 203] 2
       (send_frag 0 (send_wqe example_qp 0) 4 [100, 101, 102, 200, 201, 202, 203]) qp'"
proof -
  have "unat (shm_mtu (shm_qp example_qp)) = 4" "sw_bytes_sent (send_wqe example_qp 0) = 0"
    "sw_remote_ep (send_wqe example_qp 0)" "psn_room example_qp = 8"
    by (simp_all add: example_qp_def example_shm_def example_send_wqe_def zero_send_wqe_def psn_room_def example_ep_def)
  then show ?thesis
    using do_rdmap_send_segments [of 4 example_qp example_env 0 0 "[100, 101, 102, 200, 201, 202, 203]" 0 2]
      example_seg_env example_open_window example_wqe_data by (auto simp: min_def)
qed

text \<open>
  C13. Segmentation of an RDMA WRITE, likewise: tagged headers with the remote key and the remote
  address advanced by the offset of the segment.
\<close>

theorem do_rdmap_write_segments:
  assumes "mtu = unat (shm_mtu (shm_qp qp))" "seg_env D mtu" "0 < mtu" "open_window base qp"
    and "wqe_data (qp_mem qp) (send_wqe qp i) msg" "sw_remote_ep (send_wqe qp i)"
    and "sw_bytes_sent (send_wqe qp i) \<le> sw_total_length (send_wqe qp i)" "sent = unat (sw_bytes_sent (send_wqe qp i))"
    and "k = min (psn_room qp) ((length msg - sent + mtu - 1) div mtu)"
  shows "\<exists>qp'. do_rdmap_write D qp i = Some qp' \<and>
    sent_message base i qp msg k (write_frag i (send_wqe qp i) mtu msg) qp' \<and>
    concat (map (\<lambda>s. drop 14 (snd (snd s))) (drop (length (pending base (remote_ep qp))) (pending base (remote_ep qp')))) =
      take (k * mtu) (drop sent msg)"
proof -
  have "sending D base i qp msg qp"
    using assms by (simp add: sending_def upd_send_wqe_def)
  from wr_loop.loop_total [OF this assms(9) [unfolded assms(1,8)]] obtain qp1 where q: "do_rdmap_write_loop D i qp = Some qp1"
    "sending D base i qp msg qp1" "unat (sw_bytes_sent (send_wqe qp1 i)) = min (length msg) (sent + k * mtu)"
    "psn_room qp1 = psn_room qp - k"
    "pending base (remote_ep qp1) = pending base (remote_ep qp) @ map (\<lambda>j. write_frag i (send_wqe qp i) mtu msg (sent + j * mtu)) [0..<k]"
    unfolding assms(1,8) by blast
  have "sent_message base i qp msg k (write_frag i (send_wqe qp i) mtu msg) (wait_if_sent i qp1)"
    using sent_message_wait [OF q(2,4)] q(3,5) assms(1,8) by simp
  moreover have "concat (map (\<lambda>s. drop 14 (snd (snd s))) (map (\<lambda>j. write_frag i (send_wqe qp i) mtu msg (sent + j * mtu)) [0..<k])) =
      take (k * mtu) (drop sent msg)"
    by (simp add: comp_def write_frag_def concat_slices)
  moreover have "remote_ep (wait_if_sent i qp1) = remote_ep qp1" by (simp add: wait_if_sent_def)
  ultimately show ?thesis using q(1,5)
    by (intro exI [of _ "wait_if_sent i qp1"]) (simp add: do_rdmap_write_def)
qed

theorem do_rdmap_write_segments_witness:
  "\<exists>qp'. do_rdmap_write example_env example_qp 0 = Some qp' \<and>
     sent_message 0 0 example_qp [100, 101, 102, 200, 201, 202, 203] 2
       (write_frag 0 (send_wqe example_qp 0) 4 [100, 101, 102, 200, 201, 202, 203]) qp'"
proof -
  have "unat (shm_mtu (shm_qp example_qp)) = 4" "sw_bytes_sent (send_wqe example_qp 0) = 0"
    "sw_remote_ep (send_wqe example_qp 0)" "psn_room example_qp = 8"
    by (simp_all add: example_qp_def example_shm_def example_send_wqe_def zero_send_wqe_def psn_room_def example_ep_def)
  then show ?thesis
    using do_rdmap_write_segments [of 4 example_qp example_env 0 0 "[100, 101, 102, 200, 201, 202, 203]" 0 2]
      example_seg_env example_open_window example_wqe_data by (auto simp: min_def)
qed

text \<open>
  What answering a list of active requests means, given the slots and states of the requests and
  the free sequence numbers \<open>room\<close>: how many segments a request gets, its state afterwards, and the
  segments sent and new states of all of them.
\<close>

definition read_share :: "nat \<Rightarrow> nat \<Rightarrow> read_response_state \<Rightarrow> nat" where
  "read_share mtu room r = min room ((unat (rr_msg_size r) + mtu - 1) div mtu)"

definition read_after :: "nat \<Rightarrow> nat \<Rightarrow> read_response_state \<Rightarrow> read_response_state" where
  "read_after mtu k r = (if unat (rr_msg_size r) \<le> k * mtu then (advanced (unat (rr_msg_size r)) r)\<lparr>rr_active := False\<rparr>
     else advanced (k * mtu) r)"

fun served_segments :: "nat \<Rightarrow> memory \<Rightarrow> nat \<Rightarrow> (nat \<times> read_response_state) list \<Rightarrow> segment list" where
  "served_segments mtu m room [] = []"
| "served_segments mtu m room ((i, r) # rs) =
     map (\<lambda>j. read_frag i m r mtu (j * mtu)) [0..<read_share mtu room r] @ served_segments mtu m (room - read_share mtu room r) rs"

fun served_states :: "nat \<Rightarrow> nat \<Rightarrow> (nat \<times> read_response_state) list \<Rightarrow> (nat \<times> read_response_state) list" where
  "served_states mtu room [] = []"
| "served_states mtu room ((i, r) # rs) =
     (i, read_after mtu (read_share mtu room r) r) # served_states mtu (room - read_share mtu room r) rs"

text \<open>One request.\<close>

lemma respond_one:
  assumes mtu: "mtu = unat (shm_mtu (shm_qp qp))" and env: "seg_env D mtu" "0 < mtu" "open_window base qp"
    and il: "i < length (readresp_store qp)" and r: "r = readresp qp i" "rr_sink_ep r"
    and k: "n = unat (rr_msg_size r)" "k = min (psn_room qp) ((n + mtu - 1) div mtu)"
  shows "\<exists>qp1. read_response_loop D i c qp = Some (c + int k, qp1) \<and> open_window base qp1 \<and> psn_room qp1 = psn_room qp - k \<and>
    pending base (remote_ep qp1) = pending base (remote_ep qp) @ map (\<lambda>j. read_frag i (qp_mem qp) r mtu (j * mtu)) [0..<k] \<and>
    readresp_store qp1 = (readresp_store qp)[i := advanced (min n (k * mtu)) r] \<and>
    tx_changed qp (qp1\<lparr>readresp_store := readresp_store qp\<rparr>)"
proof -
  have "responding D base i qp c (c, qp)" using responding_start [OF mtu env il] r by simp
  from rd_loop.loop_total [OF this, of k] obtain c' qp1 where q: "read_response_loop D i c qp = Some (c', qp1)"
    "responding D base i qp c (c', qp1)" "response_sent qp i qp1 = min n (k * mtu)" "psn_room qp1 = psn_room qp - k"
    "pending base (remote_ep qp1) = pending base (remote_ep qp) @ map (\<lambda>j. read_frag i (qp_mem qp) r mtu (j * mtu)) [0..<k]"
    using k r(1) by (simp add: response_sent_def mtu [symmetric]) blast
  have rr1: "readresp qp1 i = advanced (min n (k * mtu)) r" and ch: "tx_changed qp (upd_readresp i (\<lambda>_. r) qp1)"
    and c: "c' + int (psn_room qp1) = c + int (psn_room qp)" and win: "open_window base qp1"
    using q(2,3) r by (simp_all add: responding_def)
  have store: "(readresp_store qp1)[i := r] = readresp_store qp" using tx_changed_same(10) [OF ch] by (simp add: upd_readresp_def)
  then have "readresp_store qp1 = (readresp_store qp)[i := readresp qp1 i]" by (metis list_update_id list_update_overwrite)
  moreover have "upd_readresp i (\<lambda>_. r) qp1 = qp1\<lparr>readresp_store := readresp_store qp\<rparr>" by (simp add: upd_readresp_def store)
  moreover have "c' = c + int k" using c q(4) k(2) by simp
  ultimately show ?thesis using q win rr1 ch by auto
qed


text \<open>
  The active requests from the head of the queue on, in the order of their sequence numbers, up to
  the first slot that is not in use.
\<close>

definition response_slots :: "'r usiw_qp \<Rightarrow> nat \<Rightarrow> nat \<Rightarrow> nat list" where
  "response_slots qp msn n = takeWhile (\<lambda>i. rr_active (readresp qp i)) (map (\<lambda>j. (msn + j) mod unat (ird_max (shm_qp qp))) [0..<n])"

definition store_states :: "(nat \<times> read_response_state) list \<Rightarrow> read_response_state list \<Rightarrow> read_response_state list" where
  "store_states rs st = fold (\<lambda>(i, r) st. st[i := r]) rs st"

lemma response_slots_Suc:
  "response_slots qp msn (Suc n) = (if rr_active (readresp qp (msn mod unat (ird_max (shm_qp qp))))
     then msn mod unat (ird_max (shm_qp qp)) # response_slots qp (Suc msn) n else [])"
proof -
  have "map (\<lambda>j. (msn + j) mod k) [0..<Suc n] = msn mod k # map (\<lambda>j. (Suc msn + j) mod k) [0..<n]" for k
    by (simp add: upt_conv_Cons map_Suc_upt [symmetric] del: upt_Suc)
  then show ?thesis by (simp add: response_slots_def)
qed

lemma response_slots_cong:
  assumes "shm_qp qp' = shm_qp qp" "\<And>j. j < n \<Longrightarrow> readresp qp' ((msn + j) mod unat (ird_max (shm_qp qp))) = readresp qp ((msn + j) mod unat (ird_max (shm_qp qp)))"
  shows "response_slots qp' msn n = response_slots qp msn n"
  using assms by (auto simp: response_slots_def intro!: takeWhile_cong)

lemma response_slots_other:
  assumes "Suc n \<le> ird" "ird = unat (ird_max (shm_qp qp))" "j < n"
  shows "(Suc msn + j) mod ird \<noteq> msn mod ird"
  using mod_window_inj [of msn "Suc j" ird 0] assms by auto

lemma tx_changed_responses:
  assumes "tx_changed a b"
  shows "tx_changed (a\<lparr>readresp_store := st, readresp_head_msn := h\<rparr>) (b\<lparr>readresp_store := st, readresp_head_msn := h\<rparr>)"
proof -
  from assms have eq: "b\<lparr>io := io a, txq := txq a, remote_ep := remote_ep a\<rparr> = a" by (simp add: tx_changed_def)
  have "(b\<lparr>readresp_store := st, readresp_head_msn := h\<rparr>)\<lparr>io := io a, txq := txq a, remote_ep := remote_ep a\<rparr> = a\<lparr>readresp_store := st, readresp_head_msn := h\<rparr>"
    using arg_cong [OF eq, of "\<lambda>x. x\<lparr>readresp_store := st, readresp_head_msn := h\<rparr>"] by (cases b) simp
  then show ?thesis using assms by (simp add: tx_changed_def outgoing_def)
qed

lemma respond_rdma_read_loop_serves:
  assumes "mtu = unat (shm_mtu (shm_qp qp))" "seg_env D mtu" "0 < mtu" "open_window base qp"
    and "length (readresp_store qp) = ird" "ird = unat (ird_max (shm_qp qp))" "n \<le> ird"
    and "\<And>i. i \<in> set (response_slots qp msn n) \<Longrightarrow> rr_sink_ep (readresp qp i)"
    and "rs = map (\<lambda>i. (i, readresp qp i)) (response_slots qp msn n)" "segs = served_segments mtu (qp_mem qp) (psn_room qp) rs"
      "states = served_states mtu (psn_room qp) rs"
  shows "\<exists>qp'. respond_rdma_read_loop D n msn c qp = Some (c + int (length segs), qp') \<and>
    pending base (remote_ep qp') = pending base (remote_ep qp) @ segs \<and>
    readresp_store qp' = store_states states (readresp_store qp) \<and>
    readresp_head_msn qp' = readresp_head_msn qp + of_nat (length (filter (\<lambda>(i, r). \<not> rr_active r) states)) \<and>
    tx_changed qp (qp'\<lparr>readresp_store := readresp_store qp, readresp_head_msn := readresp_head_msn qp\<rparr>)"
  using assms
proof (induction n arbitrary: msn c qp rs segs states)
  case 0
  then show ?case by (simp add: response_slots_def store_states_def)
next
  case (Suc n)
  define i where "i = msn mod ird"
  have il: "i < length (readresp_store qp)" "i = msn mod unat (ird_max (shm_qp qp))" using Suc.prems(5-7) by (auto simp: i_def)
  show ?case
  proof (cases "rr_active (readresp qp i)")
    case False
    then show ?thesis using Suc.prems(9-11) il by (simp add: response_slots_Suc store_states_def Let_def)
  next
    case True
    define r where "r = readresp qp i"
    define k where "k = read_share mtu (psn_room qp) r"
    have slots: "response_slots qp msn (Suc n) = i # response_slots qp (Suc msn) n" using True by (simp add: response_slots_Suc il(2) [symmetric])
    have ep: "rr_sink_ep r" using Suc.prems(8) slots by (simp add: r_def)
    obtain qp1 where q1: "read_response_loop D i c qp = Some (c + int k, qp1)" "open_window base qp1" "psn_room qp1 = psn_room qp - k"
      "pending base (remote_ep qp1) = pending base (remote_ep qp) @ map (\<lambda>j. read_frag i (qp_mem qp) r mtu (j * mtu)) [0..<k]"
      "readresp_store qp1 = (readresp_store qp)[i := advanced (min (unat (rr_msg_size r)) (k * mtu)) r]"
      "tx_changed qp (qp1\<lparr>readresp_store := readresp_store qp\<rparr>)"
      using respond_one [OF Suc.prems(1-4) il(1) r_def ep refl] by (auto simp: k_def read_share_def)
    have size1: "rr_msg_size (readresp qp1 i) = 0 \<longleftrightarrow> unat (rr_msg_size r) \<le> k * mtu"
      using unat_diff_of_nat [of "min (unat (rr_msg_size r)) (k * mtu)" "rr_msg_size r"] il(1)
      by (simp add: q1(5) advanced_def word_unat_eq_iff)
    define qp2 where "qp2 = (if rr_msg_size (readresp qp1 i) = 0
       then (upd_readresp i (\<lambda>rr. rr\<lparr>rr_active := False\<rparr>) qp1)\<lparr>readresp_head_msn := readresp_head_msn qp1 + 1\<rparr> else qp1)"
    have store2: "readresp_store qp2 = (readresp_store qp)[i := read_after mtu k r]"
      using il(1) size1 by (auto simp: qp2_def upd_readresp_def q1(5) read_after_def min_def)
    have active: "\<not> rr_active (read_after mtu k r) \<longleftrightarrow> unat (rr_msg_size r) \<le> k * mtu"
      using True by (simp add: read_after_def advanced_def r_def)
    have head2: "readresp_head_msn qp2 = readresp_head_msn qp + (if rr_active (read_after mtu k r) then 0 else 1)"
      using size1 active tx_changed_same(11) [OF q1(6)] by (simp add: qp2_def)
    have ch2: "tx_changed qp (qp2\<lparr>readresp_store := readresp_store qp, readresp_head_msn := readresp_head_msn qp\<rparr>)"
    proof -
      have "qp2\<lparr>readresp_store := readresp_store qp, readresp_head_msn := readresp_head_msn qp\<rparr> = qp1\<lparr>readresp_store := readresp_store qp\<rparr>"
        using tx_changed_same(11) [OF q1(6)] by (simp add: qp2_def upd_readresp_def)
      then show ?thesis using q1(6) by simp
    qed
    have same2: "shm_qp qp2 = shm_qp qp" "qp_mem qp2 = qp_mem qp" "remote_ep qp2 = remote_ep qp1" "psn_room qp2 = psn_room qp - k" "open_window base qp2"
      using tx_changed_same(1,8) [OF ch2] tx_changed_same(1) [OF q1(6)] q1(2,3) by (simp_all add: qp2_def upd_readresp_def psn_room_def open_window_def tx_ready_def)
    have other: "readresp qp2 ((Suc msn + j) mod ird) = readresp qp ((Suc msn + j) mod ird)" if "j < n" for j
      using response_slots_other [OF Suc.prems(7,6) that, of msn] by (simp add: store2 i_def)
    then have slots2: "response_slots qp2 (Suc msn) n = response_slots qp (Suc msn) n"
      by (intro response_slots_cong) (simp_all add: same2(1) Suc.prems(6) [symmetric])
    have mem: "readresp qp2 x = readresp qp x" if "x \<in> set (response_slots qp (Suc msn) n)" for x
      using that other by (auto simp: response_slots_def Suc.prems(6) [symmetric] dest!: set_takeWhileD)
    define rs2 where "rs2 = map (\<lambda>i. (i, readresp qp2 i)) (response_slots qp2 (Suc msn) n)"
    have rs: "rs = (i, r) # rs2" using Suc.prems(9) mem by (simp add: slots rs2_def slots2 r_def)
    obtain qp' where q': "respond_rdma_read_loop D n (Suc msn) (c + int k) qp2 =
        Some (c + int k + int (length (served_segments mtu (qp_mem qp2) (psn_room qp2) rs2)), qp')"
      "pending base (remote_ep qp') = pending base (remote_ep qp2) @ served_segments mtu (qp_mem qp2) (psn_room qp2) rs2"
      "readresp_store qp' = store_states (served_states mtu (psn_room qp2) rs2) (readresp_store qp2)"
      "readresp_head_msn qp' = readresp_head_msn qp2 + of_nat (length (filter (\<lambda>(i, r). \<not> rr_active r) (served_states mtu (psn_room qp2) rs2)))"
      "tx_changed qp2 (qp'\<lparr>readresp_store := readresp_store qp2, readresp_head_msn := readresp_head_msn qp2\<rparr>)"
      using Suc.IH [of qp2 "Suc msn" rs2 _ _ "c + int k", OF _ Suc.prems(2,3) same2(5) _ _ _ _ rs2_def refl refl]
        Suc.prems(1,5-8) slots slots2 mem by (auto simp: same2 store2)
    have "respond_rdma_read_loop D (Suc n) msn c qp = respond_rdma_read_loop D n (Suc msn) (c + int k) qp2"
      using il(1) True q1(1) by (simp add: Let_def il(2) [symmetric] qp2_def)
    moreover have "tx_changed qp (qp'\<lparr>readresp_store := readresp_store qp, readresp_head_msn := readresp_head_msn qp\<rparr>)"
      using tx_changed_trans [OF ch2 tx_changed_responses [OF q'(5), where st = "readresp_store qp" and h = "readresp_head_msn qp", simplified]] .
    ultimately show ?thesis
      using q' Suc.prems(10,11) active
      by (intro exI [of _ qp']) (simp add: rs same2 k_def [symmetric] q1(4) store_states_def store2 head2)
  qed
qed


text \<open>The bytes of one request among the segments of all of them.\<close>

lemma served_states_slots: "map fst (served_states mtu room rs) = map fst rs"
  by (induction rs arbitrary: room) auto

lemma served_segments_foreign:
  "i \<notin> fst ` set rs \<Longrightarrow> filter (\<lambda>s. fst (snd s) = Some i) (served_segments mtu m room rs) = []"
proof (induction rs arbitrary: room)
  case (Cons x rs)
  obtain i1 r1 where x: "x = (i1, r1)" by (cases x)
  have "filter (\<lambda>s. fst (snd s) = Some i) (map (\<lambda>j. read_frag i1 m r1 mtu (j * mtu)) [0..<k]) = []" for k
    using Cons.prems x by (auto simp: read_frag_def filter_empty_conv)
  then show ?case using Cons x by simp
qed simp

lemma read_after_size: "unat (rr_msg_size (read_after mtu k r)) = unat (rr_msg_size r) - k * mtu"
  using unat_diff_of_nat [of "k * mtu" "rr_msg_size r"] by (auto simp: read_after_def advanced_def simp del: of_nat_mult)

lemma served_segments_data:
  assumes "(i, r) \<in> set rs" "distinct (map fst rs)"
  shows "\<exists>r'. (i, r') \<in> set (served_states mtu room rs) \<and>
    concat (map (\<lambda>s. drop 14 (snd (snd s))) (filter (\<lambda>s. fst (snd s) = Some i) (served_segments mtu m room rs))) =
      take (unat (rr_msg_size r) - unat (rr_msg_size r')) (mem_read m (rr_vaddr r) (unat (rr_msg_size r)))"
  using assms
proof (induction rs arbitrary: room)
  case (Cons x rs)
  obtain i1 r1 where x: "x = (i1, r1)" by (cases x)
  define k where "k = read_share mtu room r1"
  show ?case
  proof (cases "i = i1")
    case True
    have r: "r = r1" using Cons.prems(1,2) x True by (auto simp: rev_image_eqI)
    have other: "filter (\<lambda>s. fst (snd s) = Some i) (served_segments mtu m (room - k) rs) = []"
      using Cons.prems(2) x True by (intro served_segments_foreign) auto
    have own: "filter (\<lambda>s. fst (snd s) = Some i) (map (\<lambda>j. read_frag i m r mtu (j * mtu)) [0..<k]) = map (\<lambda>j. read_frag i m r mtu (j * mtu)) [0..<k]"
      by (auto simp: read_frag_def filter_id_conv)
    have "concat (map (\<lambda>j. drop 14 (snd (snd (read_frag i m r mtu (j * mtu))))) [0..<k]) = take (k * mtu) (mem_read m (rr_vaddr r) (unat (rr_msg_size r)))"
      using concat_slices [of mtu 0 "mem_read m (rr_vaddr r) (unat (rr_msg_size r))" k] by (simp add: read_frag_def)
    moreover have "take (k * mtu) (mem_read m (rr_vaddr r) n) = take (n - (n - k * mtu)) (mem_read m (rr_vaddr r) n)" for n
      by (cases "k * mtu \<le> n") simp_all
    ultimately show ?thesis using x True r own other
      by (intro exI [of _ "read_after mtu k r"]) (simp add: k_def [symmetric] read_after_size o_def)
  next
    case False
    have "filter (\<lambda>s. fst (snd s) = Some i) (map (\<lambda>j. read_frag i1 m r1 mtu (j * mtu)) [0..<k]) = []"
      using False by (auto simp: read_frag_def filter_empty_conv)
    then show ?thesis using Cons.IH [of "room - k"] Cons.prems False x by (auto simp: k_def)
  qed
qed simp

lemma store_states_nth:
  assumes "distinct (map fst rs)" "(i, r) \<in> set rs" "\<forall>x \<in> set rs. fst x < length st"
  shows "store_states rs st ! i = r"
proof -
  have keep: "store_states rs st ! i = st ! i" if "i \<notin> fst ` set rs" for rs st i
    using that by (induction rs arbitrary: st) (auto simp: store_states_def)
  show ?thesis using assms
  proof (induction rs arbitrary: st)
    case (Cons x rs)
    obtain i1 r1 where x: "x = (i1, r1)" by (cases x)
    show ?case
    proof (cases "(i, r) = x")
      case True
      then show ?thesis using Cons.prems keep [of i rs "st[i1 := r1]"] x by (simp add: store_states_def)
    next
      case False
      then show ?thesis using Cons.IH [of "st[i1 := r1]"] Cons.prems x by (auto simp: store_states_def)
    qed
  qed simp
qed

lemma response_slots_distinct:
  assumes "n \<le> ird" "ird = unat (ird_max (shm_qp qp))"
  shows "distinct (response_slots qp msn n)" "x \<in> set (response_slots qp msn n) \<Longrightarrow> x < ird"
proof -
  have "inj_on (\<lambda>j. (msn + j) mod ird) {0..<n}"
    using mod_window_inj [of msn _ ird] assms(1) by (intro inj_onI) (metis atLeastLessThan_iff order_less_le_trans)
  then show "distinct (response_slots qp msn n)"
    unfolding response_slots_def assms(2) [symmetric] by (intro distinct_takeWhile) (simp add: distinct_map)
  show "x < ird" if "x \<in> set (response_slots qp msn n)"
    using that assms by (auto simp: response_slots_def dest!: set_takeWhileD)
qed

text \<open>
  C14. Answers to RDMA READ requests. \<^verbatim>\<open>respond_rdma_read\<close> visits the active requests in the order
  of their sequence numbers, from the head of the queue up to the first slot that is not in use,
  and always returns. Each gets segments until it is finished or the window has no free sequence
  number left, and the result is the number of segments sent. The segments of a request carry its
  memory in order, from its address on and without a gap, with its sink tag and the sink offset of
  each segment, the last one with the last flag. A request whose last byte is sent becomes
  inactive, the others keep what is left of them, and the sequence number of the head is increased
  by the number of requests that became inactive. Nothing else of the queue pair but its transmit
  state changes.
\<close>

theorem respond_rdma_read_answers:
  assumes "mtu = unat (shm_mtu (shm_qp qp))" "seg_env D mtu" "0 < mtu" "open_window base qp"
    and "ird = unat (ird_max (shm_qp qp))" "length (readresp_store qp) = ird"
    and "slots = response_slots qp (unat (readresp_head_msn qp)) ird" "\<forall>i \<in> set slots. rr_sink_ep (readresp qp i)"
    and "rs = map (\<lambda>i. (i, readresp qp i)) slots"
  shows "\<exists>qp' segs. respond_rdma_read D qp = Some (int (length segs), qp') \<and> segs = served_segments mtu (qp_mem qp) (psn_room qp) rs \<and>
    pending base (remote_ep qp') = pending base (remote_ep qp) @ segs \<and>
    (\<forall>i \<in> set slots. concat (map (\<lambda>s. drop 14 (snd (snd s))) (filter (\<lambda>s. fst (snd s) = Some i) segs)) =
      take (unat (rr_msg_size (readresp qp i)) - unat (rr_msg_size (readresp qp' i)))
        (mem_read (qp_mem qp) (rr_vaddr (readresp qp i)) (unat (rr_msg_size (readresp qp i))))) \<and>
    readresp_store qp' = store_states (served_states mtu (psn_room qp) rs) (readresp_store qp) \<and>
    readresp_head_msn qp' = readresp_head_msn qp + of_nat (length (filter (\<lambda>i. \<not> rr_active (readresp qp' i)) slots)) \<and>
    tx_changed qp (qp'\<lparr>readresp_store := readresp_store qp, readresp_head_msn := readresp_head_msn qp\<rparr>)"
proof -
  let ?states = "served_states mtu (psn_room qp) rs" and ?segs = "served_segments mtu (qp_mem qp) (psn_room qp) rs"
  obtain qp' where q: "respond_rdma_read D qp = Some (int (length ?segs), qp')" "pending base (remote_ep qp') = pending base (remote_ep qp) @ ?segs"
    "readresp_store qp' = store_states ?states (readresp_store qp)"
    "readresp_head_msn qp' = readresp_head_msn qp + of_nat (length (filter (\<lambda>(i, r). \<not> rr_active r) ?states))"
    "tx_changed qp (qp'\<lparr>readresp_store := readresp_store qp, readresp_head_msn := readresp_head_msn qp\<rparr>)"
    using respond_rdma_read_loop_serves [OF assms(1-4,6,5) order_refl _ _ refl refl, of "unat (readresp_head_msn qp)" rs 0] assms(5,7-9)
    by (auto simp: respond_rdma_read_def)
  have fst: "map fst ?states = slots" "map fst rs = slots" using assms(9) by (simp_all add: served_states_slots o_def)
  have dist: "distinct (map fst ?states)" "distinct (map fst rs)" "\<forall>i \<in> set (map fst ?states). i < length (readresp_store qp)"
    using response_slots_distinct [OF order_refl assms(5)] fst assms(6,7) by simp_all
  have at: "readresp qp' i = r" if "(i, r) \<in> set ?states" for i r
    using store_states_nth [OF dist(1) that] dist(3) q(3) by simp
  have "filter (\<lambda>(i, r). \<not> rr_active r) ?states = filter (\<lambda>x. \<not> rr_active (readresp qp' (fst x))) ?states"
    using at by (intro filter_cong) auto
  then have "length (filter (\<lambda>(i, r). \<not> rr_active r) ?states) = length (filter (\<lambda>i. \<not> rr_active (readresp qp' i)) slots)"
    using fst(1) by (metis (mono_tags, lifting) length_map filter_map o_def filter_cong)
  moreover have "concat (map (\<lambda>s. drop 14 (snd (snd s))) (filter (\<lambda>s. fst (snd s) = Some i) ?segs)) =
      take (unat (rr_msg_size (readresp qp i)) - unat (rr_msg_size (readresp qp' i)))
        (mem_read (qp_mem qp) (rr_vaddr (readresp qp i)) (unat (rr_msg_size (readresp qp i))))" if "i \<in> set slots" for i
    using served_segments_data [of i "readresp qp i" rs mtu "psn_room qp" "qp_mem qp"] dist(2) assms(9) that at by auto
  ultimately show ?thesis using q by (intro exI [of _ qp'] exI [of _ ?segs]) simp
qed


text \<open>
  Two active requests and room for one segment: the request at the head needs two, and the one
  behind it has no data at all. The head moves on past the request that is not finished.
\<close>

definition read_example :: "(nat list \<times> nat) usiw_qp" where
  "read_example = (let r = \<lparr>rr_vaddr = 100, rr_msg_size = 6, rr_sink_stag = 7, rr_sink_ofs = 1000, rr_active = True, rr_sink_ep = True\<rparr>
     in map_ep (\<lambda>ep. ep\<lparr>send_max_psn := 1\<rparr>) (example_qp\<lparr>readresp_store := (readresp_store example_qp)[1 := r, 2 := r\<lparr>rr_msg_size := 0\<rparr>]\<rparr>))"

theorem respond_rdma_read_answers_witness:
  "\<exists>qp'. respond_rdma_read example_env read_example = Some (1, qp') \<and> readresp_head_msn read_example = 1 \<and> readresp_head_msn qp' = 2 \<and>
     rr_active (readresp qp' 1) \<and> rr_msg_size (readresp qp' 1) = 2 \<and> rr_vaddr (readresp qp' 1) = 104 \<and> \<not> rr_active (readresp qp' 2)"
proof -
  have q: "shm_mtu (shm_qp read_example) = 4" "ird_max (shm_qp read_example) = 4" "readresp_head_msn read_example = 1" "psn_room read_example = 1"
    by (simp_all add: read_example_def Let_def example_qp_def example_shm_def example_ep_def psn_room_def)
  have store: "readresp_store read_example = [(readresp_store example_qp) ! 0,
      \<lparr>rr_vaddr = 100, rr_msg_size = 6, rr_sink_stag = 7, rr_sink_ofs = 1000, rr_active = True, rr_sink_ep = True\<rparr>,
      \<lparr>rr_vaddr = 100, rr_msg_size = 0, rr_sink_stag = 7, rr_sink_ofs = 1000, rr_active = True, rr_sink_ep = True\<rparr>, (readresp_store example_qp) ! 3]"
    by (simp add: read_example_def Let_def example_qp_def numeral_eq_Suc)
  have idle: "\<not> rr_active ((readresp_store example_qp) ! 3)" by (simp add: example_qp_def)
  have win: "open_window 0 read_example"
    using example_open_window by (simp add: open_window_def tx_ready_def psn_room_def read_example_def Let_def tx_window_def example_ep_def example_qp_def)
  have slots: "[1, 2] = response_slots read_example (unat (readresp_head_msn read_example)) 4"
  proof -
    have "map (\<lambda>j. (1 + j) mod 4) [0..<4] = [1, 2, 3, 0 :: nat]" by (simp add: upt_rec)
    then show ?thesis using idle by (simp add: response_slots_def q store)
  qed
  let ?rs = "map (\<lambda>i. (i, readresp read_example i)) [1, 2]"
  have states: "served_states 4 1 ?rs = [(1, advanced 4 (readresp read_example 1)), (2, (advanced 0 (readresp read_example 2))\<lparr>rr_active := False\<rparr>)]"
    by (simp add: store read_share_def read_after_def)
  have segs: "length (served_segments 4 (qp_mem read_example) 1 ?rs) = 1"
    by (simp add: store read_share_def)
  have p: "4 = unat (shm_mtu (shm_qp read_example))" "0 < (4 :: nat)" "4 = unat (ird_max (shm_qp read_example))" "length (readresp_store read_example) = 4"
    "\<forall>i \<in> set [1, 2]. rr_sink_ep (readresp read_example i)"
    using q store by simp_all
  obtain qp' where a: "respond_rdma_read example_env read_example = Some (int (length (served_segments 4 (qp_mem read_example) (psn_room read_example) ?rs)), qp')"
    "readresp_store qp' = store_states (served_states 4 (psn_room read_example) ?rs) (readresp_store read_example)"
    "readresp_head_msn qp' = readresp_head_msn read_example + of_nat (length (filter (\<lambda>i. \<not> rr_active (readresp qp' i)) [1, 2]))"
    using respond_rdma_read_answers [OF p(1) example_seg_env p(2) win p(3,4) slots p(5) refl] by blast
  have "readresp_store qp' = (readresp_store read_example)[1 := advanced 4 (readresp read_example 1),
      2 := (advanced 0 (readresp read_example 2))\<lparr>rr_active := False\<rparr>]"
    using a(2) unfolding q(4) states by (simp add: store_states_def)
  then have r: "readresp qp' 1 = advanced 4 (readresp read_example 1)" "readresp qp' 2 = (advanced 0 (readresp read_example 2))\<lparr>rr_active := False\<rparr>"
    using p(4) by simp_all
  then have f: "rr_active (readresp qp' 1)" "rr_msg_size (readresp qp' 1) = 2" "rr_vaddr (readresp qp' 1) = 104" "\<not> rr_active (readresp qp' 2)"
    by (simp_all add: advanced_def store)
  then have "readresp_head_msn qp' = 2" using a(3) by (simp add: q(3))
  then show ?thesis using a(1) f q(3) unfolding q(4) segs by auto
qed

text \<open>
  RDMA READ requests. In an open window \<^verbatim>\<open>do_rdmap_read_request\<close> sends one request message,
  naming the sink buffer, its length, the source tag and the source address, exactly when the
  work request has not been sent yet, fewer than \<^verbatim>\<open>ord_max\<close> requests are outstanding and a
  sequence number is free; otherwise the queue pair is unchanged. The number of outstanding
  requests never exceeds \<^verbatim>\<open>ord_max\<close>.
\<close>

theorem do_rdmap_read_request_sends:
  assumes env: "seg_env D mtu" "42 \<le> pktmbuf_tailroom D tx_ddp_mempool" "open_window base qp"
    and w: "w = send_wqe qp i" "sw_remote_ep w" "16 \<le> length (sw_iov w)" and ord: "ord_active qp \<le> ord_max (shm_qp qp)"
  shows "\<exists>qp'. do_rdmap_read_request D qp i = Some qp' \<and> ord_active qp' \<le> ord_max (shm_qp qp') \<and>
    (if sw_state w = SEND_WQE_TRANSFER \<and> ord_active qp < ord_max (shm_qp qp) \<and> 0 < psn_room qp
     then ord_active qp' = ord_active qp + 1 \<and> sw_state (send_wqe qp' i) = SEND_WQE_WAIT \<and>
       pending base (remote_ep qp') = pending base (remote_ep qp) @ [(Some i, None, rdmap_readreq_bytes
         \<lparr>ddp_flags = DDP_V1_UNTAGGED_LAST_DF, rdmap_info = rdmap_opcode_rdma_read_request OR RDMAP_V1,
          sink_stag = sw_local_stag w, ut_qn = 1, ut_msn = sw_msn w, ut_mo = 0,
          rr_sink_offset = iov_base (iov_at (sw_iov w) 0), rr_read_msg_size = ucast (iov_len (iov_at (sw_iov w) 0)),
          rr_source_stag = sw_rkey w, rr_source_offset = sw_remote_addr w\<rparr>)]
     else qp' = qp)"
proof (cases "sw_state w = SEND_WQE_TRANSFER \<and> ord_active qp < ord_max (shm_qp qp) \<and> 0 < psn_room qp")
  case False
  then have "do_rdmap_read_request D qp i = Some qp"
    using w psn_room_closed [of qp] env(3) by (auto simp: do_rdmap_read_request_def open_window_def)
  then show ?thesis using ord False by (simp only: if_False) blast
next
  case True
  then have nle: "\<not> ord_max (shm_qp qp) \<le> ord_active qp" by (simp add: not_le)
  define qp1 where "qp1 = qp\<lparr>ord_active := ord_active qp + 1\<rparr>"
  have win: "open_window base qp1" "0 < psn_room qp1" "tx_env D"
    using env True by (simp_all add: qp1_def open_window_def psn_room_def tx_ready_def seg_env_def)
  obtain m where m: "rte_pktmbuf_alloc D tx_ddp_mempool (tick qp1) = Some m" "mb_data m = []"
    using env(1) unfolding seg_env_def mbuf_spec_def by (metis option.exhaust)
  define bs where "bs = rdmap_readreq_bytes
         \<lparr>ddp_flags = DDP_V1_UNTAGGED_LAST_DF, rdmap_info = rdmap_opcode_rdma_read_request OR RDMAP_V1,
          sink_stag = sw_local_stag w, ut_qn = 1, ut_msn = sw_msn w, ut_mo = 0,
          rr_sink_offset = iov_base (iov_at (sw_iov w) 0), rr_read_msg_size = ucast (iov_len (iov_at (sw_iov w) 0)),
          rr_source_stag = sw_rkey w, rr_source_offset = sw_remote_addr w\<rparr>"
  obtain qp' where q: "send_ddp_segment D (ticked qp1) (m\<lparr>mb_data := bs\<rparr>) None (Some i) 0 = Some (send_next_psn (remote_ep qp1), qp')"
    "tx_changed qp1 qp'" "pending base (remote_ep qp') = pending base (remote_ep qp1) @ [(Some i, None, bs)]"
    using open_window_send [OF win(3,1,2), of "m\<lparr>mb_data := bs\<rparr>" None "Some i" 0] by auto
  have "do_rdmap_read_request D qp i = Some (upd_send_wqe i (\<lambda>w. w\<lparr>sw_state := SEND_WQE_WAIT\<rparr>) qp')"
    using True w m q(1) env(2,3) psn_room_closed [of qp] nle
    by (simp add: do_rdmap_read_request_def Let_def qp1_def [symmetric] room_for_def assert_c_def bs_def open_window_def)
      (simp add: qp1_def)
  moreover have "ord_active qp + 1 \<le> ord_max (shm_qp qp)" using True by (simp add: inc_le)
  ultimately show ?thesis using True q(3) tx_changed_same(1,12) [OF q(2)]
    by (intro exI [of _ "upd_send_wqe i (\<lambda>w. w\<lparr>sw_state := SEND_WQE_WAIT\<rparr>) qp'"])
      (simp add: qp1_def bs_def upd_send_wqe_def)
qed

theorem do_rdmap_read_request_sends_example:
  "\<exists>qp'. do_rdmap_read_request example_env example_qp 0 = Some qp' \<and> ord_active qp' = 1 \<and>
     sw_state (send_wqe qp' 0) = SEND_WQE_WAIT"
proof -
  have p: "42 \<le> pktmbuf_tailroom example_env tx_ddp_mempool" "sw_remote_ep (send_wqe example_qp 0)"
    "16 \<le> length (sw_iov (send_wqe example_qp 0))" "ord_active example_qp \<le> ord_max (shm_qp example_qp)"
    by (simp_all add: example_env_def example_qp_def example_shm_def example_send_wqe_def two_segments_def)
  have "sw_state (send_wqe example_qp 0) = SEND_WQE_TRANSFER" "ord_active example_qp = 0" "ord_max (shm_qp example_qp) = 4"
    "psn_room example_qp = 8"
    by (simp_all add: example_qp_def example_shm_def example_send_wqe_def psn_room_def example_ep_def)
  then show ?thesis
    using do_rdmap_read_request_sends [OF example_seg_env p(1) example_open_window refl p(2-4)] by auto
qed

text \<open>
  A TERMINATE message is sent without looking at the window: when every slot of the window
  is taken, \<^verbatim>\<open>do_rdmap_terminate\<close> runs into the assertion of \<^verbatim>\<open>send_ddp_segment\<close> and does not
  return, whatever the error is.
\<close>

lemma do_rdmap_terminate_full_window:
  assumes "tx_window base (remote_ep qp)" "unat (send_next_psn (remote_ep qp) - base) = tx_pending_size (remote_ep qp)"
  shows "do_rdmap_terminate D qp orig err = None"
proof -
  have "tx_pending_entry (ep\<lparr>send_next_psn := v\<rparr>) p = tx_pending_entry ep p" for ep :: "'a ee_state" and v p
    by (simp add: tx_pending_entry_def)
  then have "send_ddp_segment D (ticked qp) m None None 0 = None" for m
    using tx_window_full [OF assms] by (simp add: send_ddp_segment_def Let_def assert_c_def)
  then show ?thesis
    by (simp add: do_rdmap_terminate_def Let_def split: Option.bind_splits)
qed

definition full_example :: "(nat list \<times> nat) usiw_qp" where
  "full_example = map_ep (\<lambda>ep. ep\<lparr>tx_pending := map (\<lambda>j. Mbuf (pending_mbuf (of_nat j))) [0..<8], send_next_psn := 8\<rparr>) example_qp"

lemma do_rdmap_terminate_full_window_example:
  "do_rdmap_terminate example_env full_example None rdmap_error_remote_stream_catastrophic = None"
proof (rule do_rdmap_terminate_full_window [of 0])
  show "unat (send_next_psn (remote_ep full_example) - 0) = tx_pending_size (remote_ep full_example)"
    by (simp add: full_example_def example_qp_def example_ep_def)
  show "tx_window 0 (remote_ep full_example)"
    unfolding tx_window_def
  proof (intro conjI)
    show "\<exists>k \<le> 31. tx_pending_size (remote_ep full_example) = 2 ^ k"
      by (intro exI [of _ 3]) (simp add: full_example_def example_qp_def example_ep_def)
  qed (simp_all add: full_example_def example_qp_def example_ep_def window_slot_def pending_mbuf_def)
qed

text \<open>
  The header that a TERMINATE message for a DDP error carries is cut off: behind the two
  bytes of the segment length only the first 12 bytes of a tagged header, or 16 of an untagged
  one, are part of the message, although the \<^verbatim>\<open>hdrct\<close> field announces the whole header.
\<close>

lemma do_rdmap_terminate_truncates:
  assumes "seg_env D mtu" "64 \<le> pktmbuf_tailroom D tx_ddp_mempool" "open_window base qp" "0 < psn_room qp"
    and "rdmap_errno_code err AND 0xff00 \<in> {0x1000, 0x1100, 0x1200}"
    and "h = (if DDP_GET_T (ctx_rdmap orig 0) \<noteq> 0 then 14 else 18)"
  shows "\<exists>qp'. do_rdmap_terminate D qp (Some orig) err = Some qp' \<and>
    pending base (remote_ep qp') = pending base (remote_ep qp) @ [(None, None, rdmap_terminate_bytes
      \<lparr>ddp_flags = DDP_V1_UNTAGGED_LAST_DF, rdmap_info = rdmap_opcode_terminate OR RDMAP_V1, sink_stag = 0,
       ut_qn = 2, ut_msn = 1, ut_mo = 0, tm_error_code = rdmap_errno_code err,
       tm_hdrct = rdmap_hdrct_m OR rdmap_hdrct_d, tm_reserved = 0\<rparr>
      @ put_be 2 (ctx_ddp_seg_length orig) @ map (ctx_rdmap orig) [0..<h - 2])]"
proof -
  define bs where "bs = rdmap_terminate_bytes
      \<lparr>ddp_flags = DDP_V1_UNTAGGED_LAST_DF, rdmap_info = rdmap_opcode_terminate OR RDMAP_V1, sink_stag = 0,
       ut_qn = 2, ut_msn = 1, ut_mo = 0, tm_error_code = rdmap_errno_code err,
       tm_hdrct = rdmap_hdrct_m OR rdmap_hdrct_d, tm_reserved = 0\<rparr>
      @ put_be 2 (ctx_ddp_seg_length orig) @ map (ctx_rdmap orig) [0..<h - 2]"
  have tx: "tx_env D" using assms(1) by (simp add: seg_env_def)
  obtain m where m: "rte_pktmbuf_alloc D tx_ddp_mempool (tick qp) = Some m" "mb_data m = []"
    using assms(1) unfolding seg_env_def mbuf_spec_def by (metis option.exhaust)
  have "terminate_append_ddp_header D orig =
      Some (rdmap_hdrct_m OR rdmap_hdrct_d, put_be 2 (ctx_ddp_seg_length orig) @ map (ctx_rdmap orig) [0..<h - 2])"
    using assms(2) by (simp add: terminate_append_ddp_header_def Let_def room_for_def assert_c_def assms(6) take_map)
  then have "terminate_payload D (Some orig) err =
      Some (rdmap_hdrct_m OR rdmap_hdrct_d, put_be 2 (ctx_ddp_seg_length orig) @ map (ctx_rdmap orig) [0..<h - 2])"
    using assms(5) by (auto simp: terminate_payload_def Let_def)
  then have "do_rdmap_terminate D qp (Some orig) err =
      (send_ddp_segment D (ticked qp) (m\<lparr>mb_data := bs\<rparr>) None None 0 \<bind> (\<lambda>(_, qp). Some qp))"
    using assms(2) m by (simp add: do_rdmap_terminate_def Let_def room_for_def assert_c_def bs_def)
  then show ?thesis
    using open_window_send [OF tx assms(3,4), of "m\<lparr>mb_data := bs\<rparr>" None None 0] by (auto simp: bs_def)
qed

lemma do_rdmap_terminate_truncates_example:
  "\<exists>qp'. do_rdmap_terminate example_env example_qp (Some \<lparr>ctx_ddp_seg_length = 30, ctx_rdmap = \<lambda>k. of_nat k + 0x81, ctx_psn = 0\<rparr>)
      ddp_error_tagged_stag_invalid = Some qp' \<and>
     length (snd (snd (last (pending 0 (remote_ep qp'))))) = 22 + 2 + 12"
proof -
  have p: "64 \<le> pktmbuf_tailroom example_env tx_ddp_mempool" "0 < psn_room example_qp"
    "rdmap_errno_code ddp_error_tagged_stag_invalid AND 0xff00 \<in> {0x1000, 0x1100, 0x1200}"
    by (simp_all add: example_env_def example_qp_def psn_room_def example_ep_def)
  have t: "DDP_GET_T (0 + 0x81) \<noteq> 0" by (simp add: ddp_macros)
  then show ?thesis
    using do_rdmap_terminate_truncates [OF example_seg_env p(1) example_open_window p(2,3) refl,
      of "\<lparr>ctx_ddp_seg_length = 30, ctx_rdmap = \<lambda>k. of_nat k + 0x81, ctx_psn = 0\<rparr>"] by auto
qed

end
