(* ===== verification/Trp_Ack.thy ===== *)
theory Trp_Ack
  imports Rdmap_Send
begin

text \<open>
  The sender's side of reliability (\<^verbatim>\<open>liburdma/interface.c\<close>): acknowledgements and the completion
  of work requests, selective acknowledgements, and the sweep over the pending datagrams that
  frees the acknowledged ones and retransmits the others.
\<close>

section \<open>Completion in order\<close>

text \<open>The result of \<^verbatim>\<open>post_send_cqe\<close> is not looked at.\<close>

definition try_complete_wqe :: "'r dpdk \<Rightarrow> 'r usiw_qp \<Rightarrow> nat \<Rightarrow> 'r usiw_qp option" where
  "try_complete_wqe D qp wqe =
     (case sq_active (sq qp) of
        [] \<Rightarrow> Some qp
      | first # _ \<Rightarrow>
          if wqe \<noteq> first then Some qp
          else do {
            qp \<leftarrow> (if sw_flags (send_wqe qp wqe) AND usiw_send_signaled \<noteq> 0
                   then map_option snd (post_send_cqe D qp wqe IBV_WC_SUCCESS)
                   else qp_free_send_wqe D qp wqe True);
            if sw_opcode (send_wqe qp wqe) = usiw_wr_read then do {
              assert_c (ord_active qp > 0);
              Some (qp\<lparr>ord_active := ord_active qp - 1\<rparr>)
            }
            else Some qp
          })"

definition find_first_rdma_read :: "'r usiw_qp \<Rightarrow> nat option" where
  "find_first_rdma_read qp = find (\<lambda>i. sw_opcode (send_wqe qp i) = usiw_wr_read) (sq_active (sq qp))"

section \<open>Acknowledgements\<close>

definition do_process_ack :: "'r dpdk \<Rightarrow> 'r usiw_qp \<Rightarrow> nat \<Rightarrow> tx_mbuf \<Rightarrow> 'r usiw_qp option" where
  "do_process_ack D qp wqe m = do {
     let qp = upd_send_wqe wqe (\<lambda>w. w\<lparr>sw_bytes_acked := sw_bytes_acked w + ucast (ddp_length m)\<rparr>) qp;
     let w = send_wqe qp wqe;
     assert_c (sw_bytes_acked w \<le> sw_bytes_sent w);
     if sw_opcode w \<noteq> usiw_wr_read \<and> sw_bytes_acked w = sw_total_length w then do {
       assert_c (sw_state w = SEND_WQE_WAIT);
       let qp = upd_send_wqe wqe (\<lambda>w. w\<lparr>sw_state := SEND_WQE_COMPLETE\<rparr>) qp;
       try_complete_wqe D qp wqe
     }
     else Some qp
   }"

section \<open>Selective acknowledgements\<close>

text \<open>
  The code takes the address behind the array slot, not behind the mbuf the slot points to, for
  the \<^verbatim>\<open>pending_datagram_info\<close>. With the layout of that structure on a 64-bit little-endian machine
  its \<^verbatim>\<open>next_retransmit\<close> is the next slot of the array, and its \<^verbatim>\<open>psn\<close> is the lower half of the
  fifth slot that follows. Reading beyond the array does not return.
\<close>

fun slot_bits :: "tx_slot \<Rightarrow> u64" where
  "slot_bits Null = 0"
| "slot_bits (Mbuf m) = mb_addr m"
| "slot_bits (Wild a) = a"

definition maybe_sack_pending :: "'r ee_state \<Rightarrow> nat \<Rightarrow> u32 \<Rightarrow> u32 \<Rightarrow> 'r ee_state option" where
  "maybe_sack_pending ep i lo hi = do {
     assert_c (i + 5 < length (tx_pending ep));
     let psn = ucast (slot_bits (tx_pending ep ! (i + 5)));
     Some (if (lo = psn \<or> serial_less_32 lo psn) \<and> serial_less_32 psn hi
           then set_slot (i + 1) (Wild (- 1)) ep else ep)
   }"

definition next_slot :: "'r ee_state \<Rightarrow> nat \<Rightarrow> nat" where
  "next_slot ep i = (if Suc i = tx_pending_size ep then 0 else Suc i)"

text \<open>
  \<open>n\<close> counts the slots not yet visited; the pointer is back at the start when it reaches zero.
\<close>

fun process_trp_sack_loop :: "nat \<Rightarrow> 'r ee_state \<Rightarrow> nat \<Rightarrow> u32 \<Rightarrow> u32 \<Rightarrow> 'r ee_state option" where
  "process_trp_sack_loop 0 ep i lo hi = Some ep"
| "process_trp_sack_loop (Suc n) ep i lo hi = do {
     ep \<leftarrow> maybe_sack_pending ep i lo hi;
     let i = next_slot ep i;
     assert_c (i < length (tx_pending ep));
     if tx_pending ep ! i = Null then Some ep
     else process_trp_sack_loop n ep i lo hi
   }"

definition process_trp_sack :: "'r ee_state \<Rightarrow> u32 \<Rightarrow> u32 \<Rightarrow> 'r ee_state option" where
  "process_trp_sack ep lo hi = do {
     assert_c (tx_head ep < length (tx_pending ep));
     if tx_pending ep ! tx_head ep = Null then Some ep
     else process_trp_sack_loop (tx_pending_size ep) ep (tx_head ep) lo hi
   }"

section \<open>The sweep\<close>

definition clear_head :: "'r ee_state \<Rightarrow> 'r ee_state" where
  "clear_head ep = (set_slot (tx_head ep) Null ep)\<lparr>tx_head := next_slot ep (tx_head ep)\<rparr>"

text \<open>
  The first loop, over the acknowledged datagrams. \<open>n\<close> is the number of slots not yet visited,
  \<^verbatim>\<open>tx_pending_size - count\<close>; it is handed over to the second loop.
\<close>

fun sweep_acked :: "'r dpdk \<Rightarrow> nat \<Rightarrow> 'r usiw_qp \<Rightarrow> (nat \<times> 'r usiw_qp) option" where
  "sweep_acked D 0 qp = Some (0, qp)"
| "sweep_acked D (Suc n) qp = do {
     assert_c (tx_head (remote_ep qp) < length (tx_pending (remote_ep qp)));
     case tx_pending (remote_ep qp) ! tx_head (remote_ep qp) of
       Null \<Rightarrow> Some (Suc n, qp)
     | Wild _ \<Rightarrow> None
     | Mbuf m \<Rightarrow>
         if serial_less_32 (pd_psn m) (send_last_acked_psn (remote_ep qp)) then do {
           qp \<leftarrow> (case pd_wqe m of None \<Rightarrow> Some qp | Some wqe \<Rightarrow> do_process_ack D qp wqe m);
           sweep_acked D n (map_ep clear_head qp)
         }
         else Some (Suc n, qp)
   }"

text \<open>What happens to a datagram that could not be sent again.\<close>

definition retransmit_failed :: "'r dpdk \<Rightarrow> 'r usiw_qp \<Rightarrow> nat \<Rightarrow> tx_mbuf \<Rightarrow> ret \<Rightarrow> 'r usiw_qp option" where
  "retransmit_failed D qp p m ret = do {
     let cstatus = (if ret = Neg EIO then IBV_WC_RETRY_EXC_ERR else IBV_WC_FATAL_ERR);
     qp \<leftarrow> (case pd_wqe m of None \<Rightarrow> Some qp | Some wqe \<Rightarrow> map_option snd (post_send_cqe D qp wqe cstatus));
     let qp = set_conn_state usiw_qp_error qp;
     if p = tx_head (remote_ep qp) then Some (map_ep clear_head qp)
     else do {
       m \<leftarrow> slot_mbuf (remote_ep qp) p;
       Some (map_ep (set_slot p (Mbuf (m\<lparr>next_retransmit := - 1\<rparr>))) qp)
     }
   }"

fun sweep_retransmit :: "'r dpdk \<Rightarrow> u64 \<Rightarrow> nat \<Rightarrow> nat \<Rightarrow> 'r usiw_qp \<Rightarrow> 'r usiw_qp option" where
  "sweep_retransmit D now 0 p qp = Some qp"
| "sweep_retransmit D now (Suc n) p qp = do {
     assert_c (p < length (tx_pending (remote_ep qp)));
     case tx_pending (remote_ep qp) ! p of
       Null \<Rightarrow> Some qp
     | Wild _ \<Rightarrow> None
     | Mbuf m \<Rightarrow> do {
         qp \<leftarrow> (if next_retransmit m < now then do {
                  (ret, qp) \<leftarrow> resend_ddp_segment D qp p;
                  if is_neg ret then retransmit_failed D qp p m ret else Some qp
                }
                else Some qp);
         sweep_retransmit D now n (next_slot (remote_ep qp) p) qp
       }
   }"

definition sweep_unacked_packets :: "'r dpdk \<Rightarrow> 'r usiw_qp \<Rightarrow> u64 \<Rightarrow> 'r usiw_qp option" where
  "sweep_unacked_packets D qp now = do {
     let ep = remote_ep qp;
     assert_c (tx_head ep < length (tx_pending ep));
     if tx_pending ep ! tx_head ep = Null then Some qp
     else do {
       (n, qp) \<leftarrow> sweep_acked D (tx_pending_size ep) qp;
       sweep_retransmit D now n (tx_head (remote_ep qp)) qp
     }
   }"

section \<open>The sweep frees the acknowledged datagrams\<close>

text \<open>The datagrams of the window in the order of their sequence numbers.\<close>

definition wslot :: "u32 \<Rightarrow> 'r ee_state \<Rightarrow> nat \<Rightarrow> tx_slot" where
  "wslot base ep j = tx_pending ep ! ((unat base + j) mod tx_pending_size ep)"

fun slot_content :: "tx_slot \<Rightarrow> tx_mbuf option" where
  "slot_content (Mbuf m) = Some m"
| "slot_content _ = None"

definition window_mbufs :: "u32 \<Rightarrow> 'r ee_state \<Rightarrow> tx_mbuf list" where
  "window_mbufs base ep = map (\<lambda>j. the (slot_content (wslot base ep j))) [0..<unat (send_next_psn ep - base)]"

text \<open>What an acknowledged datagram does to the work requests.\<close>

definition ack_wqe :: "tx_mbuf \<Rightarrow> usiw_send_wqe \<Rightarrow> usiw_send_wqe" where
  "ack_wqe m w = (let w = w\<lparr>sw_bytes_acked := sw_bytes_acked w + ucast (ddp_length m)\<rparr>
     in if sw_opcode w \<noteq> usiw_wr_read \<and> sw_bytes_acked w = sw_total_length w
        then w\<lparr>sw_state := SEND_WQE_COMPLETE\<rparr> else w)"

definition ack_storage :: "tx_mbuf \<Rightarrow> (nat \<Rightarrow> usiw_send_wqe) \<Rightarrow> (nat \<Rightarrow> usiw_send_wqe)" where
  "ack_storage m st = (case pd_wqe m of None \<Rightarrow> st | Some i \<Rightarrow> st(i := ack_wqe m (st i)))"

text \<open>
  \<open>accounted ms act w i\<close>: the datagrams \<open>ms\<close> hold exactly the bytes of request \<open>i\<close>, whose state
  is \<open>w\<close>, that have been sent and not yet acknowledged.
\<close>

definition accounted :: "tx_mbuf list \<Rightarrow> nat list \<Rightarrow> usiw_send_wqe \<Rightarrow> nat \<Rightarrow> bool" where
  "accounted ms act w i \<longleftrightarrow> (let own = filter (\<lambda>m. pd_wqe m = Some i) ms in
     own \<noteq> [] \<longrightarrow> i \<in> set act \<and> unat (sw_bytes_acked w) + sum_list (map (\<lambda>m. unat (ddp_length m)) own) = unat (sw_bytes_sent w) \<and>
       sw_bytes_sent w \<le> sw_total_length w \<and>
       (sw_opcode w \<noteq> usiw_wr_read \<longrightarrow> (\<forall>m \<in> set own. 0 < ddp_length m) \<and>
          (sw_bytes_sent w = sw_total_length w \<longrightarrow> sw_state w = SEND_WQE_WAIT)))"

definition acks_ok :: "tx_mbuf list \<Rightarrow> 'r usiw_qp \<Rightarrow> bool" where
  "acks_ok ms qp \<longleftrightarrow> (\<forall>i. accounted ms (sq_active (sq qp)) (send_wqe qp i) i)"

text \<open>The SEND and RDMA WRITE requests whose last byte the datagrams \<open>ms\<close> acknowledge, in order.\<close>

fun finished_wqes :: "tx_mbuf list \<Rightarrow> (nat \<Rightarrow> usiw_send_wqe) \<Rightarrow> nat list" where
  "finished_wqes [] st = []"
| "finished_wqes (m # ms) st =
     (case pd_wqe m of None \<Rightarrow> []
      | Some i \<Rightarrow> if sw_opcode (st i) \<noteq> usiw_wr_read \<and> sw_bytes_acked (st i) + ucast (ddp_length m) = sw_total_length (st i)
                 then [i] else []) @ finished_wqes ms (ack_storage m st)"

text \<open>
  Completion in the order of the active list \<open>act\<close>: of the finished requests, each that is at the
  front when its turn comes is retired, provided the completion queue has room for its entry if
  it wants one. The result is the list of the retired requests and the new active list.
\<close>

fun complete_in_order :: "(nat \<Rightarrow> bool) \<Rightarrow> nat list \<Rightarrow> nat \<Rightarrow> nat list \<Rightarrow> nat list \<times> nat list" where
  "complete_in_order signaled act room [] = ([], act)"
| "complete_in_order signaled act room (i # is) =
     (if act \<noteq> [] \<and> hd act = i \<and> (signaled i \<longrightarrow> 0 < room)
      then let (done, rest) = complete_in_order signaled (tl act) (if signaled i then room - 1 else room) is in (i # done, rest)
      else complete_in_order signaled act room is)"

definition wants_cqe :: "'r usiw_qp \<Rightarrow> nat \<Rightarrow> bool" where
  "wants_cqe qp i \<longleftrightarrow> sw_flags (send_wqe qp i) AND usiw_send_signaled \<noteq> 0"

definition cq_room :: "('r \<Rightarrow> nat list) \<Rightarrow> 'r usiw_qp \<Rightarrow> nat" where
  "cq_room q qp = length (q (cq_free_ring (cqs qp (send_cq qp))))"

text \<open>
  \<open>completes q fin qp qp'\<close>: from \<open>qp\<close> to \<open>qp'\<close> the finished requests \<open>fin\<close> are completed in order. The
  retired ones move from the active list to the free ring, and exactly those that want it have
  a successful completion appended to the completion queue.
\<close>

definition completes :: "('r \<Rightarrow> nat list) \<Rightarrow> nat list \<Rightarrow> 'r usiw_qp \<Rightarrow> 'r usiw_qp \<Rightarrow> bool" where
  "completes q fin qp qp' \<longleftrightarrow>
     (case complete_in_order (wants_cqe qp) (sq_active (sq qp)) (cq_room q qp) fin of (done, rest) \<Rightarrow>
        sq_active (sq qp') = rest \<and> q (sq_free_ring (sq qp')) = q (sq_free_ring (sq qp)) @ done \<and>
        (\<exists>wcs. cq_view q (cqs qp' (send_cq qp)) = cq_view q (cqs qp (send_cq qp)) @ wcs \<and>
           list_all2 (flushed_send qp IBV_WC_SUCCESS) (filter (wants_cqe qp) done) wcs) \<and>
        cq_room q qp' + length (filter (wants_cqe qp) done) = cq_room q qp \<and>
        send_cq qp' = send_cq qp \<and> qp_num qp' = qp_num qp)"

lemma pending_wslot: "pending base ep = map (\<lambda>j. slot_segment (wslot base ep j)) [0..<unat (send_next_psn ep - base)]"
  by (simp add: pending_def wslot_def)

lemma clear_head_same [simp]:
  "tx_pending_size (clear_head ep) = tx_pending_size ep" "send_next_psn (clear_head ep) = send_next_psn ep"
  "send_last_acked_psn (clear_head ep) = send_last_acked_psn ep" "length (tx_pending (clear_head ep)) = length (tx_pending ep)"
  "tx_head (clear_head ep) = next_slot ep (tx_head ep)"
  by (simp_all add: clear_head_def set_slot_def)

lemma clear_head_wslot:
  assumes "tx_pending_size ep = 2 ^ k" "k \<le> 31" "length (tx_pending ep) = 2 ^ k" "tx_head ep = unat base mod 2 ^ k" "j < 2 ^ k"
  shows "wslot (base + 1) (clear_head ep) j = (if Suc j = 2 ^ k then Null else wslot base ep (Suc j))"
    and "next_slot ep (tx_head ep) = unat (base + 1) mod 2 ^ k"
proof -
  have one: "unat (base + 1) mod 2 ^ k = (unat base + 1) mod 2 ^ k"
    using unat_add_of_nat_mod [of k base 1] assms(2) by simp
  have "(unat (base + 1) + j) mod 2 ^ k = (unat base + 1 + j) mod 2 ^ k"
    using one by (metis mod_add_left_eq)
  then have shift: "(unat (base + 1) + j) mod 2 ^ k = (unat base + Suc j) mod 2 ^ k" by simp
  show "next_slot ep (tx_head ep) = unat (base + 1) mod 2 ^ k"
    unfolding next_slot_def assms(1,4) one by (metis Suc_eq_plus1 mod_Suc)
  have "(unat base + Suc j) mod 2 ^ k = unat base mod 2 ^ k" if "Suc j = 2 ^ k"
    unfolding that by (rule mod_add_self2)
  moreover have "unat base mod 2 ^ k \<noteq> (unat base + Suc j) mod 2 ^ k" if "Suc j < 2 ^ k"
    using mod_window_inj [of "unat base" 0 "2 ^ k" "Suc j"] that by auto
  moreover have "unat base mod 2 ^ k < length (tx_pending ep)" using assms(3) by simp
  ultimately show "wslot (base + 1) (clear_head ep) j = (if Suc j = 2 ^ k then Null else wslot base ep (Suc j))"
    using assms(5) unfolding wslot_def clear_head_same assms(1) shift
    by (auto simp: clear_head_def set_slot_def assms(4) simp del: add_Suc_right)
qed

lemma tx_window_wslot:
  "tx_window base ep \<longleftrightarrow> (\<exists>k \<le> 31. tx_pending_size ep = 2 ^ k) \<and> length (tx_pending ep) = tx_pending_size ep \<and>
     tx_head ep = unat base mod tx_pending_size ep \<and> unat (send_next_psn ep - base) \<le> tx_pending_size ep \<and>
     (\<forall>j < tx_pending_size ep. window_slot base (send_next_psn ep) j (wslot base ep j))"
  by (simp add: tx_window_def wslot_def)

lemma clear_head_window:
  assumes w: "tx_window base ep" and u: "send_next_psn ep \<noteq> base"
  obtains m where "tx_head ep < length (tx_pending ep)" "tx_pending ep ! tx_head ep = Mbuf m" "pd_psn m = base"
    "tx_window (base + 1) (clear_head ep)"
    "window_mbufs base ep = m # window_mbufs (base + 1) (clear_head ep)"
    "pending base ep = slot_segment (Mbuf m) # pending (base + 1) (clear_head ep)"
proof -
  define v where "v = unat (send_next_psn ep - (base + 1))"
  obtain k where k: "k \<le> 31" "tx_pending_size ep = 2 ^ k" using w by (auto simp: tx_window_def)
  have ep: "length (tx_pending ep) = 2 ^ k" "tx_head ep = unat base mod 2 ^ k"
    using w k(2) by (auto simp: tx_window_def)
  have slots: "window_slot base (send_next_psn ep) j (wslot base ep j)" if "j < 2 ^ k" for j
    using w that k(2) by (simp add: tx_window_wslot)
  have v: "unat (send_next_psn ep - base) = Suc v"
    using Suc_unat_minus_one [of "send_next_psn ep - base"] u by (simp add: v_def algebra_simps)
  have v_le: "Suc v \<le> 2 ^ k" using w k v by (simp add: tx_window_def)
  note next_w = clear_head_wslot [OF k(2,1) ep]
  obtain m where m: "wslot base ep 0 = Mbuf m" "pd_psn m = base"
    using slots [of 0] v by (auto simp: window_slot_def split: tx_slot.splits)
  have "window_slot (base + 1) (send_next_psn ep) j (wslot (base + 1) (clear_head ep) j)" if j: "j < 2 ^ k" for j
  proof (cases "Suc j = 2 ^ k")
    case True
    then show ?thesis using v_le next_w(1) [OF j] by (simp add: window_slot_def v_def)
  next
    case False
    then have "Suc j < 2 ^ k" using j by simp
    from slots [OF this] show ?thesis using False next_w(1) [OF j] v
      by (auto simp: window_slot_def v_def [symmetric] add.assoc split: tx_slot.splits)
  qed
  then have window: "tx_window (base + 1) (clear_head ep)"
    using k ep v_le next_w(2) [of 0] by (auto simp: tx_window_wslot v_def [symmetric])
  have upt: "[0..<Suc v] = 0 # map Suc [0..<v]" by (simp add: map_Suc_upt upt_conv_Cons)
  have eq: "wslot (base + 1) (clear_head ep) j = wslot base ep (Suc j)" if "j < v" for j
    using next_w(1) [of j] that v_le by simp
  have "window_mbufs base ep = m # window_mbufs (base + 1) (clear_head ep)"
    "pending base ep = slot_segment (Mbuf m) # pending (base + 1) (clear_head ep)"
    unfolding window_mbufs_def pending_wslot clear_head_same v v_def [symmetric] upt using eq m(1) by auto
  then show thesis using that [OF _ _ m(2) window] m(1) ep k(2) by (simp add: wslot_def)
qed

lemma upd_send_wqe_send_wqe [simp]:
  "sq_storage (sq (upd_send_wqe i f qp)) = (sq_storage (sq qp))(i := f (send_wqe qp i))" "sq_active (sq (upd_send_wqe i f qp)) = sq_active (sq qp)"
  by (simp_all add: upd_send_wqe_def)

lemma qp_ok_upd_send_wqe [simp]: "qp_ok q cap (upd_send_wqe i f qp) = qp_ok q cap qp"
  by (simp add: qp_ok_def upd_send_wqe_def sq_ok_def sq_entries_def)

lemma qp_ok_map_ep [simp]: "qp_ok q cap (qp\<lparr>remote_ep := ep\<rparr>) = qp_ok q cap qp"
  by (simp add: qp_ok_def)

lemma complete_in_order_append:
  "complete_in_order sg act room (xs @ ys) =
     (case complete_in_order sg act room xs of (done, rest) \<Rightarrow>
        case complete_in_order sg rest (room - length (filter sg done)) ys of (done', rest') \<Rightarrow> (done @ done', rest'))"
  by (induction xs arbitrary: act room) (auto simp: Let_def split: prod.splits)

lemma completes_nil:
  assumes "sq_active (sq qp') = sq_active (sq qp)" "sq_free_ring (sq qp') = sq_free_ring (sq qp)"
    and "cqs qp' = cqs qp" "send_cq qp' = send_cq qp" "qp_num qp' = qp_num qp"
  shows "completes q [] qp qp'"
  using assms by (simp add: completes_def cq_room_def)

lemma completes_append:
  assumes "completes q xs qp qp1" "completes q ys qp1 qp2"
    and "\<And>i. wants_cqe qp1 i = wants_cqe qp i" "\<And>i. sw_wr_context (send_wqe qp1 i) = sw_wr_context (send_wqe qp i)"
      "\<And>i. sw_opcode (send_wqe qp1 i) = sw_opcode (send_wqe qp i)"
  shows "completes q (xs @ ys) qp qp2"
proof -
  have w: "wants_cqe qp1 = wants_cqe qp" using assms(3) by blast
  obtain done1 rest1 where c1: "complete_in_order (wants_cqe qp) (sq_active (sq qp)) (cq_room q qp) xs = (done1, rest1)"
    by fastforce
  obtain wcs1 where s1: "sq_active (sq qp1) = rest1" "q (sq_free_ring (sq qp1)) = q (sq_free_ring (sq qp)) @ done1"
    "cq_view q (cqs qp1 (send_cq qp)) = cq_view q (cqs qp (send_cq qp)) @ wcs1"
    "list_all2 (flushed_send qp IBV_WC_SUCCESS) (filter (wants_cqe qp) done1) wcs1"
    "cq_room q qp1 + length (filter (wants_cqe qp) done1) = cq_room q qp"
    "send_cq qp1 = send_cq qp" "qp_num qp1 = qp_num qp"
    using assms(1) by (auto simp: completes_def c1)
  have fl: "flushed_send qp1 IBV_WC_SUCCESS = flushed_send qp IBV_WC_SUCCESS"
    by (simp add: fun_eq_iff flushed_send_def assms(4,5) s1(7))
  have room: "cq_room q qp - length (filter (wants_cqe qp) done1) = cq_room q qp1" using s1(5) by linarith
  obtain done2 rest2 where c2: "complete_in_order (wants_cqe qp) rest1 (cq_room q qp1) ys = (done2, rest2)"
    by fastforce
  obtain wcs2 where s2: "sq_active (sq qp2) = rest2" "q (sq_free_ring (sq qp2)) = q (sq_free_ring (sq qp1)) @ done2"
    "cq_view q (cqs qp2 (send_cq qp)) = cq_view q (cqs qp1 (send_cq qp)) @ wcs2"
    "list_all2 (flushed_send qp IBV_WC_SUCCESS) (filter (wants_cqe qp) done2) wcs2"
    "cq_room q qp2 + length (filter (wants_cqe qp) done2) = cq_room q qp1" "send_cq qp2 = send_cq qp" "qp_num qp2 = qp_num qp"
    using assms(2) by (auto simp: completes_def w s1(1,6,7) c2 fl)
  have "list_all2 (flushed_send qp IBV_WC_SUCCESS) (filter (wants_cqe qp) (done1 @ done2)) (wcs1 @ wcs2)"
    using s1(4) s2(4) by (simp add: list_all2_appendI)
  then show ?thesis
    using s1 s2 by (auto simp: completes_def complete_in_order_append c1 c2 room)
qed

lemma try_complete_wqe_total:
  assumes "ring_spec D q cap" "qp_ok q cap qp" "wqe \<in> set (sq_active (sq qp))" "sw_opcode (send_wqe qp wqe) \<noteq> usiw_wr_read"
  shows "\<exists>qp'. try_complete_wqe D qp wqe = Some qp' \<and> qp_ok q cap qp' \<and> remote_ep qp' = remote_ep qp \<and>
    send_wqe qp' = send_wqe qp \<and> completes q [wqe] qp qp'"
proof (cases "sq_active (sq qp)")
  case (Cons first rest)
  consider "wqe \<noteq> first" | "wqe = first" "\<not> wants_cqe qp wqe"
    | "wqe = first" "wants_cqe qp wqe" "q (cq_free_ring (cqs qp (send_cq qp))) = []"
    | "wqe = first" "wants_cqe qp wqe" "q (cq_free_ring (cqs qp (send_cq qp))) \<noteq> []" by blast
  then show ?thesis
  proof cases
    case 1
    then show ?thesis using assms(2) Cons by (simp add: try_complete_wqe_def completes_def cq_room_def)
  next
    case 2
    have sok: "sq_ok q cap (sq qp)" using assms(2) by (simp add: qp_ok_def)
    obtain r where r: "qp_free_send_wqe D qp wqe True =
        Some (qp\<lparr>sq := (sq qp)\<lparr>sq_active := remove1 wqe (sq_active (sq qp)), sq_free_ring := r\<rparr>\<rparr>)"
      "q r = q (sq_free_ring (sq qp)) @ [wqe]" "cap r = cap (sq_free_ring (sq qp))"
      using qp_free_send_wqe_spec [OF assms(1) sok assms(3)] by blast
    have "pool_ok (sq_max_wr (sq qp)) (q r @ q (sq_ring (sq qp)) @ remove1 wqe (sq_active (sq qp)))"
      by (rule pool_ok_perm [of _ "sq_entries q (sq qp)"]) (use assms r in \<open>auto simp: qp_ok_def sq_ok_def sq_entries_def\<close>)
    then have "qp_ok q cap (qp\<lparr>sq := (sq qp)\<lparr>sq_active := remove1 wqe (sq_active (sq qp)), sq_free_ring := r\<rparr>\<rparr>)"
      using assms(2) r(3) by (simp add: qp_ok_def sq_ok_def sq_entries_def)
    then show ?thesis using 2 Cons assms(4) r(1,2) by (simp add: try_complete_wqe_def completes_def cq_room_def wants_cqe_def)
  next
    case 3
    then show ?thesis using assms(2,4) Cons post_send_cqe_empty [OF assms(1) 3(3), of wqe IBV_WC_SUCCESS]
      by (simp add: try_complete_wqe_def completes_def cq_room_def wants_cqe_def)
  next
    case 4
    obtain qp' wc where p: "post_send_cqe D qp wqe IBV_WC_SUCCESS = Some (Ok, qp')" "qp_ok q cap qp'"
      "sq_active (sq qp') = remove1 wqe (sq_active (sq qp))"
      "(sq qp')\<lparr>sq_active := sq_active (sq qp), sq_free_ring := sq_free_ring (sq qp)\<rparr> = sq qp"
      "qp'\<lparr>sq := sq qp, cqs := cqs qp, io := io qp\<rparr> = qp" "cqe_posted q (send_cq qp) wc qp qp'"
      "flushed_send qp IBV_WC_SUCCESS wqe wc" "q (sq_free_ring (sq qp')) = q (sq_free_ring (sq qp)) @ [wqe]"
      by (rule post_send_cqe_spec [OF assms(1-3) 4(3), of IBV_WC_SUCCESS]) (auto simp: flushed_send_def)
    have same: "send_wqe qp' = send_wqe qp" "remote_ep qp' = remote_ep qp" "send_cq qp' = send_cq qp" "qp_num qp' = qp_num qp"
      using arg_cong [OF p(4), of sq_storage] arg_cong [OF p(5), of remote_ep] arg_cong [OF p(5), of send_cq]
        arg_cong [OF p(5), of qp_num] by simp_all
    have "completes q [wqe] qp qp'"
      using 4 Cons p(3,6-8) same by (auto simp: completes_def cq_room_def cqe_posted_def)
    then show ?thesis using 4 Cons assms(4) p(1,2) same by (simp add: try_complete_wqe_def wants_cqe_def)
  qed
qed (use assms in simp)

lemma completes_one:
  assumes "completes q [i] qp qp'"
  shows "sq_active (sq qp') = sq_active (sq qp) \<or> sq_active (sq qp') = remove1 i (sq_active (sq qp))"
  using assms by (cases "sq_active (sq qp)") (auto simp: completes_def Let_def split: if_splits)

lemma ack_bytes_acked:
  assumes "accounted (m # ms) act w i" "pd_wqe m = Some i"
  shows "unat (sw_bytes_acked w + ucast (ddp_length m)) = unat (sw_bytes_acked w) + unat (ddp_length m)"
    and "sw_bytes_acked w + ucast (ddp_length m) \<le> sw_bytes_sent w"
proof -
  have sum: "unat (sw_bytes_acked w) + unat (ddp_length m) \<le> unat (sw_bytes_sent w)"
    using assms by (auto simp: accounted_def Let_def)
  moreover have len: "unat (ucast (ddp_length m) :: u64) = unat (ddp_length m)" by (rule unat_ucast_16)
  moreover have "unat (sw_bytes_sent w) < 2 ^ 64" using unsigned_less [of "sw_bytes_sent w"] by simp
  ultimately show *: "unat (sw_bytes_acked w + ucast (ddp_length m)) = unat (sw_bytes_acked w) + unat (ddp_length m)"
    by (subst unat_add_no_overflow) simp_all
  show "sw_bytes_acked w + ucast (ddp_length m) \<le> sw_bytes_sent w"
    unfolding word_le_nat_alt * by (rule sum)
qed

text \<open>A request that is completed by an acknowledgement has no datagram left in the window.\<close>

lemma ack_last:
  assumes "accounted (m # ms) act w i" "pd_wqe m = Some i" "sw_opcode w \<noteq> usiw_wr_read"
    and "sw_bytes_acked w + ucast (ddp_length m) = sw_total_length w"
  shows "filter (\<lambda>m. pd_wqe m = Some i) ms = []" "sw_state w = SEND_WQE_WAIT"
proof -
  let ?own = "filter (\<lambda>m. pd_wqe m = Some i) ms"
  have a: "unat (sw_bytes_acked w) + unat (ddp_length m) + sum_list (map (\<lambda>m. unat (ddp_length m)) ?own) = unat (sw_bytes_sent w)"
    "sw_bytes_sent w \<le> sw_total_length w" "\<forall>m \<in> set ?own. 0 < ddp_length m"
    "sw_bytes_sent w = sw_total_length w \<longrightarrow> sw_state w = SEND_WQE_WAIT"
    using assms(1-3) by (auto simp: accounted_def Let_def)
  have t: "unat (sw_total_length w) = unat (sw_bytes_acked w) + unat (ddp_length m)"
    using ack_bytes_acked(1) [OF assms(1,2)] assms(4) by simp
  have "unat (sw_bytes_sent w) \<le> unat (sw_total_length w)" using a(2) by (simp add: word_le_nat_alt)
  then have z: "sum_list (map (\<lambda>m. unat (ddp_length m)) ?own) = 0" and e: "unat (sw_bytes_sent w) = unat (sw_total_length w)"
    using a(1) t by linarith+
  show "?own = []"
    using z a(3) by (cases ?own) (auto simp: word_less_nat_alt)
  show "sw_state w = SEND_WQE_WAIT" using a(4) e word_unat_eq_iff by blast
qed

lemma ack_wqe_same [simp]: "sw_bytes_sent (ack_wqe m w) = sw_bytes_sent w" "sw_total_length (ack_wqe m w) = sw_total_length w"
  "sw_opcode (ack_wqe m w) = sw_opcode w" "sw_bytes_acked (ack_wqe m w) = sw_bytes_acked w + ucast (ddp_length m)"
  by (simp_all add: ack_wqe_def Let_def)

lemma ack_step_storage:
  assumes "acks_ok (m # ms) qp" "sq_storage (sq qp') = ack_storage m (sq_storage (sq qp))"
    and "sq_active (sq qp') = sq_active (sq qp) \<or>
      (\<exists>i. pd_wqe m = Some i \<and> filter (\<lambda>m. pd_wqe m = Some i) ms = [] \<and> sq_active (sq qp') = remove1 i (sq_active (sq qp)))"
  shows "acks_ok ms qp'"
  unfolding acks_ok_def
proof
  fix i
  let ?own = "filter (\<lambda>m. pd_wqe m = Some i) ms"
  have acc: "accounted (m # ms) (sq_active (sq qp)) (send_wqe qp i) i" using assms(1) by (simp add: acks_ok_def)
  have act: "i \<in> set (sq_active (sq qp'))" if "?own \<noteq> []" "i \<in> set (sq_active (sq qp))"
    using assms(3) that by (metis in_set_remove1)
  show "accounted ms (sq_active (sq qp')) (send_wqe qp' i) i"
  proof (cases "pd_wqe m = Some i")
    case True
    then have w: "send_wqe qp' i = ack_wqe m (send_wqe qp i)" using assms(2) by (simp add: ack_storage_def)
    have st: "sw_state (ack_wqe m (send_wqe qp i)) = sw_state (send_wqe qp i)" if "?own \<noteq> []"
      using ack_last(1) [OF acc True] that by (auto simp: ack_wqe_def Let_def)
    show ?thesis using acc True act ack_bytes_acked(1) [OF acc True] st unfolding w accounted_def Let_def
      by (auto simp: add.assoc)
  next
    case False
    then have "send_wqe qp' i = send_wqe qp i" using assms(2) by (auto simp: ack_storage_def split: option.splits)
    then show ?thesis using acc False act by (auto simp: accounted_def Let_def)
  qed
qed

lemma ack_storage_ids [simp]: "sw_wr_context (ack_storage m st i) = sw_wr_context (st i)"
  "sw_opcode (ack_storage m st i) = sw_opcode (st i)" "sw_flags (ack_storage m st i) = sw_flags (st i)"
  by (simp_all add: ack_storage_def ack_wqe_def Let_def split: option.splits)

lemma ack_step:
  assumes spec: "ring_spec D q cap" and ok: "qp_ok q cap qp" and acc: "acks_ok (m # ms) qp"
  shows "\<exists>qp'. (case pd_wqe m of None \<Rightarrow> Some qp | Some wqe \<Rightarrow> do_process_ack D qp wqe m) = Some qp' \<and> qp_ok q cap qp' \<and>
    remote_ep qp' = remote_ep qp \<and> sq_storage (sq qp') = ack_storage m (sq_storage (sq qp)) \<and> acks_ok ms qp' \<and>
    completes q (finished_wqes [m] (sq_storage (sq qp))) qp qp'"
proof (cases "pd_wqe m")
  case None
  have "acks_ok ms qp" by (rule ack_step_storage [OF acc]) (simp_all add: ack_storage_def None)
  then show ?thesis using None ok by (simp add: ack_storage_def completes_nil)
next
  case (Some i)
  define w where "w = send_wqe qp i"
  have a: "accounted (m # ms) (sq_active (sq qp)) w i" using acc by (simp add: acks_ok_def w_def)
  have act: "i \<in> set (sq_active (sq qp))" using a Some by (simp add: accounted_def Let_def)
  define qp1 where "qp1 = upd_send_wqe i (\<lambda>w. w\<lparr>sw_bytes_acked := sw_bytes_acked w + ucast (ddp_length m)\<rparr>) qp"
  have le: "sw_bytes_acked (send_wqe qp1 i) \<le> sw_bytes_sent (send_wqe qp1 i)"
    using ack_bytes_acked(2) [OF a Some] by (simp add: qp1_def w_def)
  show ?thesis
  proof (cases "sw_opcode w \<noteq> usiw_wr_read \<and> sw_bytes_acked w + ucast (ddp_length m) = sw_total_length w")
    case True
    note last = ack_last [OF a Some conjunct1 [OF True] conjunct2 [OF True]]
    define qp2 where "qp2 = upd_send_wqe i (\<lambda>w. w\<lparr>sw_state := SEND_WQE_COMPLETE\<rparr>) qp1"
    obtain qp' where qp': "try_complete_wqe D qp2 i = Some qp'" "qp_ok q cap qp'" "remote_ep qp' = remote_ep qp2"
      "send_wqe qp' = send_wqe qp2" "completes q [i] qp2 qp'"
      using try_complete_wqe_total [OF spec, of qp2 i] ok act True by (auto simp: qp2_def qp1_def w_def)
    have st: "sq_storage (sq qp') = ack_storage m (sq_storage (sq qp))"
      using qp'(4) True Some by (simp add: fun_eq_iff ack_storage_def ack_wqe_def qp2_def qp1_def w_def)
    have "acks_ok ms qp'"
      by (rule ack_step_storage [OF acc st]) (use completes_one [OF qp'(5)] Some last(1) in \<open>auto simp: qp2_def qp1_def\<close>)
    moreover have "completes q ([] @ [i]) qp qp'"
      by (rule completes_append [OF completes_nil qp'(5)]) (simp_all add: qp2_def qp1_def wants_cqe_def upd_send_wqe_def)
    then have "completes q (finished_wqes [m] (sq_storage (sq qp))) qp qp'" using Some True by (simp add: w_def)
    moreover have "do_process_ack D qp i m = Some qp'"
      using le last(2) True qp'(1) by (simp add: do_process_ack_def Let_def qp1_def qp2_def w_def)
    ultimately show ?thesis using Some qp' st by (auto simp: qp2_def qp1_def)
  next
    case False
    have st: "sq_storage (sq qp1) = ack_storage m (sq_storage (sq qp))"
      using False Some by (auto simp: fun_eq_iff ack_storage_def ack_wqe_def qp1_def w_def Let_def)
    have "acks_ok ms qp1" by (rule ack_step_storage [OF acc st]) (simp add: qp1_def)
    moreover have "completes q (finished_wqes [m] (sq_storage (sq qp))) qp qp1"
      using Some False completes_nil [of qp1 qp q] by (auto simp: w_def qp1_def upd_send_wqe_def)
    moreover have "do_process_ack D qp i m = Some qp1"
      using le False by (auto simp: do_process_ack_def Let_def qp1_def w_def)
    ultimately show ?thesis using Some st ok by (auto simp: qp1_def)
  qed
qed

lemma acks_ok_map_ep [simp]: "acks_ok ms (qp\<lparr>remote_ep := ep\<rparr>) = acks_ok ms qp"
  by (simp add: acks_ok_def)

lemma acked_psn:
  fixes base a :: u32
  assumes "unat (a - base) < 2 ^ 31"
  shows "serial_less_32 base a \<longleftrightarrow> base \<noteq> a"
  unfolding serial_less_32_distance uint_int_unat int_below_2_31 [OF assms] by (auto simp: unat_gt_0)

lemma tx_window_empty_head:
  assumes "tx_window base ep" "send_next_psn ep = base"
  shows "tx_head ep < length (tx_pending ep)" "tx_pending ep ! tx_head ep = Null"
proof -
  have "0 < tx_pending_size ep" using assms(1) by (auto simp: tx_window_def)
  moreover have "window_slot base base 0 (tx_pending ep ! (unat base mod tx_pending_size ep))"
    using assms calculation unfolding tx_window_def by (metis add.right_neutral)
  ultimately show "tx_head ep < length (tx_pending ep)" "tx_pending ep ! tx_head ep = Null"
    using assms by (auto simp: tx_window_def window_slot_def split: tx_slot.splits)
qed

lemma sweep_acked_correct:
  assumes "ring_spec D q cap" "qp_ok q cap qp" "tx_window base (remote_ep qp)" "acks_ok (window_mbufs base (remote_ep qp)) qp"
    and "k = unat (send_last_acked_psn (remote_ep qp) - base)" "k \<le> unat (send_next_psn (remote_ep qp) - base)" "k \<le> n"
      "unat (send_next_psn (remote_ep qp) - base) < 2 ^ 31"
  shows "\<exists>qp'. sweep_acked D n qp = Some (n - k, qp') \<and> qp_ok q cap qp' \<and>
    tx_window (send_last_acked_psn (remote_ep qp)) (remote_ep qp') \<and>
    pending (send_last_acked_psn (remote_ep qp)) (remote_ep qp') = drop k (pending base (remote_ep qp)) \<and>
    window_mbufs (send_last_acked_psn (remote_ep qp)) (remote_ep qp') = drop k (window_mbufs base (remote_ep qp)) \<and>
    acks_ok (drop k (window_mbufs base (remote_ep qp))) qp' \<and>
    sq_storage (sq qp') = fold ack_storage (take k (window_mbufs base (remote_ep qp))) (sq_storage (sq qp)) \<and>
    completes q (finished_wqes (take k (window_mbufs base (remote_ep qp))) (sq_storage (sq qp))) qp qp'"
  using assms(2-)
proof (induction n arbitrary: base k qp)
  case 0
  then show ?case by (auto simp: unat_eq_0 completes_nil)
next
  case (Suc n)
  define a where "a = send_last_acked_psn (remote_ep qp)"
  note w = Suc.prems(2)
  show ?case
  proof (cases "k = 0")
    case True
    then have a: "send_last_acked_psn (remote_ep qp) = base" using Suc.prems(4) by (simp add: unat_eq_0)
    have "sweep_acked D (Suc n) qp = Some (Suc n, qp)"
    proof (cases "send_next_psn (remote_ep qp) = base")
      case True
      then have "tx_head (remote_ep qp) < length (tx_pending (remote_ep qp))" "tx_pending (remote_ep qp) ! tx_head (remote_ep qp) = Null"
        using tx_window_empty_head [OF w] by auto
      then show ?thesis by simp
    next
      case False
      obtain m where m: "tx_head (remote_ep qp) < length (tx_pending (remote_ep qp))"
        "tx_pending (remote_ep qp) ! tx_head (remote_ep qp) = Mbuf m" "pd_psn m = base"
        using clear_head_window [OF w False] by metis
      have "\<not> serial_less_32 base base" by (simp add: serial_less_32_distance)
      then show ?thesis using m a by simp
    qed
    then show ?thesis using True Suc.prems by (simp add: a completes_nil)
  next
    case False
    then have nb: "send_next_psn (remote_ep qp) \<noteq> base" using Suc.prems(5) by auto
    obtain m where m: "tx_head (remote_ep qp) < length (tx_pending (remote_ep qp))"
      "tx_pending (remote_ep qp) ! tx_head (remote_ep qp) = Mbuf m" "pd_psn m = base"
      "tx_window (base + 1) (clear_head (remote_ep qp))"
      "window_mbufs base (remote_ep qp) = m # window_mbufs (base + 1) (clear_head (remote_ep qp))"
      "pending base (remote_ep qp) = slot_segment (Mbuf m) # pending (base + 1) (clear_head (remote_ep qp))"
      using clear_head_window [OF w nb] by metis
    have "unat (a - base) < 2 ^ 31" using Suc.prems(4,5,7) by (simp add: a_def)
    moreover have "a \<noteq> base" using False Suc.prems(4) by (auto simp: a_def)
    ultimately have "serial_less_32 base a" using acked_psn by metis
    moreover obtain qp1 where q1: "(case pd_wqe m of None \<Rightarrow> Some qp | Some wqe \<Rightarrow> do_process_ack D qp wqe m) = Some qp1"
      "qp_ok q cap qp1" "remote_ep qp1 = remote_ep qp" "sq_storage (sq qp1) = ack_storage m (sq_storage (sq qp))"
      "acks_ok (window_mbufs (base + 1) (clear_head (remote_ep qp))) qp1"
      "completes q (finished_wqes [m] (sq_storage (sq qp))) qp qp1"
      using ack_step [OF assms(1) Suc.prems(1)] Suc.prems(3) m(5) by metis
    ultimately have step: "sweep_acked D (Suc n) qp = sweep_acked D n (map_ep clear_head qp1)"
      using m(1-3) by (simp add: a_def)
    have pred: "Suc (unat (x - (base + 1))) = unat (x - base)" if "x \<noteq> base" for x :: u32
      using Suc_unat_minus_one [of "x - base"] that by (simp add: algebra_simps)
    have "a \<noteq> base" using False Suc.prems(4) by (auto simp: a_def)
    then have k: "k = Suc (unat (a - (base + 1)))" using Suc.prems(4) pred by (simp add: a_def)
    obtain qp' where qp': "sweep_acked D n (map_ep clear_head qp1) = Some (n - unat (a - (base + 1)), qp')" "qp_ok q cap qp'"
      "tx_window a (remote_ep qp')"
      "pending a (remote_ep qp') = drop (unat (a - (base + 1))) (pending (base + 1) (clear_head (remote_ep qp)))"
      "window_mbufs a (remote_ep qp') = drop (unat (a - (base + 1))) (window_mbufs (base + 1) (clear_head (remote_ep qp)))"
      "acks_ok (drop (unat (a - (base + 1))) (window_mbufs (base + 1) (clear_head (remote_ep qp)))) qp'"
      "sq_storage (sq qp') = fold ack_storage (take (unat (a - (base + 1))) (window_mbufs (base + 1) (clear_head (remote_ep qp)))) (sq_storage (sq qp1))"
      "completes q (finished_wqes (take (unat (a - (base + 1))) (window_mbufs (base + 1) (clear_head (remote_ep qp)))) (sq_storage (sq qp1))) (map_ep clear_head qp1) qp'"
      using Suc.IH [of "map_ep clear_head qp1" "base + 1" "unat (a - (base + 1))"] q1 m(4) Suc.prems(5-7) k pred [OF nb]
      by (auto simp: a_def)
    have "completes q (finished_wqes [m] (sq_storage (sq qp)) @ []) qp (map_ep clear_head qp1)"
      by (rule completes_append [OF q1(6) completes_nil]) (simp_all add: wants_cqe_def q1(4))
    from completes_append [OF this qp'(8)] have "completes q (finished_wqes (take k (window_mbufs base (remote_ep qp))) (sq_storage (sq qp))) qp qp'"
      by (simp add: k m(5) q1(4) wants_cqe_def)
    with qp' step show ?thesis unfolding a_def [symmetric] k m(5,6) q1(4) by simp
  qed
qed

lemma tx_window_slot_cases:
  assumes "tx_window base ep" "p < tx_pending_size ep"
  shows "tx_pending ep ! p = Null \<or> (\<exists>m \<in> set (window_mbufs base ep). tx_pending ep ! p = Mbuf m)"
proof -
  let ?n = "tx_pending_size ep"
  define j where "j = (p + (?n - unat base mod ?n)) mod ?n"
  have j: "j < ?n" using assms(2) by (simp add: j_def)
  have "(unat base + j) mod ?n = (unat base mod ?n + (p + (?n - unat base mod ?n))) mod ?n"
    unfolding j_def by (simp add: mod_simps)
  also have "unat base mod ?n + (p + (?n - unat base mod ?n)) = p + ?n"
    using mod_less_divisor [of ?n "unat base"] assms(2) by linarith
  finally have p: "tx_pending ep ! p = wslot base ep j" using assms(2) by (simp add: wslot_def)
  have "window_slot base (send_next_psn ep) j (wslot base ep j)" using assms(1) j by (simp add: tx_window_wslot)
  then show ?thesis unfolding p
    by (cases "wslot base ep j") (auto simp: window_slot_def window_mbufs_def image_iff intro!: bexI [of _ j])
qed

lemma sweep_retransmit_idle:
  assumes "tx_window base (remote_ep qp)" "\<forall>m \<in> set (window_mbufs base (remote_ep qp)). now \<le> next_retransmit m"
    and "p < tx_pending_size (remote_ep qp)"
  shows "sweep_retransmit D now n p qp = Some qp"
  using assms(3)
proof (induction n arbitrary: p)
  case (Suc n)
  have "length (tx_pending (remote_ep qp)) = tx_pending_size (remote_ep qp)" using assms(1) by (simp add: tx_window_def)
  moreover have "next_slot (remote_ep qp) p < tx_pending_size (remote_ep qp)" using Suc.prems by (auto simp: next_slot_def)
  ultimately show ?case using tx_window_slot_cases [OF assms(1) Suc.prems] assms(2) Suc.IH Suc.prems
    by (auto simp: linorder_not_less [symmetric])
qed simp

section \<open>Selective acknowledgements mark nothing\<close>

lemma maybe_sack_pending_slots:
  assumes "maybe_sack_pending ep i lo hi = Some ep'"
  shows "ep' = ep \<or> ep' = set_slot (i + 1) (Wild (- 1)) ep"
  using assms by (auto simp: maybe_sack_pending_def Let_def split: Option.bind_splits if_splits)

definition sack_damage :: "tx_slot list \<Rightarrow> tx_slot list \<Rightarrow> bool" where
  "sack_damage before after = list_all2 (\<lambda>s s'. s' = s \<or> s' = Wild (- 1)) before after"

lemma sack_damage_refl [simp]: "sack_damage xs xs"
  by (simp add: sack_damage_def list_all2_refl)

lemma sack_damage_set:
  assumes "sack_damage xs ys"
  shows "sack_damage xs (ys[i := Wild (- 1)])"
proof -
  have "ys[i := Wild (- 1)] ! j = ys ! j \<or> ys[i := Wild (- 1)] ! j = Wild (- 1)" if "j < length ys" for j
    using that by (cases "i = j") simp_all
  then show ?thesis using assms unfolding sack_damage_def list_all2_conv_all_nth by fastforce
qed

lemma process_trp_sack_loop_damage:
  assumes "process_trp_sack_loop n ep i lo hi = Some ep'" "sack_damage xs (tx_pending ep)"
  shows "sack_damage xs (tx_pending ep') \<and> ep'\<lparr>tx_pending := tx_pending ep\<rparr> = ep"
  using assms
proof (induction n arbitrary: ep i)
  case (Suc n)
  obtain ep1 where ep1: "maybe_sack_pending ep i lo hi = Some ep1"
    using Suc.prems(1) by (auto split: Option.bind_splits)
  have d: "sack_damage xs (tx_pending ep1)" "ep1\<lparr>tx_pending := tx_pending ep\<rparr> = ep"
    using maybe_sack_pending_slots [OF ep1] Suc.prems(2) sack_damage_set by (auto simp: set_slot_def)
  show ?case
  proof (cases "tx_pending ep1 ! next_slot ep1 i = Null")
    case True
    then have "ep' = ep1" using Suc.prems(1) by (simp add: ep1 Let_def split: Option.bind_splits)
    then show ?thesis using d by simp
  next
    case False
    then have "process_trp_sack_loop n ep1 (next_slot ep1 i) lo hi = Some ep'"
      using Suc.prems(1) by (simp add: ep1 Let_def split: Option.bind_splits)
    then have "sack_damage xs (tx_pending ep') \<and> ep'\<lparr>tx_pending := tx_pending ep1\<rparr> = ep1" by (rule Suc.IH [OF _ d(1)])
    then show ?thesis using d(2) by (cases ep; cases ep1; cases ep') simp
  qed
qed simp

section \<open>Properties\<close>

text \<open>
  C6. The sweep over the pending datagrams, when none of them is due for retransmission and the
  acknowledged sequence number lies in the window. It returns, so none of the assertions on the
  acknowledged bytes and on the state of a request fails. Exactly the datagrams before the
  acknowledged sequence number leave the window, which now starts there; the others keep their
  order. Each acknowledged datagram adds its length to the acknowledged bytes of its request, and
  a SEND or RDMA WRITE request reaches the state \<^verbatim>\<open>SEND_WQE_COMPLETE\<close> exactly with the datagram that
  brings this number to the total length. The requests finished in this way are completed in the
  order of the active list: each that is at its front when its last datagram is acknowledged goes
  back to the free ring, with one successful completion appended to the completion queue exactly if
  it is signaled (if it is signaled and the completion queue is full it stays where it is). Every
  work request and completion entry is still in exactly one place, and the remaining datagrams still
  account for the bytes that are sent and not acknowledged.
\<close>

theorem sweep_unacked_packets_acks:
  assumes "ring_spec D q cap" "qp_ok q cap qp" "tx_window base (remote_ep qp)" "tx_pending_size (remote_ep qp) < 2 ^ 31"
    and "acks_ok (window_mbufs base (remote_ep qp)) qp"
    and "ack = send_last_acked_psn (remote_ep qp)" "k = unat (ack - base)" "k \<le> unat (send_next_psn (remote_ep qp) - base)"
    and "\<forall>m \<in> set (window_mbufs base (remote_ep qp)). now \<le> next_retransmit m"
  shows "\<exists>qp'. sweep_unacked_packets D qp now = Some qp' \<and> qp_ok q cap qp' \<and>
    tx_window ack (remote_ep qp') \<and> window_mbufs ack (remote_ep qp') = drop k (window_mbufs base (remote_ep qp)) \<and>
    acks_ok (window_mbufs ack (remote_ep qp')) qp' \<and>
    sq_storage (sq qp') = fold ack_storage (take k (window_mbufs base (remote_ep qp))) (sq_storage (sq qp)) \<and>
    completes q (finished_wqes (take k (window_mbufs base (remote_ep qp))) (sq_storage (sq qp))) qp qp'"
proof -
  let ?ep = "remote_ep qp"
  have u: "unat (send_next_psn ?ep - base) \<le> tx_pending_size ?ep" and n: "0 < tx_pending_size ?ep" "tx_pending_size ?ep = length (tx_pending ?ep)"
    "tx_head ?ep < tx_pending_size ?ep"
    using assms(3) by (auto simp: tx_window_def)
  have "k = unat (send_last_acked_psn ?ep - base)" "k \<le> tx_pending_size ?ep" "unat (send_next_psn ?ep - base) < 2 ^ 31"
    using assms(4,6-8) u by simp_all
  then obtain qp' where qp': "sweep_acked D (tx_pending_size ?ep) qp = Some (tx_pending_size ?ep - k, qp')" "qp_ok q cap qp'"
    "tx_window ack (remote_ep qp')" "window_mbufs ack (remote_ep qp') = drop k (window_mbufs base ?ep)"
    "acks_ok (drop k (window_mbufs base ?ep)) qp'"
    "sq_storage (sq qp') = fold ack_storage (take k (window_mbufs base ?ep)) (sq_storage (sq qp))"
    "completes q (finished_wqes (take k (window_mbufs base ?ep)) (sq_storage (sq qp))) qp qp'"
    using sweep_acked_correct [OF assms(1-3,5) _ assms(8)] assms(6) by blast
  have head: "tx_head (remote_ep qp') < tx_pending_size (remote_ep qp')"
    using qp'(3) by (auto simp: tx_window_def)
  have idle: "sweep_retransmit D now (tx_pending_size ?ep - k) (tx_head (remote_ep qp')) qp' = Some qp'"
    by (rule sweep_retransmit_idle [OF qp'(3) _ head]) (use assms(9) qp'(4) in \<open>auto dest: in_set_dropD\<close>)
  show ?thesis
  proof (cases "tx_pending ?ep ! tx_head ?ep = Null")
    case True
    then have e: "send_next_psn ?ep = base" using clear_head_window [OF assms(3)] by (metis tx_slot.distinct(1))
    then have "k = 0" "ack = base" using assms(7,8) by (simp_all add: unat_eq_0)
    then show ?thesis using assms(2,3,5) True n by (simp add: sweep_unacked_packets_def Let_def completes_nil)
  next
    case False
    then show ?thesis using qp' idle n by (simp add: sweep_unacked_packets_def Let_def)
  qed
qed


text \<open>Two segments of one message of seven bytes are pending and both have been acknowledged.\<close>

definition ack_example :: "(nat list \<times> nat) usiw_qp" where
  "ack_example = upd_send_wqe 0 (\<lambda>w. w\<lparr>sw_bytes_sent := 7, sw_state := SEND_WQE_WAIT\<rparr>)
     (map_ep (\<lambda>ep. ep\<lparr>tx_pending := [Mbuf ((pending_mbuf 0)\<lparr>pd_wqe := Some 0\<rparr>),
        Mbuf ((pending_mbuf 1)\<lparr>pd_wqe := Some 0, ddp_length := 3\<rparr>), Null, Null, Null, Null, Null, Null],
        send_next_psn := 2, send_last_acked_psn := 2\<rparr>) example_qp)"

lemma pending_mbuf_psn [simp]: "pd_psn (pending_mbuf p) = p"
  by (simp add: pending_mbuf_def)

lemma ack_example_window: "tx_window 0 (remote_ep ack_example)"
proof -
  let ?m0 = "(pending_mbuf 0)\<lparr>pd_wqe := Some 0\<rparr>" and ?m1 = "(pending_mbuf 1)\<lparr>pd_wqe := Some 0, ddp_length := 3\<rparr>"
  let ?ep1 = "ep_push ?m0 (remote_ep example_qp)"
  have ep0: "send_next_psn (remote_ep example_qp) = 0" "tx_pending_size (remote_ep example_qp) = 8"
    "tx_pending (remote_ep example_qp) = replicate 8 Null"
    by (simp_all add: example_qp_def example_ep_def)
  have ep1: "send_next_psn ?ep1 = 1" "tx_pending_size ?ep1 = 8" "tx_pending ?ep1 = (replicate 8 Null)[0 := Mbuf ?m0]"
    by (simp_all add: ep_push_def set_slot_def tx_pending_entry_def ep0)
  have "tx_window 0 ?ep1" using tx_window_push(3) [OF example_window, of ?m0] by (simp add: ep0)
  then have "tx_window 0 (ep_push ?m1 ?ep1)" using tx_window_push(3) [of 0 ?ep1 ?m1] by (simp add: ep1)
  moreover have "remote_ep ack_example = (ep_push ?m1 ?ep1)\<lparr>send_last_acked_psn := 2\<rparr>"
    by (simp add: ack_example_def upd_send_wqe_def ep_push_def set_slot_def tx_pending_entry_def ep0 numeral_eq_Suc)
  ultimately show ?thesis by (simp add: tx_window_def)
qed

lemma ack_example_mbufs: "window_mbufs 0 (remote_ep ack_example) =
   [(pending_mbuf 0)\<lparr>pd_wqe := Some 0\<rparr>, (pending_mbuf 1)\<lparr>pd_wqe := Some 0, ddp_length := 3\<rparr>]"
  by (simp add: window_mbufs_def wslot_def ack_example_def example_qp_def example_ep_def upd_send_wqe_def upt_rec)

lemma ack_example_acks: "acks_ok (window_mbufs 0 (remote_ep ack_example)) ack_example"
  unfolding ack_example_mbufs
  by (auto simp: acks_ok_def accounted_def pending_mbuf_def ack_example_def example_qp_def upd_send_wqe_def example_send_wqe_def zero_send_wqe_def)

theorem sweep_unacked_packets_acks_witness:
  "acks_ok (window_mbufs 0 (remote_ep ack_example)) ack_example \<and>
   (\<exists>qp'. sweep_unacked_packets example_env ack_example 0 = Some qp' \<and> tx_window 2 (remote_ep qp') \<and>
      window_mbufs 2 (remote_ep qp') = [] \<and> sw_bytes_acked (send_wqe qp' 0) = 7 \<and> sw_state (send_wqe qp' 0) = SEND_WQE_COMPLETE \<and>
      sq_active (sq qp') = [] \<and> fst (sq_free_ring (sq qp')) = [2, 3, 0] \<and>
      map wc_wr_context (cq_view fst (cqs qp' 0)) = [100])"
proof -
  have ok: "qp_ok fst snd ack_example" using example_qp_ok by (simp add: ack_example_def)
  have ep: "send_last_acked_psn (remote_ep ack_example) = 2" "send_next_psn (remote_ep ack_example) = 2"
    "tx_pending_size (remote_ep ack_example) < 2 ^ 31"
    by (simp_all add: ack_example_def upd_send_wqe_def example_qp_def example_ep_def)
  have w: "sq_storage (sq ack_example) 0 = (example_send_wqe 0)\<lparr>sw_bytes_sent := 7, sw_state := SEND_WQE_WAIT\<rparr>"
    by (simp add: ack_example_def example_qp_def upd_send_wqe_def)
  have act: "sq_active (sq ack_example) = [0]" "sq_free_ring (sq ack_example) = ([2, 3], 7)" "cq_view fst (cqs ack_example 0) = []"
    "send_cq ack_example = 0" "wants_cqe ack_example 0" "cq_room fst ack_example = 4"
    using w by (simp_all add: ack_example_def example_qp_def upd_send_wqe_def wants_cqe_def cq_room_def cq_view_def example_cq_def
        example_send_wqe_def usiw_send_signaled_def)
  have fin: "finished_wqes (window_mbufs 0 (remote_ep ack_example)) (sq_storage (sq ack_example)) = [0]"
    by (simp add: ack_example_mbufs ack_storage_def ack_wqe_def pending_mbuf_def w example_send_wqe_def zero_send_wqe_def)
  obtain qp' where qp': "sweep_unacked_packets example_env ack_example 0 = Some qp'" "tx_window 2 (remote_ep qp')"
    "window_mbufs 2 (remote_ep qp') = []" "completes fst [0] ack_example qp'"
    "sq_storage (sq qp') = fold ack_storage (window_mbufs 0 (remote_ep ack_example)) (sq_storage (sq ack_example))"
    using sweep_unacked_packets_acks [OF example_env_ring_spec ok ack_example_window ep(3) ack_example_acks refl refl, of 0]
    by (auto simp: ep fin [symmetric] ack_example_mbufs)
  have retired: "sq_active (sq qp') = []" "fst (sq_free_ring (sq qp')) = [2, 3, 0]" "map wc_wr_context (cq_view fst (cqs qp' 0)) = [100]"
    using qp'(4) w by (auto simp: completes_def act flushed_send_def list_all2_Cons1 example_send_wqe_def)
  have "fold ack_storage (window_mbufs 0 (remote_ep ack_example)) st 0 = (example_send_wqe 0)\<lparr>sw_bytes_sent := 7,
      sw_bytes_acked := 7, sw_state := SEND_WQE_COMPLETE\<rparr>" if "st 0 = sq_storage (sq ack_example) 0" for st
    using that by (simp add: w ack_example_mbufs ack_storage_def ack_wqe_def pending_mbuf_def example_send_wqe_def zero_send_wqe_def)
  then have st: "sw_bytes_acked (send_wqe qp' 0) = 7" "sw_state (send_wqe qp' 0) = SEND_WQE_COMPLETE"
    unfolding qp'(5) by simp_all
  show ?thesis
    by (intro conjI exI [of _ qp']; fact ack_example_acks qp'(1-3) st retired)
qed

text \<open>
  C30. A selective acknowledgement never marks a datagram as received. The code computes the address
  of the datagram information from the address of the array slot instead of the mbuf, so whatever
  range the peer acknowledges, every slot either keeps its datagram unchanged, including the time of
  its next retransmission, or is overwritten with an invalid pointer.
\<close>

theorem process_trp_sack_marks_nothing:
  assumes "process_trp_sack ep lo hi = Some ep'"
  shows "sack_damage (tx_pending ep) (tx_pending ep') \<and> ep'\<lparr>tx_pending := tx_pending ep\<rparr> = ep"
  using assms process_trp_sack_loop_damage [of _ ep _ lo hi ep' "tx_pending ep"]
  by (auto simp: process_trp_sack_def split: Option.bind_splits if_splits)

theorem process_trp_sack_marks_nothing_witness:
  "\<exists>ep'. process_trp_sack (remote_ep ack_example) 5 6 = Some ep' \<and> sack_damage (tx_pending (remote_ep ack_example)) (tx_pending ep')"
proof -
  have "process_trp_sack (remote_ep ack_example) 5 6 = Some (remote_ep ack_example)"
    by code_simp
  then show ?thesis using process_trp_sack_marks_nothing by blast
qed

end
