(* ===== verification/Trp_Recv.thy ===== *)
theory Trp_Recv
  imports Queues Serial
begin

text \<open>
  Reception in the TRP layer: the part of \<^verbatim>\<open>process_data_packet\<close> (\<^verbatim>\<open>liburdma/interface.c\<close>) that
  decides from the sequence number of a datagram whether it is new, a duplicate, or cannot be
  tracked, and that updates the cumulative acknowledgement and the one range of datagrams
  received out of order. It refines a set of received sequence numbers: every datagram is
  delivered to the DDP layer at most once, and everything below the acknowledged sequence
  number has been delivered.
\<close>

section \<open>The code\<close>

definition set_flag :: "u32 \<Rightarrow> 'r ee_state \<Rightarrow> 'r ee_state" where
  "set_flag f ep = ep\<lparr>trp_flags := trp_flags ep OR f\<rparr>"

definition clear_flag :: "u32 \<Rightarrow> 'r ee_state \<Rightarrow> 'r ee_state" where
  "clear_flag f ep = ep\<lparr>trp_flags := trp_flags ep AND NOT f\<rparr>"

abbreviation missing :: "'r ee_state \<Rightarrow> bool" where
  "missing ep \<equiv> trp_flags ep AND trp_recv_missing \<noteq> 0"

text \<open>
  The result says whether the datagram goes on to the DDP layer; the other results are the
  endpoint and the statistics counters.
\<close>

definition trp_receive :: "'r ee_state \<Rightarrow> urdma_qp_stats \<Rightarrow> u32 \<Rightarrow> bool \<times> 'r ee_state \<times> urdma_qp_stats" where
  "trp_receive ep st psn =
     (if psn = recv_ack_psn ep then
        let ep = ep\<lparr>recv_ack_psn := recv_ack_psn ep + 1\<rparr>;
            ep = (if missing ep \<and> recv_ack_psn ep = psn_min (recv_sack_psn ep)
                  then clear_flag trp_recv_missing (ep\<lparr>recv_ack_psn := psn_max (recv_sack_psn ep)\<rparr>) else ep)
        in (True, set_flag trp_ack_update ep, st)
      else if serial_less_32 (recv_ack_psn ep) psn then
        let st = st\<lparr>recv_psn_gap_count := recv_psn_gap_count st + 1\<rparr> in
        if missing ep then
          if psn = psn_max (recv_sack_psn ep) then
            (True, set_flag trp_ack_update (ep\<lparr>recv_sack_psn := (recv_sack_psn ep)\<lparr>psn_max := psn + 1\<rparr>\<rparr>), st)
          else if psn + 1 = psn_min (recv_sack_psn ep) then
            let ep = ep\<lparr>recv_sack_psn := (recv_sack_psn ep)\<lparr>psn_min := psn\<rparr>\<rparr>;
                ep = (if psn_min (recv_sack_psn ep) = recv_ack_psn ep
                      then clear_flag trp_recv_missing (ep\<lparr>recv_ack_psn := psn_max (recv_sack_psn ep)\<rparr>) else ep)
            in (True, set_flag trp_ack_update ep, st)
          else if serial_less_32 psn (psn_min (recv_sack_psn ep)) \<or> serial_greater_32 psn (psn_max (recv_sack_psn ep)) then
            (False, ep, st)
          else (False, ep, st)
        else (True, (set_flag (trp_recv_missing OR trp_ack_update) ep)\<lparr>recv_sack_psn := \<lparr>psn_min = psn, psn_max = psn + 1\<rparr>\<rparr>, st)
      else (False, ep, st\<lparr>recv_retransmit_count := recv_retransmit_count st + 1\<rparr>))"

section \<open>The abstract receiver\<close>

text \<open>
  Sequence numbers are unbounded integers. The receiver has received everything below \<open>ack\<close>
  and possibly one further range, from \<open>lo\<close> up to \<open>hi\<close>.
\<close>

record recv_window =
  rw_ack :: int
  rw_range :: "(int \<times> int) option"

definition received :: "recv_window \<Rightarrow> int set" where
  "received w = {..<rw_ack w} \<union> (case rw_range w of None \<Rightarrow> {} | Some (lo, hi) \<Rightarrow> {lo..<hi})"

definition window_ok :: "recv_window \<Rightarrow> bool" where
  "window_ok w \<longleftrightarrow> (case rw_range w of None \<Rightarrow> True
     | Some (lo, hi) \<Rightarrow> rw_ack w < lo \<and> lo < hi \<and> hi < rw_ack w + 2 ^ 31)"

text \<open>A datagram can be tracked when it extends what is known.\<close>

definition trackable :: "recv_window \<Rightarrow> int \<Rightarrow> bool" where
  "trackable w n \<longleftrightarrow> n = rw_ack w \<or> (case rw_range w of None \<Rightarrow> True | Some (lo, hi) \<Rightarrow> n = hi \<or> n + 1 = lo)"

text \<open>How the words of an endpoint stand for an abstract receiver.\<close>

definition represents :: "'r ee_state \<Rightarrow> recv_window \<Rightarrow> bool" where
  "represents ep w \<longleftrightarrow> recv_ack_psn ep = of_int (rw_ack w) \<and> (missing ep \<longleftrightarrow> rw_range w \<noteq> None) \<and>
     (case rw_range w of None \<Rightarrow> True
      | Some (lo, hi) \<Rightarrow> psn_min (recv_sack_psn ep) = of_int lo \<and> psn_max (recv_sack_psn ep) = of_int hi)"

lemma and_one_even: "(x :: u32) AND 1 = 0 \<longleftrightarrow> even x"
  by (simp add: and_one_eq even_iff_mod_2_eq_zero)

lemma trp_flag_bits [simp]:
  "(f OR trp_ack_update) AND trp_recv_missing = 0 \<longleftrightarrow> f AND trp_recv_missing = 0"
  "(f AND NOT trp_recv_missing) AND trp_recv_missing = 0"
  "((f OR (trp_recv_missing OR trp_ack_update)) AND trp_recv_missing = 0) = False"
  by (simp_all only: trp_ack_update_def trp_recv_missing_def and_one_even even_or_iff even_and_iff even_not_iff) simp_all

lemma missing_updates [simp]:
  "trp_flags (set_flag trp_ack_update ep) AND trp_recv_missing = 0 \<longleftrightarrow> trp_flags ep AND trp_recv_missing = 0"
  "trp_flags (clear_flag trp_recv_missing ep) AND trp_recv_missing = 0"
  "(trp_flags (set_flag (trp_recv_missing OR trp_ack_update) ep) AND trp_recv_missing = 0) = False"
  by (simp_all add: set_flag_def clear_flag_def)

lemma flag_frames [simp]:
  "recv_ack_psn (set_flag f ep) = recv_ack_psn ep" "recv_ack_psn (clear_flag f ep) = recv_ack_psn ep"
  "recv_sack_psn (set_flag f ep) = recv_sack_psn ep" "recv_sack_psn (clear_flag f ep) = recv_sack_psn ep"
  by (simp_all add: set_flag_def clear_flag_def)

section \<open>The refinement\<close>

text \<open>What the abstract receiver does with datagram \<open>n\<close>.\<close>

definition recv_step :: "recv_window \<Rightarrow> int \<Rightarrow> recv_window" where
  "recv_step w n =
     (if n = rw_ack w then
        (case rw_range w of
           Some (lo, hi) \<Rightarrow> if rw_ack w + 1 = lo then \<lparr>rw_ack = hi, rw_range = None\<rparr> else w\<lparr>rw_ack := rw_ack w + 1\<rparr>
         | None \<Rightarrow> w\<lparr>rw_ack := rw_ack w + 1\<rparr>)
      else if rw_ack w < n then
        (case rw_range w of
           Some (lo, hi) \<Rightarrow> if n = hi then w\<lparr>rw_range := Some (lo, n + 1)\<rparr>
             else if n + 1 = lo then w\<lparr>rw_range := Some (n, hi)\<rparr> else w
         | None \<Rightarrow> w\<lparr>rw_range := Some (n, n + 1)\<rparr>)
      else w)"

lemma recv_step_spec:
  assumes "window_ok w" "n < rw_ack w + 2 ^ 31 - 1"
  shows "window_ok (recv_step w n)"
    and "received (recv_step w n) = received w \<union> (if trackable w n then {n} else {})"
    and "rw_ack w \<le> rw_ack (recv_step w n)"
  using assms
  by (auto simp: window_ok_def recv_step_def received_def trackable_def split: option.splits)

lemma psn_less: "\<bar>x - y\<bar> < 2 ^ 31 \<Longrightarrow> serial_less_32 (of_int x) (of_int y) \<longleftrightarrow> x < y"
  using psn.lt_emb [of x y] by simp

lemma psn_eq: "\<bar>x - y\<bar> < 2 ^ 32 \<Longrightarrow> (of_int x :: u32) = of_int y \<longleftrightarrow> x = y"
  using psn.emb_eq [of x y] by simp

lemma trp_receive_refines:
  assumes rep: "represents ep w" and ok: "window_ok w"
    and win: "rw_ack w - 2 ^ 31 < n" "n < rw_ack w + 2 ^ 31 - 1"
    and res: "trp_receive ep st (of_int n) = (deliver, ep', st')"
  shows "represents ep' (recv_step w n)" and "deliver \<longleftrightarrow> trackable w n \<and> n \<notin> received w"
proof -
  have ack: "recv_ack_psn ep = of_int (rw_ack w)" using rep by (simp add: represents_def)
  have eq: "(of_int n :: u32) = of_int (rw_ack w) \<longleftrightarrow> n = rw_ack w"
    and less: "serial_less_32 (of_int (rw_ack w)) (of_int n) \<longleftrightarrow> rw_ack w < n"
    using win by (auto intro!: psn_eq psn_less)
  have "represents ep' (recv_step w n) \<and> (deliver \<longleftrightarrow> trackable w n \<and> n \<notin> received w)"
  proof (cases "rw_range w")
    case None
    then have nm: "\<not> missing ep" using rep by (simp add: represents_def)
    then show ?thesis
      using res None eq less ack rep
      by (auto simp: trp_receive_def recv_step_def represents_def trackable_def received_def Let_def split: if_splits)
  next
    case (Some r)
    obtain lo hi where r: "r = (lo, hi)" by (cases r)
    have m: "missing ep" and lohi: "psn_min (recv_sack_psn ep) = of_int lo" "psn_max (recv_sack_psn ep) = of_int hi"
      using rep Some by (auto simp: represents_def r)
    have b: "rw_ack w < lo" "lo < hi" "hi < rw_ack w + 2 ^ 31" using ok Some by (simp_all add: window_ok_def r)
    have next_lo: "(of_int (rw_ack w) + 1 :: u32) = of_int lo \<longleftrightarrow> rw_ack w + 1 = lo"
      using psn_eq [of "rw_ack w + 1" lo] b by simp
    have at_hi: "(of_int n :: u32) = of_int hi \<longleftrightarrow> n = hi" if "rw_ack w < n"
      using that win b by (intro psn_eq) auto
    have at_lo: "(of_int n + 1 :: u32) = of_int lo \<longleftrightarrow> n + 1 = lo" if "rw_ack w < n"
      using psn_eq [of "n + 1" lo] that win b by simp
    consider (at_ack) "n = rw_ack w" | (beyond) "rw_ack w < n" | (before) "n < rw_ack w" by linarith
    then show ?thesis
    proof cases
      case at_ack
      have "ep' = set_flag trp_ack_update (if rw_ack w + 1 = lo
           then clear_flag trp_recv_missing (ep\<lparr>recv_ack_psn := of_int hi\<rparr>)
           else ep\<lparr>recv_ack_psn := of_int (rw_ack w + 1)\<rparr>)" and d: deliver
        using res by (auto simp: trp_receive_def at_ack ack m lohi next_lo Let_def split: if_splits)
      then have "represents ep' (recv_step w n)"
        using Some m lohi by (simp add: recv_step_def represents_def at_ack r)
      moreover have "trackable w n \<and> n \<notin> received w"
        using at_ack Some b by (simp add: trackable_def received_def r)
      ultimately show ?thesis using d by simp
    next
      case beyond
      have ne: "(of_int n :: u32) \<noteq> of_int (rw_ack w)" "serial_less_32 (of_int (rw_ack w)) (of_int n)"
        using beyond eq less by simp_all
      have ne': "(of_int n :: u32) = of_int (rw_ack w) \<longleftrightarrow> False" using ne by simp
      have rx: "deliver \<longleftrightarrow> n = hi \<or> n + 1 = lo" "ep' = (if n = hi
           then set_flag trp_ack_update (ep\<lparr>recv_sack_psn := (recv_sack_psn ep)\<lparr>psn_max := of_int n + 1\<rparr>\<rparr>)
           else if n + 1 = lo then set_flag trp_ack_update (ep\<lparr>recv_sack_psn := (recv_sack_psn ep)\<lparr>psn_min := of_int n\<rparr>\<rparr>)
           else ep)"
        using res by (auto simp: trp_receive_def ack ne' ne(2) m lohi at_hi [OF beyond] at_lo [OF beyond] Let_def split: if_splits)
      have "represents ep' (recv_step w n)"
        using Some ack m lohi beyond by (simp add: rx(2) recv_step_def represents_def r)
      moreover have "trackable w n \<and> n \<notin> received w \<longleftrightarrow> n = hi \<or> n + 1 = lo"
        using beyond Some b by (auto simp: trackable_def received_def r)
      ultimately show ?thesis using rx(1) by simp
    next
      case before
      then show ?thesis using res Some ack eq less m lohi b
        by (auto simp: trp_receive_def recv_step_def represents_def trackable_def received_def Let_def r split: if_splits)
    qed
  qed
  then show "represents ep' (recv_step w n)" "deliver \<longleftrightarrow> trackable w n \<and> n \<notin> received w" by simp_all
qed

section \<open>Runs\<close>

text \<open>The datagrams delivered while a sequence of datagrams arrives, in order of delivery.\<close>

fun trp_run :: "'r ee_state \<Rightarrow> urdma_qp_stats \<Rightarrow> int list \<Rightarrow> int list \<times> 'r ee_state \<times> urdma_qp_stats" where
  "trp_run ep st [] = ([], ep, st)"
| "trp_run ep st (n # ns) =
     (let (deliver, ep, st) = trp_receive ep st (of_int n); (ds, r) = trp_run ep st ns
      in (if deliver then n # ds else ds, r))"

text \<open>Every datagram is less than half the sequence space away from the next expected one.\<close>

fun in_window :: "recv_window \<Rightarrow> int list \<Rightarrow> bool" where
  "in_window w [] \<longleftrightarrow> True"
| "in_window w (n # ns) \<longleftrightarrow> rw_ack w - 2 ^ 31 < n \<and> n < rw_ack w + 2 ^ 31 - 1 \<and> in_window (recv_step w n) ns"

section \<open>Properties\<close>

text \<open>
  C7. Exactly-once delivery. Let datagrams arrive in any order, with any duplications, wrapping
  around the 32-bit sequence space as often as they may, as long as each is within half the
  sequence space of the next expected one. Then no datagram is delivered twice, none that had
  been received before is delivered, and the endpoint knows exactly what has been received: the
  set it represents is the old set and the delivered datagrams, and in particular every datagram
  below the acknowledged sequence number has been delivered.
\<close>

theorem trp_exactly_once:
  assumes "represents ep w" "window_ok w" "in_window w ns" "trp_run ep st ns = (ds, ep', st')"
  shows "\<exists>w'. represents ep' w' \<and> window_ok w' \<and> rw_ack w \<le> rw_ack w' \<and> distinct ds \<and> set ds \<subseteq> set ns \<and>
     set ds \<inter> received w = {} \<and> received w' = received w \<union> set ds \<and> {..<rw_ack w'} \<subseteq> received w \<union> set ds"
  using assms
proof (induction ns arbitrary: ep w st ds)
  case Nil
  then show ?case by (intro exI [of _ w]) (auto simp: received_def)
next
  case (Cons n ns)
  obtain d ep1 st1 where r: "trp_receive ep st (of_int n) = (d, ep1, st1)" by (metis prod_cases3)
  obtain ds1 where rest: "trp_run ep1 st1 ns = (ds1, ep', st')" "ds = (if d then n # ds1 else ds1)"
    using Cons.prems(4) by (auto simp: r split: prod.splits)
  have win: "rw_ack w - 2 ^ 31 < n" "n < rw_ack w + 2 ^ 31 - 1" "in_window (recv_step w n) ns"
    using Cons.prems(3) by simp_all
  note ref = trp_receive_refines [OF Cons.prems(1,2) win(1,2) r]
  note step = recv_step_spec [OF Cons.prems(2) win(2)]
  obtain w' where w': "represents ep' w'" "window_ok w'" "rw_ack (recv_step w n) \<le> rw_ack w'" "distinct ds1"
    "set ds1 \<subseteq> set ns" "set ds1 \<inter> received (recv_step w n) = {}" "received w' = received (recv_step w n) \<union> set ds1"
    "{..<rw_ack w'} \<subseteq> received (recv_step w n) \<union> set ds1"
    using Cons.IH [OF ref(1) step(1) win(3) rest(1)] by blast
  have old: "received (recv_step w n) = received w \<union> (if d then {n} else {})"
    using step(2) ref(2) by auto
  show ?case
    using w' step(3) ref(2) rest(2) unfolding old by (intro exI [of _ w']) (auto split: if_splits)
qed

theorem trp_exactly_once_witness:
  "\<exists>ep' st' w'. trp_run example_ep (qp_stats example_qp) [0, 2, 2, 1, 0, 3] = ([0, 2, 1, 3], ep', st') \<and>
     recv_ack_psn ep' = 4 \<and> represents ep' w' \<and> received w' = {..<0} \<union> {0, 2, 1, 3}"
proof -
  define w where "w = \<lparr>rw_ack = 0, rw_range = None\<rparr>"
  obtain ds ep' st' where run: "trp_run example_ep (qp_stats example_qp) [0, 2, 2, 1, 0, 3] = (ds, ep', st')"
    by (metis prod_cases3)
  have "fst (trp_run example_ep (qp_stats example_qp) [0, 2, 2, 1, 0, 3]) = [0, 2, 1, 3]"
    "recv_ack_psn (fst (snd (trp_run example_ep (qp_stats example_qp) [0, 2, 2, 1, 0, 3]))) = 4"
    by code_simp+
  then have v: "ds = [0, 2, 1, 3]" "recv_ack_psn ep' = 4" unfolding run by simp_all
  have "represents example_ep w" "window_ok w" "in_window w [0, 2, 2, 1, 0, 3]"
    by (simp_all add: w_def represents_def example_ep_def window_ok_def recv_step_def)
  then obtain w' where "represents ep' w'" "received w' = received w \<union> set ds"
    using trp_exactly_once [OF _ _ _ run] by blast
  moreover have "received w = {..<0}" by (simp add: w_def received_def)
  ultimately show ?thesis using run v by auto
qed

end
