(* ===== verification/Rdmap_Recv.thy ===== *)
theory Rdmap_Recv
  imports Trp_Ack Trp_Recv
begin

text \<open>
  The receiving half of RDMAP over DDP (\<^verbatim>\<open>liburdma/interface.c\<close>): SEND messages and their
  reassembly, RDMA READ requests and responses, tagged data, TERMINATE messages, and the
  processing of one received datagram from its Ethernet header on.
\<close>

section \<open>SEND messages\<close>

definition activate_recv_wqe :: "nat \<Rightarrow> 'r usiw_qp \<Rightarrow> 'r usiw_qp" where
  "activate_recv_wqe wqe qp =
     (let qp = upd_recv_wqe wqe (\<lambda>w. w\<lparr>rw_remote_ep := True, rw_msn := rq_next_msn (rq0 qp)\<rparr>) qp;
          qp = qp\<lparr>rq0 := (rq0 qp)\<lparr>rq_next_msn := rq_next_msn (rq0 qp) + 1\<rparr>\<rparr>
      in qp\<lparr>rq0 := usiw_recv_wqe_queue_add_active (rq0 qp) wqe\<rparr>)"

partial_function (option) dequeue_recv_wqes :: "'r dpdk \<Rightarrow> 'r usiw_qp \<Rightarrow> 'r usiw_qp option" where
  "dequeue_recv_wqes D qp =
     (case rte_ring_dequeue_burst D (rq_ring (rq0 qp)) (rq_max_wr (rq0 qp) + 1) of
        (ws, r) \<Rightarrow>
          let qp = qp\<lparr>rq0 := (rq0 qp)\<lparr>rq_ring := r\<rparr>\<rparr>
          in if ws = [] then Some qp else dequeue_recv_wqes D (fold activate_recv_wqe ws qp))"

text \<open>
  The completed requests at the head of the queue are posted. The result of \<^verbatim>\<open>post_recv_cqe\<close> is not
  looked at, so the loop does not end while the completion queue is full.
\<close>

partial_function (option) post_completed_recvs :: "'r dpdk \<Rightarrow> 'r usiw_qp \<Rightarrow> 'r usiw_qp option" where
  "post_completed_recvs D qp =
     (case rq_active (rq0 qp) of
        [] \<Rightarrow> Some qp
      | wqe # _ \<Rightarrow>
          if rw_complete (recv_wqe qp wqe)
          then post_recv_cqe D qp wqe IBV_WC_SUCCESS \<bind> (\<lambda>p. post_completed_recvs D (snd p))
          else Some qp)"

text \<open>
  Placement of a segment in the buffers of request \<open>wqe\<close>. The bytes that can be copied are those
  the buffers have room for. The result is false for a duplicate of the last segment, which is
  dropped.
\<close>

definition place_send :: "'r usiw_qp \<Rightarrow> packet_context \<Rightarrow> nat \<Rightarrow> u64 \<Rightarrow> u64 \<Rightarrow> bool \<Rightarrow> (bool \<times> 'r usiw_qp) option" where
  "place_send qp orig wqe offset payload_length l =
     (if l \<and> rw_input_size (recv_wqe qp wqe) \<noteq> 0 then Some (False, qp)
      else do {
        let qp = (if l then upd_recv_wqe wqe (\<lambda>w. w\<lparr>rw_input_size := offset + payload_length\<rparr>) qp else qp);
        let w = recv_wqe qp wqe;
        assert_c (16 * rw_iov_count w \<le> length (rw_iov w));
        let iovs = iovs_of (rw_iov w) (rw_iov_count w);
        let src = map (\<lambda>k. ctx_rdmap orig (18 + k)) [0..<min (unat payload_length) (iov_total iovs)];
        let qp = qp\<lparr>qp_mem := memcpy_to_iov (qp_mem qp) iovs src payload_length offset\<rparr>;
        let qp = upd_recv_wqe wqe (\<lambda>w. w\<lparr>rw_recv_size := rw_recv_size w + payload_length\<rparr>) qp;
        let w = recv_wqe qp wqe;
        assert_c (rw_input_size w = 0 \<or> rw_recv_size w \<le> rw_input_size w);
        Some (True, if rw_recv_size w = rw_input_size w then upd_recv_wqe wqe (\<lambda>w. w\<lparr>rw_complete := True\<rparr>) qp else qp)
      })"

definition process_send :: "'r dpdk \<Rightarrow> 'r usiw_qp \<Rightarrow> packet_context \<Rightarrow> 'r usiw_qp option" where
  "process_send D qp orig = do {
     let rdmap = get_rdmap_untagged (ctx_rdmap orig) 0;
     qp \<leftarrow> (if rq_active (rq0 qp) = [] then dequeue_recv_wqes D qp else Some qp);
     case usiw_recv_wqe_queue_lookup (rq0 qp) (ut_msn rdmap) of
       None \<Rightarrow>
         if rq_active (rq0 qp) \<noteq> [] then do_rdmap_terminate D qp (Some orig) ddp_error_untagged_invalid_msn
         else do {
           assert_c (rte_ring_empty D (rq_ring (rq0 qp)));
           do_rdmap_terminate D qp (Some orig) ddp_error_untagged_no_buffer
         }
     | Some wqe \<Rightarrow>
         let offset = (ucast (ut_mo rdmap) :: u64); payload_length = ctx_ddp_seg_length orig - 18 in
         if offset + payload_length > rw_total_request_size (recv_wqe qp wqe)
         then do_rdmap_terminate D qp (Some orig) ddp_error_untagged_message_too_long
         else do {
           (placed, qp) \<leftarrow> place_send qp orig wqe offset payload_length (DDP_GET_L (ddp_flags rdmap) \<noteq> 0);
           if \<not> placed then Some qp
           else do {
             assert_c (rw_remote_ep (recv_wqe qp wqe));
             if serial_less_32 (ctx_psn orig) (recv_ack_psn (remote_ep qp)) then post_completed_recvs D qp
             else Some qp
           }
         }
   }"

section \<open>RDMA READ\<close>

text \<open>\<^verbatim>\<open>msn\<close> is compared as a plain number; the remainder by a zero \<^verbatim>\<open>ird_max\<close> does not return.\<close>

definition process_rdma_read_request :: "'r dpdk \<Rightarrow> 'r usiw_qp \<Rightarrow> packet_context \<Rightarrow> 'r usiw_qp option" where
  "process_rdma_read_request D qp orig = do {
     let rdmap = get_rdmap_readreq (ctx_rdmap orig) 0;
     let msn = ut_msn rdmap;
     if msn < expected_read_msn (remote_ep qp) \<or> msn \<ge> readresp_head_msn qp + ucast (ird_max (shm_qp qp))
     then do_rdmap_terminate D qp (Some orig) ddp_error_untagged_invalid_msn
     else do {
       let qp = (if msn = expected_read_msn (remote_ep qp)
                 then map_ep (\<lambda>ep. ep\<lparr>expected_read_msn := expected_read_msn ep + 1\<rparr>) qp else qp);
       candidate \<leftarrow> usiw_mr_lookup (qp_pd qp) (rr_source_stag rdmap);
       case candidate of
         None \<Rightarrow> do_rdmap_terminate D qp (Some orig) rdmap_error_stag_invalid
       | Some l \<Rightarrow> do {
           let mr = deref_link (qp_pd qp) l;
           let vaddr = rr_source_offset rdmap;
           let rdma_length = rr_read_msg_size rdmap;
           if vaddr < mr_addr mr \<or> vaddr + ucast rdma_length > mr_addr mr + mr_length mr
           then do_rdmap_terminate D qp (Some orig) rdmap_error_base_or_bounds_violation
           else do {
             assert_c (ird_max (shm_qp qp) \<noteq> 0);
             let i = unat msn mod unat (ird_max (shm_qp qp));
             assert_c (i < length (readresp_store qp));
             if rr_active (readresp qp i)
             then do_rdmap_terminate D qp (Some orig) rdmap_error_remote_stream_catastrophic
             else Some (upd_readresp i (\<lambda>_. \<lparr>rr_vaddr = vaddr, rr_msg_size = rdma_length, rr_sink_stag = sink_stag rdmap,
                rr_sink_ofs = rr_sink_offset rdmap, rr_active = True, rr_sink_ep = True\<rparr>) qp)
           }
         }
     }
   }"

text \<open>The result of \<^verbatim>\<open>binheap_insert\<close> is not looked at.\<close>

definition process_rdma_read_response :: "'r dpdk \<Rightarrow> 'r usiw_qp \<Rightarrow> packet_context \<Rightarrow> 'r usiw_qp option" where
  "process_rdma_read_response D qp orig =
     (let rdmap = get_rdmap_tagged (ctx_rdmap orig) 0
      in case usiw_send_wqe_queue_lookup (sq qp) usiw_wr_read (sink_stag rdmap) of
           None \<Rightarrow> do_rdmap_terminate D qp (Some orig) rdmap_error_opcode_unexpected
         | Some read_wqe \<Rightarrow>
             if DDP_GET_L (ddp_flags rdmap) \<noteq> 0 then do {
               (_, h) \<leftarrow> binheap_insert (recv_rresp_last_psn (remote_ep qp)) (ctx_psn orig);
               Some (map_ep (\<lambda>ep. ep\<lparr>recv_rresp_last_psn := h\<rparr>) qp)
             }
             else Some qp)"

section \<open>Tagged data\<close>

definition ddp_place_tagged_data :: "'r dpdk \<Rightarrow> 'r usiw_qp \<Rightarrow> packet_context \<Rightarrow> 'r usiw_qp option" where
  "ddp_place_tagged_data D qp orig = do {
     let rdmap = get_rdmap_tagged (ctx_rdmap orig) 0;
     candidate \<leftarrow> usiw_mr_lookup (qp_pd qp) (sink_stag rdmap);
     case candidate of
       None \<Rightarrow> do_rdmap_terminate D qp (Some orig) ddp_error_tagged_stag_invalid
     | Some l \<Rightarrow> do {
         let mr = deref_link (qp_pd qp) l;
         let vaddr = tg_offset rdmap;
         let rdma_length = (ucast (ctx_ddp_seg_length orig - 14) :: u32);
         if vaddr < mr_addr mr \<or> vaddr + ucast rdma_length > mr_addr mr + mr_length mr
         then do_rdmap_terminate D qp (Some orig) ddp_error_tagged_base_or_bounds_violation
         else do {
           let qp = qp\<lparr>qp_mem := mem_write (qp_mem qp) vaddr (map (\<lambda>k. ctx_rdmap orig (14 + k)) [0..<unat rdma_length])\<rparr>;
           let opcode = RDMAP_GET_OPCODE (rdmap_info rdmap);
           if opcode = rdmap_opcode_rdma_write then Some qp
           else if opcode = rdmap_opcode_rdma_read_response then process_rdma_read_response D qp orig
           else do_rdmap_terminate D qp (Some orig) rdmap_error_opcode_unexpected
         }
       }
   }"

section \<open>Shutdown and TERMINATE\<close>

definition qp_shutdown :: "'r dpdk \<Rightarrow> 'r usiw_qp \<Rightarrow> 'r usiw_qp option" where
  "qp_shutdown D qp = do {
     qp \<leftarrow> send_trp_fin D qp;
     let qp = set_conn_state usiw_qp_error qp;
     let qp = qp\<lparr>io := (io qp)\<lparr>io_kernel := io_kernel (io qp) @ [Modify_qp_err]\<rparr>\<rparr>;
     qp \<leftarrow> sq_flush D qp;
     rq_flush D qp
   }"

definition STAG_RDMA_READ :: "u32 \<Rightarrow> u32" where
  "STAG_RDMA_READ x = 0x01000000 OR (x AND 0x00FFFFFF)"

text \<open>The embedded header is taken from directly behind the TERMINATE header.\<close>

definition process_terminate :: "'r dpdk \<Rightarrow> 'r usiw_qp \<Rightarrow> packet_context \<Rightarrow> 'r usiw_qp option" where
  "process_terminate D qp orig =
     (let rdmap = get_rdmap_terminate (ctx_rdmap orig) 0; errcode = tm_error_code rdmap in
      if tm_hdrct rdmap AND rdmap_hdrct_d = 0 then qp_shutdown D qp
      else if errcode AND 0xff00 = 0x0100 then
        let rreq = get_rdmap_packet (ctx_rdmap orig) 22 in
        case usiw_send_wqe_queue_lookup (sq qp) usiw_wr_read (sink_stag rreq) of
          None \<Rightarrow> Some qp
        | Some wqe \<Rightarrow> do {
            mr \<leftarrow> usiw_mr_lookup (qp_pd qp) (STAG_RDMA_READ (sw_msn (send_wqe qp wqe)));
            let qp = (case mr of None \<Rightarrow> qp | Some l \<Rightarrow> qp\<lparr>qp_pd := usiw_dereg_mr_real (qp_pd qp) l\<rparr>);
            map_option snd (post_send_cqe D qp wqe IBV_WC_REM_ACCESS_ERR)
          }
      else if errcode AND 0xff00 = 0x1100 then
        let t = get_rdmap_packet (ctx_rdmap orig) 22 in
        if RDMAP_GET_OPCODE (rdmap_info t) = rdmap_opcode_rdma_write then
          case usiw_send_wqe_queue_lookup (sq qp) usiw_wr_write (sink_stag t) of
            None \<Rightarrow> Some qp
          | Some wqe \<Rightarrow> map_option snd (post_send_cqe D qp wqe IBV_WC_REM_ACCESS_ERR)
        else Some qp
      else qp_shutdown D qp)"

section \<open>A received datagram\<close>

text \<open>What the DDP layer does with a segment that the TRP layer accepts.\<close>

definition process_ddp_segment :: "'r dpdk \<Rightarrow> 'r usiw_qp \<Rightarrow> packet_context \<Rightarrow> 'r usiw_qp option" where
  "process_ddp_segment D qp ctx =
     (let rdmap = get_rdmap_packet (ctx_rdmap ctx) 0 in
      if DDP_GET_DV (ddp_flags rdmap) \<noteq> 1 then
        do_rdmap_terminate D qp (Some ctx)
          (if DDP_GET_T (ddp_flags rdmap) \<noteq> 0 then ddp_error_tagged_version_invalid else ddp_error_untagged_version_invalid)
      else if RDMAP_GET_RV (rdmap_info rdmap) \<noteq> 1 then do_rdmap_terminate D qp (Some ctx) rdmap_error_version_invalid
      else if DDP_GET_T (ddp_flags rdmap) \<noteq> 0 then ddp_place_tagged_data D qp ctx
      else let opcode = RDMAP_GET_OPCODE (rdmap_info rdmap) in
        if opcode = rdmap_opcode_send \<or> opcode = rdmap_opcode_send_inv \<or>
           opcode = rdmap_opcode_send_se \<or> opcode = rdmap_opcode_send_se_inv then process_send D qp ctx
        else if opcode = rdmap_opcode_rdma_read_request then process_rdma_read_request D qp ctx
        else if opcode = rdmap_opcode_terminate then process_terminate D qp ctx
        else do_rdmap_terminate D qp (Some ctx) rdmap_error_opcode_unexpected)"

text \<open>
  The tests on protocol, destination address and port only write to the log. The headers are
  at the offsets 0 (Ethernet), 14 (IPv4), 34 (UDP), 42 (TRP) and 52 (DDP).
\<close>

definition process_data_packet :: "'r dpdk \<Rightarrow> 'r usiw_qp \<Rightarrow> rx_mbuf \<Rightarrow> 'r usiw_qp option" where
  "process_data_packet D qp mbuf =
     (if rx_cksum_bad mbuf then Some qp
      else do {
        assert_c (42 \<le> rx_len mbuf);
        let dgram_len = (get_be 2 (rx_data mbuf) 38 :: u16);
        let trp = get_trp_hdr (rx_data mbuf) 42;
        let opcode = trp_opcode trp AND trp_opcode_mask;
        if opcode = trp_sack then do {
          let qp = qp\<lparr>qp_stats := (qp_stats qp)\<lparr>recv_sack_count := recv_sack_count (qp_stats qp) + 1\<rparr>\<rparr>;
          ep \<leftarrow> process_trp_sack (remote_ep qp) (trp_psn trp) (trp_ack_psn trp);
          Some (qp\<lparr>remote_ep := ep\<rparr>)
        }
        else if opcode = trp_fin then qp_shutdown D qp
        else if opcode \<noteq> 0 then Some qp
        else do {
          let qp = map_ep (\<lambda>ep. ep\<lparr>send_last_acked_psn := trp_ack_psn trp,
                     send_max_psn := trp_ack_psn trp + of_nat (tx_pending_size ep) - 1\<rparr>) qp;
          if dgram_len \<le> 18 then Some qp
          else case trp_receive (remote_ep qp) (qp_stats qp) (trp_psn trp) of
            (deliver, ep, st) \<Rightarrow>
              let qp = qp\<lparr>remote_ep := ep, qp_stats := st\<rparr> in
              if \<not> deliver then Some qp
              else do {
                assert_c (52 \<le> rx_len mbuf);
                process_ddp_segment D qp \<lparr>ctx_ddp_seg_length = ucast dgram_len - 8 - 10,
                  ctx_rdmap = \<lambda>k. rx_data mbuf (52 + k), ctx_psn = trp_psn trp\<rparr>
              }
        }
      })"

section \<open>Frame of the error path\<close>

lemma do_rdmap_terminate_changed:
  assumes "do_rdmap_terminate D qp orig err = Some qp'"
  shows "tx_changed qp qp'"
  using assms unfolding do_rdmap_terminate_def
  by (auto simp: Let_def split: Option.bind_splits prod.splits dest!: send_ddp_segment_changed
      intro: tx_changed_trans [OF ticked_changed])

lemmas do_rdmap_terminate_same = tx_changed_same [OF do_rdmap_terminate_changed]

lemma process_rdma_read_response_mem:
  assumes "process_rdma_read_response D qp orig = Some qp'"
  shows "qp_mem qp' = qp_mem qp" "qp_pd qp' = qp_pd qp"
  using assms by (auto simp: process_rdma_read_response_def Let_def do_rdmap_terminate_same
      split: option.splits if_splits Option.bind_splits)

lemma unat_ucast_32 [simp]: "unat (ucast x :: u64) = unat x" for x :: u32
  using unat_bound [of x] by (simp add: unsigned_ucast_eq take_bit_nat_eq_self)

section \<open>Tagged data stays inside its region\<close>

text \<open>The region of memory a memory region stands for.\<close>

definition in_region :: "usiw_mr \<Rightarrow> u64 \<Rightarrow> bool" where
  "in_region mr a \<longleftrightarrow> mr_addr mr \<le> a \<and> unat a < unat (mr_addr mr) + unat (mr_length mr)"

definition tagged_length :: "packet_context \<Rightarrow> u32" where
  "tagged_length orig = ucast (ctx_ddp_seg_length orig - 14)"

abbreviation tagged_hdr :: "packet_context \<Rightarrow> rdmap_tagged_packet" where
  "tagged_hdr orig \<equiv> get_rdmap_tagged (ctx_rdmap orig) 0"

definition tagged_payload :: "packet_context \<Rightarrow> u8 list" where
  "tagged_payload orig = map (\<lambda>k. ctx_rdmap orig (14 + k)) [0..<unat (tagged_length orig)]"

definition tagged_accepted :: "usiw_mr \<Rightarrow> packet_context \<Rightarrow> bool" where
  "tagged_accepted mr orig \<longleftrightarrow> mr_addr mr \<le> tg_offset (tagged_hdr orig) \<and>
     tg_offset (tagged_hdr orig) + ucast (tagged_length orig) \<le> mr_addr mr + mr_length mr"

lemma ddp_place_tagged_data_mem:
  assumes inv: "mr_table_inv (qp_pd qp)" and placed: "ddp_place_tagged_data D qp orig = Some qp'"
  shows "qp_pd qp' = qp_pd qp \<and> qp_mem qp' = (case mr_of (qp_pd qp) (sink_stag (tagged_hdr orig)) of
      Some mr \<Rightarrow> if tagged_accepted mr orig then mem_write (qp_mem qp) (tg_offset (tagged_hdr orig)) (tagged_payload orig) else qp_mem qp
    | None \<Rightarrow> qp_mem qp)"
proof (cases "mr_of (qp_pd qp) (sink_stag (tagged_hdr orig))")
  case None
  then show ?thesis using placed usiw_mr_lookup_mr_of(1) [OF inv None]
    by (auto simp: ddp_place_tagged_data_def Let_def do_rdmap_terminate_same)
next
  case (Some mr)
  obtain l where l: "usiw_mr_lookup (qp_pd qp) (sink_stag (tagged_hdr orig)) = Some (Some l)" "deref_link (qp_pd qp) l = mr"
    using usiw_mr_lookup_mr_of(2) [OF inv Some] by blast
  define qp1 where "qp1 = qp\<lparr>qp_mem := mem_write (qp_mem qp) (tg_offset (tagged_hdr orig)) (tagged_payload orig)\<rparr>"
  define opcode where "opcode = RDMAP_GET_OPCODE (rdmap_info (tagged_hdr orig))"
  have eq: "ddp_place_tagged_data D qp orig =
    (if \<not> tagged_accepted mr orig then do_rdmap_terminate D qp (Some orig) ddp_error_tagged_base_or_bounds_violation
     else if opcode = rdmap_opcode_rdma_write then Some qp1
     else if opcode = rdmap_opcode_rdma_read_response then process_rdma_read_response D qp1 orig
     else do_rdmap_terminate D qp1 (Some orig) rdmap_error_opcode_unexpected)"
    unfolding ddp_place_tagged_data_def Let_def l bind.bind_lunit option.case l(2) opcode_def qp1_def tagged_payload_def tagged_accepted_def
      tagged_length_def de_Morgan_conj not_le by simp
  show ?thesis
  proof (cases "tagged_accepted mr orig")
    case True
    have "qp_mem qp' = qp_mem qp1 \<and> qp_pd qp' = qp_pd qp1"
      using placed unfolding eq using True do_rdmap_terminate_same(8,9) process_rdma_read_response_mem by (simp split: if_splits) blast+
    then show ?thesis using Some True by (simp add: qp1_def)
  next
    case False
    then have "do_rdmap_terminate D qp (Some orig) ddp_error_tagged_base_or_bounds_violation = Some qp'"
      using placed by (simp add: eq)
    from do_rdmap_terminate_same(8,9) [OF this] show ?thesis using Some False by simp
  qed
qed

lemma mr_of_all_mrs: "mr_table_inv tbl \<Longrightarrow> mr_of tbl k = Some mr \<Longrightarrow> mr \<in> set (all_mrs tbl) \<and> mr_rkey mr = k"
  using mrs.find_key [of tbl k mr] mr_table_inv_bucket [of tbl k] by (auto simp: regions_def all_mrs_def)

lemma mem_write_outside:
  assumes "unat a + length bs \<le> 2 ^ 64" "mem_write m a bs x \<noteq> m x"
  shows "a \<le> x \<and> unat x < unat a + length bs"
proof -
  have lt: "unat (x - a) < length bs" using assms(2) by (auto simp: mem_write_def split: if_splits)
  have "x = a + of_nat (unat (x - a))" by simp
  moreover have "unat (a + (x - a)) = unat a + unat (x - a)"
    by (rule unat_add_no_overflow) (use assms(1) lt in simp)
  ultimately show ?thesis using lt by (simp add: word_le_nat_alt)
qed

lemma ddp_place_tagged_data_write:
  assumes "mr_table_inv (qp_pd qp)" "mr_of (qp_pd qp) (sink_stag (tagged_hdr orig)) = Some mr" "tagged_accepted mr orig"
    and "RDMAP_GET_OPCODE (rdmap_info (tagged_hdr orig)) = rdmap_opcode_rdma_write"
  shows "ddp_place_tagged_data D qp orig =
    Some (qp\<lparr>qp_mem := mem_write (qp_mem qp) (tg_offset (tagged_hdr orig)) (tagged_payload orig)\<rparr>)"
proof -
  obtain l where l: "usiw_mr_lookup (qp_pd qp) (sink_stag (tagged_hdr orig)) = Some (Some l)" "deref_link (qp_pd qp) l = mr"
    using usiw_mr_lookup_mr_of(2) [OF assms(1,2)] by blast
  show ?thesis using assms(3,4)
    unfolding ddp_place_tagged_data_def Let_def l bind.bind_lunit option.case l(2) tagged_payload_def tagged_accepted_def
      tagged_length_def by (simp add: not_less [symmetric])
qed

text \<open>What a write changes, with addresses relative to a base.\<close>

lemma unat_offset_diff:
  assumes "j \<le> 2 ^ 64" "k < 2 ^ 64"
  shows "unat ((a :: u64) + of_nat k - (a + of_nat j)) = (if j \<le> k then k - j else 2 ^ 64 - (j - k))"
proof (cases "j \<le> k")
  case True
  then have "a + of_nat k - (a + of_nat j) = (of_nat (k - j) :: u64)" by simp
  then show ?thesis using True assms(2) unat_of_nat_64 [of "k - j"] by simp
next
  case False
  have "(of_nat (2 ^ 64 - (j - k)) :: u64) + of_nat (j - k) = of_nat (2 ^ 64)"
    using assms(1) unfolding of_nat_add [symmetric] by (intro arg_cong [of _ _ of_nat]) simp
  also have "of_nat (2 ^ 64) = (0 :: u64)" by simp
  finally have "a + of_nat k - (a + of_nat j) = (of_nat (2 ^ 64 - (j - k)) :: u64)"
    using False by (simp add: of_nat_diff algebra_simps)
  then show ?thesis using False unat_of_nat_64 [of "2 ^ 64 - (j - k)"] by simp
qed

lemma mem_write_at:
  fixes a :: u64
  assumes "j + length bs \<le> 2 ^ 64" "k < 2 ^ 64"
  shows "mem_write m (a + of_nat j) bs (a + of_nat k) = (if j \<le> k \<and> k < j + length bs then bs ! (k - j) else m (a + of_nat k))"
proof -
  have "j \<le> 2 ^ 64" using assms(1) by simp
  from unat_offset_diff [OF this assms(2), of a] show ?thesis
    using assms(1) unfolding mem_write_def by (cases "j \<le> k") auto
qed

section \<open>Properties\<close>

text \<open>
  C9. Tagged data (RDMA WRITE and RDMA READ responses) only changes memory of the region that its
  STag names. For a datagram whose address range does not wrap around the address space, whatever
  its header says, a byte of memory that changes lies in the memory region registered under the
  STag of the datagram.
\<close>

theorem ddp_place_tagged_data_confined:
  assumes "mr_table_inv (qp_pd qp)" "ddp_place_tagged_data D qp orig = Some qp'"
    and "unat (tg_offset (tagged_hdr orig)) + unat (tagged_length orig) < 2 ^ 64"
    and "\<And>mr. mr \<in> set (all_mrs (qp_pd qp)) \<Longrightarrow> unat (mr_addr mr) + unat (mr_length mr) < 2 ^ 64"
    and "qp_mem qp' a \<noteq> qp_mem qp a"
  shows "\<exists>mr. mr_of (qp_pd qp) (sink_stag (tagged_hdr orig)) = Some mr \<and> in_region mr a"
proof -
  let ?va = "tg_offset (tagged_hdr orig)" and ?len = "ucast (tagged_length orig) :: u64"
  obtain mr where mr: "mr_of (qp_pd qp) (sink_stag (tagged_hdr orig)) = Some mr" and acc: "tagged_accepted mr orig"
    and a: "mem_write (qp_mem qp) ?va (tagged_payload orig) a \<noteq> qp_mem qp a"
    using ddp_place_tagged_data_mem [OF assms(1,2)] assms(5) by (auto split: option.splits if_splits)
  have len: "unat ?len = unat (tagged_length orig)" "length (tagged_payload orig) = unat (tagged_length orig)"
    by (simp_all add: tagged_payload_def)
  have end': "unat (?va + ?len) = unat ?va + unat ?len"
    by (rule unat_add_no_overflow) (use assms(3) len in simp)
  have "mr \<in> set (all_mrs (qp_pd qp))" using mr_of_all_mrs [OF assms(1) mr] by simp
  then have "unat (mr_addr mr + mr_length mr) = unat (mr_addr mr) + unat (mr_length mr)"
    using assms(4) by (intro unat_add_no_overflow) simp
  then have "unat ?va + unat ?len \<le> unat (mr_addr mr) + unat (mr_length mr)" "mr_addr mr \<le> ?va"
    using acc end' by (simp_all add: tagged_accepted_def word_le_nat_alt)
  moreover have "?va \<le> a \<and> unat a < unat ?va + unat ?len"
    using mem_write_outside [OF _ a] assms(3) len by simp
  ultimately show ?thesis using mr by (auto simp: in_region_def)
qed

definition ctx_of :: "u8 list \<Rightarrow> packet_context" where
  "ctx_of bs = \<lparr>ctx_ddp_seg_length = of_nat (length bs), ctx_rdmap = (\<lambda>k. if k < length bs then bs ! k else 0), ctx_psn = 0\<rparr>"

definition region_mr :: usiw_mr where
  "region_mr = \<lparr>mr_ptr = 1, mr_addr = 4096, mr_length = 64, mr_handle = 0, mr_lkey = 5, mr_rkey = 5, mr_access = 7\<rparr>"

definition region_qp :: "(nat list \<times> nat) usiw_qp" where
  "region_qp = example_qp\<lparr>qp_pd := mr_add region_mr pd_example\<rparr>"

definition write_ctx :: "u64 \<Rightarrow> packet_context" where
  "write_ctx a = ctx_of (rdmap_tagged_bytes \<lparr>ddp_flags = DDP_V1_TAGGED_LAST_DF, rdmap_info = RDMAP_V1 OR rdmap_opcode_rdma_write,
     sink_stag = 5, tg_offset = a\<rparr> @ replicate 16 0xff)"

lemma write_ctx_fields:
  "tagged_hdr (write_ctx a) = \<lparr>ddp_flags = DDP_V1_TAGGED_LAST_DF, rdmap_info = RDMAP_V1 OR rdmap_opcode_rdma_write,
     sink_stag = 5, tg_offset = a\<rparr>" "tagged_length (write_ctx a) = 16" "ctx_rdmap (write_ctx a) 14 = 0xff"
  by (rule tagged_codec.dec_enc)
    (simp_all add: write_ctx_def ctx_of_def holds_at_def nth_append tagged_length_def)

lemma region_qp_pd: "mr_table_inv (qp_pd region_qp)" "mr_of (qp_pd region_qp) 5 = Some region_mr" "all_mrs (qp_pd region_qp) = [region_mr]"
proof -
  show "mr_table_inv (qp_pd region_qp)" using mr_add_inv [OF pd_example_inv] by (simp add: region_qp_def)
  show "mr_of (qp_pd region_qp) 5 = Some region_mr"
    using mrs.find_add [OF pd_example_inv, of region_mr 5] by (simp add: region_qp_def region_mr_def)
  show "all_mrs (qp_pd region_qp) = [region_mr]"
    by code_simp
qed

theorem ddp_place_tagged_data_confined_witness:
  "\<exists>qp'. ddp_place_tagged_data example_env region_qp (write_ctx 4104) = Some qp' \<and> qp_mem qp' 4104 \<noteq> qp_mem region_qp 4104 \<and>
     in_region region_mr 4104"
proof -
  have "tagged_accepted region_mr (write_ctx 4104)" by (simp add: tagged_accepted_def write_ctx_fields region_mr_def)
  then have p: "ddp_place_tagged_data example_env region_qp (write_ctx 4104) =
      Some (region_qp\<lparr>qp_mem := mem_write (qp_mem region_qp) 4104 (tagged_payload (write_ctx 4104))\<rparr>)"
    using ddp_place_tagged_data_write [OF region_qp_pd(1), of "write_ctx 4104" region_mr example_env]
    by (simp add: write_ctx_fields region_qp_pd) (simp add: RDMAP_GET_OPCODE_def RDMAP_V1_def rdmap_opcode_rdma_write_def)
  have c: "qp_mem (region_qp\<lparr>qp_mem := mem_write (qp_mem region_qp) 4104 (tagged_payload (write_ctx 4104))\<rparr>) 4104 \<noteq> qp_mem region_qp 4104"
    by (simp add: mem_write_def tagged_payload_def write_ctx_fields) (simp add: region_qp_def example_qp_def)
  have "in_region region_mr 4104"
    using ddp_place_tagged_data_confined [OF region_qp_pd(1) p _ _ c]
    by (simp add: write_ctx_fields region_qp_pd) (simp add: region_mr_def)
  with p c show ?thesis by blast
qed

text \<open>
  C29. The bounds test on tagged data adds address and length with wrap-around. A datagram whose range
  runs over the end of the address space into low addresses passes it although its first byte lies
  behind the region, and the byte is written.
\<close>

theorem ddp_place_tagged_data_overflow:
  assumes "mr_table_inv (qp_pd qp)" "mr_of (qp_pd qp) (sink_stag (tagged_hdr orig)) = Some mr"
    and "RDMAP_GET_OPCODE (rdmap_info (tagged_hdr orig)) = rdmap_opcode_rdma_write"
    and "unat (mr_addr mr) + unat (mr_length mr) \<le> unat (tg_offset (tagged_hdr orig))"
    and "2 ^ 64 \<le> unat (tg_offset (tagged_hdr orig)) + unat (tagged_length orig)"
    and "unat (tg_offset (tagged_hdr orig)) + unat (tagged_length orig) \<le> 2 ^ 64 + unat (mr_addr mr) + unat (mr_length mr)"
  shows "\<exists>qp'. ddp_place_tagged_data D qp orig = Some qp' \<and> \<not> in_region mr (tg_offset (tagged_hdr orig)) \<and>
    qp_mem qp' (tg_offset (tagged_hdr orig)) = ctx_rdmap orig 14"
proof -
  let ?va = "tg_offset (tagged_hdr orig)" and ?len = "ucast (tagged_length orig) :: u64"
  have bound: "unat ?va < 2 ^ 64" "unat (tagged_length orig) < 2 ^ 64"
    using unat_bound [of ?va] unat_bound [of "tagged_length orig"] by simp_all
  have "unat (?va + ?len) = (unat ?va + unat (tagged_length orig)) mod 2 ^ 64" by (simp add: unat_word_ariths)
  also have "\<dots> = unat ?va + unat (tagged_length orig) - 2 ^ 64"
    using assms(5) bound by (simp add: mod_if)
  finally have sum: "unat (?va + ?len) = unat ?va + unat (tagged_length orig) - 2 ^ 64" .
  have "unat (mr_addr mr + mr_length mr) = unat (mr_addr mr) + unat (mr_length mr)"
    by (rule unat_add_no_overflow) (use assms(4) bound in simp)
  then have "tagged_accepted mr orig"
    using assms(4,6) sum by (simp add: tagged_accepted_def word_le_nat_alt)
  from ddp_place_tagged_data_write [OF assms(1,2) this assms(3)]
  have p: "ddp_place_tagged_data D qp orig = Some (qp\<lparr>qp_mem := mem_write (qp_mem qp) ?va (tagged_payload orig)\<rparr>)" .
  have "0 < unat (tagged_length orig)" using assms(5) bound by linarith
  then have "mem_write (qp_mem qp) ?va (tagged_payload orig) ?va = ctx_rdmap orig 14"
    by (simp add: mem_write_def tagged_payload_def)
  then show ?thesis using p assms(4) by (simp add: in_region_def)
qed

theorem ddp_place_tagged_data_overflow_witness:
  "\<exists>qp'. ddp_place_tagged_data example_env region_qp (write_ctx (- 8)) = Some qp' \<and> \<not> in_region region_mr (- 8) \<and> qp_mem qp' (- 8) = 0xff"
proof -
  have "\<exists>qp'. ddp_place_tagged_data example_env region_qp (write_ctx (- 8)) = Some qp' \<and>
      \<not> in_region region_mr (tg_offset (tagged_hdr (write_ctx (- 8)))) \<and>
      qp_mem qp' (tg_offset (tagged_hdr (write_ctx (- 8)))) = ctx_rdmap (write_ctx (- 8)) 14"
    by (rule ddp_place_tagged_data_overflow [OF region_qp_pd(1)])
      (simp_all add: write_ctx_fields region_qp_pd RDMAP_GET_OPCODE_def RDMAP_V1_def rdmap_opcode_rdma_write_def region_mr_def)
  then show ?thesis by (simp add: write_ctx_fields)
qed

end
