(* ===== verification/Reassembly.thy ===== *)
theory Reassembly
  imports Rdmap_Recv
begin

text \<open>
  Reassembly of SEND messages by the receiver: what is in the buffers of a receive request after
  any set of the fragments of its message, when the request is complete, and the posting of the
  completed requests in order. It gives the receiving half of the end-to-end properties.
\<close>

section \<open>Fragments of a message\<close>

lemma frag_index: "0 < mtu \<Longrightarrow> k div mtu = j \<longleftrightarrow> j * mtu \<le> k \<and> k < j * mtu + (mtu :: nat)"
  by (metis add.commute div_nat_eqI div_times_less_eq_dividend dividend_less_div_times mult.commute mult_Suc_right mult_Suc)

definition frag_count :: "nat \<Rightarrow> 'a list \<Rightarrow> nat" where
  "frag_count mtu msg = (length msg + mtu - 1) div mtu"

lemma frag_count_less: "0 < mtu \<Longrightarrow> j < frag_count mtu msg \<longleftrightarrow> j * mtu < length msg"
proof -
  assume m: "0 < mtu"
  have "j < frag_count mtu msg \<longleftrightarrow> Suc j * mtu \<le> length msg + mtu - 1"
    unfolding frag_count_def using m by (simp add: less_eq_div_iff_mult_less_eq Suc_le_eq [symmetric] del: mult_Suc)
  also have "\<dots> \<longleftrightarrow> j * mtu < length msg" using m by auto
  finally show ?thesis .
qed

lemma frag_last: "0 < mtu \<Longrightarrow> j < frag_count mtu msg \<Longrightarrow> length msg - j * mtu \<le> mtu \<longleftrightarrow> Suc j = frag_count mtu msg"
  using frag_count_less [of mtu j msg] frag_count_less [of mtu "Suc j" msg] by auto

text \<open>The number of bytes in the fragments \<open>S\<close>.\<close>

definition received :: "nat \<Rightarrow> 'a list \<Rightarrow> nat set \<Rightarrow> nat" where
  "received mtu msg S = (\<Sum>j \<in> S. length (take mtu (drop (j * mtu) msg)))"

lemma received_lessThan: "received mtu msg {..<n} = min (length msg) (n * mtu)"
  by (induction n) (auto simp: received_def lessThan_Suc min_def)

lemma received_all: "0 < mtu \<Longrightarrow> received mtu msg {..<frag_count mtu msg} = length msg"
  using frag_count_less [of mtu "frag_count mtu msg" msg] by (simp add: received_lessThan)

lemma received_le:
  assumes "0 < mtu" "S \<subseteq> {..<frag_count mtu msg}"
  shows "received mtu msg S \<le> length msg" "received mtu msg S = length msg \<longleftrightarrow> S = {..<frag_count mtu msg}"
proof -
  let ?l = "\<lambda>j. length (take mtu (drop (j * mtu) msg))"
  show "received mtu msg S \<le> length msg"
    using sum_mono2 [OF _ assms(2), of ?l] received_all [OF assms(1), of msg] by (simp add: received_def)
  show "received mtu msg S = length msg \<longleftrightarrow> S = {..<frag_count mtu msg}"
  proof
    assume eq: "received mtu msg S = length msg"
    have "j \<in> S" if j: "j < frag_count mtu msg" for j
    proof (rule ccontr)
      assume "j \<notin> S"
      moreover have "0 < ?l j" using frag_count_less [OF assms(1), of j msg] j assms(1) by simp
      moreover have fin: "finite S" using assms(2) finite_subset by blast
      ultimately have "received mtu msg S < received mtu msg (insert j S)" by (simp add: received_def)
      also have "\<dots> \<le> received mtu msg {..<frag_count mtu msg}"
        unfolding received_def by (rule sum_mono2) (use assms(2) j in auto)
      finally show False using received_all [OF assms(1), of msg] eq by simp
    qed
    then show "S = {..<frag_count mtu msg}" using assms(2) by auto
  qed (use received_all [OF assms(1), of msg] in simp)
qed

lemma nth_overlay: "i + length ys \<le> length xs \<Longrightarrow> k < length xs \<Longrightarrow>
    overlay xs i ys ! k = (if i \<le> k \<and> k < i + length ys then ys ! (k - i) else xs ! k)"
  by (auto simp: overlay_def nth_append)

section \<open>Reassembly\<close>

definition carries :: "packet_context \<Rightarrow> u8 list \<Rightarrow> bool" where
  "carries orig bs \<longleftrightarrow> ctx_ddp_seg_length orig = of_nat (length bs) \<and> holds_at (ctx_rdmap orig) 0 bs"

definition send_hdr :: "nat \<Rightarrow> u8 list \<Rightarrow> u32 \<Rightarrow> nat \<Rightarrow> rdmap_untagged_packet" where
  "send_hdr mtu msg msn ofs =
     \<lparr>ddp_flags = (if length msg - ofs \<le> mtu then DDP_V1_UNTAGGED_LAST_DF else DDP_V1_UNTAGGED_DF),
      rdmap_info = rdmap_opcode_send OR RDMAP_V1, sink_stag = 0, ut_qn = 0, ut_msn = msn, ut_mo = of_nat ofs\<rparr>"

definition send_bytes :: "nat \<Rightarrow> u8 list \<Rightarrow> u32 \<Rightarrow> nat \<Rightarrow> u8 list" where
  "send_bytes mtu msg msn ofs = rdmap_untagged_bytes (send_hdr mtu msg msn ofs) @ take mtu (drop ofs msg)"

lemma send_frag_bytes: "send_frag i w mtu msg ofs = (Some i, None, send_bytes mtu msg (sw_msn w) ofs)"
  by (simp add: send_frag_def send_bytes_def send_hdr_def)

text \<open>The buffers of a receive request that is ready for a message.\<close>

definition recv_buffers :: "usiw_recv_wqe \<Rightarrow> iovec list" where
  "recv_buffers w = iovs_of (rw_iov w) (rw_iov_count w)"

definition recv_ready :: "nat \<Rightarrow> u32 \<Rightarrow> usiw_recv_wqe \<Rightarrow> bool" where
  "recv_ready n msn w \<longleftrightarrow> 16 * rw_iov_count w \<le> length (rw_iov w) \<and> iovs_disjoint (recv_buffers w) \<and>
     iov_total (recv_buffers w) = unat (rw_total_request_size w) \<and> n \<le> unat (rw_total_request_size w) \<and>
     rw_msn w = msn \<and> rw_remote_ep w \<and> rw_recv_size w = 0 \<and> rw_input_size w = 0 \<and> \<not> rw_complete w"

definition wqe_after :: "nat \<Rightarrow> u8 list \<Rightarrow> nat set \<Rightarrow> usiw_recv_wqe \<Rightarrow> usiw_recv_wqe" where
  "wqe_after mtu msg S w = w\<lparr>rw_recv_size := of_nat (received mtu msg S),
     rw_input_size := (if frag_count mtu msg - 1 \<in> S then of_nat (length msg) else 0),
     rw_complete := (S = {..<frag_count mtu msg})\<rparr>"

definition placed :: "nat \<Rightarrow> u8 list \<Rightarrow> nat set \<Rightarrow> iovec list \<Rightarrow> memory \<Rightarrow> memory \<Rightarrow> bool" where
  "placed mtu msg S vs m m' \<longleftrightarrow>
     (\<forall>k < iov_total vs. gather m' vs ! k = (if k < length msg \<and> k div mtu \<in> S then msg ! k else gather m vs ! k)) \<and>
     (\<forall>x. (\<forall>v \<in> set vs. x \<notin> iov_range v) \<longrightarrow> m' x = m x)"

lemma placed_all:
  assumes "0 < mtu" "placed mtu msg {..<frag_count mtu msg} vs m m'" "length msg \<le> iov_total vs"
  shows "take (length msg) (gather m' vs) = msg"
proof (rule nth_equalityI)
  show len: "length (take (length msg) (gather m' vs)) = length msg" using assms(3) by simp
  fix k assume "k < length (take (length msg) (gather m' vs))"
  then have k: "k < length msg" using len by simp
  have "k div mtu < frag_count mtu msg" 
    using frag_count_less [OF assms(1), of "k div mtu" msg] k div_times_less_eq_dividend [of k mtu] by linarith
  then show "take (length msg) (gather m' vs) ! k = msg ! k" using assms(2,3) k by (simp add: placed_def)
qed

lemma placed_step:
  assumes "0 < mtu" "placed mtu msg S vs m m'" "j < frag_count mtu msg" "length msg \<le> iov_total vs" "iov_total vs < 2 ^ 64"
    and "iovs_disjoint vs" "pl = take mtu (drop (j * mtu) msg)" "unat ofs = j * mtu" "unat len = length pl"
  shows "placed mtu msg (insert j S) vs m (memcpy_to_iov m' vs pl len ofs)"
proof -
  have j: "j * mtu < length msg" using frag_count_less [OF assms(1), of j msg] assms(3) by simp
  have le: "j * mtu + length pl \<le> length msg" using j by (simp add: assms(7))
  have g: "gather (memcpy_to_iov m' vs pl len ofs) vs = overlay (gather m' vs) (j * mtu) pl"
    using memcpy_to_iov_loop_overlay [of 0 vs 0 len ofs pl m'] assms(4-6,8,9) le by (simp add: memcpy_to_iov_def)
  have "gather (memcpy_to_iov m' vs pl len ofs) vs ! k =
      (if k < length msg \<and> k div mtu \<in> insert j S then msg ! k else gather m vs ! k)" if k: "k < iov_total vs" for k
  proof -
    have "overlay (gather m' vs) (j * mtu) pl ! k = (if j * mtu \<le> k \<and> k < j * mtu + length pl then pl ! (k - j * mtu) else gather m' vs ! k)"
      by (rule nth_overlay) (use le assms(4) k in simp_all)
    moreover have "j * mtu \<le> k \<and> k < j * mtu + length pl \<longleftrightarrow> k < length msg \<and> k div mtu = j"
      unfolding frag_index [OF assms(1)] assms(7) using j by auto
    moreover have "pl ! (k - j * mtu) = msg ! k" if "j * mtu \<le> k" "k < j * mtu + length pl"
      using that j unfolding assms(7) by simp
    ultimately show ?thesis using assms(2) k unfolding g placed_def by auto
  qed
  moreover have "memcpy_to_iov m' vs pl len ofs x = m x" if "\<forall>v \<in> set vs. x \<notin> iov_range v" for x
    using memcpy_to_iov_loop_frame [of 0 vs x pl len 0 ofs m'] assms(2,5) that by (simp add: memcpy_to_iov_def placed_def)
  ultimately show ?thesis by (simp add: placed_def)
qed

definition recv_state :: "'r usiw_qp \<Rightarrow> nat \<Rightarrow> memory \<Rightarrow> usiw_recv_wqe \<Rightarrow> 'r usiw_qp" where
  "recv_state qp i m w = upd_recv_wqe i (\<lambda>_. w) (qp\<lparr>qp_mem := m\<rparr>)"

lemma recv_state_simps [simp]:
  "recv_wqe (recv_state qp i m w) i = w" "qp_mem (recv_state qp i m w) = m" "rq_active (rq0 (recv_state qp i m w)) = rq_active (rq0 qp)"
  "remote_ep (recv_state qp i m w) = remote_ep qp" "upd_recv_wqe i f (recv_state qp i m w) = recv_state qp i m (f w)"
  "(recv_state qp i m w)\<lparr>qp_mem := m'\<rparr> = recv_state qp i m' w"
  "j \<noteq> i \<Longrightarrow> recv_wqe (recv_state qp i m w) j = recv_wqe qp j"
  "qp_ok q cap (recv_state qp i m w) = qp_ok q cap qp" "cqs (recv_state qp i m w) = cqs qp" "recv_cq (recv_state qp i m w) = recv_cq qp"
  by (simp_all add: recv_state_def upd_recv_wqe_def qp_ok_def rq_ok_def rq_entries_def)

lemma place_send_recv_state:
  "place_send (recv_state qp i m w) orig i ofs len l =
     (if l \<and> rw_input_size w \<noteq> 0 then Some (False, recv_state qp i m w)
      else let w1 = (if l then w\<lparr>rw_input_size := ofs + len\<rparr> else w); w2 = w1\<lparr>rw_recv_size := rw_recv_size w1 + len\<rparr>
        in if 16 * rw_iov_count w \<le> length (rw_iov w) \<and> (rw_input_size w2 = 0 \<or> rw_recv_size w2 \<le> rw_input_size w2)
           then Some (True, recv_state qp i (memcpy_to_iov m (recv_buffers w)
                  (map (\<lambda>k. ctx_rdmap orig (18 + k)) [0..<min (unat len) (iov_total (recv_buffers w))]) len ofs)
                  (if rw_recv_size w2 = rw_input_size w2 then w2\<lparr>rw_complete := True\<rparr> else w2))
           else None)"
  by (cases l) (simp_all add: place_send_def Let_def assert_c_def recv_buffers_def)

lemma send_ctx_fields:
  assumes "carries orig (send_bytes mtu msg msn ofs)" "ofs < length msg" "length msg < 2 ^ 32"
  shows "get_rdmap_untagged (ctx_rdmap orig) 0 = send_hdr mtu msg msn ofs"
    and "map (\<lambda>k. ctx_rdmap orig (18 + k)) [0..<length (take mtu (drop ofs msg))] = take mtu (drop ofs msg)"
    and "ctx_ddp_seg_length orig - 18 = of_nat (length (take mtu (drop ofs msg)))"
    and "unat (ucast (ut_mo (send_hdr mtu msg msn ofs)) :: u64) = ofs"
    and "DDP_GET_L (ddp_flags (send_hdr mtu msg msn ofs)) \<noteq> 0 \<longleftrightarrow> length msg - ofs \<le> mtu"
proof -
  have h: "holds_at (ctx_rdmap orig) 0 (rdmap_untagged_bytes (send_hdr mtu msg msn ofs))"
    "holds_at (ctx_rdmap orig) 18 (take mtu (drop ofs msg))"
    using assms(1) by (simp_all add: carries_def send_bytes_def)
  show "get_rdmap_untagged (ctx_rdmap orig) 0 = send_hdr mtu msg msn ofs"
    using get_rdmap_untagged_bytes [OF h(1)] by (simp add: rdmap_untagged_packet.defs)
  show "map (\<lambda>k. ctx_rdmap orig (18 + k)) [0..<length (take mtu (drop ofs msg))] = take mtu (drop ofs msg)"
    using h(2) unfolding holds_at_map .
  show "ctx_ddp_seg_length orig - 18 = of_nat (length (take mtu (drop ofs msg)))"
    using assms(1) by (simp add: carries_def send_bytes_def)
  have "unat (of_nat ofs :: u32) = ofs" using assms(2,3) by (simp add: unsigned_of_nat take_bit_nat_eq_self)
  then show "unat (ucast (ut_mo (send_hdr mtu msg msn ofs)) :: u64) = ofs" by (simp add: send_hdr_def)
  show "DDP_GET_L (ddp_flags (send_hdr mtu msg msn ofs)) \<noteq> 0 \<longleftrightarrow> length msg - ofs \<le> mtu"
    by (simp add: send_hdr_def DDP_GET_L_def DDP_V1_UNTAGGED_LAST_DF_def DDP_V1_UNTAGGED_DF_def)
qed

lemma of_nat_64_inj: "a < 2 ^ 64 \<Longrightarrow> b < 2 ^ 64 \<Longrightarrow> (of_nat a :: u64) = of_nat b \<longleftrightarrow> a = b"
  by (metis unat_of_nat_64)

lemma of_nat_64_le: "a < 2 ^ 64 \<Longrightarrow> b < 2 ^ 64 \<Longrightarrow> (of_nat a :: u64) \<le> of_nat b \<longleftrightarrow> a \<le> b"
  by (simp add: word_le_nat_alt unat_of_nat_64)

lemma place_send_fragment:
  assumes mtu: "0 < mtu" and msg: "length msg < 2 ^ 32" and ready: "recv_ready (length msg) msn w0"
    and S: "S \<subseteq> {..<frag_count mtu msg}" "j < frag_count mtu msg" "j \<notin> S"
    and orig: "carries orig (send_bytes mtu msg msn (j * mtu))"
    and m: "placed mtu msg S (recv_buffers w0) m0 m"
    and hdr: "hdr = send_hdr mtu msg msn (j * mtu)" "ofs = ucast (ut_mo hdr)" "len = ctx_ddp_seg_length orig - 18"
  shows "\<exists>m'. place_send (recv_state qp i m (wqe_after mtu msg S w0)) orig i ofs len (DDP_GET_L (ddp_flags hdr) \<noteq> 0) =
      Some (True, recv_state qp i m' (wqe_after mtu msg (insert j S) w0)) \<and> placed mtu msg (insert j S) (recv_buffers w0) m0 m'"
    and "ofs + len \<le> rw_total_request_size w0"
proof -
  define n where "n = frag_count mtu msg"
  define pl where "pl = take mtu (drop (j * mtu) msg)"
  define w where "w = wqe_after mtu msg S w0"
  have j: "j * mtu < length msg" using frag_count_less [OF mtu, of j msg] S(2) by simp
  note f = send_ctx_fields [OF orig j msg]
  have len: "len = of_nat (length pl)" "length pl \<le> length msg" "0 < length pl" using f(3) j mtu by (simp_all add: hdr pl_def)
  have ulen: "unat len = length pl" "unat ofs = j * mtu" using len msg unat_of_nat_64 [of "length pl"] f(4) by (simp_all add: hdr)
  have tot: "length msg \<le> iov_total (recv_buffers w0)" "iov_total (recv_buffers w0) < 2 ^ 64"
    using ready unat_bound [of "rw_total_request_size w0"] by (simp_all add: recv_ready_def)
  have "unat (ofs + len) = j * mtu + length pl"
    using unat_add_no_overflow [of ofs len] ulen len(2) j msg by simp
  moreover have le: "j * mtu + length pl \<le> length msg" using j by (simp add: pl_def)
  ultimately show "ofs + len \<le> rw_total_request_size w0"
    using ready by (simp add: recv_ready_def word_le_nat_alt)
  have last: "length msg - j * mtu \<le> mtu \<longleftrightarrow> Suc j = n" using frag_last [OF mtu S(2)] by (simp add: n_def)
  have fin: "finite S" using S(1) finite_subset by blast
  have rec: "received mtu msg (insert j S) = received mtu msg S + length pl" using fin S(3) by (simp add: received_def pl_def)
  have S': "insert j S \<subseteq> {..<frag_count mtu msg}" using S by simp
  note le' = received_le [OF mtu S']
  have small: "received mtu msg (insert j S) < 2 ^ 64" "length msg < 2 ^ 64" using le'(1) msg by simp_all
  define m' where "m' = memcpy_to_iov m (recv_buffers w0) pl len ofs"
  have m': "placed mtu msg (insert j S) (recv_buffers w0) m0 m'"
    unfolding m'_def by (rule placed_step [OF mtu m S(2) tot]) (use ready ulen in \<open>simp_all add: recv_ready_def pl_def\<close>)
  have src: "map (\<lambda>k. ctx_rdmap orig (18 + k)) [0..<min (unat len) (iov_total (recv_buffers w0))] = pl"
    using f(2) ulen(1) len(2) tot(1) by (simp add: pl_def min_absorb1)
  have iovs: "iovs_of (rw_iov w0) (rw_iov_count w0) = recv_buffers w0" "16 * rw_iov_count w0 \<le> length (rw_iov w0)"
    using ready by (simp_all add: recv_buffers_def recv_ready_def)
  have nj: "S \<noteq> {..<frag_count mtu msg}" "n - 1 \<in> insert j S \<longleftrightarrow> Suc j = n \<or> n - 1 \<in> S" using S by (auto simp: n_def)
  show "\<exists>m'. place_send (recv_state qp i m (wqe_after mtu msg S w0)) orig i ofs len (DDP_GET_L (ddp_flags hdr) \<noteq> 0) =
      Some (True, recv_state qp i m' (wqe_after mtu msg (insert j S) w0)) \<and> placed mtu msg (insert j S) (recv_buffers w0) m0 m'"
  proof (intro exI [of _ m'] conjI m')
    define l where "l \<longleftrightarrow> DDP_GET_L (ddp_flags hdr) \<noteq> 0"
    have l: "l \<longleftrightarrow> Suc j = n" using f(5) last by (simp add: l_def hdr)
    define w1 where "w1 = (if l then w\<lparr>rw_input_size := ofs + len\<rparr> else w)"
    define w2 where "w2 = w1\<lparr>rw_recv_size := rw_recv_size w1 + len\<rparr>"
    have "ofs + len = of_nat (length msg)" if "Suc j = n"
      using that last j ulen \<open>unat (ofs + len) = j * mtu + length pl\<close> using unat_of_nat_64 [OF small(2)] by (simp add: word_unat_eq_iff pl_def)
    then have w2: "rw_recv_size w2 = of_nat (received mtu msg (insert j S))"
      "rw_input_size w2 = (if n - 1 \<in> insert j S then of_nat (length msg) else 0)"
      using l S by (auto simp: w2_def w1_def w_def wqe_after_def rec len n_def)
    have cmp: "of_nat (received mtu msg (insert j S)) \<le> (of_nat (length msg) :: u64)"
      "(of_nat (received mtu msg (insert j S)) :: u64) = of_nat (length msg) \<longleftrightarrow> insert j S = {..<frag_count mtu msg}"
      "(of_nat (received mtu msg (insert j S)) :: u64) \<noteq> 0"
      using of_nat_64_le [OF small] of_nat_64_inj [OF small] le' of_nat_64_inj [OF small(1), of 0] rec len(3) by simp_all
    have all: "n - 1 \<in> insert j S" if "insert j S = {..<frag_count mtu msg}" using that S(2) by (auto simp: n_def)
    have fin2: "rw_input_size w2 = 0 \<or> rw_recv_size w2 \<le> rw_input_size w2"
      "rw_recv_size w2 = rw_input_size w2 \<longleftrightarrow> insert j S = {..<frag_count mtu msg}"
      using cmp all by (auto simp: w2)
    have eq: "(if rw_recv_size w2 = rw_input_size w2 then w2\<lparr>rw_complete := True\<rparr> else w2) = wqe_after mtu msg (insert j S) w0"
      using fin2(2) w2 nj(1) by (cases w0) (auto simp: w2_def w1_def w_def wqe_after_def n_def)
    have fst: "\<not> (l \<and> rw_input_size w \<noteq> 0)"
    proof
      assume *: "l \<and> rw_input_size w \<noteq> 0"
      then have "n - 1 = j" using l by auto
      then show False using * S(3) by (simp add: w_def wqe_after_def n_def split: if_splits)
    qed
    have w: "rw_iov w = rw_iov w0" "rw_iov_count w = rw_iov_count w0" "recv_buffers w = recv_buffers w0"
      by (simp_all add: w_def wqe_after_def recv_buffers_def)
    have "place_send (recv_state qp i m w) orig i ofs len l =
       Some (True, recv_state qp i m' (if rw_recv_size w2 = rw_input_size w2 then w2\<lparr>rw_complete := True\<rparr> else w2))"
      unfolding place_send_recv_state if_not_P [OF fst] Let_def w1_def [symmetric] w2_def [symmetric] w src m'_def
      using iovs(2) fin2(1) by simp
    then show "place_send (recv_state qp i m (wqe_after mtu msg S w0)) orig i ofs len (DDP_GET_L (ddp_flags hdr) \<noteq> 0) =
        Some (True, recv_state qp i m' (wqe_after mtu msg (insert j S) w0))"
      unfolding eq w_def l_def .
  qed
qed

lemma process_send_fragment:
  assumes mtu: "0 < mtu" and msg: "length msg < 2 ^ 32" and ready: "recv_ready (length msg) msn w0"
    and act: "rq_active (rq0 qp) = i # rest"
    and S: "S \<subseteq> {..<frag_count mtu msg}" "j < frag_count mtu msg" "j \<notin> S"
    and orig: "carries orig (send_bytes mtu msg msn (j * mtu))"
    and m: "placed mtu msg S (recv_buffers w0) m0 m"
  shows "\<exists>m'. process_send D (recv_state qp i m (wqe_after mtu msg S w0)) orig =
      (let qp' = recv_state qp i m' (wqe_after mtu msg (insert j S) w0)
       in if serial_less_32 (ctx_psn orig) (recv_ack_psn (remote_ep qp)) then post_completed_recvs D qp' else Some qp') \<and>
    placed mtu msg (insert j S) (recv_buffers w0) m0 m'"
proof -
  let ?hdr = "send_hdr mtu msg msn (j * mtu)" and ?qp = "recv_state qp i m (wqe_after mtu msg S w0)"
  let ?ofs = "ucast (ut_mo ?hdr) :: u64" and ?len = "ctx_ddp_seg_length orig - 18"
  have j: "j * mtu < length msg" using frag_count_less [OF mtu, of j msg] S(2) by simp
  note hdr = send_ctx_fields(1) [OF orig j msg]
  have w: "rw_msn (wqe_after mtu msg S' w0) = msn" "rw_total_request_size (wqe_after mtu msg S' w0) = rw_total_request_size w0"
    "rw_remote_ep (wqe_after mtu msg S' w0)" for S'
    using ready by (simp_all add: wqe_after_def recv_ready_def)
  have "ut_msn ?hdr = msn" by (simp add: send_hdr_def)
  then have look: "usiw_recv_wqe_queue_lookup (rq0 ?qp) (ut_msn ?hdr) = Some i"
    using act w(1) by (simp add: usiw_recv_wqe_queue_lookup_def)
  obtain m' where p: "place_send ?qp orig i ?ofs ?len (DDP_GET_L (ddp_flags ?hdr) \<noteq> 0) =
      Some (True, recv_state qp i m' (wqe_after mtu msg (insert j S) w0))"
    "placed mtu msg (insert j S) (recv_buffers w0) m0 m'"
    using place_send_fragment(1) [OF mtu msg ready S orig m refl refl refl] by blast
  have le: "\<not> ?ofs + ?len > rw_total_request_size w0"
    using place_send_fragment(2) [OF mtu msg ready S orig m refl refl refl] by simp
  show ?thesis
    by (intro exI [of _ m'] conjI p(2))
      (simp add: process_send_def hdr look p(1) le w act Let_def)
qed

lemma post_completed_recvs_idle:
  "rq_active (rq0 qp) = i # rest \<Longrightarrow> \<not> rw_complete (recv_wqe qp i) \<Longrightarrow> post_completed_recvs D qp = Some qp"
  by (subst post_completed_recvs.simps) simp

lemma process_sends_partial:
  assumes mtu: "0 < mtu" and msg: "length msg < 2 ^ 32" and ready: "recv_ready (length msg) msn w0"
    and act: "rq_active (rq0 qp) = i # rest"
    and "list_all2 (\<lambda>orig j. carries orig (send_bytes mtu msg msn (j * mtu))) origs js"
    and "distinct js" "S \<inter> set js = {}" "S \<union> set js \<subset> {..<frag_count mtu msg}"
    and "placed mtu msg S (recv_buffers w0) m0 m"
  shows "\<exists>m'. for_each (\<lambda>orig qp. process_send D qp orig) origs (recv_state qp i m (wqe_after mtu msg S w0)) =
      Some (recv_state qp i m' (wqe_after mtu msg (S \<union> set js) w0)) \<and>
    placed mtu msg (S \<union> set js) (recv_buffers w0) m0 m'"
  using assms(5-)
proof (induction origs js arbitrary: S m rule: list_all2_induct)
  case (Cons orig origs j js)
  have S: "S \<subseteq> {..<frag_count mtu msg}" "j < frag_count mtu msg" "j \<notin> S" using Cons.prems by auto
  define qp1 where "qp1 = (\<lambda>m'. recv_state qp i m' (wqe_after mtu msg (insert j S) w0))"
  obtain m1 where m1: "process_send D (recv_state qp i m (wqe_after mtu msg S w0)) orig =
      (if serial_less_32 (ctx_psn orig) (recv_ack_psn (remote_ep qp)) then post_completed_recvs D (qp1 m1) else Some (qp1 m1))"
    "placed mtu msg (insert j S) (recv_buffers w0) m0 m1"
    using process_send_fragment [OF mtu msg ready act S Cons.hyps(1) Cons.prems(4), of D] unfolding Let_def qp1_def by blast
  have "insert j S \<noteq> {..<frag_count mtu msg}" using Cons.prems(3) by auto
  then have "post_completed_recvs D (qp1 m1) = Some (qp1 m1)"
    using act by (intro post_completed_recvs_idle [of _ i rest]) (simp_all add: qp1_def wqe_after_def)
  then have step: "process_send D (recv_state qp i m (wqe_after mtu msg S w0)) orig = Some (qp1 m1)" using m1(1) by simp
  have "S \<union> set (j # js) = insert j S \<union> set js" by simp
  then show ?case using Cons.IH [OF _ _ _ m1(2)] Cons.prems(1-3) step by (auto simp: qp1_def)
next
  case Nil
  then show ?case by (intro exI [of _ m]) simp
qed

section \<open>Completion of receive requests\<close>

definition recv_wc :: "'r usiw_qp \<Rightarrow> ibv_wc_status \<Rightarrow> nat \<Rightarrow> usiw_wc \<Rightarrow> bool" where
  "recv_wc qp st i wc \<longleftrightarrow> wc_wr_context wc = rw_wr_context (recv_wqe qp i) \<and> wc_status wc = st \<and> wc_opcode wc = IBV_WC_RECV \<and>
     wc_byte_len wc = ucast (rw_input_size (recv_wqe qp i)) \<and> wc_qp_num wc = qp_num qp"

lemma post_completed_recvs_stuck:
  "post_completed_recvs D qp = Some qp' \<Longrightarrow> ring_spec D q cap \<Longrightarrow> rq_active (rq0 qp) = i # rest \<Longrightarrow>
     rw_complete (recv_wqe qp i) \<Longrightarrow> q (cq_free_ring (cqs qp (recv_cq qp))) = [] \<Longrightarrow> False"
proof (induction rule: post_completed_recvs.raw_induct [rotated 1, consumes 1])
  case (1 f D qp qp')
  then show ?case using post_recv_cqe_empty [of D q cap qp i IBV_WC_SUCCESS] by simp
qed

lemma post_completed_recvs_posts:
  assumes spec: "ring_spec D q cap"
  shows "qp_ok q cap qp \<Longrightarrow> rq_active (rq0 qp) = xs @ rest \<Longrightarrow> (\<forall>i \<in> set xs. rw_complete (recv_wqe qp i)) \<Longrightarrow>
    rest = [] \<or> \<not> rw_complete (recv_wqe qp (hd rest)) \<Longrightarrow>
    if length xs \<le> length (q (cq_free_ring (cqs qp (recv_cq qp))))
    then \<exists>qp' wcs. post_completed_recvs D qp = Some qp' \<and> qp_ok q cap qp' \<and> rq_active (rq0 qp') = rest \<and>
      q (rq_free_ring (rq0 qp')) = q (rq_free_ring (rq0 qp)) @ xs \<and>
      cq_view q (cqs qp' (recv_cq qp)) = cq_view q (cqs qp (recv_cq qp)) @ wcs \<and>
      list_all2 (recv_wc qp IBV_WC_SUCCESS) xs wcs \<and>
      (rq0 qp')\<lparr>rq_active := rq_active (rq0 qp), rq_free_ring := rq_free_ring (rq0 qp)\<rparr> = rq0 qp \<and>
      qp'\<lparr>rq0 := rq0 qp, cqs := cqs qp, io := io qp\<rparr> = qp
    else post_completed_recvs D qp = None"
proof (induction xs arbitrary: qp)
  case Nil
  then have "post_completed_recvs D qp = Some qp"
    by (subst post_completed_recvs.simps) (auto split: list.splits)
  then show ?case using Nil by auto
next
  case (Cons x xs)
  show ?case
  proof (cases "q (cq_free_ring (cqs qp (recv_cq qp)))")
    case Nil
    then show ?thesis
      using post_completed_recvs_stuck [OF _ spec _ _ Nil, of _ x "xs @ rest"] Cons.prems
      by (cases "post_completed_recvs D qp") auto
  next
    case (Cons c cs)
    have act: "x \<in> set (rq_active (rq0 qp))" using Cons.prems by simp
    obtain qp1 wc where p: "post_recv_cqe D qp x IBV_WC_SUCCESS = Some (Ok, qp1)" "qp_ok q cap qp1"
      "cqe_posted q (recv_cq qp) wc qp qp1" "recv_wc qp IBV_WC_SUCCESS x wc"
      "rq_active (rq0 qp1) = xs @ rest" "q (rq_free_ring (rq0 qp1)) = q (rq_free_ring (rq0 qp)) @ [x]"
      "(rq0 qp1)\<lparr>rq_active := rq_active (rq0 qp), rq_free_ring := rq_free_ring (rq0 qp)\<rparr> = rq0 qp"
      "qp1\<lparr>rq0 := rq0 qp, cqs := cqs qp, io := io qp\<rparr> = qp"
      by (rule post_recv_cqe_spec [OF spec Cons.prems(1) act, of IBV_WC_SUCCESS])
        (use Cons Cons.prems in \<open>auto simp: recv_wc_def\<close>)
    have same: "recv_cq qp1 = recv_cq qp" "qp_num qp1 = qp_num qp" "rq_storage (rq0 qp1) = rq_storage (rq0 qp)"
      using arg_cong [OF p(8), of recv_cq] arg_cong [OF p(8), of qp_num] arg_cong [OF p(7), of rq_storage] by simp_all
    have wc: "recv_wc qp1 st = recv_wc qp st" for st by (simp add: fun_eq_iff recv_wc_def same)
    have free: "length (q (cq_free_ring (cqs qp (recv_cq qp)))) = Suc (length (q (cq_free_ring (cqs qp1 (recv_cq qp1)))))"
      and view: "cq_view q (cqs qp1 (recv_cq qp1)) = cq_view q (cqs qp (recv_cq qp)) @ [wc]"
      using p(3) by (simp_all add: same cqe_posted_def)
    have unf: "post_completed_recvs D qp = post_completed_recvs D qp1"
      using Cons.prems by (subst post_completed_recvs.simps) (simp add: p(1))
    have IH: "if length xs \<le> length (q (cq_free_ring (cqs qp1 (recv_cq qp1))))
      then \<exists>qp' wcs. post_completed_recvs D qp1 = Some qp' \<and> qp_ok q cap qp' \<and> rq_active (rq0 qp') = rest \<and>
        q (rq_free_ring (rq0 qp')) = q (rq_free_ring (rq0 qp1)) @ xs \<and>
        cq_view q (cqs qp' (recv_cq qp1)) = cq_view q (cqs qp1 (recv_cq qp1)) @ wcs \<and>
        list_all2 (recv_wc qp1 IBV_WC_SUCCESS) xs wcs \<and>
        (rq0 qp')\<lparr>rq_active := rq_active (rq0 qp1), rq_free_ring := rq_free_ring (rq0 qp1)\<rparr> = rq0 qp1 \<and>
        qp'\<lparr>rq0 := rq0 qp1, cqs := cqs qp1, io := io qp1\<rparr> = qp1
      else post_completed_recvs D qp1 = None"
      by (rule Cons.IH [OF p(2,5)]) (use Cons.prems same in simp_all)
    show ?thesis
    proof (cases "length xs \<le> length (q (cq_free_ring (cqs qp1 (recv_cq qp1))))")
      case True
      then obtain qp2 wcs where r: "post_completed_recvs D qp1 = Some qp2" "qp_ok q cap qp2" "rq_active (rq0 qp2) = rest"
        "q (rq_free_ring (rq0 qp2)) = q (rq_free_ring (rq0 qp1)) @ xs"
        "cq_view q (cqs qp2 (recv_cq qp1)) = cq_view q (cqs qp1 (recv_cq qp1)) @ wcs"
        "list_all2 (recv_wc qp1 IBV_WC_SUCCESS) xs wcs"
        "(rq0 qp2)\<lparr>rq_active := rq_active (rq0 qp1), rq_free_ring := rq_free_ring (rq0 qp1)\<rparr> = rq0 qp1"
        "qp2\<lparr>rq0 := rq0 qp1, cqs := cqs qp1, io := io qp1\<rparr> = qp1"
        using IH by auto
      have "(rq0 qp2)\<lparr>rq_active := rq_active (rq0 qp), rq_free_ring := rq_free_ring (rq0 qp)\<rparr> = rq0 qp"
        using arg_cong [OF r(7), of "\<lambda>s. s\<lparr>rq_active := rq_active (rq0 qp), rq_free_ring := rq_free_ring (rq0 qp)\<rparr>"] p(7) by simp
      moreover have "qp2\<lparr>rq0 := rq0 qp, cqs := cqs qp, io := io qp\<rparr> = qp"
        using arg_cong [OF r(8), of "\<lambda>s. s\<lparr>rq0 := rq0 qp, cqs := cqs qp, io := io qp\<rparr>"] p(8) by simp
      moreover have "q (rq_free_ring (rq0 qp2)) = q (rq_free_ring (rq0 qp)) @ x # xs"
        "cq_view q (cqs qp2 (recv_cq qp)) = cq_view q (cqs qp (recv_cq qp)) @ wc # wcs"
        "list_all2 (recv_wc qp IBV_WC_SUCCESS) (x # xs) (wc # wcs)"
        using r(4-6) p(4,6) view by (simp_all add: same wc)
      ultimately show ?thesis unfolding unf using r(1-3) True free by auto
    next
      case False
      then show ?thesis unfolding unf using IH free by simp
    qed
  qed
qed

lemma for_each_append: "for_each f (xs @ ys) s = for_each f xs s \<bind> for_each f ys"
proof (induction xs arbitrary: s)
  case (Cons x xs)
  then show ?case by (cases "f x s") simp_all
qed simp

text \<open>
  All fragments of a message, each exactly once and in any order, with no hole left in the packet
  sequence when the last of them arrives.
\<close>

lemma wqe_after_none:
  assumes "recv_ready n msn w" "0 < mtu" "msg \<noteq> []"
  shows "wqe_after mtu msg {} w = w"
proof -
  have "0 < frag_count mtu msg" using frag_count_less [OF assms(2), of 0 msg] assms(3) by simp
  then have "{..<frag_count mtu msg} \<noteq> {}" by auto
  then show ?thesis using assms(1) by (cases w) (auto simp: wqe_after_def received_def recv_ready_def)
qed

lemma index_order:
  assumes "mset js = mset [0..<n]"
  shows "set js = {..<n}" "distinct js"
  using mset_eq_setD [OF assms] mset_eq_imp_distinct_iff [OF assms] by (auto simp: atLeast0LessThan)

lemma process_send_reassembles:
  assumes spec: "ring_spec D q cap" and ok: "qp_ok q cap qp" and mtu: "0 < mtu" and msg: "msg \<noteq> []" "length msg < 2 ^ 32"
    and act: "rq_active (rq0 qp) = i # rest" and ready: "recv_ready (length msg) msn (recv_wqe qp i)"
    and rest: "rest = [] \<or> \<not> rw_complete (recv_wqe qp (hd rest))" and cq: "q (cq_free_ring (cqs qp (recv_cq qp))) \<noteq> []"
    and js: "mset js = mset [0..<frag_count mtu msg]"
    and origs: "list_all2 (\<lambda>orig j. carries orig (send_bytes mtu msg msn (j * mtu))) origs js"
    and psn: "serial_less_32 (ctx_psn (last origs)) (recv_ack_psn (remote_ep qp))"
  shows "\<exists>qp' wc. for_each (\<lambda>orig qp. process_send D qp orig) origs qp = Some qp' \<and> qp_ok q cap qp' \<and>
    take (length msg) (gather (qp_mem qp') (recv_buffers (recv_wqe qp i))) = msg \<and>
    placed mtu msg {..<frag_count mtu msg} (recv_buffers (recv_wqe qp i)) (qp_mem qp) (qp_mem qp') \<and>
    cq_view q (cqs qp' (recv_cq qp)) = cq_view q (cqs qp (recv_cq qp)) @ [wc] \<and>
    wc_wr_context wc = rw_wr_context (recv_wqe qp i) \<and> wc_status wc = IBV_WC_SUCCESS \<and> wc_opcode wc = IBV_WC_RECV \<and>
    wc_byte_len wc = of_nat (length msg) \<and>
    rq_active (rq0 qp') = rest \<and> q (rq_free_ring (rq0 qp')) = q (rq_free_ring (rq0 qp)) @ [i]"
proof -
  define n where "n = frag_count mtu msg"
  define w0 where "w0 = recv_wqe qp i"
  have n: "0 < n" using frag_count_less [OF mtu, of 0 msg] msg(1) by (simp add: n_def)
  have set: "set js = {..<n}" "distinct js" unfolding n_def by (rule index_order [OF js])+
  have "js \<noteq> []" using set(1) n by (metis empty_iff lessThan_iff list.set(1))
  then obtain js' j where js': "js = js' @ [j]" by (metis rev_exhaust)
  obtain origs' orig where o': "origs = origs' @ [orig]"
    "list_all2 (\<lambda>orig j. carries orig (send_bytes mtu msg msn (j * mtu))) origs' js'" "carries orig (send_bytes mtu msg msn (j * mtu))"
    using origs unfolding js' by (auto simp: list_all2_append2 list_all2_Cons2)
  have w0: "recv_ready (length msg) msn w0" using ready by (simp add: w0_def)
  have qp: "recv_state qp i (qp_mem qp) (wqe_after mtu msg {} w0) = qp"
    using wqe_after_none [OF w0 mtu msg(1)] by (simp add: recv_state_def w0_def upd_recv_wqe_def)
  have "placed mtu msg {} (recv_buffers w0) (qp_mem qp) (qp_mem qp)" by (simp add: placed_def)
  moreover have "{} \<union> set js' \<subset> {..<frag_count mtu msg}" "distinct js'" using set unfolding js' n_def by auto
  ultimately obtain m1 where m1: "for_each (\<lambda>orig qp. process_send D qp orig) origs' qp = Some (recv_state qp i m1 (wqe_after mtu msg (set js') w0))"
    "placed mtu msg (set js') (recv_buffers w0) (qp_mem qp) m1"
    using process_sends_partial [OF mtu msg(2) w0 act o'(2), of "{}" "qp_mem qp" "qp_mem qp" D] qp by auto
  have j: "set js' \<subseteq> {..<frag_count mtu msg}" "j < frag_count mtu msg" "j \<notin> set js'" "insert j (set js') = {..<frag_count mtu msg}"
    using set unfolding js' n_def by auto
  obtain m2 where m2: "process_send D (recv_state qp i m1 (wqe_after mtu msg (set js') w0)) orig =
      post_completed_recvs D (recv_state qp i m2 (wqe_after mtu msg {..<frag_count mtu msg} w0))"
    "placed mtu msg {..<frag_count mtu msg} (recv_buffers w0) (qp_mem qp) m2"
    using process_send_fragment [OF mtu msg(2) w0 act j(1-3) o'(3) m1(2), of D] psn unfolding o'(1) j(4) by auto
  define qp2 where "qp2 = recv_state qp i m2 (wqe_after mtu msg {..<frag_count mtu msg} w0)"
  have "pool_ok (rq_max_wr (rq0 qp)) (rq_entries q (rq0 qp))" using ok by (simp add: qp_ok_def rq_ok_def)
  then have "hd rest \<noteq> i" if "rest \<noteq> []" using act that by (cases rest) (auto simp: pool_ok_def rq_entries_def)
  then have rest2: "rest = [] \<or> \<not> rw_complete (recv_wqe qp2 (hd rest))" using rest by (auto simp: qp2_def)
  have "qp_ok q cap qp2" "rq_active (rq0 qp2) = [i] @ rest" "\<forall>k \<in> set [i]. rw_complete (recv_wqe qp2 k)"
    "length [i] \<le> length (q (cq_free_ring (cqs qp2 (recv_cq qp2))))" "recv_cq qp2 = recv_cq qp" "cqs qp2 = cqs qp"
    "rq_free_ring (rq0 qp2) = rq_free_ring (rq0 qp)" "rw_wr_context (recv_wqe qp2 i) = rw_wr_context w0"
    "rw_input_size (recv_wqe qp2 i) = of_nat (length msg)" "qp_mem qp2 = m2"
    using ok act cq n by (simp_all add: qp2_def wqe_after_def n_def Suc_le_eq) (simp_all add: recv_state_def upd_recv_wqe_def)
  note q2 = this
  obtain qp' wcs where r: "post_completed_recvs D qp2 = Some qp'" "qp_ok q cap qp'" "rq_active (rq0 qp') = rest"
      "q (rq_free_ring (rq0 qp')) = q (rq_free_ring (rq0 qp2)) @ [i]"
      "cq_view q (cqs qp' (recv_cq qp2)) = cq_view q (cqs qp2 (recv_cq qp2)) @ wcs"
      "list_all2 (recv_wc qp2 IBV_WC_SUCCESS) [i] wcs" "qp'\<lparr>rq0 := rq0 qp2, cqs := cqs qp2, io := io qp2\<rparr> = qp2"
    using post_completed_recvs_posts [OF spec q2(1-3) rest2] q2(4) by auto
  obtain wc where wc: "wcs = [wc]" "recv_wc qp2 IBV_WC_SUCCESS i wc" using r(6) by (auto simp: list_all2_Cons1)
  have mem: "qp_mem qp' = m2" using arg_cong [OF r(7), of qp_mem] q2(10) by simp
  have "(ucast (of_nat (length msg) :: u64) :: u32) = of_nat (length msg)" by (simp add: unsigned_of_nat word_of_nat_eq_iff take_bit_nat_def mod_mod_cancel)
  moreover have "take (length msg) (gather m2 (recv_buffers w0)) = msg"
    by (rule placed_all [OF mtu m2(2)]) (use w0 in \<open>simp add: recv_ready_def\<close>)
  ultimately show ?thesis
    using r(1-5) wc m1(1) m2 mem q2(5-9) unfolding o'(1) w0_def [symmetric] qp2_def [symmetric]
    by (intro exI [of _ qp'] exI [of _ wc]) (simp add: for_each_append recv_wc_def)
qed

section \<open>Properties\<close>

text \<open>
  C26. Completed receive requests are posted in the order of the queue, and only those at its head
  that have no incomplete request before them. If the completion queue has an entry for each of
  them, the loop returns with one successful completion per request, in order, each with the
  context of the request and the length of its message. If it runs out of entries, the loop never
  ends, because the result of posting is not looked at.
\<close>

theorem post_completed_recvs_in_order:
  assumes "ring_spec D q cap" "qp_ok q cap qp"
    and "xs = takeWhile (\<lambda>i. rw_complete (recv_wqe qp i)) (rq_active (rq0 qp))"
  shows "if length xs \<le> length (q (cq_free_ring (cqs qp (recv_cq qp))))
    then \<exists>qp' wcs. post_completed_recvs D qp = Some qp' \<and> qp_ok q cap qp' \<and>
      rq_active (rq0 qp') = drop (length xs) (rq_active (rq0 qp)) \<and>
      q (rq_free_ring (rq0 qp')) = q (rq_free_ring (rq0 qp)) @ xs \<and>
      cq_view q (cqs qp' (recv_cq qp)) = cq_view q (cqs qp (recv_cq qp)) @ wcs \<and>
      list_all2 (recv_wc qp IBV_WC_SUCCESS) xs wcs \<and> qp_mem qp' = qp_mem qp
    else post_completed_recvs D qp = None"
proof -
  define rest where "rest = dropWhile (\<lambda>i. rw_complete (recv_wqe qp i)) (rq_active (rq0 qp))"
  have act: "rq_active (rq0 qp) = xs @ rest" by (simp add: assms(3) rest_def)
  have all: "\<forall>i \<in> set xs. rw_complete (recv_wqe qp i)" by (auto simp: assms(3) dest: set_takeWhileD)
  have hd: "rest = [] \<or> \<not> rw_complete (recv_wqe qp (hd rest))"
    using hd_dropWhile [of "\<lambda>i. rw_complete (recv_wqe qp i)" "rq_active (rq0 qp)"] by (auto simp: rest_def)
  have mem: "qp_mem qp' = qp_mem qp" if "qp'\<lparr>rq0 := rq0 qp, cqs := cqs qp, io := io qp\<rparr> = qp" for qp' :: "'a usiw_qp"
    using arg_cong [OF that, of qp_mem] by simp
  have drop: "drop (length xs) (rq_active (rq0 qp)) = rest" by (simp add: act)
  show ?thesis
  proof (cases "length xs \<le> length (q (cq_free_ring (cqs qp (recv_cq qp))))")
    case True
    then show ?thesis unfolding drop using post_completed_recvs_posts [OF assms(1,2) act all hd] mem by metis
  next
    case False
    then show ?thesis using post_completed_recvs_posts [OF assms(1,2) act all hd] by simp
  qed
qed

definition complete_example :: "(nat list \<times> nat) usiw_qp" where
  "complete_example = upd_recv_wqe 0 (\<lambda>w. w\<lparr>rw_complete := True, rw_recv_size := 7, rw_input_size := 7\<rparr>) example_qp"

theorem post_completed_recvs_in_order_witness:
  "qp_ok fst snd complete_example \<and>
   (\<exists>qp' wc. post_completed_recvs example_env complete_example = Some qp' \<and> rq_active (rq0 qp') = [] \<and>
      cq_view fst (cqs qp' 0) = [wc] \<and> wc_byte_len wc = 7 \<and> wc_wr_context wc = 200)"
proof -
  have ok: "qp_ok fst snd complete_example"
    using example_qp_ok by (simp add: complete_example_def upd_recv_wqe_def qp_ok_def rq_ok_def rq_entries_def)
  have f: "rq_active (rq0 complete_example) = [0]" "rw_complete (recv_wqe complete_example 0)" "recv_cq complete_example = 0"
    "length (fst (cq_free_ring (cqs complete_example 0))) = 4" "cq_view fst (cqs complete_example 0) = []"
    "rw_wr_context (recv_wqe complete_example 0) = 200" "rw_input_size (recv_wqe complete_example 0) = 7"
    by (simp_all add: complete_example_def upd_recv_wqe_def example_qp_def example_cq_def cq_view_def example_recv_wqe_def zero_recv_wqe_def)
  obtain qp' wcs where "post_completed_recvs example_env complete_example = Some qp'" "rq_active (rq0 qp') = []"
    "cq_view fst (cqs qp' 0) = wcs" "list_all2 (recv_wc complete_example IBV_WC_SUCCESS) [0] wcs"
    using post_completed_recvs_in_order [OF example_env_ring_spec ok refl] by (auto simp: f)
  then show ?thesis using ok by (auto simp: list_all2_Cons1 recv_wc_def f)
qed

end
