(* ===== verification/End_To_End.thy ===== *)
theory End_To_End
  imports Reassembly
begin

text \<open>
  From the segments that the sending half of RDMAP puts into the window to what the receiving half
  does with them: which function handles a segment, and what any delivery order leaves in the
  memory of the receiver.
\<close>

section \<open>Segments on their way\<close>

lemma packet_of_untagged:
  "ddp_flags (get_rdmap_packet b i) = ddp_flags (get_rdmap_untagged b i)" "rdmap_info (get_rdmap_packet b i) = rdmap_info (get_rdmap_untagged b i)"
  by (simp_all add: header_defs)

lemma packet_of_tagged:
  "ddp_flags (get_rdmap_packet b i) = ddp_flags (get_rdmap_tagged b i)" "rdmap_info (get_rdmap_packet b i) = rdmap_info (get_rdmap_tagged b i)"
  by (simp_all add: header_defs)

lemmas flag_defs = DDP_GET_DV_def DDP_GET_T_def DDP_GET_L_def RDMAP_GET_RV_def RDMAP_GET_OPCODE_def RDMAP_V1_def
  DDP_V1_UNTAGGED_LAST_DF_def DDP_V1_UNTAGGED_DF_def DDP_V1_TAGGED_LAST_DF_def DDP_V1_TAGGED_DF_def

lemma process_ddp_segment_send:
  assumes "carries orig (send_bytes mtu msg msn ofs)"
  shows "process_ddp_segment D qp orig = process_send D qp orig"
proof -
  have "holds_at (ctx_rdmap orig) 0 (rdmap_untagged_bytes (send_hdr mtu msg msn ofs))"
    using assms by (simp add: carries_def send_bytes_def)
  from get_rdmap_untagged_bytes [OF this] have "get_rdmap_untagged (ctx_rdmap orig) 0 = send_hdr mtu msg msn ofs"
    by (simp add: rdmap_untagged_packet.defs)
  moreover have "DDP_GET_DV (ddp_flags (send_hdr mtu msg msn ofs)) = 1" "DDP_GET_T (ddp_flags (send_hdr mtu msg msn ofs)) = 0"
    "RDMAP_GET_RV (rdmap_info (send_hdr mtu msg msn ofs)) = 1" "RDMAP_GET_OPCODE (rdmap_info (send_hdr mtu msg msn ofs)) = rdmap_opcode_send"
    by (simp_all add: send_hdr_def flag_defs rdmap_opcode_send_def)
  ultimately show ?thesis by (simp add: process_ddp_segment_def packet_of_untagged)
qed

definition write_hdr :: "nat \<Rightarrow> u8 list \<Rightarrow> u32 \<Rightarrow> u64 \<Rightarrow> nat \<Rightarrow> rdmap_tagged_packet" where
  "write_hdr mtu msg rkey addr ofs =
     \<lparr>ddp_flags = (if length msg - ofs \<le> mtu then DDP_V1_TAGGED_LAST_DF else DDP_V1_TAGGED_DF),
      rdmap_info = RDMAP_V1 OR rdmap_opcode_rdma_write, sink_stag = rkey, tg_offset = addr + of_nat ofs\<rparr>"

definition write_bytes :: "nat \<Rightarrow> u8 list \<Rightarrow> u32 \<Rightarrow> u64 \<Rightarrow> nat \<Rightarrow> u8 list" where
  "write_bytes mtu msg rkey addr ofs = rdmap_tagged_bytes (write_hdr mtu msg rkey addr ofs) @ take mtu (drop ofs msg)"

lemma write_frag_bytes: "write_frag i w mtu msg ofs = (Some i, None, write_bytes mtu msg (sw_rkey w) (sw_remote_addr w) ofs)"
  by (simp add: write_frag_def write_bytes_def write_hdr_def)

text \<open>A region that covers the target of a message.\<close>

definition covers :: "usiw_mr \<Rightarrow> u64 \<Rightarrow> nat \<Rightarrow> bool" where
  "covers mr addr n \<longleftrightarrow> mr_addr mr \<le> addr \<and> unat addr + n \<le> unat (mr_addr mr) + unat (mr_length mr) \<and>
     unat (mr_addr mr) + unat (mr_length mr) < 2 ^ 64"

lemma process_ddp_segment_write:
  assumes inv: "mr_table_inv (qp_pd qp)" and mr: "mr_of (qp_pd qp) rkey = Some mr" "covers mr addr (length msg)"
    and orig: "carries orig (write_bytes mtu msg rkey addr ofs)" "ofs \<le> length msg" "mtu < 65536"
  shows "process_ddp_segment D qp orig = Some (qp\<lparr>qp_mem := mem_write (qp_mem qp) (addr + of_nat ofs) (take mtu (drop ofs msg))\<rparr>)"
proof -
  let ?h = "write_hdr mtu msg rkey addr ofs"
  define pl where "pl = take mtu (drop ofs msg)"
  have pl: "length pl < 65536" "ofs + length pl \<le> length msg" using orig(2,3) by (auto simp: pl_def)
  have h: "holds_at (ctx_rdmap orig) 0 (rdmap_tagged_bytes ?h)" "holds_at (ctx_rdmap orig) 14 pl"
    using orig(1) by (simp_all add: carries_def write_bytes_def pl_def)
  have hdr: "tagged_hdr orig = ?h" using tagged_codec.dec_enc [OF h(1)] by simp
  have flags: "DDP_GET_DV (ddp_flags ?h) = 1" "DDP_GET_T (ddp_flags ?h) \<noteq> 0" "RDMAP_GET_RV (rdmap_info ?h) = 1"
    "RDMAP_GET_OPCODE (rdmap_info ?h) = rdmap_opcode_rdma_write"
    by (simp_all add: write_hdr_def flag_defs rdmap_opcode_rdma_write_def)
  have len: "tagged_length orig = of_nat (length pl)"
    using orig(1) by (simp add: tagged_length_def carries_def write_bytes_def pl_def [symmetric] unsigned_of_nat word_of_nat_eq_iff take_bit_nat_def mod_mod_cancel)
  have ulen: "unat (tagged_length orig) = length pl" unfolding len using pl(1) by (simp add: unsigned_of_nat take_bit_nat_eq_self)
  have payload: "tagged_payload orig = pl" unfolding tagged_payload_def ulen using h(2) unfolding holds_at_map .
  have c: "mr_addr mr \<le> addr" "unat addr + length msg \<le> unat (mr_addr mr) + unat (mr_length mr)"
    "unat (mr_addr mr) + unat (mr_length mr) < 2 ^ 64"
    using mr(2) by (simp_all add: covers_def)
  have ofs: "unat (of_nat ofs :: u64) = ofs" using orig(2) c by (intro unat_of_nat_64) simp
  have va: "unat (addr + of_nat ofs) = unat addr + ofs" using unat_add_no_overflow [of addr "of_nat ofs"] ofs c orig(2) by simp
  have "unat (addr + of_nat ofs + ucast (tagged_length orig)) = unat addr + ofs + length pl"
    using unat_add_no_overflow [of "addr + of_nat ofs" "ucast (tagged_length orig)"] va ulen pl c by simp
  moreover have "unat (mr_addr mr + mr_length mr) = unat (mr_addr mr) + unat (mr_length mr)"
    by (rule unat_add_no_overflow) (use c in simp)
  ultimately have "tagged_accepted mr orig"
    using c va pl by (simp add: tagged_accepted_def hdr write_hdr_def word_le_nat_alt)
  then have "ddp_place_tagged_data D qp orig = Some (qp\<lparr>qp_mem := mem_write (qp_mem qp) (addr + of_nat ofs) pl\<rparr>)"
    using ddp_place_tagged_data_write [OF inv, of orig mr D] mr(1) flags(4) by (simp add: hdr payload write_hdr_def)
  then show ?thesis using flags by (simp add: process_ddp_segment_def packet_of_tagged hdr pl_def)
qed

text \<open>Any fragments of a message written to memory, in any order and any number of times.\<close>

lemma process_writes:
  assumes mtu: "0 < mtu" "mtu < 65536" and cov: "covers mr addr (length msg)"
    and "list_all2 (\<lambda>orig j. carries orig (write_bytes mtu msg rkey addr (j * mtu))) origs js" "set js \<subseteq> {..<frag_count mtu msg}"
    and "mr_table_inv (qp_pd qp)" "mr_of (qp_pd qp) rkey = Some mr"
  shows "\<exists>m'. for_each (\<lambda>orig qp. process_ddp_segment D qp orig) origs qp = Some (qp\<lparr>qp_mem := m'\<rparr>) \<and>
    (\<forall>k < 2 ^ 64. m' (addr + of_nat k) = (if k < length msg \<and> k div mtu \<in> set js then msg ! k else qp_mem qp (addr + of_nat k)))"
  using assms(4-)
proof (induction origs js arbitrary: qp rule: list_all2_induct)
  case Nil
  then show ?case by (intro exI [of _ "qp_mem qp"]) simp
next
  case (Cons orig origs j js)
  have j: "j * mtu < length msg" using frag_count_less [OF mtu(1), of j msg] Cons.prems(1) by simp
  define m1 where "m1 = mem_write (qp_mem qp) (addr + of_nat (j * mtu)) (take mtu (drop (j * mtu) msg))"
  have step: "process_ddp_segment D qp orig = Some (qp\<lparr>qp_mem := m1\<rparr>)"
    using process_ddp_segment_write [OF Cons.prems(2,3) cov Cons.hyps(1) _ mtu(2)] j by (simp add: m1_def)
  have small: "j * mtu + length (take mtu (drop (j * mtu) msg)) \<le> 2 ^ 64" using cov j by (auto simp: covers_def)
  have "m1 (addr + of_nat k) = (if k < length msg \<and> k div mtu = j then msg ! k else qp_mem qp (addr + of_nat k))" if k: "k < 2 ^ 64" for k
  proof -
    have e: "j * mtu \<le> k \<and> k < j * mtu + length (take mtu (drop (j * mtu) msg)) \<longleftrightarrow> k < length msg \<and> k div mtu = j"
      unfolding frag_index [OF mtu(1)] using j by auto
    have val: "take mtu (drop (j * mtu) msg) ! (k - j * mtu) = msg ! k"
      if "j * mtu \<le> k" "k < j * mtu + length (take mtu (drop (j * mtu) msg))" using that j by simp
    show ?thesis unfolding m1_def mem_write_at [OF small k] by (rule if_cong [OF e _ refl]) (use e val in blast)
  qed
  moreover obtain m' where "for_each (\<lambda>orig qp. process_ddp_segment D qp orig) origs (qp\<lparr>qp_mem := m1\<rparr>) = Some (qp\<lparr>qp_mem := m'\<rparr>)"
    "\<forall>k < 2 ^ 64. m' (addr + of_nat k) = (if k < length msg \<and> k div mtu \<in> set js then msg ! k else m1 (addr + of_nat k))"
    using Cons.IH [of "qp\<lparr>qp_mem := m1\<rparr>"] Cons.prems by auto
  ultimately show ?case using step by (intro exI [of _ m']) auto
qed

section \<open>What the sender puts on its way\<close>

text \<open>The segments that a call has added to the window.\<close>

definition new_segments :: "u32 \<Rightarrow> 'r usiw_qp \<Rightarrow> 'r usiw_qp \<Rightarrow> segment list" where
  "new_segments base qp qp' = drop (length (pending base (remote_ep qp))) (pending base (remote_ep qp'))"

definition send_ready :: "'r dpdk \<Rightarrow> u32 \<Rightarrow> 'r usiw_qp \<Rightarrow> nat \<Rightarrow> u8 list \<Rightarrow> bool" where
  "send_ready D base qp i msg \<longleftrightarrow> (let mtu = unat (shm_mtu (shm_qp qp)) in
     seg_env D mtu \<and> 0 < mtu \<and> open_window base qp \<and> wqe_data (qp_mem qp) (send_wqe qp i) msg \<and>
     sw_remote_ep (send_wqe qp i) \<and> sw_bytes_sent (send_wqe qp i) = 0 \<and> frag_count mtu msg \<le> psn_room qp)"

lemma send_ready_segments:
  assumes "send_ready D base qp i msg" "mtu = unat (shm_mtu (shm_qp qp))"
  shows "\<exists>qp'. do_rdmap_send D qp i = Some qp' \<and>
      new_segments base qp qp' = map (\<lambda>j. (Some i, None, send_bytes mtu msg (sw_msn (send_wqe qp i)) (j * mtu))) [0..<frag_count mtu msg]"
    and "\<exists>qp'. do_rdmap_write D qp i = Some qp' \<and>
      new_segments base qp qp' = map (\<lambda>j. (Some i, None, write_bytes mtu msg (sw_rkey (send_wqe qp i)) (sw_remote_addr (send_wqe qp i)) (j * mtu)))
        [0..<frag_count mtu msg]"
proof -
  have s: "sending D base i qp msg qp" using assms(1) by (simp add: send_ready_def Let_def sending_def upd_send_wqe_def)
  have k: "frag_count mtu msg = min (psn_room qp) ((length msg - unat (sw_bytes_sent (send_wqe qp i)) + unat (shm_mtu (shm_qp qp)) - 1) div unat (shm_mtu (shm_qp qp)))"
    using assms by (simp add: send_ready_def Let_def frag_count_def)
  have z: "sw_bytes_sent (send_wqe qp i) = 0" using assms(1) by (simp add: send_ready_def Let_def)
  obtain qp1 where 1: "do_rdmap_send_loop D i qp = Some qp1"
    "pending base (remote_ep qp1) = pending base (remote_ep qp) @ map (\<lambda>j. send_frag i (send_wqe qp i) mtu msg (j * mtu)) [0..<frag_count mtu msg]"
    using snd_loop.loop_total [OF s k] unfolding assms(2) by (auto simp: z)
  obtain qp2 where 2: "do_rdmap_write_loop D i qp = Some qp2"
    "pending base (remote_ep qp2) = pending base (remote_ep qp) @ map (\<lambda>j. write_frag i (send_wqe qp i) mtu msg (j * mtu)) [0..<frag_count mtu msg]"
    using wr_loop.loop_total [OF s k] unfolding assms(2) by (auto simp: z)
  have ep: "remote_ep (wait_if_sent i x) = remote_ep x" for x :: "'a usiw_qp" by (simp add: wait_if_sent_def)
  show "\<exists>qp'. do_rdmap_send D qp i = Some qp' \<and>
      new_segments base qp qp' = map (\<lambda>j. (Some i, None, send_bytes mtu msg (sw_msn (send_wqe qp i)) (j * mtu))) [0..<frag_count mtu msg]"
    using 1 by (intro exI [of _ "wait_if_sent i qp1"]) (simp add: do_rdmap_send_def new_segments_def ep send_frag_bytes)
  show "\<exists>qp'. do_rdmap_write D qp i = Some qp' \<and>
      new_segments base qp qp' = map (\<lambda>j. (Some i, None, write_bytes mtu msg (sw_rkey (send_wqe qp i)) (sw_remote_addr (send_wqe qp i)) (j * mtu)))
        [0..<frag_count mtu msg]"
    using 2 by (intro exI [of _ "wait_if_sent i qp2"]) (simp add: do_rdmap_write_def new_segments_def ep write_frag_bytes)
qed

text \<open>
  \<open>delivered segs js origs\<close>: the received packets \<open>origs\<close> carry the segments with the numbers \<open>js\<close>.
\<close>

definition delivered :: "segment list \<Rightarrow> nat list \<Rightarrow> packet_context list \<Rightarrow> bool" where
  "delivered segs js origs \<longleftrightarrow> set js \<subseteq> {..<length segs} \<and> list_all2 (\<lambda>orig j. carries orig (snd (snd (segs ! j)))) origs js"

lemma delivered_map:
  assumes "delivered (map (\<lambda>j. (a j, b j, f j)) [0..<n]) js origs"
  shows "list_all2 (\<lambda>orig j. carries orig (f j)) origs js" "set js \<subseteq> {..<n}"
  using assms unfolding delivered_def list_all2_conv_all_nth by (auto simp: subset_iff)

lemma for_each_cong: "(\<And>x s. x \<in> set xs \<Longrightarrow> f x s = g x s) \<Longrightarrow> for_each f xs s = for_each g xs s"
proof (induction xs arbitrary: s)
  case (Cons x xs)
  then show ?case by (cases "g x s") simp_all
qed simp

end
