(* ===== verification/Progress.thy ===== *)
theory Progress
  imports Rdmap_Recv
begin

text \<open>
  The progress engine (\<^verbatim>\<open>liburdma/interface.c\<close>): what the progress thread does with a queue pair
  in each round, from the reception of a burst to the flush of the transmit queue, and the
  life cycle of the queue pair that drives it.
\<close>

section \<open>One round\<close>

definition progress_send_wqe :: "'r dpdk \<Rightarrow> 'r usiw_qp \<Rightarrow> nat \<Rightarrow> 'r usiw_qp option" where
  "progress_send_wqe D qp wqe =
     (if sw_state (send_wqe qp wqe) = SEND_WQE_COMPLETE then try_complete_wqe D qp wqe
      else case sw_opcode (send_wqe qp wqe) of
        usiw_wr_send \<Rightarrow> do_rdmap_send D qp wqe
      | usiw_wr_write \<Rightarrow> do_rdmap_write D qp wqe
      | usiw_wr_read \<Rightarrow> do_rdmap_read_request D qp wqe)"

text \<open>Where the packets of a burst come from.\<close>

definition receive_burst :: "'r dpdk \<Rightarrow> 'r usiw_qp \<Rightarrow> rx_mbuf list \<times> 'r usiw_qp" where
  "receive_burst D qp =
     (let n = unat (rx_burst_size (shm_qp qp)) in
      if dev_flags (qp_dev qp) AND port_fdir \<noteq> 0 then (rte_eth_rx_burst D (tick qp) n, ticked qp)
      else case rx_queue (remote_ep qp) of
        None \<Rightarrow> ([], qp)
      | Some r \<Rightarrow> (case rte_ring_dequeue_burst D r n of
          (is, r') \<Rightarrow> (map (rx_mbuf_at D) is, map_ep (\<lambda>ep. ep\<lparr>rx_queue := Some r'\<rparr>) qp)))"

text \<open>The first result is the time that the function stores in \<^verbatim>\<open>*now\<close>, the second the packet count.\<close>

definition process_receive_queue :: "'r dpdk \<Rightarrow> 'r usiw_qp \<Rightarrow> (u64 \<times> nat \<times> 'r usiw_qp) option" where
  "process_receive_queue D qp =
     (case receive_burst D qp of
        (rxmbuf, qp) \<Rightarrow> do {
          let rx_count = length rxmbuf;
          assert_c (rx_count < length (recv_count_histo (qp_stats qp)));
          let qp = qp\<lparr>qp_stats := (qp_stats qp)\<lparr>recv_count_histo := (recv_count_histo (qp_stats qp))
                     [rx_count := recv_count_histo (qp_stats qp) ! rx_count + 1]\<rparr>\<rparr>;
          let now = rte_get_timer_cycles D (tick qp);
          let qp = ticked qp;
          qp \<leftarrow> for_each (\<lambda>m qp. process_data_packet D qp m) rxmbuf qp;
          Some (now, rx_count, qp)
        })"

text \<open>Completion of RDMA READ requests whose last response segment has been received.\<close>

lemma try_complete_wqe_ep:
  assumes "try_complete_wqe D qp wqe = Some qp'"
  shows "remote_ep qp' = remote_ep qp"
  using assms
  by (auto simp: try_complete_wqe_def post_send_cqe_def get_next_cqe_def finish_post_cqe_def qp_free_send_wqe_def Let_def
      split: list.splits if_splits option.splits Option.bind_splits prod.splits)

definition complete_first_read :: "'r dpdk \<Rightarrow> 'r usiw_qp \<Rightarrow> 'r usiw_qp option" where
  "complete_first_read D qp =
     (case find_first_rdma_read qp of
        None \<Rightarrow> Some qp
      | Some wqe \<Rightarrow> try_complete_wqe D (upd_send_wqe wqe (\<lambda>w. w\<lparr>sw_state := SEND_WQE_COMPLETE\<rparr>) qp) wqe)"

lemma complete_first_read_ep: "complete_first_read D qp = Some qp' \<Longrightarrow> remote_ep qp' = remote_ep qp"
  by (auto simp: complete_first_read_def split: option.splits dest: try_complete_wqe_ep)

text \<open>The sequence numbers are compared as plain numbers.\<close>

function complete_reads :: "'r dpdk \<Rightarrow> 'r usiw_qp \<Rightarrow> 'r usiw_qp option" where
  "complete_reads D qp =
     (case binheap_peek (recv_rresp_last_psn (remote_ep qp)) of
        None \<Rightarrow> Some qp
      | Some psn \<Rightarrow>
          if psn < recv_ack_psn (remote_ep qp) then
            complete_first_read D qp \<bind> (\<lambda>qp.
            binheap_pop (recv_rresp_last_psn (remote_ep qp)) \<bind> (\<lambda>h.
            complete_reads D (map_ep (\<lambda>ep. ep\<lparr>recv_rresp_last_psn := h\<rparr>) qp)))
          else Some qp)"
  by pat_completeness auto
termination
  by (relation "measure (\<lambda>(D, qp). bh_size (recv_rresp_last_psn (remote_ep qp)))")
    (auto dest!: complete_first_read_ep simp: binheap_pop_def Let_def split: if_splits)

declare complete_reads.simps [simp del]

definition progress_active :: "'r dpdk \<Rightarrow> nat \<Rightarrow> int \<times> 'r usiw_qp \<Rightarrow> (int \<times> 'r usiw_qp) option" where
  "progress_active D wqe cq = (case cq of (scount, qp) \<Rightarrow> do {
     assert_c (sw_state (send_wqe qp wqe) \<noteq> SEND_WQE_INIT);
     qp \<leftarrow> progress_send_wqe D qp wqe;
     Some (if sw_state (send_wqe qp wqe) = SEND_WQE_TRANSFER then scount + 1 else scount, qp)
   })"

text \<open>The next posted request, when no active one is being transferred.\<close>

definition start_next_wqe :: "'r dpdk \<Rightarrow> 'r usiw_qp \<Rightarrow> (int \<times> 'r usiw_qp) option" where
  "start_next_wqe D qp =
     (case rte_ring_dequeue D (sq_ring (sq qp)) of
        None \<Rightarrow> Some (0, qp)
      | Some (wqe, r) \<Rightarrow> do {
          let qp = qp\<lparr>sq := (sq qp)\<lparr>sq_ring := r\<rparr>\<rparr>;
          assert_c (sw_state (send_wqe qp wqe) = SEND_WQE_INIT);
          let qp = upd_send_wqe wqe (\<lambda>w. w\<lparr>sw_state := SEND_WQE_TRANSFER\<rparr>) qp;
          qp \<leftarrow> (case sw_opcode (send_wqe qp wqe) of
             usiw_wr_send \<Rightarrow> do {
               assert_c (sw_remote_ep (send_wqe qp wqe));
               let msn = next_send_msn (remote_ep qp);
               let qp = map_ep (\<lambda>ep. ep\<lparr>next_send_msn := msn + 1\<rparr>) qp;
               Some (upd_send_wqe wqe (\<lambda>w. w\<lparr>sw_msn := msn\<rparr>) qp)
             }
           | usiw_wr_read \<Rightarrow> do {
               assert_c (sw_remote_ep (send_wqe qp wqe));
               let msn = next_read_msn (remote_ep qp);
               let qp = map_ep (\<lambda>ep. ep\<lparr>next_read_msn := msn + 1\<rparr>) qp;
               Some (upd_send_wqe wqe (\<lambda>w. w\<lparr>sw_msn := msn\<rparr>) qp)
             }
           | usiw_wr_write \<Rightarrow> Some qp);
          let qp = qp\<lparr>sq := usiw_send_wqe_queue_add_active (sq qp) wqe\<rparr>;
          qp \<leftarrow> progress_send_wqe D qp wqe;
          Some (1, qp)
        })"

definition send_ack_if_due :: "'r dpdk \<Rightarrow> 'r usiw_qp \<Rightarrow> 'r usiw_qp option" where
  "send_ack_if_due D qp =
     (if trp_flags (remote_ep qp) AND trp_ack_update \<noteq> 0 then
        if trp_flags (remote_ep qp) AND trp_recv_missing \<noteq> 0 then send_trp_sack D qp else send_trp_ack D qp
      else Some qp)"

definition progress_qp :: "'r dpdk \<Rightarrow> 'r usiw_qp \<Rightarrow> 'r usiw_qp option" where
  "progress_qp D qp = do {
     (now, _, qp) \<leftarrow> process_receive_queue D qp;
     qp \<leftarrow> sweep_unacked_packets D qp now;
     qp \<leftarrow> complete_reads D qp;
     (scount, qp) \<leftarrow> for_each (progress_active D) (sq_active (sq qp)) (0, qp);
     (scount, qp) \<leftarrow> (if scount = 0 then start_next_wqe D qp else Some (scount, qp));
     (_, qp) \<leftarrow> respond_rdma_read D qp;
     qp \<leftarrow> send_ack_if_due D qp;
     flush_tx_queue D qp
   }"

section \<open>Start and destruction\<close>

text \<open>
  \<^verbatim>\<open>init_count\<close> is \<^verbatim>\<open>qp_init_count\<close> of the context of the queue pair. The allocations are numbered by
  the call counter; \<open>junk\<close> is the content of the memory of the new heap. \<open>None\<close> is the failed
  assertion of \<^verbatim>\<open>binheap_new\<close>. A window that is not a power of two is accepted.
\<close>

definition start_qp :: "'r dpdk \<Rightarrow> (nat \<Rightarrow> u32 list) \<Rightarrow> u32 \<Rightarrow> 'r usiw_qp \<Rightarrow> (u32 \<times> 'r usiw_qp) option" where
  "start_qp D junk init_count qp =
     (let shm = shm_qp qp; t = tick qp; fail = (\<lambda>qp. Some (init_count, set_conn_state usiw_qp_error qp));
          qp = ticked qp in
      if \<not> calloc D t then fail qp
      else let qp = qp\<lparr>readresp_store := replicate (unat (ird_max shm)) \<lparr>rr_vaddr = 0, rr_msg_size = 0, rr_sink_stag = 0,
             rr_sink_ofs = 0, rr_active = False, rr_sink_ep = False\<rparr>\<rparr>;
           size = unat (tx_desc_count shm) div 2;
           qp = map_ep (\<lambda>ep. ep\<lparr>send_max_psn := of_nat size, tx_pending_size := size\<rparr>) qp;
           qp = ticked qp in
      if \<not> calloc D (t + 1) then fail qp
      else let qp = map_ep (\<lambda>ep. ep\<lparr>tx_pending := replicate size Null, tx_head := 0\<rparr>) qp; qp = ticked qp in
      do {
        h \<leftarrow> binheap_new (if rte_malloc D (t + 2) then Some (junk (t + 2)) else None) (unat (ord_max shm));
        case h of
          None \<Rightarrow> fail qp
        | Some h \<Rightarrow>
            let qp = map_ep (\<lambda>ep. ep\<lparr>recv_rresp_last_psn := h\<rparr>) qp; qp = ticked qp in
            if \<not> calloc D (t + 3) then fail qp
            else let qp = qp\<lparr>txq := []\<rparr>;
                   qp = qp\<lparr>qp_stats := (qp_stats qp)\<lparr>recv_max_burst_size := unat (rx_burst_size shm)\<rparr>\<rparr>;
                   qp = ticked qp in
              if \<not> calloc D (t + 4) then fail qp
              else let qp = qp\<lparr>qp_stats := (qp_stats qp)\<lparr>recv_count_histo := replicate (recv_max_burst_size (qp_stats qp) + 1) 0\<rparr>\<rparr>;
                     qp = (if conn_state (shm_qp qp) = usiw_qp_connected then set_conn_state usiw_qp_running qp else qp)
                in Some (init_count - 1, qp)
      })"

definition urdma_do_destroy_cq :: "nat \<Rightarrow> 'r usiw_qp \<Rightarrow> 'r usiw_qp" where
  "urdma_do_destroy_cq i qp = qp\<lparr>io := (io qp)\<lparr>io_cq_freed := io_cq_freed (io qp) @ [i]\<rparr>\<rparr>"

definition put_cq :: "nat \<Rightarrow> 'r usiw_qp \<Rightarrow> 'r usiw_qp" where
  "put_cq i qp = (let old = cq_refcnt (cqs qp i); qp = qp\<lparr>cqs := (cqs qp)(i := (cqs qp i)\<lparr>cq_refcnt := old - 1\<rparr>)\<rparr>
     in if old = 1 then urdma_do_destroy_cq i qp else qp)"

definition usiw_do_destroy_qp :: "'r usiw_qp \<Rightarrow> 'r usiw_qp" where
  "usiw_do_destroy_qp qp =
     (let qp = put_cq (recv_cq qp) qp;
          qp = (if send_cq qp \<noteq> recv_cq qp then put_cq (send_cq qp) qp else qp)
      in qp\<lparr>io := (io qp)\<lparr>io_sock := io_sock (io qp) @ [Sock_destroy_qp (dev_portid (qp_dev qp)) (shm_qp_id (shm_qp qp))]\<rparr>\<rparr>)"

section \<open>The progress thread\<close>

text \<open>
  What one pass of the progress thread does with a queue pair of the active list. The first
  result says whether the queue pair stays on the list.
\<close>

definition retire_qp :: "'r usiw_qp \<Rightarrow> bool \<times> 'r usiw_qp" where
  "retire_qp qp = (False, let old = qp_refcnt qp; qp = qp\<lparr>qp_refcnt := old - 1\<rparr>
     in if old = 1 then usiw_do_destroy_qp qp else qp)"

definition kni_qp_step ::
  "'r dpdk \<Rightarrow> (nat \<Rightarrow> u32 list) \<Rightarrow> u32 \<Rightarrow> 'r usiw_qp \<Rightarrow> (u32 \<times> bool \<times> 'r usiw_qp) option" where
  "kni_qp_step D junk init_count qp =
     (case conn_state (shm_qp qp) of
        usiw_qp_connected \<Rightarrow> do {
          (init_count, qp) \<leftarrow> start_qp D junk init_count qp;
          if conn_state (shm_qp qp) = usiw_qp_error then Some (init_count, True, qp)
          else map_option (\<lambda>qp. (init_count, True, qp)) (progress_qp D qp)
        }
      | usiw_qp_running \<Rightarrow> map_option (\<lambda>qp. (init_count, True, qp)) (progress_qp D qp)
      | usiw_qp_shutdown \<Rightarrow> map_option (\<lambda>qp. (init_count, retire_qp qp)) (qp_shutdown D qp)
      | usiw_qp_error \<Rightarrow> Some (init_count, retire_qp qp)
      | usiw_qp_unbound \<Rightarrow> Some (init_count, True, qp))"

end
