(* ===== verification/Verbs_Post.thy ===== *)
theory Verbs_Post
  imports Queues
begin

text \<open>
  The verbs of the data path (\<^verbatim>\<open>liburdma/verbs.c\<close>): posting send and receive requests through the
  verbs interface and through the acceleration interface, inline data, and polling of
  completion queues. All of them run in the application's threads; they meet the progress
  thread only at the rings.
\<close>

section \<open>Requests of the application\<close>

record ibv_sge =
  sge_addr :: u64
  sge_length :: u32
  sge_lkey :: u32

datatype ibv_wr_opcode = IBV_WR_SEND | IBV_WR_RDMA_WRITE | IBV_WR_RDMA_READ | IBV_WR_UNSUPPORTED

text \<open>\<open>swr_signaled\<close> and \<open>swr_inline\<close> are the bits of \<^verbatim>\<open>send_flags\<close> that the code looks at.\<close>

record ibv_send_wr =
  swr_id :: u64
  swr_sges :: "ibv_sge list"
  swr_opcode :: ibv_wr_opcode
  swr_signaled :: bool
  swr_inline :: bool
  swr_remote_addr :: u64
  swr_rkey :: u32

record ibv_recv_wr =
  rwr_id :: u64
  rwr_sges :: "ibv_sge list"

definition sge_iov :: "ibv_sge \<Rightarrow> iovec" where
  "sge_iov s = \<lparr>iov_base = sge_addr s, iov_len = ucast (sge_length s)\<rparr>"

definition total_len :: "iovec list \<Rightarrow> u64" where
  "total_len vs = fold (\<lambda>v n. n + iov_len v) vs 0"

text \<open>Writing the iovec array of a work request; a write behind its end does not return.\<close>

definition fill_iov :: "u8 list \<Rightarrow> iovec list \<Rightarrow> u8 list option" where
  "fill_iov area vs = do {
     assert_c (16 * length vs \<le> length area);
     Some (overlay area 0 (iov_image vs))
   }"

definition DPDK_VERBS_IOV_LEN_MAX :: nat where "DPDK_VERBS_IOV_LEN_MAX = 32"

section \<open>The acceleration interface\<close>

definition urdma_accl_post_recvv :: "'r dpdk \<Rightarrow> 'r usiw_qp \<Rightarrow> iovec list \<Rightarrow> u64 \<Rightarrow> (ret \<times> 'r usiw_qp) option" where
  "urdma_accl_post_recvv D qp vs context =
     (if length vs > DPDK_VERBS_IOV_LEN_MAX then Some (Neg EINVAL, qp)
      else case qp_get_next_recv_wqe D qp of
        (x, None, qp) \<Rightarrow> Some (x, qp)
      | (_, Some wqe, qp) \<Rightarrow> do {
          area \<leftarrow> fill_iov (rw_iov (recv_wqe qp wqe)) vs;
          let qp = upd_recv_wqe wqe (\<lambda>w. w\<lparr>rw_wr_context := context, rw_iov := area, rw_iov_count := length vs,
             rw_total_request_size := total_len vs, rw_msn := 0, rw_recv_size := 0, rw_input_size := 0, rw_complete := False\<rparr>) qp;
          r \<leftarrow> rte_ring_enqueue D (rq_ring (rq0 qp)) wqe;
          Some (Ok, qp\<lparr>rq0 := (rq0 qp)\<lparr>rq_ring := r\<rparr>\<rparr>)
        })"

definition urdma_accl_post_recv :: "'r dpdk \<Rightarrow> 'r usiw_qp \<Rightarrow> u64 \<Rightarrow> u64 \<Rightarrow> u64 \<Rightarrow> (ret \<times> 'r usiw_qp) option" where
  "urdma_accl_post_recv D qp addr len context = urdma_accl_post_recvv D qp [\<lparr>iov_base = addr, iov_len = len\<rparr>] context"

definition qp_connected :: "'r usiw_qp \<Rightarrow> bool" where
  "qp_connected qp \<longleftrightarrow> conn_state (shm_qp qp) = usiw_qp_connected \<or> conn_state (shm_qp qp) = usiw_qp_running"

text \<open>The tail of every post of a send request.\<close>

definition enqueue_send :: "'r dpdk \<Rightarrow> nat \<Rightarrow> 'r usiw_qp \<Rightarrow> (ret \<times> 'r usiw_qp) option" where
  "enqueue_send D wqe qp = do {
     r \<leftarrow> rte_ring_enqueue D (sq_ring (sq qp)) wqe;
     Some (Ok, qp\<lparr>sq := (sq qp)\<lparr>sq_ring := r\<rparr>\<rparr>)
   }"

text \<open>\<open>ah\<close> says whether an address handle is given. The \<^verbatim>\<open>flags\<close> of the work request keep their old value.\<close>

definition urdma_accl_post_sendv :: "'r dpdk \<Rightarrow> 'r usiw_qp \<Rightarrow> iovec list \<Rightarrow> bool \<Rightarrow> u64 \<Rightarrow> (ret \<times> 'r usiw_qp) option" where
  "urdma_accl_post_sendv D qp vs ah context =
     (if \<not> ah \<and> \<not> qp_connected qp then Some (Neg EINVAL, qp)
      else if length vs > DPDK_VERBS_IOV_LEN_MAX then Some (Neg EINVAL, qp)
      else case qp_get_next_send_wqe D qp of
        (x, None, qp) \<Rightarrow> Some (x, qp)
      | (_, Some wqe, qp) \<Rightarrow> do {
          area \<leftarrow> fill_iov (sw_iov (send_wqe qp wqe)) vs;
          enqueue_send D wqe (upd_send_wqe wqe (\<lambda>w. w\<lparr>sw_opcode := usiw_wr_send, sw_wr_context := context, sw_iov := area,
             sw_iov_count := length vs, sw_remote_ep := True, sw_state := SEND_WQE_INIT, sw_msn := 0,
             sw_total_length := total_len vs, sw_bytes_sent := 0, sw_bytes_acked := 0\<rparr>) qp)
        })"

definition urdma_accl_post_send :: "'r dpdk \<Rightarrow> 'r usiw_qp \<Rightarrow> u64 \<Rightarrow> u64 \<Rightarrow> bool \<Rightarrow> u64 \<Rightarrow> (ret \<times> 'r usiw_qp) option" where
  "urdma_accl_post_send D qp addr len ah context = urdma_accl_post_sendv D qp [\<lparr>iov_base = addr, iov_len = len\<rparr>] ah context"

definition urdma_accl_post_write ::
  "'r dpdk \<Rightarrow> 'r usiw_qp \<Rightarrow> u64 \<Rightarrow> u64 \<Rightarrow> bool \<Rightarrow> u64 \<Rightarrow> u32 \<Rightarrow> u64 \<Rightarrow> (ret \<times> 'r usiw_qp) option" where
  "urdma_accl_post_write D qp addr len ah remote_addr rkey context =
     (if \<not> ah \<and> \<not> qp_connected qp then Some (Neg EINVAL, qp)
      else case qp_get_next_send_wqe D qp of
        (x, None, qp) \<Rightarrow> Some (x, qp)
      | (_, Some wqe, qp) \<Rightarrow> do {
          area \<leftarrow> fill_iov (sw_iov (send_wqe qp wqe)) [\<lparr>iov_base = addr, iov_len = len\<rparr>];
          enqueue_send D wqe (upd_send_wqe wqe (\<lambda>w. w\<lparr>sw_opcode := usiw_wr_write, sw_wr_context := context, sw_iov := area,
             sw_iov_count := 1, sw_remote_ep := True, sw_remote_addr := remote_addr, sw_rkey := rkey, sw_state := SEND_WQE_INIT,
             sw_msn := 0, sw_bytes_sent := 0, sw_bytes_acked := 0, sw_total_length := len\<rparr>) qp)
        })"

text \<open>Here \<^verbatim>\<open>bytes_acked\<close> keeps its old value, too.\<close>

definition urdma_accl_post_read ::
  "'r dpdk \<Rightarrow> 'r usiw_qp \<Rightarrow> u64 \<Rightarrow> u64 \<Rightarrow> bool \<Rightarrow> u64 \<Rightarrow> u32 \<Rightarrow> u64 \<Rightarrow> (ret \<times> 'r usiw_qp) option" where
  "urdma_accl_post_read D qp addr len ah remote_addr rkey context =
     (if \<not> ah \<and> \<not> qp_connected qp then Some (Neg EINVAL, qp)
      else case qp_get_next_send_wqe D qp of
        (x, None, qp) \<Rightarrow> Some (x, qp)
      | (_, Some wqe, qp) \<Rightarrow> do {
          area \<leftarrow> fill_iov (sw_iov (send_wqe qp wqe)) [\<lparr>iov_base = addr, iov_len = len\<rparr>];
          enqueue_send D wqe (upd_send_wqe wqe (\<lambda>w. w\<lparr>sw_opcode := usiw_wr_read, sw_wr_context := context, sw_iov := area,
             sw_iov_count := 1, sw_remote_addr := remote_addr, sw_rkey := rkey, sw_remote_ep := True, sw_state := SEND_WQE_INIT,
             sw_msn := 0, sw_local_stag := 0, sw_total_length := len, sw_bytes_sent := 0\<rparr>) qp)
        })"

section \<open>Posting send requests\<close>

text \<open>
  Inline data is copied behind the work request. The bound is tested on a 32-bit sum that can
  wrap, so the copy itself is guarded by the size of the array.
\<close>

fun do_inline_loop :: "memory \<Rightarrow> u32 \<Rightarrow> ibv_sge list \<Rightarrow> u32 \<Rightarrow> u8 list \<Rightarrow> (ret \<times> u32 \<times> u8 list) option" where
  "do_inline_loop m max_inline [] offset area = Some (Ok, offset, area)"
| "do_inline_loop m max_inline (s # ss) offset area =
     (if offset + sge_length s > max_inline then Some (Pos EINVAL, offset, area)
      else do {
        assert_c (unat offset + unat (sge_length s) \<le> length area);
        do_inline_loop m max_inline ss (offset + sge_length s)
          (overlay area (unat offset) (mem_read m (sge_addr s) (unat (sge_length s))))
      })"

definition do_inline :: "'r usiw_qp \<Rightarrow> nat \<Rightarrow> ibv_send_wr \<Rightarrow> (ret \<times> 'r usiw_qp) option" where
  "do_inline qp wqe wr = do {
     let qp = upd_send_wqe wqe (\<lambda>w. w\<lparr>sw_flags := sw_flags w OR usiw_send_inline\<rparr>) qp;
     (ret, offset, area) \<leftarrow> do_inline_loop (qp_mem qp) (sq_max_inline (sq qp)) (swr_sges wr) 0 (sw_iov (send_wqe qp wqe));
     let qp = upd_send_wqe wqe (\<lambda>w. w\<lparr>sw_iov := area\<rparr>) qp;
     Some (if ret = Ok then (Ok, upd_send_wqe wqe (\<lambda>w. w\<lparr>sw_total_length := ucast offset\<rparr>) qp) else (ret, qp))
   }"

definition IBV_ACCESS_REMOTE_WRITE :: u32 where "IBV_ACCESS_REMOTE_WRITE = 2"

text \<open>How the switch over the opcode of a request ends.\<close>

datatype post_switch = Go_on | Errout ret | Free_wqe ret

definition post_send_opcode :: "'r usiw_qp \<Rightarrow> nat \<Rightarrow> ibv_send_wr \<Rightarrow> (post_switch \<times> 'r usiw_qp) option" where
  "post_send_opcode qp wqe wr =
     (let inl = (\<lambda>qp. if swr_inline wr
            then map_option (\<lambda>(ret, qp). (if ret = Ok then Go_on else Errout ret, qp)) (do_inline qp wqe wr)
            else Some (Go_on, qp));
          rdma = upd_send_wqe wqe (\<lambda>w. w\<lparr>sw_remote_addr := swr_remote_addr wr, sw_rkey := swr_rkey wr\<rparr>)
      in case swr_opcode wr of
           IBV_WR_SEND \<Rightarrow> inl (upd_send_wqe wqe (\<lambda>w. w\<lparr>sw_opcode := usiw_wr_send\<rparr>) qp)
         | IBV_WR_RDMA_WRITE \<Rightarrow> inl (rdma (upd_send_wqe wqe (\<lambda>w. w\<lparr>sw_opcode := usiw_wr_write\<rparr>) qp))
         | IBV_WR_RDMA_READ \<Rightarrow>
             if swr_inline wr then Some (Errout (Pos EINVAL), qp)
             else do {
               let qp = rdma (upd_send_wqe wqe (\<lambda>w. w\<lparr>sw_opcode := usiw_wr_read\<rparr>) qp);
               assert_c (swr_sges wr \<noteq> []);
               mr \<leftarrow> usiw_mr_lookup (qp_pd qp) (sge_lkey (hd (swr_sges wr)));
               case mr of
                 None \<Rightarrow> Some (Free_wqe (Pos EINVAL), qp)
               | Some l \<Rightarrow>
                   if mr_access (deref_link (qp_pd qp) l) AND IBV_ACCESS_REMOTE_WRITE = 0 then Some (Free_wqe (Pos EINVAL), qp)
                   else Some (Go_on, upd_send_wqe wqe (\<lambda>w. w\<lparr>sw_local_stag := mr_rkey (deref_link (qp_pd qp) l)\<rparr>) qp)
             }
         | IBV_WR_UNSUPPORTED \<Rightarrow> Some (Free_wqe (Pos EOPNOTSUPP), qp))"

text \<open>The rest of a request after the switch, up to its entry into the send ring.\<close>

definition finish_post_send :: "'r dpdk \<Rightarrow> nat \<Rightarrow> ibv_send_wr \<Rightarrow> 'r usiw_qp \<Rightarrow> (ret \<times> 'r usiw_qp) option" where
  "finish_post_send D wqe wr qp = do {
     let qp = upd_send_wqe wqe (\<lambda>w. w\<lparr>sw_wr_context := swr_id wr, sw_iov_count := length (swr_sges wr),
                sw_remote_ep := True, sw_state := SEND_WQE_INIT, sw_msn := 0\<rparr>) qp;
     qp \<leftarrow> (if sw_flags (send_wqe qp wqe) AND usiw_send_inline = 0 then do {
              let vs = map sge_iov (swr_sges wr);
              area \<leftarrow> fill_iov (sw_iov (send_wqe qp wqe)) vs;
              Some (upd_send_wqe wqe (\<lambda>w. w\<lparr>sw_iov := area, sw_total_length := total_len vs\<rparr>) qp)
            }
            else Some qp);
     enqueue_send D wqe (upd_send_wqe wqe (\<lambda>w. w\<lparr>sw_bytes_sent := 0, sw_bytes_acked := 0\<rparr>) qp)
   }"

definition post_one_send :: "'r dpdk \<Rightarrow> 'r usiw_qp \<Rightarrow> ibv_send_wr \<Rightarrow> (ret \<times> 'r usiw_qp) option" where
  "post_one_send D qp wr =
     (if length (swr_sges wr) > (if swr_opcode wr = IBV_WR_RDMA_READ then 1 else sq_max_sge (sq qp))
      then Some (Pos EINVAL, qp)
      else case qp_get_next_send_wqe D qp of
        (ret, None, qp) \<Rightarrow> Some (ret, qp)
      | (_, Some wqe, qp) \<Rightarrow> do {
          let qp = upd_send_wqe wqe (\<lambda>w. w\<lparr>sw_flags := (if swr_signaled wr \<or> qp_flags qp AND usiw_qp_sig_all \<noteq> 0
                     then usiw_send_signaled else 0)\<rparr>) qp;
          (sw, qp) \<leftarrow> post_send_opcode qp wqe wr;
          case sw of
            Errout ret \<Rightarrow> Some (ret, qp)
          | Free_wqe ret \<Rightarrow> map_option (Pair ret) (qp_free_send_wqe D qp wqe False)
          | Go_on \<Rightarrow> finish_post_send D wqe wr qp
        })"

text \<open>The second result is the rest of the list from \<^verbatim>\<open>*bad_wr\<close> on.\<close>

fun post_send_loop :: "'r dpdk \<Rightarrow> 'r usiw_qp \<Rightarrow> ibv_send_wr list \<Rightarrow> (ret \<times> ibv_send_wr list \<times> 'r usiw_qp) option" where
  "post_send_loop D qp [] = Some (Ok, [], qp)"
| "post_send_loop D qp (wr # wrs) = do {
     (ret, qp) \<leftarrow> post_one_send D qp wr;
     if ret = Ok then post_send_loop D qp wrs else Some (ret, wr # wrs, qp)
   }"

definition usiw_post_send :: "'r dpdk \<Rightarrow> 'r usiw_qp \<Rightarrow> ibv_send_wr list \<Rightarrow> (ret \<times> ibv_send_wr list \<times> 'r usiw_qp) option" where
  "usiw_post_send D qp wrs =
     (if wrs = [] then Some (Pos EINVAL, wrs, qp)
      else if conn_state (shm_qp qp) = usiw_qp_shutdown \<or> conn_state (shm_qp qp) = usiw_qp_error
      then Some (Pos EINVAL, wrs, qp)
      else post_send_loop D qp wrs)"

section \<open>Posting receive requests\<close>

definition post_one_recv :: "'r dpdk \<Rightarrow> 'r usiw_qp \<Rightarrow> ibv_recv_wr \<Rightarrow> (ret \<times> 'r usiw_qp) option" where
  "post_one_recv D qp wr =
     (if length (rwr_sges wr) > rq_max_sge (rq0 qp) then Some (Pos EINVAL, qp)
      else case qp_get_next_recv_wqe D qp of
        (ret, None, qp) \<Rightarrow> Some (case ret of Neg e \<Rightarrow> Pos e | _ \<Rightarrow> ret, qp)
      | (_, Some wqe, qp) \<Rightarrow> do {
          let vs = map sge_iov (rwr_sges wr);
          area \<leftarrow> fill_iov (rw_iov (recv_wqe qp wqe)) vs;
          let qp = upd_recv_wqe wqe (\<lambda>w. w\<lparr>rw_wr_context := rwr_id wr, rw_total_request_size := total_len vs,
             rw_iov_count := length vs, rw_iov := area, rw_remote_ep := True, rw_msn := 0, rw_recv_size := 0,
             rw_input_size := 0, rw_complete := False\<rparr>) qp;
          r \<leftarrow> rte_ring_enqueue D (rq_ring (rq0 qp)) wqe;
          Some (Ok, qp\<lparr>rq0 := (rq0 qp)\<lparr>rq_ring := r\<rparr>\<rparr>)
        })"

fun post_recv_loop :: "'r dpdk \<Rightarrow> 'r usiw_qp \<Rightarrow> ibv_recv_wr list \<Rightarrow> (ret \<times> ibv_recv_wr list \<times> 'r usiw_qp) option" where
  "post_recv_loop D qp [] = Some (Ok, [], qp)"
| "post_recv_loop D qp (wr # wrs) = do {
     (ret, qp) \<leftarrow> post_one_recv D qp wr;
     if ret = Ok then post_recv_loop D qp wrs else Some (ret, wr # wrs, qp)
   }"

definition usiw_post_recv :: "'r dpdk \<Rightarrow> 'r usiw_qp \<Rightarrow> ibv_recv_wr list \<Rightarrow> (ret \<times> ibv_recv_wr list \<times> 'r usiw_qp) option" where
  "usiw_post_recv D qp wrs =
     (if conn_state (shm_qp qp) = usiw_qp_error then Some (Pos EINVAL, wrs, qp)
      else post_recv_loop D qp wrs)"

section \<open>Polling\<close>

record ibv_wc =
  iwc_wr_id :: u64
  iwc_status :: ibv_wc_status
  iwc_opcode :: ibv_wc_opcode
  iwc_byte_len :: u32
  iwc_qp_num :: u32
  iwc_flags :: u32

definition do_poll_cq :: "'r dpdk \<Rightarrow> 'r usiw_cq \<Rightarrow> nat \<Rightarrow> (usiw_wc list \<times> 'r usiw_cq) option" where
  "do_poll_cq D cq num_entries =
     (case rte_ring_dequeue_burst D (cqe_ring cq) num_entries of
        (cqe, r) \<Rightarrow>
          let wc = map (cq_storage cq) cqe; (ret, f) = rte_ring_enqueue_burst D (cq_free_ring cq) cqe
          in do {
            assert_c (ret = length cqe);
            Some (wc, cq\<lparr>cqe_ring := r, cq_free_ring := f\<rparr>)
          })"

definition convert_cqes :: "usiw_wc list \<Rightarrow> ibv_wc list" where
  "convert_cqes = map (\<lambda>c. \<lparr>iwc_wr_id = wc_wr_context c, iwc_status = wc_status c, iwc_opcode = wc_opcode c,
     iwc_byte_len = wc_byte_len c, iwc_qp_num = wc_qp_num c, iwc_flags = 0\<rparr>)"

definition usiw_poll_cq :: "'r dpdk \<Rightarrow> 'r usiw_cq \<Rightarrow> nat \<Rightarrow> (ibv_wc list \<times> 'r usiw_cq) option" where
  "usiw_poll_cq D cq num_entries = map_option (\<lambda>(wc, cq). (convert_cqes wc, cq)) (do_poll_cq D cq num_entries)"

definition usiw_req_notify_cq :: "'r usiw_cq \<Rightarrow> bool \<Rightarrow> bool \<Rightarrow> ret \<times> 'r usiw_cq" where
  "usiw_req_notify_cq cq has_channel solicited_only =
     (if \<not> has_channel then (Pos EINVAL, cq)
      else if solicited_only then (Ok, cq)
      else (Ok, cq\<lparr>notify_flag := True\<rparr>))"

end
