(* ===== verification/Lifeline.thy ===== *)
theory Lifeline
  imports Progress Verbs_Post
begin

text \<open>
  What the data path leaves alone. Everything the progress engine and the posting verbs do keeps
  the life of the queue pair: its number and reference count, its completion queues with their
  counts, what has been sent to the daemon and which completion queues have been freed. The
  connection state stays as it is or becomes the error state.
\<close>

section \<open>The life of a queue pair\<close>

definition lifeline :: "'r usiw_qp \<Rightarrow>
   u32 \<times> u32 \<times> usiw_device \<times> u16 \<times> nat \<times> nat \<times> (nat \<Rightarrow> u32) \<times> (nat \<Rightarrow> u64) \<times> nat list \<times> sock_msg list" where
  "lifeline qp = (qp_num qp, qp_refcnt qp, qp_dev qp, shm_qp_id (shm_qp qp), send_cq qp, recv_cq qp,
     \<lambda>i. cq_refcnt (cqs qp i), \<lambda>i. cq_qp_count (cqs qp i), io_cq_freed (io qp), io_sock (io qp))"

definition kept :: "'r usiw_qp \<Rightarrow> 'r usiw_qp \<Rightarrow> bool" where
  "kept qp qp' \<longleftrightarrow> lifeline qp' = lifeline qp \<and>
     (conn_state (shm_qp qp') = conn_state (shm_qp qp) \<or> conn_state (shm_qp qp') = usiw_qp_error)"

lemma kept_refl [simp, intro!]: "kept qp qp"
  by (simp add: kept_def)

lemma kept_trans [trans]: "kept a b \<Longrightarrow> kept b c \<Longrightarrow> kept a c"
  by (auto simp: kept_def)

lemma lifeline_updates [simp]:
  "lifeline (qp\<lparr>sq := a\<rparr>) = lifeline qp" "lifeline (qp\<lparr>rq0 := b\<rparr>) = lifeline qp" "lifeline (qp\<lparr>txq := c\<rparr>) = lifeline qp"
  "lifeline (qp\<lparr>remote_ep := d\<rparr>) = lifeline qp" "lifeline (qp\<lparr>qp_stats := e\<rparr>) = lifeline qp"
  "lifeline (qp\<lparr>qp_mem := f\<rparr>) = lifeline qp" "lifeline (qp\<lparr>qp_pd := g\<rparr>) = lifeline qp"
  "lifeline (qp\<lparr>readresp_store := h\<rparr>) = lifeline qp" "lifeline (qp\<lparr>readresp_head_msn := i\<rparr>) = lifeline qp"
  "lifeline (qp\<lparr>ord_active := j\<rparr>) = lifeline qp"
  "lifeline (ticked qp) = lifeline qp" "lifeline (upd_send_wqe k u qp) = lifeline qp"
  "lifeline (upd_recv_wqe k v qp) = lifeline qp" "lifeline (upd_readresp k w qp) = lifeline qp"
  "lifeline (set_conn_state l qp) = lifeline qp"
  "lifeline (qp\<lparr>io := (io qp)\<lparr>io_kernel := m\<rparr>\<rparr>) = lifeline qp"
  "lifeline (qp\<lparr>io := (io qp)\<lparr>io_events := n\<rparr>\<rparr>) = lifeline qp"
  by (simp_all add: lifeline_def ticked_def upd_send_wqe_def upd_recv_wqe_def upd_readresp_def set_conn_state_def)

lemma kept_updates [simp]:
  "kept a (qp\<lparr>sq := x1\<rparr>) = kept a qp" "kept a (qp\<lparr>rq0 := x2\<rparr>) = kept a qp" "kept a (qp\<lparr>txq := x3\<rparr>) = kept a qp"
  "kept a (qp\<lparr>remote_ep := x4\<rparr>) = kept a qp" "kept a (qp\<lparr>qp_stats := x5\<rparr>) = kept a qp"
  "kept a (qp\<lparr>qp_mem := x6\<rparr>) = kept a qp" "kept a (qp\<lparr>qp_pd := x7\<rparr>) = kept a qp"
  "kept a (qp\<lparr>readresp_store := x8\<rparr>) = kept a qp" "kept a (qp\<lparr>readresp_head_msn := x9\<rparr>) = kept a qp"
  "kept a (qp\<lparr>ord_active := x10\<rparr>) = kept a qp" "kept a (ticked qp) = kept a qp"
  "kept a (upd_send_wqe k u qp) = kept a qp" "kept a (upd_recv_wqe k v qp) = kept a qp" "kept a (upd_readresp k w qp) = kept a qp"
  "kept a (qp\<lparr>io := (io qp)\<lparr>io_kernel := x11\<rparr>\<rparr>) = kept a qp" "kept a (qp\<lparr>io := (io qp)\<lparr>io_events := x12\<rparr>\<rparr>) = kept a qp"
  by (simp_all add: kept_def ticked_def upd_send_wqe_def upd_recv_wqe_def upd_readresp_def lifeline_def)

lemma kept_error [simp]: "kept a qp \<Longrightarrow> kept a (set_conn_state usiw_qp_error qp)"
  by (auto simp: kept_def set_conn_state_def lifeline_def)

lemma kept_updates_left [simp]:
  "kept (qp\<lparr>sq := x1\<rparr>) b = kept qp b" "kept (qp\<lparr>rq0 := x2\<rparr>) b = kept qp b" "kept (qp\<lparr>txq := x3\<rparr>) b = kept qp b"
  "kept (qp\<lparr>remote_ep := x4\<rparr>) b = kept qp b" "kept (qp\<lparr>qp_stats := x5\<rparr>) b = kept qp b"
  "kept (qp\<lparr>qp_mem := x6\<rparr>) b = kept qp b" "kept (qp\<lparr>qp_pd := x7\<rparr>) b = kept qp b"
  "kept (qp\<lparr>readresp_store := x8\<rparr>) b = kept qp b" "kept (qp\<lparr>readresp_head_msn := x9\<rparr>) b = kept qp b"
  "kept (qp\<lparr>ord_active := x10\<rparr>) b = kept qp b" "kept (ticked qp) b = kept qp b"
  "kept (upd_send_wqe k u qp) b = kept qp b" "kept (upd_recv_wqe k v qp) b = kept qp b" "kept (upd_readresp k w qp) b = kept qp b"
  "kept (qp\<lparr>io := (io qp)\<lparr>io_kernel := x11\<rparr>\<rparr>) b = kept qp b" "kept (qp\<lparr>io := (io qp)\<lparr>io_events := x12\<rparr>\<rparr>) b = kept qp b"
  by (simp_all add: kept_def ticked_def upd_send_wqe_def upd_recv_wqe_def upd_readresp_def lifeline_def)

lemma kept_error_left [dest]: "kept (set_conn_state usiw_qp_error qp) b \<Longrightarrow> kept qp b"
  by (auto simp: kept_def set_conn_state_def lifeline_def)

named_theorems kept_ops "what an operation keeps of the life of a queue pair"

lemma tx_changed_kept:
  assumes "tx_changed qp qp'"
  shows "kept qp qp'"
proof -
  from assms have eq: "qp'\<lparr>io := io qp, txq := txq qp, remote_ep := remote_ep qp\<rparr> = qp"
    and io: "(io qp')\<lparr>io_tick := tick qp, io_wire := io_wire (io qp)\<rparr> = io qp"
    unfolding tx_changed_def by blast+
  have "qp_refcnt qp' = qp_refcnt qp" using arg_cong [OF eq, of qp_refcnt] by simp
  moreover have "io_cq_freed (io qp') = io_cq_freed (io qp)" "io_sock (io qp') = io_sock (io qp)"
    using arg_cong [OF io, of io_cq_freed] arg_cong [OF io, of io_sock] by simp_all
  ultimately show ?thesis by (simp add: kept_def lifeline_def tx_changed_same [OF assms])
qed

lemma send_ddp_segment_kept [kept_ops]: "send_ddp_segment D qp m rr wqe len = Some (psn, qp') \<Longrightarrow> kept qp qp'"
  by (intro tx_changed_kept send_ddp_segment_changed)

lemma resend_ddp_segment_kept [kept_ops]: "resend_ddp_segment D qp i = Some (r, qp') \<Longrightarrow> kept qp qp'"
  by (intro tx_changed_kept resend_ddp_segment_changed)

lemma send_trp_kept [kept_ops]:
  "send_trp_ack D qp = Some qp' \<Longrightarrow> kept qp qp'" "send_trp_sack D qp = Some qp' \<Longrightarrow> kept qp qp'"
  "send_trp_fin D qp = Some qp' \<Longrightarrow> kept qp qp'" "flush_tx_queue D qp = Some qp' \<Longrightarrow> kept qp qp'"
  by (auto intro: tx_changed_kept send_trp_changed flush_tx_queue_changed)

lemma do_rdmap_terminate_kept [kept_ops]: "do_rdmap_terminate D qp orig err = Some qp' \<Longrightarrow> kept qp qp'"
  by (intro tx_changed_kept do_rdmap_terminate_changed)

lemma qp_free_wqe_kept [kept_ops]:
  "qp_free_send_wqe D qp i s = Some qp' \<Longrightarrow> kept qp qp'" "qp_free_recv_wqe D qp i = Some qp' \<Longrightarrow> kept qp qp'"
  by (auto simp: qp_free_send_wqe_def qp_free_recv_wqe_def split: Option.bind_splits if_splits)

lemma finish_post_cqe_kept [kept_ops]: "finish_post_cqe D qp c e = Some qp' \<Longrightarrow> kept qp qp'"
  by (auto simp: finish_post_cqe_def kept_def lifeline_def Let_def split: Option.bind_splits)

lemma get_next_cqe_kept:
  assumes "get_next_cqe D (cqs qp i) = (r, e, cq)"
  shows "kept qp (qp\<lparr>cqs := (cqs qp)(i := cq\<lparr>cq_storage := s\<rparr>)\<rparr>)"
  using assms by (auto simp: get_next_cqe_def kept_def lifeline_def split: option.splits)

lemma post_cqe_kept [kept_ops]:
  "post_send_cqe D qp wqe st = Some (r, qp') \<Longrightarrow> kept qp qp'" "post_recv_cqe D qp wqe st = Some (r, qp') \<Longrightarrow> kept qp qp'"
  unfolding post_send_cqe_def post_recv_cqe_def
  by (auto simp: Let_def split: prod.splits option.splits Option.bind_splits dest!: get_next_cqe_kept kept_ops
      intro: kept_trans)

lemma for_each_kept:
  assumes "for_each f xs s = Some s'" "\<And>x s s'. f x s = Some s' \<Longrightarrow> kept s s'"
  shows "kept s s'"
  using for_each_invariant [OF assms(1), of "kept s"] assms(2) kept_trans by blast

lemma segment_kept [kept_ops]:
  "rdmap_send_segment D i qp = Some qp' \<Longrightarrow> kept qp qp'" "rdmap_write_segment D i qp = Some qp' \<Longrightarrow> kept qp qp'"
  "read_response_segment D i qp = Some qp' \<Longrightarrow> kept qp qp'"
  unfolding rdmap_send_segment_def rdmap_write_segment_def read_response_segment_def
  by (auto simp: Let_def split: Option.bind_splits prod.splits dest!: kept_ops)

lemma do_rdmap_send_loop_kept: "do_rdmap_send_loop D i qp = Some qp' \<Longrightarrow> kept qp qp'"
proof (induction D i qp rule: do_rdmap_send_loop.induct)
  case (1 D i qp)
  show ?case using 1(2) unfolding do_rdmap_send_loop.simps [of D i qp]
    by (auto split: if_splits Option.bind_splits dest: kept_ops 1(1) intro: kept_trans)
qed

lemma do_rdmap_write_loop_kept: "do_rdmap_write_loop D i qp = Some qp' \<Longrightarrow> kept qp qp'"
proof (induction D i qp rule: do_rdmap_write_loop.induct)
  case (1 D i qp)
  show ?case using 1(2) unfolding do_rdmap_write_loop.simps [of D i qp]
    by (auto split: if_splits Option.bind_splits dest: kept_ops 1(1) intro: kept_trans)
qed

lemma read_response_loop_kept: "read_response_loop D i c qp = Some (c', qp') \<Longrightarrow> kept qp qp'"
proof (induction D i c qp rule: read_response_loop.induct)
  case (1 D i c qp)
  show ?case using 1(2) unfolding read_response_loop.simps [of D i c qp]
    by (auto split: if_splits Option.bind_splits dest: kept_ops 1(1) intro: kept_trans)
qed

lemma do_rdmap_kept [kept_ops]:
  "do_rdmap_send D qp i = Some qp' \<Longrightarrow> kept qp qp'" "do_rdmap_write D qp i = Some qp' \<Longrightarrow> kept qp qp'"
  "do_rdmap_read_request D qp i = Some qp' \<Longrightarrow> kept qp qp'"
  unfolding do_rdmap_send_def do_rdmap_write_def do_rdmap_read_request_def
  by (auto simp: Let_def wait_if_sent_def split: if_splits Option.bind_splits prod.splits
      dest!: kept_ops do_rdmap_send_loop_kept do_rdmap_write_loop_kept)

lemma respond_rdma_read_loop_kept: "respond_rdma_read_loop D n m c qp = Some (c', qp') \<Longrightarrow> kept qp qp'"
proof (induction n arbitrary: m c qp)
  case (Suc n)
  show ?case using Suc.prems
    by (auto simp: Let_def split: Option.bind_splits prod.splits if_splits dest!: read_response_loop_kept Suc.IH intro: kept_trans)
qed simp

lemma respond_rdma_read_kept [kept_ops]: "respond_rdma_read D qp = Some (c, qp') \<Longrightarrow> kept qp qp'"
  unfolding respond_rdma_read_def by (rule respond_rdma_read_loop_kept)

lemma try_complete_wqe_kept [kept_ops]: "try_complete_wqe D qp i = Some qp' \<Longrightarrow> kept qp qp'"
  unfolding try_complete_wqe_def
  by (auto split: list.splits if_splits Option.bind_splits dest!: kept_ops)

lemma do_process_ack_kept [kept_ops]: "do_process_ack D qp i m = Some qp' \<Longrightarrow> kept qp qp'"
  unfolding do_process_ack_def by (auto simp: Let_def split: if_splits Option.bind_splits dest!: kept_ops)

lemma sweep_acked_kept: "sweep_acked D n qp = Some (k, qp') \<Longrightarrow> kept qp qp'"
proof (induction n arbitrary: qp)
  case (Suc n)
  show ?case using Suc.prems
    by (auto split: Option.bind_splits tx_slot.splits if_splits option.splits dest!: kept_ops Suc.IH intro: kept_trans)
qed simp

lemma retransmit_failed_kept [kept_ops]: "retransmit_failed D qp p m r = Some qp' \<Longrightarrow> kept qp qp'"
  unfolding retransmit_failed_def
  by (auto simp: Let_def split: Option.bind_splits option.splits if_splits dest!: kept_ops)

lemma sweep_retransmit_kept: "sweep_retransmit D now n p qp = Some qp' \<Longrightarrow> kept qp qp'"
  by (induction n arbitrary: p qp)
    (auto split: Option.bind_splits tx_slot.splits if_splits prod.splits dest!: kept_ops intro: kept_trans)

lemma sweep_unacked_packets_kept [kept_ops]: "sweep_unacked_packets D qp now = Some qp' \<Longrightarrow> kept qp qp'"
  unfolding sweep_unacked_packets_def
  by (auto simp: Let_def split: Option.bind_splits if_splits prod.splits dest!: sweep_acked_kept sweep_retransmit_kept
      intro: kept_trans)

lemma activate_recv_wqes_kept: "kept a qp \<Longrightarrow> kept a (fold activate_recv_wqe ws qp)"
  by (induction ws arbitrary: qp) (simp_all add: activate_recv_wqe_def Let_def)

lemma dequeue_recv_wqes_kept [kept_ops]: "dequeue_recv_wqes D qp = Some qp' \<Longrightarrow> kept qp qp'"
proof (induction arbitrary: rule: dequeue_recv_wqes.raw_induct [rotated 1, consumes 1])
  case (1 loop D qp y)
  show ?case using 1(2)
    by (auto simp: Let_def split: prod.splits if_splits dest!: 1(1)
        intro: kept_trans [OF activate_recv_wqes_kept [of _ "qp\<lparr>rq0 := _\<rparr>"]])
qed

lemma post_completed_recvs_kept [kept_ops]: "post_completed_recvs D qp = Some qp' \<Longrightarrow> kept qp qp'"
proof (induction rule: post_completed_recvs.raw_induct [rotated 1, consumes 1])
  case (1 loop D qp y)
  show ?case using 1(2)
    by (auto split: list.splits if_splits Option.bind_splits dest!: 1(1) kept_ops intro: kept_trans)
qed

lemma rq_flush_drain_kept [kept_ops]: "rq_flush_drain D qp = Some qp' \<Longrightarrow> kept qp qp'"
proof (induction rule: rq_flush_drain.raw_induct [rotated 1, consumes 1])
  case (1 loop D qp y)
  show ?case using 1(2) by (auto simp: Let_def split: option.splits prod.splits dest!: 1(1))
qed

lemma sq_flush_drain_kept [kept_ops]: "sq_flush_drain D qp = Some qp' \<Longrightarrow> kept qp qp'"
proof (induction rule: sq_flush_drain.raw_induct [rotated 1, consumes 1])
  case (1 loop D qp y)
  show ?case using 1(2) by (auto simp: Let_def split: option.splits prod.splits dest!: 1(1))
qed

lemma for_each_post_cqe_kept:
  "for_each (\<lambda>i qp. map_option snd (post_send_cqe D qp i st)) is qp = Some qp' \<Longrightarrow> kept qp qp'"
  "for_each (\<lambda>i qp. map_option snd (post_recv_cqe D qp i st)) is qp = Some qp' \<Longrightarrow> kept qp qp'"
  by (rule for_each_kept, assumption, auto dest: kept_ops)+

lemma flush_kept [kept_ops]: "rq_flush D qp = Some qp' \<Longrightarrow> kept qp qp'" "sq_flush D qp = Some qp' \<Longrightarrow> kept qp qp'"
  unfolding rq_flush_def sq_flush_def
  by (auto split: Option.bind_splits dest!: rq_flush_drain_kept sq_flush_drain_kept for_each_post_cqe_kept intro: kept_trans)

lemma qp_shutdown_kept [kept_ops]: "qp_shutdown D qp = Some qp' \<Longrightarrow> kept qp qp'"
  unfolding qp_shutdown_def
  by (auto simp: Let_def split: Option.bind_splits dest!: kept_ops) (blast dest: kept_error_left intro: kept_trans)

lemma place_send_kept [kept_ops]: "place_send qp orig i off n l = Some (p, qp') \<Longrightarrow> kept qp qp'"
  unfolding place_send_def by (auto simp: Let_def split: if_splits Option.bind_splits)

lemma process_send_kept [kept_ops]: "process_send D qp orig = Some qp' \<Longrightarrow> kept qp qp'"
  unfolding process_send_def
  by (auto simp: Let_def split: Option.bind_splits if_splits option.splits prod.splits dest!: kept_ops intro: kept_trans)

lemma process_rdma_read_kept [kept_ops]:
  "process_rdma_read_request D qp orig = Some qp' \<Longrightarrow> kept qp qp'"
  "process_rdma_read_response D qp orig = Some qp' \<Longrightarrow> kept qp qp'"
  unfolding process_rdma_read_request_def process_rdma_read_response_def
  by (auto simp: Let_def split: Option.bind_splits if_splits option.splits prod.splits dest!: kept_ops)

lemma ddp_place_tagged_data_kept [kept_ops]: "ddp_place_tagged_data D qp orig = Some qp' \<Longrightarrow> kept qp qp'"
  unfolding ddp_place_tagged_data_def
  by (auto simp: Let_def split: Option.bind_splits if_splits option.splits dest!: kept_ops)

lemma process_terminate_kept [kept_ops]: "process_terminate D qp orig = Some qp' \<Longrightarrow> kept qp qp'"
  unfolding process_terminate_def
  by (auto simp: Let_def split: Option.bind_splits if_splits option.splits dest!: kept_ops)

lemma process_ddp_segment_kept [kept_ops]: "process_ddp_segment D qp orig = Some qp' \<Longrightarrow> kept qp qp'"
  unfolding process_ddp_segment_def by (auto simp: Let_def split: if_splits dest!: kept_ops)

lemma process_data_packet_kept [kept_ops]: "process_data_packet D qp m = Some qp' \<Longrightarrow> kept qp qp'"
  unfolding process_data_packet_def
  by (auto simp: Let_def split: Option.bind_splits if_splits prod.splits dest!: kept_ops)

lemma receive_burst_kept: "receive_burst D qp = (ms, qp') \<Longrightarrow> kept qp qp'"
  unfolding receive_burst_def by (auto simp: Let_def split: if_splits option.splits prod.splits)

lemma process_receive_queue_kept [kept_ops]: "process_receive_queue D qp = Some (now, n, qp') \<Longrightarrow> kept qp qp'"
  unfolding process_receive_queue_def
  by (auto simp: Let_def split: prod.splits Option.bind_splits dest!: receive_burst_kept for_each_kept [OF _ process_data_packet_kept]
      intro: kept_trans)

lemma complete_first_read_kept [kept_ops]: "complete_first_read D qp = Some qp' \<Longrightarrow> kept qp qp'"
  unfolding complete_first_read_def by (auto split: option.splits dest!: kept_ops)

lemma complete_reads_kept [kept_ops]: "complete_reads D qp = Some qp' \<Longrightarrow> kept qp qp'"
proof (induction D qp rule: complete_reads.induct)
  case (1 D qp)
  show ?case using 1(2) unfolding complete_reads.simps [of D qp]
    by (auto split: option.splits if_splits Option.bind_splits dest!: 1(1) dest: complete_first_read_kept intro: kept_trans)
qed

lemma progress_send_wqe_kept [kept_ops]: "progress_send_wqe D qp i = Some qp' \<Longrightarrow> kept qp qp'"
  unfolding progress_send_wqe_def by (auto split: if_splits usiw_send_opcode.splits dest!: kept_ops)

lemma progress_active_kept:
  assumes "for_each (progress_active D) ws (n, qp) = Some (m, qp')"
  shows "kept qp qp'"
proof -
  have "case (m, qp') of (_, q) \<Rightarrow> kept qp q"
    by (rule for_each_invariant [OF assms])
      (auto simp: progress_active_def split: Option.bind_splits prod.splits if_splits dest!: kept_ops intro: kept_trans)
  then show ?thesis by simp
qed

lemma start_next_wqe_kept [kept_ops]: "start_next_wqe D qp = Some (n, qp') \<Longrightarrow> kept qp qp'"
  unfolding start_next_wqe_def
  by (auto simp: Let_def split: option.splits prod.splits Option.bind_splits usiw_send_opcode.splits dest!: kept_ops)

lemma send_ack_if_due_kept: "send_ack_if_due D qp = Some qp' \<Longrightarrow> kept qp qp'"
  unfolding send_ack_if_due_def by (auto split: if_splits dest!: kept_ops)

lemma progress_qp_kept: 
  assumes "progress_qp D qp = Some qp'"
  shows "kept qp qp'"
proof -
  obtain now n qp1 qp2 qp3 c qp4 c' qp5 c'' qp6 qp7 where "process_receive_queue D qp = Some (now, n, qp1)"
    "sweep_unacked_packets D qp1 now = Some qp2" "complete_reads D qp2 = Some qp3"
    and act: "for_each (progress_active D) (sq_active (sq qp3)) (0, qp3) = Some (c, qp4)"
    and st: "(if c = 0 then start_next_wqe D qp4 else Some (c, qp4)) = Some (c', qp5)"
    and "respond_rdma_read D qp5 = Some (c'', qp6)"
    and ack: "send_ack_if_due D qp6 = Some qp7" and "flush_tx_queue D qp7 = Some qp'"
    using assms unfolding progress_qp_def by (auto split: Option.bind_splits prod.splits)
  then have 1: "kept qp qp1" "kept qp1 qp2" "kept qp2 qp3" "kept qp5 qp6" "kept qp7 qp'" by (blast dest: kept_ops)+
  have "kept qp qp2" by (rule kept_trans [OF 1(1,2)])
  also note 1(3)
  also note progress_active_kept [OF act]
  also have "kept qp4 qp5" using st by (auto split: if_splits dest!: kept_ops)
  also note 1(4)
  also note send_ack_if_due_kept [OF ack]
  also note 1(5)
  finally show ?thesis .
qed

section \<open>The verbs\<close>

lemma qp_get_next_wqe_kept:
  "qp_get_next_send_wqe D qp = (r, w, qp') \<Longrightarrow> kept qp qp'" "qp_get_next_recv_wqe D qp = (r, w, qp') \<Longrightarrow> kept qp qp'"
  by (auto simp: qp_get_next_send_wqe_def qp_get_next_recv_wqe_def split: option.splits prod.splits)

lemma enqueue_send_kept: "enqueue_send D i qp = Some (r, qp') \<Longrightarrow> kept qp qp'"
  unfolding enqueue_send_def by (auto simp: Let_def split: option.splits Option.bind_splits)

lemma do_inline_kept: "do_inline qp i wr = Some (r, qp') \<Longrightarrow> kept qp qp'"
  unfolding do_inline_def by (auto simp: Let_def split: Option.bind_splits prod.splits if_splits)

lemma post_send_opcode_kept: "post_send_opcode qp i wr = Some (r, qp') \<Longrightarrow> kept qp qp'"
  unfolding post_send_opcode_def
  by (auto simp: Let_def split: Option.bind_splits option.splits if_splits ibv_wr_opcode.splits dest!: do_inline_kept)

lemma finish_post_send_kept: "finish_post_send D i wr qp = Some (r, qp') \<Longrightarrow> kept qp qp'"
  unfolding finish_post_send_def
  by (auto simp: Let_def split: Option.bind_splits if_splits dest!: enqueue_send_kept)

lemma post_one_send_kept:
  assumes "post_one_send D qp wr = Some (r, qp')"
  shows "kept qp qp'"
proof (cases "length (swr_sges wr) > (if swr_opcode wr = IBV_WR_RDMA_READ then 1 else sq_max_sge (sq qp))")
  case False
  obtain r1 w qp1 where next_wqe: "qp_get_next_send_wqe D qp = (r1, w, qp1)" by (metis prod_cases3)
  then have 1: "kept qp qp1" by (rule qp_get_next_wqe_kept)
  show ?thesis
  proof (cases w)
    case (Some i)
    obtain sw qp2 f where op: "post_send_opcode (upd_send_wqe i f qp1) i wr = Some (sw, qp2)"
      and rest: "(case sw of Errout ret \<Rightarrow> Some (ret, qp2) | Free_wqe ret \<Rightarrow> map_option (Pair ret) (qp_free_send_wqe D qp2 i False)
        | Go_on \<Rightarrow> finish_post_send D i wr qp2) = Some (r, qp')"
      using assms False unfolding post_one_send_def next_wqe Some by (simp add: Let_def split: Option.bind_splits prod.splits)
    have 2: "kept qp qp2" using post_send_opcode_kept [OF op] kept_trans [OF 1, of qp2] by simp
    have "kept qp2 qp'" using rest by (auto split: post_switch.splits dest!: finish_post_send_kept kept_ops)
    with 2 show ?thesis by (rule kept_trans)
  qed (use assms False 1 in \<open>simp add: post_one_send_def next_wqe\<close>)
qed (use assms in \<open>simp add: post_one_send_def\<close>)

lemma post_one_recv_kept: "post_one_recv D qp wr = Some (r, qp') \<Longrightarrow> kept qp qp'"
  unfolding post_one_recv_def
  by (auto simp: Let_def split: prod.splits option.splits Option.bind_splits if_splits
      dest!: qp_get_next_wqe_kept intro: kept_trans)

lemma post_send_loop_kept: "post_send_loop D qp wrs = Some (r, bad, qp') \<Longrightarrow> kept qp qp'"
proof (induction wrs arbitrary: qp)
  case (Cons wr wrs)
  show ?case using Cons.prems
    by (auto split: Option.bind_splits prod.splits if_splits dest!: Cons.IH post_one_send_kept intro: kept_trans)
qed simp

lemma post_recv_loop_kept: "post_recv_loop D qp wrs = Some (r, bad, qp') \<Longrightarrow> kept qp qp'"
proof (induction wrs arbitrary: qp)
  case (Cons wr wrs)
  show ?case using Cons.prems
    by (auto split: Option.bind_splits prod.splits if_splits dest!: Cons.IH post_one_recv_kept intro: kept_trans)
qed simp

lemma usiw_post_kept:
  "usiw_post_send D qp wrs = Some (r, bad, qp') \<Longrightarrow> kept qp qp'" "usiw_post_recv D qp rrs = Some (r, bad', qp') \<Longrightarrow> kept qp qp'"
  by (auto simp: usiw_post_send_def usiw_post_recv_def split: if_splits dest!: post_send_loop_kept post_recv_loop_kept)

end
