(* ===== verification/Verbs_Objects.thy ===== *)
theory Verbs_Objects
  imports Verbs_Post Progress
begin

text \<open>
  The verbs that create, query, modify and destroy the objects of the library
  (\<^verbatim>\<open>liburdma/verbs.c\<close>): completion queues and queue pairs, with the attributes of the device.
  The commands that go to the kernel (\<^verbatim>\<open>ibv_cmd_...\<close>) and the answers of the daemon are
  arguments: their results are what the kernel and the daemon gave.
\<close>

section \<open>Sizes\<close>

definition SIZE_POW2_MAX :: int where "SIZE_POW2_MAX = 2 ^ 30"
definition INT_MAX :: int where "INT_MAX = 2 ^ 31 - 1"
definition MAX_SEND_WR :: nat where "MAX_SEND_WR = 1023"
definition MAX_RECV_WR :: nat where "MAX_RECV_WR = 1023"
definition DPDK_VERBS_RDMA_READ_IOV_LEN_MAX :: nat where "DPDK_VERBS_RDMA_READ_IOV_LEN_MAX = 1"
definition USIW_IRD_MAX :: u8 where "USIW_IRD_MAX = 128"
definition USIW_ORD_MAX :: u8 where "USIW_ORD_MAX = 128"

text \<open>The loop of \<^verbatim>\<open>next_pow2\<close>; after \<open>k\<close> shifts \<^verbatim>\<open>out\<close> is \<open>2 ^ k\<close>.\<close>

function next_pow2_loop :: "int \<Rightarrow> nat \<Rightarrow> int" where
  "next_pow2_loop n k = (if 2 ^ k < n then next_pow2_loop n (Suc k) else 2 ^ k)"
  by pat_completeness auto
termination
proof (relation "measure (\<lambda>(n, k). nat n - k)", goal_cases)
  case (2 n k)
  have "int k < 2 ^ k" by (metis less_exp of_nat_less_iff of_nat_numeral of_nat_power)
  also have "\<dots> < n" using 2 by simp
  finally have "k < nat n" by simp
  then show ?case by auto
qed simp

declare next_pow2_loop.simps [simp del]

definition next_pow2 :: "int \<Rightarrow> int option" where
  "next_pow2 n = do {
     assert_c (n < SIZE_POW2_MAX);
     Some (next_pow2_loop n 0)
   }"

section \<open>Completion queues\<close>

text \<open>
  The value of \<^verbatim>\<open>errno\<close> when a function returns \<^verbatim>\<open>NULL\<close> is the left result. The signed sum
  \<^verbatim>\<open>size + 1\<close> must not overflow. The code tests \<^verbatim>\<open>cqe_ring\<close> where it means \<^verbatim>\<open>free_ring\<close>: a failed
  allocation of the second ring goes on with a null pointer, and a failed initialisation of it
  is ignored. \<open>t\<close> numbers the allocations.
\<close>

definition usiw_create_cq :: "'r dpdk \<Rightarrow> nat \<Rightarrow> ret \<Rightarrow> u32 \<Rightarrow> (nat \<Rightarrow> usiw_wc) \<Rightarrow> int \<Rightarrow> (ret + 'r usiw_cq) option" where
  "usiw_create_cq D t cmd cqid junk sz = do {
     assert_c (sz < INT_MAX);
     if sz + 1 > SIZE_POW2_MAX then Some (Inl (Neg EINVAL))
     else do {
       p \<leftarrow> next_pow2 (sz + 1);
       let n = nat (p - 1);
       if \<not> calloc D t then Some (Inl (Pos ENOMEM))
       else if cmd \<noteq> Ok then Some (Inl cmd)
       else if \<not> rte_malloc D (t + 1) then Some (Inl (Pos (rte_errno D (t + 1))))
       else case rte_ring_init D (n + 1) of
         (Neg e, _) \<Rightarrow> Some (Inl (Pos e))
       | (Pos e, _) \<Rightarrow> Some (Inl (Neg e))
       | (Ok, ready) \<Rightarrow> do {
           assert_c (rte_malloc D (t + 2));
           let free_ring = snd (rte_ring_init D (n + 1));
           Some (Inr \<lparr>cq_refcnt = 1, cqe_ring = ready, cq_free_ring = ring_put_all D free_ring [0..<n],
             cq_storage = junk, cq_capacity = n, cq_qp_count = 0, cq_id = cqid, notify_flag = False\<rparr>)
         }
     }
   }"

text \<open>
  The left result is \<^verbatim>\<open>-1\<close> with that value of \<^verbatim>\<open>errno\<close>. The last result says whether the memory of
  the completion queue is freed.
\<close>

definition usiw_destroy_cq :: "ret \<Rightarrow> 'r usiw_cq \<Rightarrow> (errno + ret) \<times> 'r usiw_cq \<times> bool" where
  "usiw_destroy_cq cmd cq =
     (if cq_qp_count cq \<noteq> 0 then (Inl EBUSY, cq, False)
      else (Inr cmd, cq\<lparr>cq_refcnt := cq_refcnt cq - 1\<rparr>, cq_refcnt cq = 1))"

section \<open>Contexts\<close>

text \<open>The queue pairs of a context: the hash table and the list of the progress thread hold queue pair numbers.\<close>

record usiw_context =
  ctx_dev :: usiw_device
  ctx_qp :: "u32 list"
  ctx_qp_active :: "u32 list"
  qp_init_count :: u32

section \<open>The daemon\<close>

text \<open>
  A queue pair number is requested from the daemon. \<open>sent\<close> and \<open>received\<close> are the results of
  \<^verbatim>\<open>send\<close> and \<^verbatim>\<open>recv\<close>; they are compared with the unsigned size of the message. \<open>opcode\<close> and
  \<open>ptr\<close> are the message buffer after \<^verbatim>\<open>recv\<close>, with the shared structure that \<open>ptr\<close> points to.
\<close>

definition urdma_sock_create_qp_resp :: u32 where "urdma_sock_create_qp_resp = 2"

record sock_reply =
  sock_sent :: u64
  sock_received :: u64
  sock_opcode :: u32
  sock_ptr :: "urdmad_qp option"

definition port_get_next_qp :: "usiw_device \<Rightarrow> sock_reply \<Rightarrow> sock_msg \<times> urdmad_qp option" where
  "port_get_next_qp dev s =
     (Sock_create_qp (dev_portid dev),
      if sock_sent s < 16 then None
      else if sock_received s < 16 \<or> sock_opcode s \<noteq> urdma_sock_create_qp_resp then None
      else sock_ptr s)"

text \<open>\<open>dev\<close> is \<^verbatim>\<open>qp->dev\<close>, which is a null pointer until \<^verbatim>\<open>usiw_create_qp\<close> has set it.\<close>

definition port_return_qp :: "usiw_device option \<Rightarrow> urdmad_qp \<Rightarrow> sock_msg option" where
  "port_return_qp dev shm = do {
     dev \<leftarrow> dev;
     Some (Sock_destroy_qp (dev_portid dev) (shm_qp_id shm))
   }"

section \<open>Queue pairs\<close>

datatype ibv_qp_type = IBV_QPT_RC | IBV_QPT_UD | IBV_QPT_OTHER

record ibv_qp_cap =
  max_send_wr :: nat
  max_recv_wr :: nat
  max_send_sge :: nat
  max_recv_sge :: nat
  max_inline_data :: nat

record ibv_qp_init_attr =
  init_type :: ibv_qp_type
  init_cap :: ibv_qp_cap
  init_sq_sig_all :: bool
  init_send_cq :: nat
  init_recv_cq :: nat

text \<open>The checks and adjustments of the requested capabilities; the left result is a rejected request.\<close>

definition create_qp_caps :: "ibv_qp_init_attr \<Rightarrow> (errno + ibv_qp_cap) option" where
  "create_qp_caps attr =
     (let cap = init_cap attr in
      if init_type attr \<noteq> IBV_QPT_UD \<and> init_type attr \<noteq> IBV_QPT_RC
         \<or> max_send_wr cap > MAX_SEND_WR \<or> max_recv_wr cap > MAX_RECV_WR
         \<or> max_send_sge cap > DPDK_VERBS_IOV_LEN_MAX \<or> max_recv_sge cap > DPDK_VERBS_IOV_LEN_MAX
         \<or> max_inline_data cap > 16 * DPDK_VERBS_IOV_LEN_MAX
      then Some (Inl EINVAL)
      else do {
        s \<leftarrow> next_pow2 (int (max_send_wr cap) + 1);
        r \<leftarrow> next_pow2 (int (max_recv_wr cap) + 1);
        let cap = cap\<lparr>max_send_wr := nat (max (s - 1) 63), max_recv_wr := nat (max (r - 1) 63),
                    max_send_sge := (if max_send_sge cap = 0 then 3 else max_send_sge cap),
                    max_recv_sge := (if max_recv_sge cap = 0 then 3 else max_recv_sge cap)\<rparr>;
        let sz = max_send_sge cap * 16;
        Some (Inr (cap\<lparr>max_inline_data := (if max_inline_data cap < sz then sz else max_inline_data cap),
                       max_send_sge := (if max_inline_data cap > sz then (max_inline_data cap - 1) div 16 + 1 else max_send_sge cap)\<rparr>))
      })"

definition hold_cq :: "nat \<Rightarrow> (nat \<Rightarrow> 'r usiw_cq) \<Rightarrow> (nat \<Rightarrow> 'r usiw_cq)" where
  "hold_cq i cs = cs(i := (cs i)\<lparr>cq_qp_count := cq_qp_count (cs i) + 1, cq_refcnt := cq_refcnt (cs i) + 1\<rparr>)"

text \<open>
  A queue pair in memory cleared by \<^verbatim>\<open>calloc\<close>. \<open>r\<close> stands for a null ring pointer.
\<close>

definition zero_qp :: "'r \<Rightarrow> urdmad_qp \<Rightarrow> usiw_device \<Rightarrow> usiw_mr_table \<Rightarrow> memory \<Rightarrow> (nat \<Rightarrow> 'r usiw_cq) \<Rightarrow> outside \<Rightarrow> 'r usiw_qp" where
  "zero_qp r shm dev pd m cs out = \<lparr>qp_num = 0, qp_flags = 0, qp_refcnt = 0, shm_qp = shm, qp_dev = dev, send_cq = 0, recv_cq = 0,
     cqs = cs, txq = [],
     sq = \<lparr>sq_ring = r, sq_free_ring = r, sq_active = [], sq_storage = \<lambda>_. zero_send_wqe 0, sq_max_wr = 0, sq_max_sge = 0, sq_max_inline = 0\<rparr>,
     rq0 = \<lparr>rq_ring = r, rq_free_ring = r, rq_active = [], rq_next_msn = 0, rq_storage = \<lambda>_. zero_recv_wqe 0, rq_max_wr = 0, rq_max_sge = 0\<rparr>,
     readresp_store = [], readresp_head_msn = 0, ord_active = 0, qp_pd = pd,
     remote_ep = \<lparr>expected_read_msn = 0, expected_ack_msn = 0, next_send_msn = 0, next_read_msn = 0, next_ack_msn = 0,
       send_last_acked_psn = 0, send_next_psn = 0, send_max_psn = 0, recv_ack_psn = 0,
       recv_rresp_last_psn = \<lparr>bh_size = 0, bh_capacity = 0, bh_arr = []\<rparr>, trp_flags = 0,
       recv_sack_psn = \<lparr>psn_min = 0, psn_max = 0\<rparr>, tx_pending = [], tx_head = 0, tx_pending_size = 0, rx_queue = None\<rparr>,
     qp_stats = \<lparr>recv_count_histo = [], recv_max_burst_size = 0, recv_psn_gap_count = 0, recv_retransmit_count = 0, recv_sack_count = 0\<rparr>,
     qp_mem = m, io = out\<rparr>"

text \<open>
  What \<^verbatim>\<open>usiw_create_qp\<close> is given from outside: the answers of the daemon and the kernel, and the
  state it works on. The result \<open>Inl Ok\<close> is a null pointer with \<^verbatim>\<open>errno\<close> left as it was. When the
  kernel refuses the queue pair the code gives the shared structure back while \<^verbatim>\<open>qp->dev\<close> is still
  a null pointer.
\<close>

record 'r create_qp_env =
  ce_reply :: sock_reply
  ce_cmd :: ret
  ce_qp_num :: u32
  ce_null :: 'r
  ce_mem :: memory

record 'r verbs_world =
  vw_ctx :: usiw_context
  vw_cqs :: "nat \<Rightarrow> 'r usiw_cq"
  vw_out :: outside

text \<open>The steps after the kernel has created its queue pair. On failure the completion queues stay held.\<close>

definition create_qp_queues ::
  "'r dpdk \<Rightarrow> usiw_mr_table \<Rightarrow> ibv_qp_init_attr \<Rightarrow> ibv_qp_cap \<Rightarrow> 'r create_qp_env \<Rightarrow> urdmad_qp \<Rightarrow> 'r verbs_world \<Rightarrow>
   ((ret + 'r usiw_qp) \<times> 'r verbs_world) option" where
  "create_qp_queues D pd attr cap e shm w =
     (let dev = ctx_dev (vw_ctx w);
          cs = hold_cq (init_send_cq attr) (vw_cqs w);
          cs = (if init_send_cq attr \<noteq> init_recv_cq attr then hold_cq (init_recv_cq attr) cs else cs);
          t = io_tick (vw_out w);
          out = (vw_out w)\<lparr>io_tick := t + 6\<rparr>;
          shm = shm\<lparr>conn_state := usiw_qp_unbound\<rparr>;
          qp = (zero_qp (ce_null e) shm dev pd (ce_mem e) cs out)\<lparr>qp_num := ce_qp_num e,
            qp_flags := (if init_sq_sig_all attr then usiw_qp_sig_all else 0),
            send_cq := init_send_cq attr, recv_cq := init_recv_cq attr\<rparr>;
          fail = (\<lambda>ret. do {
             msg \<leftarrow> port_return_qp (Some dev) shm;
             Some (Inl (case ret of Neg x \<Rightarrow> Pos x | Pos x \<Rightarrow> Neg x | Ok \<Rightarrow> Ok),
               w\<lparr>vw_cqs := cs, vw_out := out\<lparr>io_kernel := io_kernel out @ [Destroy_qp], io_sock := io_sock out @ [msg]\<rparr>\<rparr>)
           });
          (ret, q) = usiw_send_wqe_queue_init D t (sq qp) (max_send_wr cap) (max_send_sge cap)
      in if ret \<noteq> Ok then fail ret
         else let qp = qp\<lparr>sq := q\<lparr>sq_max_inline := of_nat (max_inline_data cap)\<rparr>\<rparr>;
           (ret, q) = usiw_recv_wqe_queue_init D (t + 3) (rq0 qp) (max_recv_wr cap) (max_recv_sge cap)
         in if ret \<noteq> Ok then fail ret
         else Some (Inr (map_ep (\<lambda>ep. ep\<lparr>expected_read_msn := 1, expected_ack_msn := 1, next_send_msn := 1, next_read_msn := 1,
                   next_ack_msn := 1\<rparr>)
                 (qp\<lparr>rq0 := q, readresp_store := [], readresp_head_msn := 1, ord_active := 0, qp_refcnt := 2\<rparr>)),
               w\<lparr>vw_cqs := cs, vw_out := out, vw_ctx := (vw_ctx w)\<lparr>qp_init_count := qp_init_count (vw_ctx w) + 1,
                   ctx_qp := ce_qp_num e # ctx_qp (vw_ctx w), ctx_qp_active := ctx_qp_active (vw_ctx w) @ [ce_qp_num e]\<rparr>\<rparr>))"

definition usiw_create_qp ::
  "'r dpdk \<Rightarrow> usiw_mr_table \<Rightarrow> ibv_qp_init_attr \<Rightarrow> 'r create_qp_env \<Rightarrow> 'r verbs_world \<Rightarrow>
   ((ret + 'r usiw_qp) \<times> 'r verbs_world) option" where
  "usiw_create_qp D pd attr e w = do {
     c \<leftarrow> create_qp_caps attr;
     case c of
       Inl x \<Rightarrow> Some (Inl (Pos x), w)
     | Inr cap \<Rightarrow>
         let t = io_tick (vw_out w); w = w\<lparr>vw_out := (vw_out w)\<lparr>io_tick := t + 1\<rparr>\<rparr> in
         if \<not> calloc D t then Some (Inl (Pos ENOMEM), w)
         else let dev = ctx_dev (vw_ctx w); (msg, shm) = port_get_next_qp dev (ce_reply e);
                w = w\<lparr>vw_out := (vw_out w)\<lparr>io_sock := io_sock (vw_out w) @ [msg]\<rparr>\<rparr>
           in case shm of
                None \<Rightarrow> Some (Inl Ok, w)
              | Some shm \<Rightarrow>
                  let shm = shm\<lparr>ird_max := USIW_IRD_MAX, ord_max := USIW_ORD_MAX\<rparr> in
                  if ce_cmd e \<noteq> Ok
                  then do {
                    msg \<leftarrow> port_return_qp None shm;
                    Some (Inl (ce_cmd e), w\<lparr>vw_out := (vw_out w)\<lparr>io_sock := io_sock (vw_out w) @ [msg]\<rparr>\<rparr>)
                  }
                  else create_qp_queues D pd attr cap e shm w
   }"

datatype ibv_qp_state = IBV_QPS_RESET | IBV_QPS_INIT | IBV_QPS_RTR | IBV_QPS_RTS | IBV_QPS_SQD | IBV_QPS_SQE | IBV_QPS_ERR

fun query_qp_state :: "urdma_qp_state \<Rightarrow> ibv_qp_state" where
  "query_qp_state usiw_qp_unbound = IBV_QPS_INIT"
| "query_qp_state usiw_qp_connected = IBV_QPS_RTS"
| "query_qp_state usiw_qp_running = IBV_QPS_RTS"
| "query_qp_state usiw_qp_shutdown = IBV_QPS_SQD"
| "query_qp_state usiw_qp_error = IBV_QPS_ERR"

datatype ibv_mtu = IBV_MTU_256 | IBV_MTU_512 | IBV_MTU_1024 | IBV_MTU_2048 | IBV_MTU_4096

record ibv_qp_attr =
  at_qp_state :: ibv_qp_state
  at_path_mtu :: ibv_mtu
  at_local_write :: bool
  at_remote_write :: bool
  at_remote_read :: bool
  at_cap :: ibv_qp_cap
  at_sq_draining :: nat
  at_max_rd_atomic :: nat
  at_max_dest_rd_atomic :: nat
  at_rnr_retry :: nat
  at_retry_cnt :: nat
  at_timeout :: nat

text \<open>
  \<open>unsupported\<close>: whether the mask asks for an attribute that is not supported. The second
  result is what is stored in \<^verbatim>\<open>*attr\<close> and in the \<^verbatim>\<open>cap\<close>, the completion queues and the signalling
  of \<^verbatim>\<open>*init_attr\<close>.
\<close>

definition usiw_query_qp :: "'r usiw_qp \<Rightarrow> bool \<Rightarrow> bool \<Rightarrow> ibv_qp_type \<Rightarrow> ret \<times> (ibv_qp_attr \<times> ibv_qp_init_attr) option" where
  "usiw_query_qp qp has_attr unsupported ty =
     (if \<not> has_attr then (Neg EINVAL, None)
      else if unsupported then (Neg EOPNOTSUPP, None)
      else let cap = \<lparr>max_send_wr = sq_max_wr (sq qp), max_recv_wr = rq_max_wr (rq0 qp), max_send_sge = sq_max_sge (sq qp),
                 max_recv_sge = rq_max_sge (rq0 qp), max_inline_data = unat (sq_max_inline (sq qp))\<rparr>
        in (Ok, Some (\<lparr>at_qp_state = query_qp_state (conn_state (shm_qp qp)), at_path_mtu = IBV_MTU_1024, at_local_write = True,
             at_remote_write = True, at_remote_read = True, at_cap = cap, at_sq_draining = 0, at_max_rd_atomic = 1,
             at_max_dest_rd_atomic = 1, at_rnr_retry = 0, at_retry_cnt = 0, at_timeout = 0\<rparr>,
           \<lparr>init_type = ty, init_cap = cap, init_sq_sig_all = (qp_flags qp AND usiw_qp_sig_all \<noteq> 0),
             init_send_cq = send_cq qp, init_recv_cq = recv_cq qp\<rparr>)))"

text \<open>The state that \<^verbatim>\<open>usiw_modify_qp\<close> stores for a state that it has read.\<close>

fun modify_qp_next :: "urdma_qp_state \<Rightarrow> urdma_qp_state option" where
  "modify_qp_next usiw_qp_unbound = Some usiw_qp_error"
| "modify_qp_next usiw_qp_connected = Some usiw_qp_error"
| "modify_qp_next usiw_qp_error = None"
| "modify_qp_next _ = Some usiw_qp_shutdown"

definition usiw_modify_qp :: "ret \<Rightarrow> ibv_qp_state option \<Rightarrow> 'r usiw_qp \<Rightarrow> ret \<times> 'r usiw_qp" where
  "usiw_modify_qp cmd state qp =
     (if cmd \<noteq> Ok then (cmd, qp)
      else case state of
        None \<Rightarrow> (Ok, qp)
      | Some s \<Rightarrow>
          if s = IBV_QPS_SQD \<or> s = IBV_QPS_ERR then
            (Ok, case modify_qp_next (conn_state (shm_qp qp)) of None \<Rightarrow> qp | Some c \<Rightarrow> set_conn_state c qp)
          else (Ok, qp))"

definition drop_cq :: "nat \<Rightarrow> 'r usiw_qp \<Rightarrow> 'r usiw_qp" where
  "drop_cq i qp = qp\<lparr>cqs := (cqs qp)(i := (cqs qp i)\<lparr>cq_qp_count := cq_qp_count (cqs qp i) - 1\<rparr>)\<rparr>"

text \<open>The completion queues are let go, and a connected queue pair is told to stop.\<close>

definition detach_qp :: "'r usiw_qp \<Rightarrow> 'r usiw_qp" where
  "detach_qp qp =
     (let cur_state = conn_state (shm_qp qp);
          qp = drop_cq (recv_cq qp) qp;
          qp = (if send_cq qp \<noteq> recv_cq qp then drop_cq (send_cq qp) qp else qp)
      in if cur_state = usiw_qp_connected \<or> cur_state = usiw_qp_running then set_conn_state usiw_qp_error qp else qp)"

text \<open>The third result says whether the queue pair is freed.\<close>

definition usiw_destroy_qp :: "ret \<Rightarrow> usiw_context \<Rightarrow> 'r usiw_qp \<Rightarrow> (ret \<times> usiw_context \<times> bool \<times> 'r usiw_qp) option" where
  "usiw_destroy_qp cmd ctx qp = do {
     let qp = qp\<lparr>io := (io qp)\<lparr>io_kernel := io_kernel (io qp) @ [Destroy_qp]\<rparr>\<rparr>;
     ctx \<leftarrow> (if conn_state (shm_qp qp) = usiw_qp_unbound then do {
               assert_c (qp_init_count ctx \<noteq> 0);
               Some (ctx\<lparr>qp_init_count := qp_init_count ctx - 1\<rparr>)
             }
             else Some ctx);
     let qp = detach_qp qp;
     let ctx = ctx\<lparr>ctx_qp := remove1 (qp_num qp) (ctx_qp ctx)\<rparr>;
     let old = qp_refcnt qp;
     let qp = qp\<lparr>qp_refcnt := old - 1\<rparr>;
     Some (if old = 1 then (cmd, ctx, True, usiw_do_destroy_qp qp) else (cmd, ctx, False, qp))
   }"

section \<open>Device attributes\<close>

record ibv_device_attr =
  da_max_mr_size :: u64
  da_page_size_cap :: nat
  da_vendor_id :: u32
  da_vendor_part_id :: u32
  da_hw_ver :: nat
  da_max_qp :: nat
  da_max_qp_wr :: nat
  da_device_cap_flags :: nat
  da_max_sge :: nat
  da_max_sge_rd :: nat
  da_max_cq :: int
  da_max_cqe :: int
  da_max_mr :: int
  da_max_pd :: int
  da_max_qp_rd_atom :: nat
  da_max_ee_rd_atom :: nat
  da_max_res_rd_atom :: nat
  da_max_qp_init_rd_atom :: nat
  da_max_ee_init_rd_atom :: nat
  da_max_mw :: nat
  da_max_ah :: nat
  da_max_srq :: nat
  da_phys_port_cnt :: nat

definition URDMA_VENDOR_ID :: u32 where "URDMA_VENDOR_ID = 0x626d74"
definition URDMA_VENDOR_PART_ID :: u32 where "URDMA_VENDOR_PART_ID = 0x0816"

text \<open>The attributes that are always zero and belong to features without any code are left out.\<close>

definition usiw_query_device :: "usiw_context option \<Rightarrow> bool \<Rightarrow> ret \<Rightarrow> ret \<times> ibv_device_attr option" where
  "usiw_query_device ctx has_attr cmd =
     (case ctx of
        None \<Rightarrow> (Neg EINVAL, None)
      | Some ctx \<Rightarrow>
          if \<not> has_attr then (Neg EINVAL, None)
          else if cmd \<noteq> Ok then (cmd, None)
          else (Ok, Some \<lparr>da_max_mr_size = MAX_MR_SIZE, da_page_size_cap = 4096, da_vendor_id = URDMA_VENDOR_ID,
            da_vendor_part_id = URDMA_VENDOR_PART_ID, da_hw_ver = 0, da_max_qp = unat (dev_max_qp (ctx_dev ctx)),
            da_max_qp_wr = min MAX_SEND_WR MAX_RECV_WR, da_device_cap_flags = 0, da_max_sge = DPDK_VERBS_IOV_LEN_MAX,
            da_max_sge_rd = DPDK_VERBS_RDMA_READ_IOV_LEN_MAX, da_max_cq = INT_MAX, da_max_cqe = min INT_MAX SIZE_POW2_MAX,
            da_max_mr = INT_MAX, da_max_pd = INT_MAX, da_max_qp_rd_atom = unat USIW_ORD_MAX, da_max_ee_rd_atom = 1,
            da_max_res_rd_atom = unat USIW_ORD_MAX, da_max_qp_init_rd_atom = unat USIW_IRD_MAX,
            da_max_ee_init_rd_atom = unat USIW_IRD_MAX, da_max_mw = 0, da_max_ah = 0, da_max_srq = 0, da_phys_port_cnt = 1\<rparr>))"

text \<open>The result is \<^verbatim>\<open>max_msg_sz\<close>; the kernel fills in the rest.\<close>

definition usiw_query_port :: "bool \<Rightarrow> bool \<Rightarrow> u8 \<Rightarrow> ret \<times> u32 option" where
  "usiw_query_port has_context has_attr port_num =
     (if \<not> has_context \<or> \<not> has_attr \<or> port_num \<noteq> 1 then (Neg EINVAL, None) else (Ok, Some (- 1)))"

definition usiw_num_completion_vectors :: "nat list \<Rightarrow> nat" where
  "usiw_num_completion_vectors sockets = fold (\<lambda>s m. if s > m then s else m) sockets 0 + 1"

section \<open>Verbs that are not supported\<close>

definition usiw_alloc_mw :: "errno + unit" where "usiw_alloc_mw = Inl ENOSYS"
definition usiw_bind_mw :: ret where "usiw_bind_mw = Pos ENOSYS"
definition usiw_dealloc_mw :: ret where "usiw_dealloc_mw = Pos ENOSYS"
definition usiw_resize_cq :: ret where "usiw_resize_cq = Pos ENOSYS"
definition usiw_create_srq_ex :: "errno + unit" where "usiw_create_srq_ex = Inl ENOSYS"
definition usiw_create_srq :: "errno + unit" where "usiw_create_srq = usiw_create_srq_ex"
definition usiw_modify_srq :: ret where "usiw_modify_srq = Pos ENOSYS"
definition usiw_get_srq_num :: ret where "usiw_get_srq_num = Pos ENOSYS"
definition usiw_query_srq :: ret where "usiw_query_srq = Pos ENOSYS"
definition usiw_destroy_srq :: ret where "usiw_destroy_srq = Pos ENOSYS"
definition usiw_post_srq_recv :: ret where "usiw_post_srq_recv = Pos ENOSYS"

end
