(* ===== verification/Verbs_Correct.thy ===== *)
theory Verbs_Correct
  imports Verbs_Objects
begin

text \<open>
  Correctness of the verbs: the sizes of queues and capabilities, the objects that the creating
  verbs return, and what posting and polling do to the queues.
\<close>

section \<open>Sizes\<close>

lemma next_pow2_loop_correct:
  assumes "\<And>j. n \<le> 2 ^ j \<Longrightarrow> k \<le> j"
  shows "\<exists>m. next_pow2_loop n k = 2 ^ m \<and> n \<le> 2 ^ m \<and> (\<forall>j. n \<le> 2 ^ j \<longrightarrow> m \<le> j)"
  using assms
proof (induction n k rule: next_pow2_loop.induct)
  case (1 n k)
  show ?case
  proof (cases "2 ^ k < n")
    case True
    have "Suc k \<le> j" if "n \<le> 2 ^ j" for j
      using 1(2) [OF that] True that by (metis Suc_leI le_neq_implies_less not_less)
    with 1(1) [OF True] True show ?thesis by (simp add: next_pow2_loop.simps [of n k])
  next
    case False
    then show ?thesis using 1(2) by (auto simp: next_pow2_loop.simps [of n k] intro!: exI [of _ k])
  qed
qed

lemma next_pow2_Some:
  assumes "n < SIZE_POW2_MAX"
  obtains k where "next_pow2 n = Some (2 ^ k)" "n \<le> 2 ^ k" "\<And>j. n \<le> 2 ^ j \<Longrightarrow> k \<le> j"
  using next_pow2_loop_correct [of n 0] assms by (auto simp: next_pow2_def)

lemma create_qp_wr:
  assumes "n \<le> 1023"
  obtains k where "next_pow2 (int n + 1) = Some (2 ^ k)" "nat (max (2 ^ k - 1) 63) + 1 = 2 ^ max k 6" "n \<le> nat (max (2 ^ k - 1) 63)" "k \<le> 10"
    "\<And>j. n + 1 \<le> 2 ^ j \<Longrightarrow> k \<le> j"
proof -
  have "int n + 1 < SIZE_POW2_MAX" using assms by (simp add: SIZE_POW2_MAX_def)
  then obtain k where k: "next_pow2 (int n + 1) = Some (2 ^ k)" "int n + 1 \<le> 2 ^ k" "\<And>j. int n + 1 \<le> 2 ^ j \<Longrightarrow> k \<le> j"
    using next_pow2_Some by blast
  have "k \<le> 10" using assms by (intro k(3)) simp
  moreover have "nat (max (2 ^ k - 1) 63) + 1 = 2 ^ max k 6"
  proof (cases "k \<le> 6")
    case True
    then have "(2 :: int) ^ k \<le> 2 ^ 6" by (intro power_increasing) simp_all
    with True show ?thesis by (simp add: max_def)
  next
    case False
    then have "(2 :: int) ^ 6 \<le> 2 ^ k" by (intro power_increasing) simp_all
    with False have "nat (max (2 ^ k - 1) 63) = nat (2 ^ k - 1)" by simp
    with False show ?thesis by (simp add: max_def nat_diff_distrib)
  qed
  moreover have "k \<le> j" if "n + 1 \<le> 2 ^ j" for j
  proof -
    have "int (n + 1) \<le> int (2 ^ j)" using that by (simp only: of_nat_le_iff)
    then show ?thesis by (intro k(3)) simp
  qed
  ultimately show thesis using that k(1,2) by simp
qed

text \<open>
  \<open>least_pow2 n a\<close>: a queue of \<open>n\<close> entries gets the exponent \<open>a\<close>, the least one, from 6 on, for which
  the power of two exceeds \<open>n\<close>.
\<close>

definition least_pow2 :: "nat \<Rightarrow> nat \<Rightarrow> bool" where
  "least_pow2 n a \<longleftrightarrow> 6 \<le> a \<and> n < 2 ^ a \<and> (\<forall>j. 6 \<le> j \<and> n < 2 ^ j \<longrightarrow> a \<le> j)"

lemma least_pow2_max:
  assumes "nat (max (2 ^ k - 1) 63) + 1 = 2 ^ max k 6" "n \<le> nat (max (2 ^ k - 1) 63)" "\<And>j. n + 1 \<le> 2 ^ j \<Longrightarrow> k \<le> j"
  shows "least_pow2 n (max k 6)"
proof -
  have "n < 2 ^ max k 6" using assms(1,2) by linarith
  then show ?thesis using assms(3) by (auto simp: least_pow2_def Suc_le_eq)
qed

text \<open>
  The requests that the device accepts, and the answers of kernel and daemon that let the
  creation of a queue pair go on.
\<close>

definition attr_ok :: "ibv_qp_init_attr \<Rightarrow> bool" where
  "attr_ok attr \<longleftrightarrow> init_type attr \<noteq> IBV_QPT_OTHER \<and> max_send_wr (init_cap attr) \<le> MAX_SEND_WR \<and>
     max_recv_wr (init_cap attr) \<le> MAX_RECV_WR \<and> max_send_sge (init_cap attr) \<le> DPDK_VERBS_IOV_LEN_MAX \<and>
     max_recv_sge (init_cap attr) \<le> DPDK_VERBS_IOV_LEN_MAX \<and> max_inline_data (init_cap attr) \<le> 16 * DPDK_VERBS_IOV_LEN_MAX"

definition answers_ok :: "'r create_qp_env \<Rightarrow> bool" where
  "answers_ok e \<longleftrightarrow> ce_cmd e = Ok \<and> sock_sent (ce_reply e) = 16 \<and> sock_received (ce_reply e) = 16 \<and>
     sock_opcode (ce_reply e) = urdma_sock_create_qp_resp \<and> sock_ptr (ce_reply e) \<noteq> None"

lemma create_qp_caps_Some:
  assumes "attr_ok attr"
  shows "\<exists>cap a b. create_qp_caps attr = Some (Inr cap) \<and>
     max_send_wr cap + 1 = 2 ^ a \<and> least_pow2 (max_send_wr (init_cap attr)) a \<and> max_send_wr (init_cap attr) \<le> max_send_wr cap \<and> max_send_wr cap \<le> MAX_SEND_WR \<and>
     max_recv_wr cap + 1 = 2 ^ b \<and> least_pow2 (max_recv_wr (init_cap attr)) b \<and> max_recv_wr (init_cap attr) \<le> max_recv_wr cap \<and> max_recv_wr cap \<le> MAX_RECV_WR \<and>
     max_send_sge (init_cap attr) \<le> max_send_sge cap \<and> max_send_sge cap \<in> {1..DPDK_VERBS_IOV_LEN_MAX} \<and>
     max_recv_sge (init_cap attr) \<le> max_recv_sge cap \<and> max_recv_sge cap \<in> {1..DPDK_VERBS_IOV_LEN_MAX} \<and>
     max_inline_data (init_cap attr) \<le> max_inline_data cap \<and> max_inline_data cap \<le> 16 * max_send_sge cap"
proof -
  note attr = assms [unfolded attr_ok_def]
  obtain s where s: "next_pow2 (int (max_send_wr (init_cap attr)) + 1) = Some (2 ^ s)" "nat (max (2 ^ s - 1) 63) + 1 = 2 ^ max s 6"
    "max_send_wr (init_cap attr) \<le> nat (max (2 ^ s - 1) 63)" "s \<le> 10" "\<And>j. max_send_wr (init_cap attr) + 1 \<le> 2 ^ j \<Longrightarrow> s \<le> j"
    using create_qp_wr [of "max_send_wr (init_cap attr)"] attr by (auto simp: MAX_SEND_WR_def)
  obtain r where r: "next_pow2 (int (max_recv_wr (init_cap attr)) + 1) = Some (2 ^ r)" "nat (max (2 ^ r - 1) 63) + 1 = 2 ^ max r 6"
    "max_recv_wr (init_cap attr) \<le> nat (max (2 ^ r - 1) 63)" "r \<le> 10" "\<And>j. max_recv_wr (init_cap attr) + 1 \<le> 2 ^ j \<Longrightarrow> r \<le> j"
    using create_qp_wr [of "max_recv_wr (init_cap attr)"] attr by (auto simp: MAX_RECV_WR_def)
  have max10: "nat (max (2 ^ k - 1) 63) \<le> 1023" if "k \<le> 10" for k :: nat
  proof -
    have "(2 :: int) ^ k \<le> 2 ^ 10" using that by (intro power_increasing) simp_all
    then show ?thesis by simp
  qed
  have ty: "init_type attr = IBV_QPT_UD \<or> init_type attr = IBV_QPT_RC" using attr by (cases "init_type attr") auto
  let ?sge = "if max_send_sge (init_cap attr) = 0 then 3 else max_send_sge (init_cap attr)"
  let ?inl = "max_inline_data (init_cap attr)"
  define f where "f = (init_cap attr)\<lparr>max_send_wr := nat (max (2 ^ s - 1) 63), max_recv_wr := nat (max (2 ^ r - 1) 63),
     max_send_sge := (if ?inl > ?sge * 16 then (?inl - 1) div 16 + 1 else ?sge),
     max_recv_sge := (if max_recv_sge (init_cap attr) = 0 then 3 else max_recv_sge (init_cap attr)),
     max_inline_data := (if ?inl < ?sge * 16 then ?sge * 16 else ?inl)\<rparr>"
  have "create_qp_caps attr = Some (Inr f)"
    using attr s(1) r(1) ty by (simp add: create_qp_caps_def Let_def f_def)
  moreover have "max_send_wr f = nat (max (2 ^ s - 1) 63)" "max_recv_wr f = nat (max (2 ^ r - 1) 63)"
    by (simp_all add: f_def)
  moreover have "max_recv_sge (init_cap attr) \<le> max_recv_sge f" "max_recv_sge f \<in> {1..DPDK_VERBS_IOV_LEN_MAX}"
    using attr by (simp_all add: f_def DPDK_VERBS_IOV_LEN_MAX_def)
  moreover have "max_send_sge (init_cap attr) \<le> max_send_sge f" "max_send_sge f \<in> {1..DPDK_VERBS_IOV_LEN_MAX}"
     "?inl \<le> max_inline_data f" "max_inline_data f \<le> 16 * max_send_sge f"
    using attr by (auto simp: f_def DPDK_VERBS_IOV_LEN_MAX_def)
  moreover note least_pow2_max [OF s(2,3,5)] least_pow2_max [OF r(2,3,5)]
  ultimately show ?thesis using s(2-4) r(2-4) max10
    by (intro exI [of _ f] exI [of _ "max s 6"] exI [of _ "max r 6"]) (simp add: MAX_SEND_WR_def MAX_RECV_WR_def)
qed

text \<open>
  C32. A request for a queue pair within the limits of the device is never rejected, and the
  capabilities it gets are at least the requested ones, within the limits, with inline data that
  fits the scatter/gather area of a work request. The queue lengths are one less than a power of
  two, the least one of at least 64 above the request. This needs \<^verbatim>\<open>next_pow2\<close> to be the least
  power of two not below its argument, as it is coded: with the least one greater than its
  argument, as its comment has it, a request for the 1023 entries of the limit would get 2047.
\<close>

theorem create_qp_caps_bounds:
  assumes "attr_ok attr"
  shows "\<exists>cap a b. create_qp_caps attr = Some (Inr cap) \<and>
     max_send_wr cap + 1 = 2 ^ a \<and> least_pow2 (max_send_wr (init_cap attr)) a \<and> max_send_wr (init_cap attr) \<le> max_send_wr cap \<and> max_send_wr cap \<le> MAX_SEND_WR \<and>
     max_recv_wr cap + 1 = 2 ^ b \<and> least_pow2 (max_recv_wr (init_cap attr)) b \<and> max_recv_wr (init_cap attr) \<le> max_recv_wr cap \<and> max_recv_wr cap \<le> MAX_RECV_WR \<and>
     max_send_sge (init_cap attr) \<le> max_send_sge cap \<and> max_send_sge cap \<in> {1..DPDK_VERBS_IOV_LEN_MAX} \<and>
     max_recv_sge (init_cap attr) \<le> max_recv_sge cap \<and> max_recv_sge cap \<in> {1..DPDK_VERBS_IOV_LEN_MAX} \<and>
     max_inline_data (init_cap attr) \<le> max_inline_data cap \<and> max_inline_data cap \<le> 16 * max_send_sge cap"
  using assms by (rule create_qp_caps_Some)

section \<open>New queue pairs\<close>

lemma ring_put_all_spec:
  assumes "ring_spec D q cap" "length (q r) + length xs \<le> cap r"
  shows "q (ring_put_all D r xs) = q r @ xs \<and> cap (ring_put_all D r xs) = cap r"
  using assms(2)
proof (induction xs arbitrary: r)
  case (Cons x xs)
  then obtain r' where "rte_ring_enqueue D r x = Some r'" "q r' = q r @ [x]" "cap r' = cap r"
    using ring_spec_enqueue [OF assms(1), of r x] by auto
  with Cons.IH [of r'] Cons.prems show ?case by (simp add: ring_put_def)
qed simp

lemma ring_init_pow2:
  assumes "ring_init_spec D q cap" "n + 1 = 2 ^ k"
  obtains r where "rte_ring_init D (n + 1) = (Ok, r)" "q r = []" "cap r = n"
proof -
  have "n = 2 ^ k - 1" using assms(2) by (metis add_diff_cancel_right')
  with that show thesis using assms unfolding ring_init_spec_def by metis
qed

lemma send_queue_init_spec:
  assumes "ring_spec D q cap" "ring_init_spec D q cap" "\<And>t. rte_malloc D t \<and> calloc D t" "n + 1 = 2 ^ k"
  obtains s where "usiw_send_wqe_queue_init D t s0 n sge = (Ok, s)" "q (sq_free_ring s) = [0..<n]" "q (sq_ring s) = []"
    "sq_active s = []" "sq_storage s = (\<lambda>_. zero_send_wqe sge)" "sq_max_wr s = n" "sq_max_sge s = sge" "sq_ok q cap s"
proof -
  obtain r where r: "rte_ring_init D (n + 1) = (Ok, r)" "q r = []" "cap r = n" using ring_init_pow2 [OF assms(2,4)] .
  have p: "q (ring_put_all D r [0..<n]) = [0..<n]" "cap (ring_put_all D r [0..<n]) = n"
    using ring_put_all_spec [OF assms(1), of r "[0..<n]"] r by simp_all
  define s where "s = s0\<lparr>sq_ring := r, sq_free_ring := ring_put_all D r [0..<n], sq_storage := \<lambda>_. zero_send_wqe sge,
     sq_active := [], sq_max_wr := n, sq_max_sge := sge\<rparr>"
  have "usiw_send_wqe_queue_init D t s0 n sge = (Ok, s)"
    using r(1) assms(3) by (simp add: usiw_send_wqe_queue_init_def s_def)
  moreover have "sq_ok q cap s" using r p by (auto simp: s_def sq_ok_def sq_entries_def pool_ok_def)
  ultimately show thesis using that [of s] r p by (simp add: s_def)
qed

lemma recv_queue_init_spec:
  assumes "ring_spec D q cap" "ring_init_spec D q cap" "\<And>t. rte_malloc D t \<and> calloc D t" "n + 1 = 2 ^ k"
  obtains s where "usiw_recv_wqe_queue_init D t s0 n sge = (Ok, s)" "q (rq_free_ring s) = [0..<n]" "q (rq_ring s) = []"
    "rq_active s = []" "rq_storage s = (\<lambda>_. zero_recv_wqe sge)" "rq_max_wr s = n" "rq_max_sge s = sge" "rq_ok q cap s"
proof -
  obtain r where r: "rte_ring_init D (n + 1) = (Ok, r)" "q r = []" "cap r = n" using ring_init_pow2 [OF assms(2,4)] .
  have p: "q (ring_put_all D r [0..<n]) = [0..<n]" "cap (ring_put_all D r [0..<n]) = n"
    using ring_put_all_spec [OF assms(1), of r "[0..<n]"] r by simp_all
  define s where "s = s0\<lparr>rq_ring := r, rq_free_ring := ring_put_all D r [0..<n], rq_storage := \<lambda>_. zero_recv_wqe sge,
     rq_active := [], rq_max_wr := n, rq_max_sge := sge, rq_next_msn := 1\<rparr>"
  have "usiw_recv_wqe_queue_init D t s0 n sge = (Ok, s)"
    using r(1) assms(3) by (simp add: usiw_recv_wqe_queue_init_def s_def)
  moreover have "rq_ok q cap s" using r p by (auto simp: s_def rq_ok_def rq_entries_def pool_ok_def)
  ultimately show thesis using that [of s] r p by (simp add: s_def)
qed

lemma cq_ok_counts [simp]: "cq_ok q cap (c\<lparr>cq_qp_count := x, cq_refcnt := y\<rparr>) = cq_ok q cap c"
  by (simp add: cq_ok_def cq_entries_def)

text \<open>
  A new queue pair \<open>qp\<close> that holds the completion queues \<open>cs\<close>: unconnected, referenced by the
  application and the progress thread, all its work requests free, nothing posted, active, on
  its way or unacknowledged, and one reference and one user more on each of its completion queues.
\<close>

definition cq_held :: "'r usiw_cq \<Rightarrow> 'r usiw_cq" where
  "cq_held c = c\<lparr>cq_qp_count := cq_qp_count c + 1, cq_refcnt := cq_refcnt c + 1\<rparr>"

definition fresh_qp :: "('r \<Rightarrow> nat list) \<Rightarrow> ibv_qp_init_attr \<Rightarrow> (nat \<Rightarrow> 'r usiw_cq) \<Rightarrow> 'r usiw_qp \<Rightarrow> bool" where
  "fresh_qp q attr cs qp \<longleftrightarrow>
     conn_state (shm_qp qp) = usiw_qp_unbound \<and> qp_refcnt qp = 2 \<and>
     q (sq_free_ring (sq qp)) = [0..<sq_max_wr (sq qp)] \<and> q (sq_ring (sq qp)) = [] \<and> sq_active (sq qp) = [] \<and>
     q (rq_free_ring (rq0 qp)) = [0..<rq_max_wr (rq0 qp)] \<and> q (rq_ring (rq0 qp)) = [] \<and> rq_active (rq0 qp) = [] \<and>
     tx_pending (remote_ep qp) = [] \<and> send_next_psn (remote_ep qp) = 0 \<and> send_last_acked_psn (remote_ep qp) = 0 \<and>
     recv_ack_psn (remote_ep qp) = 0 \<and> txq qp = [] \<and> readresp_store qp = [] \<and> ord_active qp = 0 \<and>
     send_cq qp = init_send_cq attr \<and> recv_cq qp = init_recv_cq attr \<and>
     (\<forall>i. cqs qp i = (if i = init_send_cq attr \<or> i = init_recv_cq attr then cq_held (cs i) else cs i))"

lemma create_qp_queues_well_formed:
  assumes "ring_spec D q cap" "ring_init_spec D q cap" "\<And>t. rte_malloc D t \<and> calloc D t"
    and "max_send_wr c + 1 = 2 ^ a" "max_recv_wr c + 1 = 2 ^ b" "max_inline_data c \<le> 16 * max_send_sge c" "max_send_sge c \<le> 32"
    and "cq_ok q cap (vw_cqs w (init_send_cq attr))" "cq_ok q cap (vw_cqs w (init_recv_cq attr))"
  shows "\<exists>qp w'. create_qp_queues D pd attr c e shm w = Some (Inr qp, w') \<and> qp_ok q cap qp \<and> fresh_qp q attr (vw_cqs w) qp \<and>
     sq_max_wr (sq qp) = max_send_wr c \<and> rq_max_wr (rq0 qp) = max_recv_wr c \<and>
     (\<forall>i. unat (sq_max_inline (sq qp)) \<le> length (sw_iov (send_wqe qp i)) \<and> 16 * sq_max_sge (sq qp) \<le> length (sw_iov (send_wqe qp i)) \<and>
          16 * rq_max_sge (rq0 qp) \<le> length (rw_iov (recv_wqe qp i))) \<and>
     qp_num qp = ce_qp_num e \<and> qp_pd qp = pd \<and> vw_cqs w' = cqs qp \<and>
     vw_ctx w' = (vw_ctx w)\<lparr>qp_init_count := qp_init_count (vw_ctx w) + 1, ctx_qp := ce_qp_num e # ctx_qp (vw_ctx w),
       ctx_qp_active := ctx_qp_active (vw_ctx w) @ [ce_qp_num e]\<rparr>"
proof -
  let ?t = "io_tick (vw_out w)"
  obtain s where s: "usiw_send_wqe_queue_init D ?t \<lparr>sq_ring = ce_null e, sq_free_ring = ce_null e, sq_active = [],
        sq_storage = \<lambda>_. zero_send_wqe 0, sq_max_wr = 0, sq_max_sge = 0, sq_max_inline = 0\<rparr> (max_send_wr c) (max_send_sge c) = (Ok, s)"
      "q (sq_free_ring s) = [0..<max_send_wr c]" "sq_storage s = (\<lambda>_. zero_send_wqe (max_send_sge c))" "sq_max_sge s = max_send_sge c" "sq_ok q cap s"
      "q (sq_ring s) = []" "sq_active s = []" "sq_max_wr s = max_send_wr c"
    by (rule send_queue_init_spec [OF assms(1-4)]) blast
  obtain r where r: "usiw_recv_wqe_queue_init D (?t + 3) \<lparr>rq_ring = ce_null e, rq_free_ring = ce_null e, rq_active = [], rq_next_msn = 0,
        rq_storage = \<lambda>_. zero_recv_wqe 0, rq_max_wr = 0, rq_max_sge = 0\<rparr> (max_recv_wr c) (max_recv_sge c) = (Ok, r)"
      "q (rq_free_ring r) = [0..<max_recv_wr c]" "rq_storage r = (\<lambda>_. zero_recv_wqe (max_recv_sge c))" "rq_max_sge r = max_recv_sge c" "rq_ok q cap r"
      "q (rq_ring r) = []" "rq_active r = []" "rq_max_wr r = max_recv_wr c"
    by (rule recv_queue_init_spec [OF assms(1-3,5)]) blast
  have inl: "unat (word_of_nat (max_inline_data c) :: u32) \<le> 16 * max_send_sge c"
    using assms(6,7) by (simp add: unat_of_nat)
  define cs where "cs = (if init_send_cq attr \<noteq> init_recv_cq attr then hold_cq (init_recv_cq attr) (hold_cq (init_send_cq attr) (vw_cqs w))
      else hold_cq (init_send_cq attr) (vw_cqs w))"
  have cs: "cs i = (if i = init_send_cq attr \<or> i = init_recv_cq attr then cq_held (vw_cqs w i) else vw_cqs w i)" for i
    by (auto simp: cs_def hold_cq_def cq_held_def)
  have cq: "cq_ok q cap (cs (init_send_cq attr))" "cq_ok q cap (cs (init_recv_cq attr))"
    using assms(8,9) by (simp_all add: cs cq_held_def)
  have sq_ok': "sq_ok q cap (s\<lparr>sq_max_inline := x\<rparr>)" for x using s(5) by (simp add: sq_ok_def sq_entries_def)
  show ?thesis
    unfolding create_qp_queues_def Let_def zero_qp_def fresh_qp_def cs_def [symmetric]
    using s r inl cq sq_ok' cs by (simp add: qp_ok_def zero_send_wqe_def zero_recv_wqe_def)
qed

lemma usiw_create_qp_total:
  assumes "ring_spec D q cap" "ring_init_spec D q cap" "\<And>t. rte_malloc D t \<and> calloc D t" "attr_ok attr" "answers_ok e"
    and "cq_ok q cap (vw_cqs w (init_send_cq attr))" "cq_ok q cap (vw_cqs w (init_recv_cq attr))"
  shows "\<exists>qp w'. usiw_create_qp D pd attr e w = Some (Inr qp, w') \<and> qp_ok q cap qp \<and> fresh_qp q attr (vw_cqs w) qp \<and>
     max_send_wr (init_cap attr) \<le> sq_max_wr (sq qp) \<and> max_recv_wr (init_cap attr) \<le> rq_max_wr (rq0 qp) \<and>
     (\<forall>i. unat (sq_max_inline (sq qp)) \<le> length (sw_iov (send_wqe qp i)) \<and> 16 * sq_max_sge (sq qp) \<le> length (sw_iov (send_wqe qp i)) \<and>
          16 * rq_max_sge (rq0 qp) \<le> length (rw_iov (recv_wqe qp i))) \<and>
     qp_num qp = ce_qp_num e \<and> qp_pd qp = pd \<and> vw_cqs w' = cqs qp \<and>
     vw_ctx w' = (vw_ctx w)\<lparr>qp_init_count := qp_init_count (vw_ctx w) + 1, ctx_qp := ce_qp_num e # ctx_qp (vw_ctx w),
       ctx_qp_active := ctx_qp_active (vw_ctx w) @ [ce_qp_num e]\<rparr>"
proof -
  obtain c a b where c: "create_qp_caps attr = Some (Inr c)" "max_send_wr c + 1 = 2 ^ a" "max_recv_wr c + 1 = 2 ^ b"
    "max_send_wr (init_cap attr) \<le> max_send_wr c" "max_recv_wr (init_cap attr) \<le> max_recv_wr c"
    "max_inline_data c \<le> 16 * max_send_sge c" "max_send_sge c \<le> 32"
    using create_qp_caps_Some [OF assms(4)] by (auto simp: DPDK_VERBS_IOV_LEN_MAX_def)
  obtain shm where shm: "port_get_next_qp dev (ce_reply e) = (Sock_create_qp (dev_portid dev), Some shm)" for dev
    using assms(5) by (auto simp: answers_ok_def port_get_next_qp_def)
  define w1 where "w1 = w\<lparr>vw_out := (vw_out w)\<lparr>io_tick := io_tick (vw_out w) + 1,
     io_sock := io_sock (vw_out w) @ [Sock_create_qp (dev_portid (ctx_dev (vw_ctx w)))]\<rparr>\<rparr>"
  have w1: "vw_cqs w1 = vw_cqs w" "vw_ctx w1 = vw_ctx w" by (simp_all add: w1_def)
  have run: "usiw_create_qp D pd attr e w = create_qp_queues D pd attr c e (shm\<lparr>ird_max := USIW_IRD_MAX, ord_max := USIW_ORD_MAX\<rparr>) w1"
    using assms(3,5) c(1) shm by (simp add: usiw_create_qp_def Let_def answers_ok_def w1_def)
  show ?thesis
    using create_qp_queues_well_formed [OF assms(1-3) c(2,3,6,7), of w1 attr pd e "shm\<lparr>ird_max := USIW_IRD_MAX, ord_max := USIW_ORD_MAX\<rparr>"]
      assms(6,7) c(4,5) unfolding run w1 by metis
qed


text \<open>
  When the kernel refuses the queue pair, the error exit reads the device of the new queue pair
  before it is set, a null pointer.
\<close>

lemma usiw_create_qp_kernel_refuses:
  assumes "attr_ok attr" "calloc D (io_tick (vw_out w))" "answers_ok (e\<lparr>ce_cmd := Ok\<rparr>)" "ce_cmd e \<noteq> Ok"
  shows "usiw_create_qp D pd attr e w = None"
  using create_qp_caps_Some [OF assms(1)] assms(2-)
  by (auto simp: usiw_create_qp_def answers_ok_def port_get_next_qp_def port_return_qp_def Let_def)

definition example_attr :: ibv_qp_init_attr where
  "example_attr = \<lparr>init_type = IBV_QPT_RC, init_cap = \<lparr>max_send_wr = 100, max_recv_wr = 4, max_send_sge = 1, max_recv_sge = 0, max_inline_data = 60\<rparr>,
     init_sq_sig_all = True, init_send_cq = 0, init_recv_cq = 0\<rparr>"

definition example_answers :: "(nat list \<times> nat) create_qp_env" where
  "example_answers = \<lparr>ce_reply = \<lparr>sock_sent = 16, sock_received = 16, sock_opcode = urdma_sock_create_qp_resp, sock_ptr = Some example_shm\<rparr>,
     ce_cmd = Ok, ce_qp_num = 7, ce_null = ([], 0), ce_mem = \<lambda>_. 0\<rparr>"

definition example_world :: "(nat list \<times> nat) verbs_world" where
  "example_world = \<lparr>vw_ctx = \<lparr>ctx_dev = qp_dev example_qp, ctx_qp = [], ctx_qp_active = [], qp_init_count = 0\<rparr>,
     vw_cqs = \<lambda>_. example_cq\<lparr>cq_qp_count := 0, cq_refcnt := 1\<rparr>,
     vw_out = \<lparr>io_tick = 0, io_wire = [], io_events = [], io_kernel = [], io_sock = [], io_cq_freed = []\<rparr>\<rparr>"

lemma example_attr_ok: "attr_ok example_attr" "answers_ok example_answers" "cq_ok fst snd (vw_cqs example_world i)"
    "rte_malloc example_env t \<and> calloc example_env t"
  using example_qp_ok by (simp_all add: attr_ok_def example_attr_def MAX_SEND_WR_def MAX_RECV_WR_def DPDK_VERBS_IOV_LEN_MAX_def
      answers_ok_def example_answers_def example_world_def example_env_def qp_ok_def example_qp_def)

theorem create_qp_caps_bounds_witness:
  "\<exists>cap. create_qp_caps example_attr = Some (Inr cap) \<and> 100 \<le> max_send_wr cap \<and> 60 \<le> max_inline_data cap"
proof -
  have req: "max_send_wr (init_cap example_attr) = 100" "max_inline_data (init_cap example_attr) = 60" by (simp_all add: example_attr_def)
  show ?thesis using create_qp_caps_bounds [OF example_attr_ok(1)] unfolding req by blast
qed


section \<open>Completion queues\<close>

text \<open>
  A new completion queue is empty, has room for at least the requested number of entries,
  all of them free. Requests above the limit fail with \<^verbatim>\<open>EINVAL\<close>; the request for exactly one
  entry less than the limit passes the test and then fails an assertion.
\<close>

lemma usiw_create_cq_sizes:
  assumes "ring_spec D q cap" "ring_init_spec D q cap" "\<And>t. rte_malloc D t \<and> calloc D t" "sz < INT_MAX"
  shows "if sz + 1 > SIZE_POW2_MAX then usiw_create_cq D t Ok cqid junk sz = Some (Inl (Neg EINVAL))
    else if sz + 1 = SIZE_POW2_MAX then usiw_create_cq D t Ok cqid junk sz = None
    else \<exists>cq. usiw_create_cq D t Ok cqid junk sz = Some (Inr cq) \<and> cq_ok q cap cq \<and> sz \<le> int (cq_capacity cq) \<and>
      q (cq_free_ring cq) = [0..<cq_capacity cq] \<and> cq_view q cq = []"
proof (cases "sz + 1 < SIZE_POW2_MAX")
  case True
  then obtain k where k: "next_pow2 (sz + 1) = Some (2 ^ k)" "sz + 1 \<le> 2 ^ k" using next_pow2_Some by blast
  define n :: nat where "n = nat (2 ^ k - 1)"
  have n: "n + 1 = 2 ^ k" "sz \<le> int n" using k(2) by (simp_all add: n_def nat_diff_distrib)
  obtain r where r: "rte_ring_init D (n + 1) = (Ok, r)" "q r = []" "cap r = n" using ring_init_pow2 [OF assms(2) n(1)] .
  have "q (ring_put_all D r [0..<n]) = [0..<n]" "cap (ring_put_all D r [0..<n]) = n"
    using ring_put_all_spec [OF assms(1), of r "[0..<n]"] r by simp_all
  moreover have "usiw_create_cq D t Ok cqid junk sz = Some (Inr \<lparr>cq_refcnt = 1, cqe_ring = r, cq_free_ring = ring_put_all D r [0..<n],
             cq_storage = junk, cq_capacity = n, cq_qp_count = 0, cq_id = cqid, notify_flag = False\<rparr>)"
    using True assms(3,4) k(1) r(1) by (simp add: usiw_create_cq_def n_def [symmetric])
  ultimately show ?thesis using True n(2) r by (auto simp: cq_ok_def cq_entries_def pool_ok_def cq_view_def)
next
  case False
  then show ?thesis using assms(4) by (auto simp: usiw_create_cq_def next_pow2_def)
qed

text \<open>
  C18. Polling takes the oldest completions off the queue in the order in which they were posted,
  at most the requested number, and gives their entries back, so that each completion is
  reported exactly once and its entry can be used again.
\<close>

theorem usiw_poll_cq_fifo:
  assumes "ring_spec D q cap" "cq_ok q cap cq"
  shows "\<exists>cq'. usiw_poll_cq D cq n = Some (convert_cqes (take n (cq_view q cq)), cq') \<and> cq_view q cq' = drop n (cq_view q cq) \<and>
    cq_ok q cap cq' \<and> mset (cq_entries q cq') = mset (cq_entries q cq) \<and>
    length (q (cq_free_ring cq')) = length (q (cq_free_ring cq)) + min n (length (cq_view q cq))"
proof -
  obtain r where r: "rte_ring_dequeue_burst D (cqe_ring cq) n = (take n (q (cqe_ring cq)), r)" "q r = drop n (q (cqe_ring cq))"
    "cap r = cap (cqe_ring cq)" using assms(1) unfolding ring_spec_def by blast
  let ?xs = "take n (q (cqe_ring cq))"
  obtain f where f: "rte_ring_enqueue_burst D (cq_free_ring cq) ?xs = (min (length ?xs) (cap (cq_free_ring cq) - length (q (cq_free_ring cq))), f)"
    "q f = q (cq_free_ring cq) @ take (cap (cq_free_ring cq) - length (q (cq_free_ring cq))) ?xs" "cap f = cap (cq_free_ring cq)"
    using assms(1) unfolding ring_spec_def by blast
  have "length (q (cq_free_ring cq)) + length (q (cqe_ring cq)) \<le> cap (cq_free_ring cq)"
    using assms(2) pool_ok_length by (fastforce simp: cq_ok_def cq_entries_def)
  then have room: "length ?xs \<le> cap (cq_free_ring cq) - length (q (cq_free_ring cq))" by simp
  then have f': "rte_ring_enqueue_burst D (cq_free_ring cq) ?xs = (length ?xs, f)" "q f = q (cq_free_ring cq) @ ?xs"
    using f(1) f(2) [unfolded take_all [OF room]] by (simp_all add: min_absorb1)
  define cq' where "cq' = cq\<lparr>cqe_ring := r, cq_free_ring := f\<rparr>"
  have "usiw_poll_cq D cq n = Some (convert_cqes (take n (cq_view q cq)), cq')"
    using r(1) f'(1) by (simp add: usiw_poll_cq_def do_poll_cq_def cq_view_def take_map cq'_def)
  moreover have m: "mset (cq_entries q cq') = mset (cq_entries q cq)"
    using r(2) f'(2) by (simp add: cq_entries_def cq'_def flip: mset_append)
  moreover have "cq_ok q cap cq'" using assms(2) pool_ok_perm [OF _ m] r(3) f(3) by (simp add: cq_ok_def cq'_def)
  ultimately show ?thesis using r(2) f'(2) by (simp add: cq_view_def cq'_def drop_map)
qed

section \<open>Posting\<close>

text \<open>The message that a request describes.\<close>

definition wr_bytes :: "memory \<Rightarrow> ibv_send_wr \<Rightarrow> u8 list" where
  "wr_bytes m wr = gather m (map sge_iov (swr_sges wr))"

lemma unat_total_len:
  assumes "length ss \<le> 32"
  shows "unat (total_len (map sge_iov ss)) = iov_total (map sge_iov ss)"
proof -
  have "iov_total (map sge_iov ss) \<le> length ss * 2 ^ 32"
  proof (induction ss)
    case (Cons s ss)
    have "unat (sge_length s) < 2 ^ 32" using unat_bound [of "sge_length s"] by simp
    with Cons show ?case by (simp add: sge_iov_def)
  qed simp
  also have "\<dots> \<le> 32 * 2 ^ 32" using assms by simp
  finally have b: "iov_total (map sge_iov ss) < 2 ^ 64" by simp
  have "fold (\<lambda>v n. n + iov_len v) vs x = x + of_nat (iov_total vs)" for vs and x :: u64
    by (induction vs arbitrary: x) (simp_all add: iov_total_def)
  with b show ?thesis by (simp add: total_len_def unat_of_nat)
qed

lemma do_inline_loop_copies:
  assumes "unat offset + iov_total (map sge_iov ss) \<le> unat mx" "unat mx \<le> length area"
  shows "\<exists>area'. do_inline_loop m mx ss offset area = Some (Ok, offset + of_nat (iov_total (map sge_iov ss)), area') \<and>
    length area' = length area \<and>
    take (unat offset + iov_total (map sge_iov ss)) area' = take (unat offset) area @ gather m (map sge_iov ss)"
  using assms
proof (induction ss arbitrary: offset area)
  case (Cons s ss)
  have len: "unat (iov_len (sge_iov s)) = unat (sge_length s)" by (simp add: sge_iov_def)
  have le: "unat offset + unat (sge_length s) \<le> unat mx" using Cons.prems(1) len by simp
  have sum: "unat (offset + sge_length s) = unat offset + unat (sge_length s)"
    using le unat_bound [of mx] by (intro unat_add_no_overflow) simp
  have no: "\<not> offset + sge_length s > mx" using le sum by (simp add: word_less_nat_alt)
  let ?area = "overlay area (unat offset) (mem_read m (sge_addr s) (unat (sge_length s)))"
  have la: "length ?area = length area" using le Cons.prems(2) by simp
  obtain area' where a: "do_inline_loop m mx ss (offset + sge_length s) ?area =
      Some (Ok, offset + sge_length s + of_nat (iov_total (map sge_iov ss)), area')" "length area' = length ?area"
    "take (unat (offset + sge_length s) + iov_total (map sge_iov ss)) area' = take (unat (offset + sge_length s)) ?area @ gather m (map sge_iov ss)"
    using Cons.IH [of "offset + sge_length s" ?area] Cons.prems la sum len by auto
  have "take (unat offset + unat (sge_length s)) ?area = take (unat offset) area @ mem_read m (sge_addr s) (unat (sge_length s))"
    using le Cons.prems(2) by (simp add: overlay_def)
  moreover have "iov_data m (sge_iov s) = mem_read m (sge_addr s) (unat (sge_length s))" by (simp add: iov_data_def sge_iov_def)
  ultimately show ?case using a la le no sum Cons.prems(2) len by (auto simp: add.assoc)
qed simp

lemma do_inline_loop_too_long:
  assumes "unat mx < unat offset + iov_total (map sge_iov ss)" "unat offset \<le> unat mx" "unat offset + iov_total (map sge_iov ss) < 2 ^ 32"
    and "unat mx \<le> length area"
  shows "\<exists>offset' area'. do_inline_loop m mx ss offset area = Some (Pos EINVAL, offset', area') \<and> length area' = length area"
  using assms
proof (induction ss arbitrary: offset area)
  case (Cons s ss)
  have len: "unat (iov_len (sge_iov s)) = unat (sge_length s)" by (simp add: sge_iov_def)
  have sum: "unat (offset + sge_length s) = unat offset + unat (sge_length s)"
    using Cons.prems(3) len by (intro unat_add_no_overflow) simp
  show ?case
  proof (cases "offset + sge_length s > mx")
    case False
    then have le: "unat offset + unat (sge_length s) \<le> unat mx" using sum by (simp add: word_less_nat_alt)
    let ?area = "overlay area (unat offset) (mem_read m (sge_addr s) (unat (sge_length s)))"
    have la: "length ?area = length area" using le Cons.prems(4) by simp
    then show ?thesis using Cons.IH [of "offset + sge_length s" ?area] Cons.prems False le sum len by (auto simp: add.assoc)
  qed simp
qed simp

text \<open>
  The region a READ request reads into, if the key of its segment names one that may be written
  remotely. \<open>postable qp wr\<close>: the queue pair accepts the request, a free work request provided.
  \<open>wr_sane wr\<close>: a READ request has a segment, and inline data is less than 4 GB.
\<close>

definition sink_region :: "'r usiw_qp \<Rightarrow> ibv_send_wr \<Rightarrow> usiw_mr option" where
  "sink_region qp wr = (case mr_of (qp_pd qp) (sge_lkey (hd (swr_sges wr))) of
     None \<Rightarrow> None
   | Some mr \<Rightarrow> if mr_access mr AND IBV_ACCESS_REMOTE_WRITE = 0 then None else Some mr)"

definition too_many_sges :: "'r usiw_qp \<Rightarrow> ibv_send_wr \<Rightarrow> bool" where
  "too_many_sges qp wr \<longleftrightarrow> (if swr_opcode wr = IBV_WR_RDMA_READ then 1 else sq_max_sge (sq qp)) < length (swr_sges wr)"

definition postable :: "'r usiw_qp \<Rightarrow> ibv_send_wr \<Rightarrow> bool" where
  "postable qp wr \<longleftrightarrow> \<not> too_many_sges qp wr \<and>
     (case swr_opcode wr of
        IBV_WR_RDMA_READ \<Rightarrow> \<not> swr_inline wr \<and> sink_region qp wr \<noteq> None
      | IBV_WR_UNSUPPORTED \<Rightarrow> False
      | _ \<Rightarrow> swr_inline wr \<longrightarrow> iov_total (map sge_iov (swr_sges wr)) \<le> unat (sq_max_inline (sq qp)))"

definition wr_sane :: "ibv_send_wr \<Rightarrow> bool" where
  "wr_sane wr \<longleftrightarrow> (swr_opcode wr = IBV_WR_RDMA_READ \<longrightarrow> swr_sges wr \<noteq> []) \<and>
     (swr_inline wr \<longrightarrow> iov_total (map sge_iov (swr_sges wr)) < 2 ^ 32)"

text \<open>\<open>posted\<close>: what a work request holds after a request has been posted.\<close>

definition posted :: "'r usiw_qp \<Rightarrow> ibv_send_wr \<Rightarrow> usiw_send_wqe \<Rightarrow> bool" where
  "posted qp wr w \<longleftrightarrow> wqe_data (qp_mem qp) w (wr_bytes (qp_mem qp) wr) \<and> sw_wr_context w = swr_id wr \<and>
     sw_opcode w = (case swr_opcode wr of IBV_WR_SEND \<Rightarrow> usiw_wr_send | IBV_WR_RDMA_WRITE \<Rightarrow> usiw_wr_write | _ \<Rightarrow> usiw_wr_read) \<and>
     (sw_flags w AND usiw_send_signaled \<noteq> 0 \<longleftrightarrow> swr_signaled wr \<or> qp_flags qp AND usiw_qp_sig_all \<noteq> 0) \<and>
     (sw_flags w AND usiw_send_inline \<noteq> 0 \<longleftrightarrow> swr_inline wr) \<and>
     (\<not> swr_inline wr \<longrightarrow> iovs_of (sw_iov w) (sw_iov_count w) = map sge_iov (swr_sges wr)) \<and>
     (sw_opcode w \<noteq> usiw_wr_send \<longrightarrow> sw_remote_addr w = swr_remote_addr wr \<and> sw_rkey w = swr_rkey wr) \<and>
     (sw_opcode w = usiw_wr_read \<longrightarrow> map_option mr_rkey (sink_region qp wr) = Some (sw_local_stag w)) \<and>
     sw_remote_ep w \<and> sw_state w = SEND_WQE_INIT \<and> sw_msn w = 0 \<and> sw_bytes_sent w = 0 \<and> sw_bytes_acked w = 0"

text \<open>
  The outcome of posting one request, \<open>free\<close> being the free work requests, and the free work
  requests it leaves when it fails. The work request taken for a request whose inline data is
  too long, or for a READ request with inline data, is not given back.
\<close>

definition post_result :: "'r usiw_qp \<Rightarrow> ibv_send_wr \<Rightarrow> nat list \<Rightarrow> ret" where
  "post_result qp wr free =
     (if too_many_sges qp wr then Pos EINVAL
      else if free = [] then Neg ENOSPC
      else if swr_opcode wr = IBV_WR_UNSUPPORTED then Pos EOPNOTSUPP
      else if postable qp wr then Ok else Pos EINVAL)"

definition free_after_failure :: "'r usiw_qp \<Rightarrow> ibv_send_wr \<Rightarrow> nat list \<Rightarrow> nat list" where
  "free_after_failure qp wr free =
     (if too_many_sges qp wr \<or> free = [] then free
      else if swr_opcode wr = IBV_WR_UNSUPPORTED \<or> swr_opcode wr = IBV_WR_RDMA_READ \<and> \<not> swr_inline wr
      then tl free @ [hd free]
      else tl free)"

text \<open>The areas behind the work requests can hold their iovec arrays and inline data.\<close>

definition areas_ok :: "'r usiw_qp \<Rightarrow> bool" where
  "areas_ok qp \<longleftrightarrow> 0 < sq_max_sge (sq qp) \<and> sq_max_sge (sq qp) \<le> 32 \<and> (\<forall>i. 16 * sq_max_sge (sq qp) \<le> length (sw_iov (send_wqe qp i)) \<and>
     unat (sq_max_inline (sq qp)) \<le> length (sw_iov (send_wqe qp i)))"

lemma posted_inline:
  assumes "iov_total (map sge_iov (swr_sges wr)) \<le> unat (sq_max_inline (sq qp))" "areas_ok qp"
  shows "\<exists>qp'. do_inline qp i wr = Some (Ok, qp') \<and>
    (\<exists>area f. qp' = upd_send_wqe i (\<lambda>w. w\<lparr>sw_flags := sw_flags w OR usiw_send_inline, sw_iov := area, sw_total_length := f\<rparr>) qp \<and>
      length area = length (sw_iov (send_wqe qp i)) \<and> unat f = length (wr_bytes (qp_mem qp) wr) \<and> wr_bytes (qp_mem qp) wr = take (unat f) area)"
proof -
  let ?ss = "swr_sges wr" and ?n = "iov_total (map sge_iov (swr_sges wr))"
  have n: "?n \<le> unat (sq_max_inline (sq qp))" "unat (sq_max_inline (sq qp)) \<le> length (sw_iov (send_wqe qp i))"
    using assms by (auto simp: areas_ok_def)
  obtain area where a: "do_inline_loop (qp_mem qp) (sq_max_inline (sq qp)) ?ss 0 (sw_iov (send_wqe qp i)) = Some (Ok, of_nat ?n, area)"
    "length area = length (sw_iov (send_wqe qp i))" "take ?n area = gather (qp_mem qp) (map sge_iov ?ss)"
    using do_inline_loop_copies [of 0 ?ss "sq_max_inline (sq qp)" "sw_iov (send_wqe qp i)" "qp_mem qp"] n by auto
  have "?n < 2 ^ 32" using n(1) unat_bound [of "sq_max_inline (sq qp)"] by simp
  then have f: "unat (ucast (of_nat ?n :: u32) :: u64) = ?n" by (simp add: unat_of_nat)
  show ?thesis
    using a f by (intro exI [of _ "upd_send_wqe i (\<lambda>w. w\<lparr>sw_flags := sw_flags w OR usiw_send_inline, sw_iov := area, sw_total_length := ucast (of_nat ?n :: u32)\<rparr>) qp"]
        conjI exI [of _ area] exI [of _ "ucast (of_nat ?n :: u32)"]) (simp_all add: do_inline_def upd_send_wqe_def wr_bytes_def)
qed

lemma fill_iov_data:
  assumes "fill_iov area (map sge_iov ss) = Some area'" "length ss \<le> 32" "sw_iov w = area'" "sw_iov_count w = length ss"
    and "sw_total_length w = total_len (map sge_iov ss)" "sw_flags w AND usiw_send_inline = 0"
  shows "wqe_data m w (gather m (map sge_iov ss))" "iovs_of (sw_iov w) (sw_iov_count w) = map sge_iov ss"
proof -
  have a: "area' = iov_image (map sge_iov ss) @ drop (16 * length ss) area" "16 * length ss \<le> length area'"
    using assms(1) by (auto simp: fill_iov_def overlay_def)
  have "iovs_of area' (length ss) = map sge_iov ss"
    unfolding a(1) using iovs_of_image [of "map sge_iov ss" "drop (16 * length ss) area"] by simp
  then show "wqe_data m w (gather m (map sge_iov ss))" "iovs_of (sw_iov w) (sw_iov_count w) = map sge_iov ss"
    using assms a(2) unat_total_len [OF assms(2)] by (simp_all add: wqe_data_def)
qed

text \<open>The request in work request \<open>i\<close>, with the rings \<open>f\<close> and \<open>r\<close>.\<close>

definition with_wqe :: "nat \<Rightarrow> usiw_send_wqe \<Rightarrow> 'r \<Rightarrow> 'r \<Rightarrow> 'r usiw_qp \<Rightarrow> 'r usiw_qp" where
  "with_wqe i w f r qp = qp\<lparr>sq := (sq qp)\<lparr>sq_free_ring := f, sq_storage := (sq_storage (sq qp))(i := w), sq_ring := r\<rparr>\<rparr>"

lemma flag_bits:
  "(usiw_send_signaled OR usiw_send_inline) AND usiw_send_inline \<noteq> 0" "(usiw_send_signaled OR usiw_send_inline) AND usiw_send_signaled \<noteq> 0"
  "usiw_send_signaled AND usiw_send_inline = 0" "usiw_send_signaled AND usiw_send_signaled \<noteq> 0" "usiw_send_inline AND usiw_send_inline \<noteq> 0"
  "usiw_send_inline AND usiw_send_signaled = 0"
  by (simp_all add: usiw_send_signaled_def usiw_send_inline_def)

text \<open>What the opcode of a request sets in its work request.\<close>

definition tag_wqe :: "usiw_mr option \<Rightarrow> ibv_send_wr \<Rightarrow> usiw_send_wqe \<Rightarrow> usiw_send_wqe" where
  "tag_wqe sink wr w = (case swr_opcode wr of
       IBV_WR_SEND \<Rightarrow> w\<lparr>sw_opcode := usiw_wr_send\<rparr>
     | IBV_WR_RDMA_WRITE \<Rightarrow> w\<lparr>sw_opcode := usiw_wr_write, sw_remote_addr := swr_remote_addr wr, sw_rkey := swr_rkey wr\<rparr>
     | _ \<Rightarrow> w\<lparr>sw_opcode := usiw_wr_read, sw_remote_addr := swr_remote_addr wr, sw_rkey := swr_rkey wr, sw_local_stag := mr_rkey (the sink)\<rparr>)"

lemma tag_wqe_fields [simp]: "sw_flags (tag_wqe sink wr w) = sw_flags w" "sw_iov (tag_wqe sink wr w) = sw_iov w"
  "sw_opcode (tag_wqe sink wr w) = (case swr_opcode wr of IBV_WR_SEND \<Rightarrow> usiw_wr_send | IBV_WR_RDMA_WRITE \<Rightarrow> usiw_wr_write | _ \<Rightarrow> usiw_wr_read)"
  "swr_opcode wr \<noteq> IBV_WR_SEND \<Longrightarrow> sw_remote_addr (tag_wqe sink wr w) = swr_remote_addr wr \<and> sw_rkey (tag_wqe sink wr w) = swr_rkey wr"
  "swr_opcode wr = IBV_WR_RDMA_READ \<Longrightarrow> sw_local_stag (tag_wqe sink wr w) = mr_rkey (the sink)"
  by (simp_all add: tag_wqe_def split: ibv_wr_opcode.splits)

lemma enqueue_upd_send:
  assumes "rte_ring_enqueue D (sq_ring (sq qp)) i = Some r"
  shows "enqueue_send D i (upd_send_wqe i g (qp\<lparr>sq := (sq qp)\<lparr>sq_free_ring := f\<rparr>\<rparr>)) = Some (Ok, with_wqe i (g (send_wqe qp i)) f r qp)"
  using assms by (simp add: enqueue_send_def upd_send_wqe_def with_wqe_def)

definition posted_wqe :: "usiw_mr option \<Rightarrow> ibv_send_wr \<Rightarrow> u32 \<Rightarrow> u8 list \<Rightarrow> u64 \<Rightarrow> usiw_send_wqe \<Rightarrow> usiw_send_wqe" where
  "posted_wqe sink wr fl area t w = (tag_wqe sink wr w)\<lparr>sw_flags := fl, sw_iov := area, sw_total_length := t, sw_wr_context := swr_id wr,
     sw_iov_count := length (swr_sges wr), sw_remote_ep := True, sw_state := SEND_WQE_INIT, sw_msn := 0, sw_bytes_sent := 0, sw_bytes_acked := 0\<rparr>"

lemma posted_wqe_posted:
  assumes "wqe_data (qp_mem qp) (posted_wqe (sink_region qp wr) wr fl area t w) (wr_bytes (qp_mem qp) wr)" "postable qp wr"
    and "fl AND usiw_send_signaled \<noteq> 0 \<longleftrightarrow> swr_signaled wr \<or> qp_flags qp AND usiw_qp_sig_all \<noteq> 0"
    and "fl AND usiw_send_inline \<noteq> 0 \<longleftrightarrow> swr_inline wr"
    and "\<not> swr_inline wr \<Longrightarrow> iovs_of area (length (swr_sges wr)) = map sge_iov (swr_sges wr)"
  shows "posted qp wr (posted_wqe (sink_region qp wr) wr fl area t w)"
  using assms by (auto simp: posted_def posted_wqe_def postable_def split: ibv_wr_opcode.splits)

lemma wqe_eqI: 
  fixes w w' :: usiw_send_wqe
  assumes "sw_opcode w = sw_opcode w'" "sw_wr_context w = sw_wr_context w'" "sw_remote_ep w = sw_remote_ep w'" "sw_remote_addr w = sw_remote_addr w'"
    "sw_rkey w = sw_rkey w'" "sw_flags w = sw_flags w'" "sw_state w = sw_state w'" "sw_msn w = sw_msn w'" "sw_local_stag w = sw_local_stag w'"
    "sw_total_length w = sw_total_length w'" "sw_bytes_sent w = sw_bytes_sent w'" "sw_bytes_acked w = sw_bytes_acked w'"
    "sw_iov_count w = sw_iov_count w'" "sw_iov w = sw_iov w'"
  shows "w = w'"
  using assms by (cases w, cases w') simp

text \<open>The queue pair when a work request has been taken for a request and its flags are set.\<close>

definition wr_flags :: "'r usiw_qp \<Rightarrow> ibv_send_wr \<Rightarrow> u32" where
  "wr_flags qp wr = (if swr_signaled wr \<or> qp_flags qp AND usiw_qp_sig_all \<noteq> 0 then usiw_send_signaled else 0)"

definition taken_qp :: "nat \<Rightarrow> 'r \<Rightarrow> ibv_send_wr \<Rightarrow> 'r usiw_qp \<Rightarrow> 'r usiw_qp" where
  "taken_qp i f wr qp = upd_send_wqe i (\<lambda>w. w\<lparr>sw_flags := wr_flags qp wr\<rparr>) (qp\<lparr>sq := (sq qp)\<lparr>sq_free_ring := f\<rparr>\<rparr>)"

definition tagged_qp :: "nat \<Rightarrow> 'r \<Rightarrow> ibv_send_wr \<Rightarrow> 'r usiw_qp \<Rightarrow> 'r usiw_qp" where
  "tagged_qp i f wr qp = upd_send_wqe i (tag_wqe (sink_region qp wr) wr) (taken_qp i f wr qp)"

lemma wr_flags_bits:
  "wr_flags qp wr AND usiw_send_inline = 0" "(wr_flags qp wr OR usiw_send_inline) AND usiw_send_inline \<noteq> 0"
  "wr_flags qp wr AND usiw_send_signaled \<noteq> 0 \<longleftrightarrow> swr_signaled wr \<or> qp_flags qp AND usiw_qp_sig_all \<noteq> 0"
  "(wr_flags qp wr OR usiw_send_inline) AND usiw_send_signaled \<noteq> 0 \<longleftrightarrow> swr_signaled wr \<or> qp_flags qp AND usiw_qp_sig_all \<noteq> 0"
  using flag_bits by (auto simp: wr_flags_def)

lemma taken_qp_fields [simp]:
  "qp_pd (taken_qp i f wr qp) = qp_pd qp" "qp_pd (tagged_qp i f wr qp) = qp_pd qp"
  "qp_mem (taken_qp i f wr qp) = qp_mem qp" "qp_mem (tagged_qp i f wr qp) = qp_mem qp"
  "sq_max_inline (sq (taken_qp i f wr qp)) = sq_max_inline (sq qp)" "sq_max_inline (sq (tagged_qp i f wr qp)) = sq_max_inline (sq qp)"
  "sq_max_sge (sq (tagged_qp i f wr qp)) = sq_max_sge (sq qp)"
  "sw_iov (send_wqe (taken_qp i f wr qp) j) = sw_iov (send_wqe qp j)" "sw_iov (send_wqe (tagged_qp i f wr qp) j) = sw_iov (send_wqe qp j)"
  by (simp_all add: taken_qp_def tagged_qp_def upd_send_wqe_def)

lemma post_one_send_taken:
  assumes "rte_ring_dequeue D (sq_free_ring (sq qp)) = Some (i, f)" "\<not> too_many_sges qp wr"
  shows "post_one_send D qp wr = do {
     (sw, qp) \<leftarrow> post_send_opcode (taken_qp i f wr qp) i wr;
     case sw of
       Errout ret \<Rightarrow> Some (ret, qp)
     | Free_wqe ret \<Rightarrow> map_option (Pair ret) (qp_free_send_wqe D qp i False)
     | Go_on \<Rightarrow> finish_post_send D i wr qp }"
  using assms by (simp add: post_one_send_def qp_get_next_send_wqe_def too_many_sges_def taken_qp_def wr_flags_def)

text \<open>The tail of a post, after which work request \<open>i\<close> is in the send ring.\<close>

lemma finish_post_send_inline:
  assumes "rte_ring_enqueue D (sq_ring (sq qp)) i = Some r" "sw_flags (g (send_wqe qp i)) AND usiw_send_inline \<noteq> 0"
  shows "finish_post_send D i wr (upd_send_wqe i g (qp\<lparr>sq := (sq qp)\<lparr>sq_free_ring := f\<rparr>\<rparr>)) =
    Some (Ok, with_wqe i ((g (send_wqe qp i))\<lparr>sw_wr_context := swr_id wr, sw_iov_count := length (swr_sges wr),
      sw_remote_ep := True, sw_state := SEND_WQE_INIT, sw_msn := 0, sw_bytes_sent := 0, sw_bytes_acked := 0\<rparr>) f r qp)"
  using assms by (simp add: finish_post_send_def enqueue_upd_send)

lemma finish_post_send_gather:
  assumes "rte_ring_enqueue D (sq_ring (sq qp)) i = Some r" "sw_flags (g (send_wqe qp i)) AND usiw_send_inline = 0"
    and "fill_iov (sw_iov (g (send_wqe qp i))) (map sge_iov (swr_sges wr)) = Some area"
  shows "finish_post_send D i wr (upd_send_wqe i g (qp\<lparr>sq := (sq qp)\<lparr>sq_free_ring := f\<rparr>\<rparr>)) =
    Some (Ok, with_wqe i ((g (send_wqe qp i))\<lparr>sw_wr_context := swr_id wr, sw_iov_count := length (swr_sges wr),
      sw_remote_ep := True, sw_state := SEND_WQE_INIT, sw_msn := 0, sw_iov := area, sw_total_length := total_len (map sge_iov (swr_sges wr)),
      sw_bytes_sent := 0, sw_bytes_acked := 0\<rparr>) f r qp)"
  using assms by (simp add: finish_post_send_def enqueue_upd_send)

lemma tagged_qp_upd: "upd_send_wqe i g (tagged_qp i f wr qp) =
  upd_send_wqe i (\<lambda>w. g (tag_wqe (sink_region qp wr) wr (w\<lparr>sw_flags := wr_flags qp wr\<rparr>))) (qp\<lparr>sq := (sq qp)\<lparr>sq_free_ring := f\<rparr>\<rparr>)"
  by (simp add: tagged_qp_def taken_qp_def o_def)

lemma tagged_qp_upd0: "tagged_qp i f wr qp =
  upd_send_wqe i (\<lambda>w. tag_wqe (sink_region qp wr) wr (w\<lparr>sw_flags := wr_flags qp wr\<rparr>)) (qp\<lparr>sq := (sq qp)\<lparr>sq_free_ring := f\<rparr>\<rparr>)"
  by (simp add: tagged_qp_def taken_qp_def o_def)

text \<open>The switch over the opcode.\<close>

lemma post_send_opcode_data:
  assumes "swr_opcode wr = IBV_WR_SEND \<or> swr_opcode wr = IBV_WR_RDMA_WRITE"
  shows "post_send_opcode (taken_qp i f wr qp) i wr = (if swr_inline wr
    then map_option (\<lambda>(ret, qp). (if ret = Ok then Go_on else Errout ret, qp)) (do_inline (tagged_qp i f wr qp) i wr)
    else Some (Go_on, tagged_qp i f wr qp))"
  using assms by (auto simp: post_send_opcode_def tagged_qp_def upd_send_wqe_def tag_wqe_def)

lemma post_send_opcode_read:
  assumes "swr_opcode wr = IBV_WR_RDMA_READ" "\<not> swr_inline wr" "swr_sges wr \<noteq> []" "mr_table_inv (qp_pd qp)"
  shows "post_send_opcode (taken_qp i f wr qp) i wr = Some (if sink_region qp wr = None
    then (Free_wqe (Pos EINVAL), upd_send_wqe i (\<lambda>w. w\<lparr>sw_opcode := usiw_wr_read, sw_remote_addr := swr_remote_addr wr,
      sw_rkey := swr_rkey wr\<rparr>) (taken_qp i f wr qp))
    else (Go_on, tagged_qp i f wr qp))"
proof (cases "mr_of (qp_pd qp) (sge_lkey (hd (swr_sges wr)))")
  case None
  then show ?thesis using assms usiw_mr_lookup_mr_of(1) [OF assms(4) None]
    by (simp add: post_send_opcode_def sink_region_def o_def upd_send_wqe_def)
next
  case (Some mr)
  obtain l where l: "usiw_mr_lookup (qp_pd qp) (sge_lkey (hd (swr_sges wr))) = Some (Some l)" "deref_link (qp_pd qp) l = mr"
    using usiw_mr_lookup_mr_of(2) [OF assms(4) Some] by blast
  then show ?thesis using assms Some
    by (simp add: post_send_opcode_def sink_region_def upd_send_wqe_def tagged_qp_def tag_wqe_def)
qed

lemma post_one_send_posts:
  assumes deq: "rte_ring_dequeue D (sq_free_ring (sq qp)) = Some (i, f)" and enq: "rte_ring_enqueue D (sq_ring (sq qp)) i = Some r"
    and p: "postable qp wr" and sane: "wr_sane wr" and ar: "areas_ok qp" and mrs: "mr_table_inv (qp_pd qp)"
  shows "\<exists>w. post_one_send D qp wr = Some (Ok, with_wqe i w f r qp) \<and> posted qp wr w \<and> length (sw_iov w) = length (sw_iov (send_wqe qp i))"
proof -
  let ?qp2 = "tagged_qp i f wr qp" and ?sink = "sink_region qp wr"
  have few: "\<not> too_many_sges qp wr" and sges: "length (swr_sges wr) \<le> max 1 (sq_max_sge (sq qp))"
    using p by (auto simp: postable_def too_many_sges_def split: if_splits)
  note one = post_one_send_taken [OF deq few] and bits = wr_flags_bits [of qp wr]
  show ?thesis
  proof (cases "swr_inline wr")
    case True
    then have op: "swr_opcode wr = IBV_WR_SEND \<or> swr_opcode wr = IBV_WR_RDMA_WRITE"
      and tot: "iov_total (map sge_iov (swr_sges wr)) \<le> unat (sq_max_inline (sq ?qp2))"
      using p by (auto simp: postable_def split: ibv_wr_opcode.splits)
    have ar2: "areas_ok ?qp2" using ar by (simp add: areas_ok_def)
    obtain area t where in2: "do_inline ?qp2 i wr = Some (Ok, upd_send_wqe i (\<lambda>w. w\<lparr>sw_flags := sw_flags w OR usiw_send_inline, sw_iov := area, sw_total_length := t\<rparr>) ?qp2)"
      "length area = length (sw_iov (send_wqe qp i))" "unat t = length (wr_bytes (qp_mem qp) wr)" "wr_bytes (qp_mem qp) wr = take (unat t) area"
      using posted_inline [OF tot ar2, of i] unfolding taken_qp_fields by blast
    let ?w = "posted_wqe ?sink wr (wr_flags qp wr OR usiw_send_inline) area t (send_wqe qp i)"
    have "post_one_send D qp wr = Some (Ok, with_wqe i ?w f r qp)"
      using True bits(2) unfolding one post_send_opcode_data [OF op]
      by (simp add: in2(1) tagged_qp_upd finish_post_send_inline [OF enq])
        (intro arg_cong [where f = "\<lambda>w. with_wqe i w f r qp"] wqe_eqI; simp add: posted_wqe_def tag_wqe_def split: ibv_wr_opcode.split)
    moreover have "posted qp wr ?w" using in2(2-4) bits(2,4) True p
      by (intro posted_wqe_posted) (simp_all add: wqe_data_def posted_wqe_def)
    ultimately show ?thesis using in2(2) by (intro exI [of _ ?w]) (simp add: posted_wqe_def)
  next
    case False
    obtain area where a: "fill_iov (sw_iov (send_wqe qp i)) (map sge_iov (swr_sges wr)) = Some area" "length area = length (sw_iov (send_wqe qp i))"
      "length (swr_sges wr) \<le> 32"
    proof -
      have "length (swr_sges wr) \<le> sq_max_sge (sq qp)" "sq_max_sge (sq qp) \<le> 32" using sges ar by (auto simp: areas_ok_def)
      moreover have "16 * sq_max_sge (sq qp) \<le> length (sw_iov (send_wqe qp i))" using ar by (simp add: areas_ok_def)
      ultimately show thesis using that by (simp add: fill_iov_def)
    qed
    have op: "post_send_opcode (taken_qp i f wr qp) i wr = Some (Go_on, ?qp2)"
      using False p sane post_send_opcode_data [of wr] post_send_opcode_read [OF _ False _ mrs]
      by (auto simp: postable_def wr_sane_def split: ibv_wr_opcode.splits)
    let ?w = "posted_wqe ?sink wr (wr_flags qp wr) area (total_len (map sge_iov (swr_sges wr))) (send_wqe qp i)"
    have "post_one_send D qp wr = Some (Ok, with_wqe i ?w f r qp)"
      using a(1) bits(1) unfolding one op
      by (simp add: tagged_qp_upd0 finish_post_send_gather [OF enq])
        (intro arg_cong [where f = "\<lambda>w. with_wqe i w f r qp"] wqe_eqI; simp add: posted_wqe_def tag_wqe_def split: ibv_wr_opcode.split)
    moreover have "posted qp wr ?w"
      using a(3) bits(1,3) p False fill_iov_data [OF a(1,3), of ?w]
      by (intro posted_wqe_posted) (auto simp: posted_wqe_def wr_bytes_def)
    ultimately show ?thesis using a(2) by (intro exI [of _ ?w]) (simp add: posted_wqe_def)
  qed
qed

lemma with_wqe_fields [simp]:
  "sq_free_ring (sq (with_wqe i w f r qp)) = f" "sq_ring (sq (with_wqe i w f r qp)) = r" "sq_active (sq (with_wqe i w f r qp)) = sq_active (sq qp)"
  "send_wqe (with_wqe i w f r qp) j = (if j = i then w else send_wqe qp j)" "sq_max_wr (sq (with_wqe i w f r qp)) = sq_max_wr (sq qp)"
  "sq_max_sge (sq (with_wqe i w f r qp)) = sq_max_sge (sq qp)" "sq_max_inline (sq (with_wqe i w f r qp)) = sq_max_inline (sq qp)"
  "qp_mem (with_wqe i w f r qp) = qp_mem qp" "qp_pd (with_wqe i w f r qp) = qp_pd qp" "qp_flags (with_wqe i w f r qp) = qp_flags qp" "(with_wqe i w f r qp)\<lparr>sq := s\<rparr> = qp\<lparr>sq := s\<rparr>"
  by (simp_all add: with_wqe_def)

lemma with_wqe_postable:
  assumes "areas_ok qp" "length (sw_iov w) = length (sw_iov (send_wqe qp i))"
  shows "areas_ok (with_wqe i w f r qp)" "postable (with_wqe i w f r qp) = postable qp" "posted (with_wqe i w f r qp) = posted qp"
    "post_result (with_wqe i w f r qp) = post_result qp" "free_after_failure (with_wqe i w f r qp) = free_after_failure qp"
proof -
  show "areas_ok (with_wqe i w f r qp)" using assms by (simp add: areas_ok_def)
  have s: "sink_region (with_wqe i w f r qp) = sink_region qp" "too_many_sges (with_wqe i w f r qp) = too_many_sges qp"
    by (simp_all add: fun_eq_iff sink_region_def too_many_sges_def)
  show p: "postable (with_wqe i w f r qp) = postable qp" by (auto simp: fun_eq_iff postable_def s split: ibv_wr_opcode.split)
  show "posted (with_wqe i w f r qp) = posted qp" by (simp add: fun_eq_iff posted_def s)
  show "post_result (with_wqe i w f r qp) = post_result qp" "free_after_failure (with_wqe i w f r qp) = free_after_failure qp"
    by (simp_all add: fun_eq_iff post_result_def free_after_failure_def s p)
qed

text \<open>A request that fails: what it returns, and where its work request goes.\<close>

lemma do_inline_too_long:
  assumes "unat (sq_max_inline (sq qp)) < iov_total (map sge_iov (swr_sges wr))" "areas_ok qp" "iov_total (map sge_iov (swr_sges wr)) < 2 ^ 32"
  shows "\<exists>area. do_inline qp i wr = Some (Pos EINVAL, upd_send_wqe i (\<lambda>w. w\<lparr>sw_flags := sw_flags w OR usiw_send_inline, sw_iov := area\<rparr>) qp)"
proof -
  have "unat (sq_max_inline (sq qp)) \<le> length (sw_iov (send_wqe qp i))" using assms(2) by (simp add: areas_ok_def)
  then obtain offset area where "do_inline_loop (qp_mem qp) (sq_max_inline (sq qp)) (swr_sges wr) 0 (sw_iov (send_wqe qp i)) = Some (Pos EINVAL, offset, area)"
    using do_inline_loop_too_long [of "sq_max_inline (sq qp)" 0 "swr_sges wr" "sw_iov (send_wqe qp i)" "qp_mem qp"] assms(1,3) by auto
  then show ?thesis by (intro exI [of _ area]) (simp add: do_inline_def upd_send_wqe_def)
qed

lemma free_wqe_upd:
  "qp_free_send_wqe D (upd_send_wqe i g (taken_qp i f wr qp)) i False =
    Some (with_wqe i (g ((send_wqe qp i)\<lparr>sw_flags := wr_flags qp wr\<rparr>)) (ring_put D f i) (sq_ring (sq qp)) qp)"
  by (simp add: qp_free_send_wqe_def taken_qp_def upd_send_wqe_def with_wqe_def)

lemma lost_wqe_upd:
  "upd_send_wqe i g (taken_qp i f wr qp) = with_wqe i (g ((send_wqe qp i)\<lparr>sw_flags := wr_flags qp wr\<rparr>)) f (sq_ring (sq qp)) qp"
  by (simp add: taken_qp_def upd_send_wqe_def with_wqe_def)

lemma upd_with_wqe: "upd_send_wqe i g (with_wqe i w f r qp) = with_wqe i (g w) f r qp"
  by (simp add: upd_send_wqe_def with_wqe_def)

lemma post_one_send_taken_fails:
  assumes deq: "rte_ring_dequeue D (sq_free_ring (sq qp)) = Some (i, f)" and few: "\<not> too_many_sges qp wr"
    and np: "\<not> postable qp wr" and sane: "wr_sane wr" and ar: "areas_ok qp" and mrs: "mr_table_inv (qp_pd qp)"
  shows "\<exists>w. post_one_send D qp wr = Some (if swr_opcode wr = IBV_WR_UNSUPPORTED then Pos EOPNOTSUPP else Pos EINVAL,
    with_wqe i w (if swr_opcode wr = IBV_WR_UNSUPPORTED \<or> swr_opcode wr = IBV_WR_RDMA_READ \<and> \<not> swr_inline wr then ring_put D f i else f)
      (sq_ring (sq qp)) qp)"
proof -
  note one = post_one_send_taken [OF deq few]
  consider "swr_opcode wr = IBV_WR_UNSUPPORTED" | "swr_opcode wr = IBV_WR_RDMA_READ" "swr_inline wr"
    | "swr_opcode wr = IBV_WR_RDMA_READ" "\<not> swr_inline wr" "sink_region qp wr = None"
    | "swr_opcode wr = IBV_WR_SEND \<or> swr_opcode wr = IBV_WR_RDMA_WRITE" "swr_inline wr"
      "unat (sq_max_inline (sq qp)) < iov_total (map sge_iov (swr_sges wr))"
    using np few by (auto simp: postable_def split: ibv_wr_opcode.splits)
  then show ?thesis
  proof cases
    case 1
    then have "post_send_opcode (taken_qp i f wr qp) i wr = Some (Free_wqe (Pos EOPNOTSUPP), upd_send_wqe i (\<lambda>w. w) (taken_qp i f wr qp))"
      by (simp add: post_send_opcode_def upd_send_wqe_def)
    with 1 show ?thesis unfolding one by (auto simp: free_wqe_upd)
  next
    case 2
    then have "post_send_opcode (taken_qp i f wr qp) i wr = Some (Errout (Pos EINVAL), upd_send_wqe i (\<lambda>w. w) (taken_qp i f wr qp))"
      by (simp add: post_send_opcode_def upd_send_wqe_def)
    with 2 show ?thesis unfolding one by (auto simp: lost_wqe_upd)
  next
    case 3
    have ne: "swr_sges wr \<noteq> []" using sane 3(1) by (simp add: wr_sane_def)
    show ?thesis using 3 unfolding one post_send_opcode_read [OF 3(1,2) ne mrs] by (auto simp: free_wqe_upd)
  next
    case 4
    have "areas_ok (tagged_qp i f wr qp)" using ar by (simp add: areas_ok_def)
    moreover have "iov_total (map sge_iov (swr_sges wr)) < 2 ^ 32" using sane 4(2) by (simp add: wr_sane_def)
    ultimately obtain area where "do_inline (tagged_qp i f wr qp) i wr = Some (Pos EINVAL,
        upd_send_wqe i (\<lambda>w. w\<lparr>sw_flags := sw_flags w OR usiw_send_inline, sw_iov := area\<rparr>) (tagged_qp i f wr qp))"
      using do_inline_too_long [of "tagged_qp i f wr qp" wr i] 4(3) by auto
    with 4 show ?thesis unfolding one post_send_opcode_data [OF 4(1)] by (auto simp: tagged_qp_def lost_wqe_upd upd_with_wqe)
  qed
qed

text \<open>The state of the send queue after some requests have been posted and perhaps one has failed.\<close>

definition after_posts :: "('r \<Rightarrow> nat list) \<Rightarrow> 'r usiw_qp \<Rightarrow> ibv_send_wr list \<Rightarrow> nat \<Rightarrow> 'r usiw_qp \<Rightarrow> bool" where
  "after_posts q qp wrs k qp' \<longleftrightarrow> (let free = q (sq_free_ring (sq qp)) in
     q (sq_free_ring (sq qp')) = (if k = length wrs then drop k free else free_after_failure qp (wrs ! k) (drop k free)) \<and>
     q (sq_ring (sq qp')) = q (sq_ring (sq qp)) @ take k free \<and> sq_active (sq qp') = sq_active (sq qp) \<and>
     (\<forall>j < k. posted qp (wrs ! j) (send_wqe qp' (free ! j))) \<and>
     (\<forall>i. i \<notin> set (take k free) \<and> \<not> (k < length wrs \<and> k < length free \<and> i = free ! k) \<longrightarrow> send_wqe qp' i = send_wqe qp i) \<and>
     qp'\<lparr>sq := sq qp\<rparr> = qp)"

lemma post_one_send_fails:
  assumes spec: "ring_spec D q cap" and ok: "sq_ok q cap (sq qp)" and ar: "areas_ok qp" and mrs: "mr_table_inv (qp_pd qp)" and sane: "wr_sane wr"
    and fail: "\<not> postable qp wr \<or> q (sq_free_ring (sq qp)) = []"
  shows "\<exists>qp'. post_one_send D qp wr = Some (post_result qp wr (q (sq_free_ring (sq qp))), qp') \<and>
    post_result qp wr (q (sq_free_ring (sq qp))) \<noteq> Ok \<and> sq_ok q cap (sq qp') \<and> after_posts q qp (wr # wrs) 0 qp'"
proof (cases "too_many_sges qp wr \<or> q (sq_free_ring (sq qp)) = []")
  case True
  have "post_one_send D qp wr = Some (post_result qp wr (q (sq_free_ring (sq qp))), qp)"
    using True ring_spec_dequeue(1) [OF spec, of "sq_free_ring (sq qp)"]
    by (auto simp: post_one_send_def post_result_def too_many_sges_def qp_get_next_send_wqe_def)
  moreover have "after_posts q qp (wr # wrs) 0 qp" using True by (auto simp: after_posts_def free_after_failure_def)
  ultimately show ?thesis using True ok by (auto simp: post_result_def)
next
  case False
  then obtain i rest where free: "q (sq_free_ring (sq qp)) = i # rest" by (cases "q (sq_free_ring (sq qp))") auto
  obtain f where f: "rte_ring_dequeue D (sq_free_ring (sq qp)) = Some (i, f)" "q f = rest" "cap f = cap (sq_free_ring (sq qp))"
    using ring_spec_dequeue(2) [OF spec free] by blast
  have np: "\<not> postable qp wr" and few: "\<not> too_many_sges qp wr" using fail False by auto
  define f' where "f' = (if swr_opcode wr = IBV_WR_UNSUPPORTED \<or> swr_opcode wr = IBV_WR_RDMA_READ \<and> \<not> swr_inline wr then ring_put D f i else f)"
  obtain w where w: "post_one_send D qp wr = Some (if swr_opcode wr = IBV_WR_UNSUPPORTED then Pos EOPNOTSUPP else Pos EINVAL,
      with_wqe i w f' (sq_ring (sq qp)) qp)"
    using post_one_send_taken_fails [OF f(1) few np sane ar mrs] by (auto simp: f'_def)
  have pool: "pool_ok (sq_max_wr (sq qp)) (i # q f @ q (sq_ring (sq qp)) @ sq_active (sq qp))"
    by (rule pool_ok_perm [of _ "sq_entries q (sq qp)"]) (use ok free f(2) in \<open>auto simp: sq_ok_def sq_entries_def\<close>)
  have f': "q f' = free_after_failure qp wr (i # rest)" "cap f' = cap (sq_free_ring (sq qp))"
    using few ring_put_room [OF spec pool] ok f by (auto simp: f'_def free_after_failure_def sq_ok_def)
  have "pool_ok (sq_max_wr (sq qp)) (q f' @ q (sq_ring (sq qp)) @ sq_active (sq qp))"
    using pool few unfolding f'(1) by (auto simp: free_after_failure_def pool_ok_def f(2))
  then have "sq_ok q cap (sq (with_wqe i w f' (sq_ring (sq qp)) qp))" using ok f'(2) by (simp add: sq_ok_def sq_entries_def)
  moreover have "after_posts q qp (wr # wrs) 0 (with_wqe i w f' (sq_ring (sq qp)) qp)"
    using f'(1) by (simp add: after_posts_def free)
  ultimately show ?thesis using w np few free by (simp add: post_result_def)
qed

lemma after_posts_Cons:
  assumes "q (sq_free_ring (sq qp)) = i # rest" "q f = rest" "q r = q (sq_ring (sq qp)) @ [i]"
    and "after_posts q (with_wqe i w f r qp) wrs k qp'" "posted qp wr w" "i \<notin> set rest"
    and "areas_ok qp" "length (sw_iov w) = length (sw_iov (send_wqe qp i))" "k \<le> length rest"
  shows "after_posts q qp (wr # wrs) (Suc k) qp'"
proof -
  note same = with_wqe_postable [OF assms(7,8), of f r]
  have qp': "q (sq_free_ring (sq qp')) = (if k = length wrs then drop k rest else free_after_failure qp (wrs ! k) (drop k rest))"
    "q (sq_ring (sq qp')) = (q (sq_ring (sq qp)) @ [i]) @ take k rest" "sq_active (sq qp') = sq_active (sq qp)"
    "\<And>j. j < k \<Longrightarrow> posted qp (wrs ! j) (send_wqe qp' (rest ! j))"
    "\<And>j. j \<notin> set (take k rest) \<Longrightarrow> \<not> (k < length wrs \<and> k < length rest \<and> j = rest ! k) \<Longrightarrow> send_wqe qp' j = send_wqe (with_wqe i w f r qp) j"
    "qp'\<lparr>sq := sq (with_wqe i w f r qp)\<rparr> = with_wqe i w f r qp"
    using assms(2-4) by (auto simp: after_posts_def Let_def same)
  have "i \<notin> set (take k rest)" "k < length rest \<Longrightarrow> i \<noteq> rest ! k" using assms(6) by (auto dest: in_set_takeD)
  then have "send_wqe qp' i = w" using qp'(5) [of i] by auto
  then have "posted qp ((wr # wrs) ! j) (send_wqe qp' ((i # rest) ! j))" if "j < Suc k" for j
    using that qp'(4) assms(5) by (cases j) auto
  moreover have "qp'\<lparr>sq := sq qp\<rparr> = qp" using arg_cong [OF qp'(6), of "\<lambda>x. x\<lparr>sq := sq qp\<rparr>"] by simp
  ultimately show ?thesis using qp'(1-3,5) assms(1) by (auto simp: after_posts_def)
qed

lemma post_send_loop_posts:
  assumes "ring_spec D q cap" "sq_ok q cap (sq qp)" "areas_ok qp" "mr_table_inv (qp_pd qp)" "\<And>wr. wr \<in> set wrs \<Longrightarrow> wr_sane wr"
    and "k = min (length (takeWhile (postable qp) wrs)) (length (q (sq_free_ring (sq qp))))"
  shows "\<exists>qp'. post_send_loop D qp wrs =
      Some (if k = length wrs then Ok else post_result qp (wrs ! k) (drop k (q (sq_free_ring (sq qp)))), drop k wrs, qp') \<and>
    sq_ok q cap (sq qp') \<and> after_posts q qp wrs k qp'"
  using assms(2-)
proof (induction wrs arbitrary: qp k)
  case Nil
  then show ?case by (simp add: after_posts_def)
next
  case (Cons wr wrs)
  show ?case
  proof (cases "\<not> postable qp wr \<or> q (sq_free_ring (sq qp)) = []")
    case True
    then have k: "k = 0" using Cons.prems(5) by auto
    obtain qp' where "post_one_send D qp wr = Some (post_result qp wr (q (sq_free_ring (sq qp))), qp')"
      "post_result qp wr (q (sq_free_ring (sq qp))) \<noteq> Ok" "sq_ok q cap (sq qp')" "after_posts q qp (wr # wrs) 0 qp'"
      using post_one_send_fails [OF assms(1) Cons.prems(1-3) Cons.prems(4) True, of wrs] by auto
    then show ?thesis using k by simp
  next
    case False
    then obtain i rest where free: "q (sq_free_ring (sq qp)) = i # rest" and p: "postable qp wr" by (cases "q (sq_free_ring (sq qp))") auto
    obtain f where f: "rte_ring_dequeue D (sq_free_ring (sq qp)) = Some (i, f)" "q f = rest" "cap f = cap (sq_free_ring (sq qp))"
      using ring_spec_dequeue(2) [OF assms(1) free] by blast
    have pool: "pool_ok (sq_max_wr (sq qp)) (i # q (sq_ring (sq qp)) @ rest @ sq_active (sq qp))"
      by (rule pool_ok_perm [of _ "sq_entries q (sq qp)"]) (use Cons.prems(1) free in \<open>auto simp: sq_ok_def sq_entries_def\<close>)
    obtain r where r: "rte_ring_enqueue D (sq_ring (sq qp)) i = Some r" "q r = q (sq_ring (sq qp)) @ [i]" "cap r = cap (sq_ring (sq qp))"
      using ring_enqueue_room [OF assms(1) pool] Cons.prems(1) by (auto simp: sq_ok_def)
    have sane: "wr_sane wr" using Cons.prems(4) by simp
    obtain w where w: "post_one_send D qp wr = Some (Ok, with_wqe i w f r qp)" "posted qp wr w" "length (sw_iov w) = length (sw_iov (send_wqe qp i))"
      using post_one_send_posts [OF f(1) r(1) p sane Cons.prems(2,3)] by auto
    let ?qp = "with_wqe i w f r qp"
    note same = with_wqe_postable [OF Cons.prems(2) w(3), of f r]
    have ok: "sq_ok q cap (sq ?qp)"
      using Cons.prems(1) pool f r pool_ok_perm [of "sq_max_wr (sq qp)" _ "rest @ (q (sq_ring (sq qp)) @ [i]) @ sq_active (sq qp)"]
      by (auto simp: sq_ok_def sq_entries_def)
    have dist: "i \<notin> set rest" using pool by (simp add: pool_ok_def)
    define k' where "k' = min (length (takeWhile (postable ?qp) wrs)) (length (q (sq_free_ring (sq ?qp))))"
    have k: "k = Suc k'" using Cons.prems(5) free f(2) p by (simp add: k'_def same(2))
    obtain qp' where qp': "post_send_loop D ?qp wrs = Some (if k' = length wrs then Ok else post_result qp (wrs ! k') (drop k' rest), drop k' wrs, qp')"
      "sq_ok q cap (sq qp')" "after_posts q ?qp wrs k' qp'"
      using Cons.IH [OF ok same(1) _ _ k'_def] Cons.prems(3,4) f(2) by (auto simp: same)
    have "after_posts q qp (wr # wrs) k qp'"
      unfolding k by (rule after_posts_Cons [OF free f(2) r(2) qp'(3) w(2) dist Cons.prems(2) w(3)]) (simp add: k'_def f(2))
    then show ?thesis using w(1) qp'(1,2) k free by simp
  qed
qed


text \<open>A READ into a registered region, followed by a SEND with more inline data than the queue pair allows.\<close>

definition example_read :: ibv_send_wr where
  "example_read = \<lparr>swr_id = 55, swr_sges = [\<lparr>sge_addr = 4096, sge_length = 8, sge_lkey = 5\<rparr>],
     swr_opcode = IBV_WR_RDMA_READ, swr_signaled = True, swr_inline = False, swr_remote_addr = 0x9000, swr_rkey = 7\<rparr>"

definition example_long_inline :: ibv_send_wr where
  "example_long_inline = \<lparr>swr_id = 56, swr_sges = [\<lparr>sge_addr = 0x1000, sge_length = 20, sge_lkey = 0\<rparr>, \<lparr>sge_addr = 0x2000, sge_length = 20, sge_lkey = 0\<rparr>],
     swr_opcode = IBV_WR_SEND, swr_signaled = True, swr_inline = True, swr_remote_addr = 0, swr_rkey = 0\<rparr>"

definition example_mr_qp :: "(nat list \<times> nat) usiw_qp" where
  "example_mr_qp = example_qp\<lparr>qp_pd := mr_add (mr_example 1 5) pd_example\<rparr>"

lemma example_mr_qp_ok: "areas_ok example_mr_qp" "sq_ok fst snd (sq example_mr_qp)" "mr_table_inv (qp_pd example_mr_qp)"
proof -
  show "areas_ok example_mr_qp" by (simp add: areas_ok_def example_mr_qp_def example_qp_def example_send_wqe_def two_segments_def)
  show "sq_ok fst snd (sq example_mr_qp)" using example_qp_ok by (simp add: qp_ok_def example_mr_qp_def)
  show "mr_table_inv (qp_pd example_mr_qp)" by (simp add: example_mr_qp_def mrs.add_inv pd_example_inv)
qed

lemma example_postable: "postable example_mr_qp example_read" "\<not> postable example_mr_qp example_long_inline"
  "\<not> too_many_sges example_mr_qp example_long_inline"
proof -
  have "mr_of (qp_pd example_mr_qp) 5 = Some (mr_example 1 5)"
    by (simp add: example_mr_qp_def mrs.find_add pd_example_inv) (simp add: mr_example_def)
  then show "postable example_mr_qp example_read"
    by (simp add: postable_def too_many_sges_def sink_region_def example_read_def mr_example_def IBV_ACCESS_REMOTE_WRITE_def)
  show "\<not> postable example_mr_qp example_long_inline" "\<not> too_many_sges example_mr_qp example_long_inline"
    by (simp_all add: postable_def too_many_sges_def example_long_inline_def example_mr_qp_def example_qp_def sge_iov_def)
qed


lemma usiw_create_cq_sizes_example:
  "\<exists>cq. usiw_create_cq example_env 0 Ok 3 (\<lambda>_. cq_storage example_cq 0) 100 = Some (Inr cq) \<and> cq_ok fst snd cq \<and> 100 \<le> cq_capacity cq"
  using usiw_create_cq_sizes [OF example_env_ring_spec example_env_ring_init_spec example_attr_ok(4), of 100 0 3 "\<lambda>_. cq_storage example_cq 0"]
  by (auto simp: INT_MAX_def SIZE_POW2_MAX_def)

theorem usiw_poll_cq_fifo_witness:
  "let cq = example_cq\<lparr>cqe_ring := ([1, 0], 7), cq_free_ring := ([2, 3], 7)\<rparr> in
   \<exists>cq'. usiw_poll_cq example_env cq 1 = Some (convert_cqes [cq_storage cq 1], cq') \<and> cq_view fst cq' = [cq_storage cq 0]"
proof -
  let ?cq = "example_cq\<lparr>cqe_ring := ([1, 0], 7), cq_free_ring := ([2, 3], 7)\<rparr>"
  have "cq_ok fst snd ?cq" by (simp add: cq_ok_def cq_entries_def pool_ok_def example_cq_def)
  moreover have "cq_view fst ?cq = [cq_storage ?cq 1, cq_storage ?cq 0]" by (simp add: cq_view_def)
  ultimately show ?thesis using usiw_poll_cq_fifo [OF example_env_ring_spec, of ?cq 1] unfolding Let_def by auto
qed

end
