(* ===== verification/Urdmad.thy ===== *)
theory Urdmad
  imports Qp_State
begin

text \<open>
  The daemon (\<^verbatim>\<open>urdmad/main.c\<close>): it owns the queues of the network card, hands queue pairs and
  processor cores out to client processes, takes them back, and sets a queue pair up when the
  kernel reports its connection. The results of the network card, the sockets and
  \<^verbatim>\<open>rte_bsf32\<close> are the fields of an environment record; outcomes that depend on the outside take
  the number of calls made so far.
\<close>

section \<open>State\<close>

definition port_2tuple :: u64 where "port_2tuple = 4"
definition port_5tuple :: u64 where "port_5tuple = 8"

datatype nic_filter = Filter_5tuple u32 u16 u16 | Filter_2tuple u16 u16 | Filter_fdir u32 u16 u16

text \<open>What the daemon has asked the card, the kernel and its clients for, in order.\<close>

datatype nic_call =
    Filter_add u16 nic_filter | Filter_delete u16 nic_filter
  | Rx_start u16 u16 | Tx_start u16 u16 | Rx_stop u16 u16 | Tx_stop u16 u16
  | Post_rtr u32 | Create_resp nat "nat \<times> nat" | Hello_resp nat "u32 list" "u16 list"

record nic =
  rte_bsf32 :: "u32 \<Rightarrow> nat"
  rte_eth_dev_filter_ctrl :: "nat \<Rightarrow> nic_call \<Rightarrow> ret"
  rx_queue_nb_desc :: "nat \<Rightarrow> u16 option"
  tx_queue_nb_desc :: "nat \<Rightarrow> u16 option"
  rx_queue_start :: "nat \<Rightarrow> ret"
  tx_queue_start :: "nat \<Rightarrow> ret"
  drain_burst :: "nat \<Rightarrow> nat"
  sock_send_ret :: "nat \<Rightarrow> int"

text \<open>A pointer to a queue pair: the index of a port and the index in its array of queue pairs.\<close>

type_synonym qp_ptr = "nat \<times> nat"

record usiw_port =
  pt_portid :: u16
  pt_rx_desc_count :: u16
  pt_tx_desc_count :: u16
  pt_rx_burst_size :: u16
  pt_tx_burst_size :: u16
  pt_max_qp :: u16
  avail_qp :: "qp_ptr list"
  pt_qp :: "urdmad_qp list"
  pt_flags :: u64
  pt_ipv4_addr :: u32
  pt_mtu :: u16

record urdma_process =
  owned_qps :: "qp_ptr list"
  pr_core_mask :: "u32 list"

text \<open>
  The processes are listed with their sockets. \<open>orphans\<close> are the lists of queue pairs whose head
  was in a process structure that has been freed.
\<close>

record usiw_driver =
  ports :: "usiw_port list"
  processes :: "(nat \<times> urdma_process) list"
  orphans :: "qp_ptr list list"
  core_mask :: "u32 list"
  core_avail :: u32
  nic_log :: "nic_call list"
  nic_tick :: nat

definition called :: "nic_call list \<Rightarrow> usiw_driver \<Rightarrow> usiw_driver" where
  "called cs d = d\<lparr>nic_log := nic_log d @ cs, nic_tick := nic_tick d + 1\<rparr>"

definition upd_port :: "nat \<Rightarrow> (usiw_port \<Rightarrow> usiw_port) \<Rightarrow> usiw_driver \<Rightarrow> usiw_driver" where
  "upd_port i f d = d\<lparr>ports := (ports d)[i := f (ports d ! i)]\<rparr>"

definition upd_process :: "nat \<Rightarrow> (urdma_process \<Rightarrow> urdma_process) \<Rightarrow> usiw_driver \<Rightarrow> usiw_driver" where
  "upd_process fd f d = d\<lparr>processes := map (\<lambda>(k, pr). (k, if k = fd then f pr else pr)) (processes d)\<rparr>"

section \<open>Processor cores\<close>

text \<open>The cores that are not used by the EAL, up to the first one that was not detected.\<close>

fun init_core_mask :: "(bool \<times> bool) list \<Rightarrow> nat \<Rightarrow> u32 list \<times> u32 \<Rightarrow> u32 list \<times> u32" where
  "init_core_mask [] i (m, n) = (m, n)"
| "init_core_mask ((detected, role_off) # cs) i (m, n) =
     (if \<not> detected then (m, n)
      else if role_off then init_core_mask cs (Suc i) (m[i div 32 := m ! (i div 32) OR push_bit (i mod 32) 1], n + 1)
      else init_core_mask cs (Suc i) (m, n))"

function next_mask :: "u32 list \<Rightarrow> nat \<Rightarrow> nat option" where
  "next_mask m j = (if j < length m then if m ! j = 0 then next_mask m (Suc j) else Some j else None)"
  by pat_completeness auto
termination by (relation "measure (\<lambda>(m, j). length m - j)") auto

declare next_mask.simps [simp del]

fun reserve_loop :: "nic \<Rightarrow> nat \<Rightarrow> nat \<Rightarrow> u32 list \<Rightarrow> u32 list \<Rightarrow> (u32 list \<times> u32 list) option" where
  "reserve_loop N 0 j m out = Some (m, out)"
| "reserve_loop N (Suc n) j m out = do {
     j \<leftarrow> next_mask m j;
     let b = push_bit (rte_bsf32 N (m ! j)) 1;
     reserve_loop N n j (m[j := m ! j AND NOT b]) (out[j := out ! j OR b])
   }"

text \<open>The results: whether the cores could be reserved, the mask of the process, the driver.\<close>

definition reserve_cores :: "nic \<Rightarrow> u32 \<Rightarrow> u32 list \<Rightarrow> usiw_driver \<Rightarrow> (bool \<times> u32 list \<times> usiw_driver) option" where
  "reserve_cores N cnt out d =
     (if cnt > core_avail d then Some (False, out, d)
      else do {
        (m, out) \<leftarrow> reserve_loop N (unat cnt) 0 (core_mask d) out;
        Some (True, out, d\<lparr>core_mask := m, core_avail := core_avail d - cnt\<rparr>)
      })"

partial_function (option) return_word :: "nic \<Rightarrow> u32 \<Rightarrow> u32 \<Rightarrow> u32 \<Rightarrow> (u32 \<times> u32) option" where
  "return_word N tmp avail w =
     (if tmp = 0 then Some (avail, w)
      else let b = push_bit (rte_bsf32 N tmp) 1 in return_word N (tmp AND NOT b) (avail + 1) (w OR b))"

fun return_words :: "nic \<Rightarrow> u32 list \<Rightarrow> u32 \<Rightarrow> u32 list \<Rightarrow> (u32 \<times> u32 list) option" where
  "return_words N [] avail m = Some (avail, m)"
| "return_words N (tmp # ms) avail [] = None"
| "return_words N (tmp # ms) avail (w # m) = do {
     (avail, w) \<leftarrow> return_word N tmp avail w;
     (avail, m) \<leftarrow> return_words N ms avail m;
     Some (avail, w # m)
   }"

definition return_lcores :: "nic \<Rightarrow> u32 list \<Rightarrow> usiw_driver \<Rightarrow> usiw_driver option" where
  "return_lcores N in_mask d = do {
     (avail, m) \<leftarrow> return_words N in_mask (core_avail d) (core_mask d);
     Some (d\<lparr>core_avail := avail, core_mask := m\<rparr>)
   }"

section \<open>The lists of queue pairs\<close>

text \<open>
  \<^verbatim>\<open>list_del\<close> takes the queue pair out of whatever list it is in. It writes to both neighbours: a
  queue pair that was never in a list has null pointers there, and the first and last one of an
  orphaned list point to freed memory.
\<close>

definition linked :: "qp_ptr \<Rightarrow> usiw_driver \<Rightarrow> bool" where
  "linked p d \<longleftrightarrow> (\<exists>pt \<in> set (ports d). p \<in> set (avail_qp pt)) \<or> (\<exists>(fd, pr) \<in> set (processes d). p \<in> set (owned_qps pr))
     \<or> (\<exists>ps \<in> set (orphans d). p \<in> set (butlast (tl ps)))"

definition unlink :: "qp_ptr \<Rightarrow> usiw_driver \<Rightarrow> usiw_driver" where
  "unlink p d = d\<lparr>ports := map (\<lambda>pt. pt\<lparr>avail_qp := remove1 p (avail_qp pt)\<rparr>) (ports d),
     processes := map (\<lambda>(fd, pr). (fd, pr\<lparr>owned_qps := remove1 p (owned_qps pr)\<rparr>)) (processes d),
     orphans := map (remove1 p) (orphans d)\<rparr>"

definition list_del :: "qp_ptr \<Rightarrow> usiw_driver \<Rightarrow> usiw_driver option" where
  "list_del p d = do {
     assert_c (linked p d);
     Some (unlink p d)
   }"

definition qp_at :: "usiw_driver \<Rightarrow> qp_ptr \<Rightarrow> urdmad_qp" where
  "qp_at d p = pt_qp (ports d ! fst p) ! snd p"

section \<open>Returning a queue pair\<close>

partial_function (option) drain_queue :: "nic \<Rightarrow> usiw_driver \<Rightarrow> usiw_driver option" where
  "drain_queue N d = (if drain_burst N (nic_tick d) > 0 then drain_queue N (called [] d) else Some (called [] d))"

text \<open>The filter of a queue pair is deleted; only the failure for a 2-tuple filter ends the function.\<close>

definition delete_filter :: "nic \<Rightarrow> usiw_port \<Rightarrow> urdmad_qp \<Rightarrow> usiw_driver \<Rightarrow> bool \<times> usiw_driver" where
  "delete_filter N dev qp d =
     (if pt_flags dev AND port_5tuple \<noteq> 0 then
        (True, called [Filter_delete (pt_portid dev) (Filter_5tuple (pt_ipv4_addr dev) (local_udp_port qp) (shm_rx_queue qp))] d)
      else if pt_flags dev AND port_2tuple \<noteq> 0 then
        let c = Filter_delete (pt_portid dev) (Filter_2tuple (local_udp_port qp) (shm_rx_queue qp))
        in (rte_eth_dev_filter_ctrl N (nic_tick d) c = Ok, called [c] d)
      else if pt_flags dev AND port_fdir \<noteq> 0 then
        (True, called [Filter_delete (pt_portid dev) (Filter_fdir (pt_ipv4_addr dev) (local_udp_port qp) (shm_rx_queue qp))] d)
      else (True, d))"

text \<open>\<open>i\<close> is the index of the port \<^verbatim>\<open>dev\<close>.\<close>

definition return_qp :: "nic \<Rightarrow> nat \<Rightarrow> qp_ptr \<Rightarrow> usiw_driver \<Rightarrow> usiw_driver option" where
  "return_qp N i p d = do {
     assert_c (i < length (ports d));
     d \<leftarrow> list_del p d;
     let d = upd_port i (\<lambda>pt. pt\<lparr>avail_qp := avail_qp pt @ [p]\<rparr>) d;
     let dev = ports d ! i;
     let qp = qp_at d p;
     let (go_on, d) = delete_filter N dev qp d;
     if \<not> go_on then Some d
     else do {
       d \<leftarrow> drain_queue N d;
       Some (called [Tx_stop (pt_portid dev) (shm_tx_queue qp)] (called [Rx_stop (pt_portid dev) (shm_rx_queue qp)] d))
     }
   }"

section \<open>Connection setup\<close>

record urdma_qp_connected_event =
  ev_type :: u32
  ev_kmod_qp_id :: u32
  ev_dev_id :: u16
  ev_qp_id :: u16
  ev_src_ipv4 :: u32
  ev_src_port :: u16
  ev_dst_ipv4 :: u32
  ev_dst_ether :: "u8 list"
  ev_dst_port :: u16
  ev_ord_max :: u8
  ev_ird_max :: u8
  ev_rxq :: u16
  ev_txq :: u16

text \<open>
  The parameters of the connection. The arithmetic of the receive burst is in \<^verbatim>\<open>int\<close>, so
  \<^verbatim>\<open>rx_desc_count + 1\<close> does not wrap before it is stored.
\<close>

definition setup_params :: "urdma_qp_connected_event \<Rightarrow> usiw_port \<Rightarrow> u16 option \<Rightarrow> u16 option \<Rightarrow> urdmad_qp \<Rightarrow> urdmad_qp" where
  "setup_params ev dev rxi txi qp =
     (let qp = qp\<lparr>local_udp_port := ev_src_port ev, local_ipv4_addr := ev_src_ipv4 ev, remote_udp_port := ev_dst_port ev,
            remote_ipv4_addr := ev_dst_ipv4 ev, ord_max := ev_ord_max ev, ird_max := ev_ird_max ev,
            shm_mtu := (if pt_mtu dev = 9000 then 8192 else 1024),
            rx_desc_count := (case rxi of None \<Rightarrow> pt_rx_desc_count dev | Some n \<Rightarrow> n),
            tx_desc_count := (case txi of None \<Rightarrow> pt_tx_desc_count dev | Some n \<Rightarrow> n),
            rx_burst_size := pt_rx_burst_size dev\<rparr>;
          qp = (if unat (rx_burst_size qp) > unat (rx_desc_count qp) + 1
                then qp\<lparr>rx_burst_size := rx_desc_count qp + 1\<rparr> else qp);
          qp = qp\<lparr>tx_burst_size := pt_tx_burst_size dev\<rparr>;
          qp = (if tx_burst_size qp > pt_tx_desc_count dev then qp\<lparr>tx_burst_size := pt_tx_desc_count dev\<rparr> else qp)
      in qp\<lparr>remote_ether_addr := ev_dst_ether ev\<rparr>)"

text \<open>The filter that brings the datagrams of the connection to its queue; the flags of the port may change.\<close>

definition add_filter :: "nic \<Rightarrow> urdma_qp_connected_event \<Rightarrow> nat \<Rightarrow> urdmad_qp \<Rightarrow> usiw_driver \<Rightarrow> ret \<times> usiw_driver" where
  "add_filter N ev i qp d =
     (let dev = ports d ! i;
          add = (\<lambda>f d. let c = Filter_add (pt_portid dev) f in (rte_eth_dev_filter_ctrl N (nic_tick d) c, called [c] d));
          add_2tuple = add (Filter_2tuple (local_udp_port qp) (shm_rx_queue qp))
      in if pt_flags dev AND port_5tuple \<noteq> 0 then
           (case add (Filter_5tuple (pt_ipv4_addr dev) (local_udp_port qp) (shm_rx_queue qp)) d of
              (ret, d) \<Rightarrow> if ret = Neg EOPNOTSUPP
                then add_2tuple (upd_port i (\<lambda>pt. pt\<lparr>pt_flags := (pt_flags pt AND NOT port_5tuple) OR port_2tuple\<rparr>) d)
                else (ret, d))
         else if pt_flags dev AND port_2tuple \<noteq> 0 then add_2tuple d
         else if pt_flags dev AND port_fdir \<noteq> 0 then add (Filter_fdir (pt_ipv4_addr dev) (ev_src_port ev) (ev_rxq ev)) d
         else (Ok, d))"

text \<open>The connection state is stored whatever it was before.\<close>

definition do_setup_qp :: "nic \<Rightarrow> urdma_qp_connected_event \<Rightarrow> qp_ptr \<Rightarrow> usiw_driver \<Rightarrow> (ret \<times> usiw_driver) option" where
  "do_setup_qp N ev p d = do {
     let dev = ports d ! fst p;
     let qp = qp_at d p;
     let store = (\<lambda>qp. upd_port (fst p) (\<lambda>pt. pt\<lparr>pt_qp := (pt_qp pt)[snd p := qp]\<rparr>));
     assert_c (ev_src_port ev \<noteq> 0);
     assert_c (ev_src_ipv4 ev = pt_ipv4_addr dev);
     assert_c (ev_rxq ev = shm_rx_queue qp);
     assert_c (ev_txq ev = shm_tx_queue qp);
     let qp = setup_params ev dev (rx_queue_nb_desc N (nic_tick d)) (tx_queue_nb_desc N (nic_tick d + 1)) qp;
     let d = store qp (called [] (called [] d));
     let (ret, d) = add_filter N ev (fst p) qp d;
     if ret \<noteq> Ok then Some (ret, d)
     else let ret = rx_queue_start N (nic_tick d); d = called [Rx_start (ev_dev_id ev) (ev_rxq ev)] d in
       if is_neg ret \<and> ret \<noteq> Neg EOPNOTSUPP then Some (ret, d)
       else let ret = tx_queue_start N (nic_tick d); d = called [Tx_start (ev_dev_id ev) (ev_txq ev)] d in
         if is_neg ret \<and> ret \<noteq> Neg EOPNOTSUPP then Some (ret, d)
         else Some (Ok, store (qp\<lparr>conn_state := usiw_qp_connected\<rparr>) d)
   }"

definition handle_qp_connected_event :: "nic \<Rightarrow> urdma_qp_connected_event \<Rightarrow> nat \<Rightarrow> usiw_driver \<Rightarrow> usiw_driver option" where
  "handle_qp_connected_event N ev cnt d =
     (if cnt < 40 then Some d
      else do {
        let i = unat (ev_dev_id ev); let q = unat (ev_qp_id ev);
        assert_c (i < length (ports d) \<and> q < length (pt_qp (ports d ! i)));
        (ret, d) \<leftarrow> do_setup_qp N ev (i, q) d;
        Some (if ret \<noteq> Ok then d else called [Post_rtr (ev_kmod_qp_id ev)] d)
      })"

definition SIW_EVENT_QP_CONNECTED :: u32 where "SIW_EVENT_QP_CONNECTED = 1"

text \<open>\<open>read_ret\<close> is the number of bytes read from the device, or \<open>None\<close> for an error.\<close>

definition chardev_data_ready :: "nic \<Rightarrow> nat option \<Rightarrow> urdma_qp_connected_event \<Rightarrow> usiw_driver \<Rightarrow> usiw_driver option" where
  "chardev_data_ready N read_ret ev d =
     (case read_ret of
        None \<Rightarrow> Some d
      | Some n \<Rightarrow> if ev_type ev \<noteq> SIW_EVENT_QP_CONNECTED then Some d else handle_qp_connected_event N ev n d)"

section \<open>The sockets of the clients\<close>

definition urdma_sock_create_qp_req :: u32 where "urdma_sock_create_qp_req = 1"
definition urdma_sock_destroy_qp_req :: u32 where "urdma_sock_destroy_qp_req = 3"
definition urdma_sock_hello_req :: u32 where "urdma_sock_hello_req = 4"

definition send_create_qp_resp :: "nic \<Rightarrow> nat \<Rightarrow> qp_ptr \<Rightarrow> usiw_driver \<Rightarrow> bool \<times> usiw_driver" where
  "send_create_qp_resp N fd p d = (sock_send_ret N (nic_tick d) = 16, called [Create_resp fd p] d)"

text \<open>
  The response has 8 bytes of header, two 16-bit numbers, the mask of the process and one 16-bit
  number for each port. The result is false for any failure.
\<close>

definition handle_hello :: "nic \<Rightarrow> nat \<Rightarrow> u32 \<Rightarrow> urdma_process \<Rightarrow> usiw_driver \<Rightarrow> (bool \<times> usiw_driver) option" where
  "handle_hello N fd lcores pr d = do {
     (ok, m, d) \<leftarrow> reserve_cores N lcores (pr_core_mask pr) d;
     let d = upd_process fd (\<lambda>pr. pr\<lparr>pr_core_mask := m\<rparr>) d;
     if \<not> ok then Some (False, d)
     else let resp_size = 12 + 4 * length m + 2 * length (ports d) in
       Some (sock_send_ret N (nic_tick d) = int resp_size, called [Hello_resp fd m (map pt_max_qp (ports d))] d)
   }"

text \<open>The end of a process structure: its socket is closed and its memory freed.\<close>

definition free_process :: "nat \<Rightarrow> usiw_driver \<Rightarrow> usiw_driver" where
  "free_process fd d = d\<lparr>processes := filter (\<lambda>(k, _). k \<noteq> fd) (processes d),
     orphans := orphans d @ map (owned_qps \<circ> snd) (filter (\<lambda>(k, pr). k = fd \<and> owned_qps pr \<noteq> []) (processes d))\<rparr>"

text \<open>
  A message on the socket of a process. \<open>received\<close> is the result of \<^verbatim>\<open>recv\<close>, compared with an
  unsigned size, so that an error counts as a long message; the rest is the content of the
  buffer afterwards.
\<close>

record sock_any_msg =
  msg_received :: u64
  msg_opcode :: u32
  msg_dev_id :: u16
  msg_qp_id :: u16
  msg_lcore_count :: u32

definition create_qp_req :: "nic \<Rightarrow> nat \<Rightarrow> nat \<Rightarrow> usiw_driver \<Rightarrow> (bool \<times> usiw_driver) option" where
  "create_qp_req N fd i d =
     (if i > length (ports d) then Some (False, d)
      else do {
        assert_c (i < length (ports d));
        case avail_qp (ports d ! i) of
          [] \<Rightarrow> None
        | p # _ \<Rightarrow> do {
            d \<leftarrow> list_del p d;
            Some (send_create_qp_resp N fd p (upd_process fd (\<lambda>pr. pr\<lparr>owned_qps := owned_qps pr @ [p]\<rparr>) d))
          }
      })"

definition destroy_qp_req :: "nic \<Rightarrow> nat \<Rightarrow> nat \<Rightarrow> usiw_driver \<Rightarrow> (bool \<times> usiw_driver) option" where
  "destroy_qp_req N i q d =
     (if i > length (ports d) then Some (False, d)
      else do {
        assert_c (i < length (ports d));
        if q > unat (pt_max_qp (ports d ! i)) then Some (False, d)
        else map_option (Pair True) (return_qp N i (i, q) d)
      })"

definition process_data_ready :: "nic \<Rightarrow> nat \<Rightarrow> sock_any_msg \<Rightarrow> usiw_driver \<Rightarrow> usiw_driver option" where
  "process_data_ready N fd msg d = do {
     pr \<leftarrow> map_of (processes d) fd;
     if msg_received msg < 8 then do {
       d \<leftarrow> for_each (\<lambda>p d. return_qp N (unat (shm_dev_id (qp_at d p))) p d) (owned_qps pr) d;
       d \<leftarrow> return_lcores N (pr_core_mask pr) d;
       Some (free_process fd d)
     }
     else do {
       (ok, d) \<leftarrow>
         (if msg_opcode msg = urdma_sock_create_qp_req then create_qp_req N fd (unat (msg_dev_id msg)) d
          else if msg_opcode msg = urdma_sock_destroy_qp_req then
            destroy_qp_req N (unat (msg_dev_id msg)) (unat (msg_qp_id msg)) d
          else if msg_opcode msg = urdma_sock_hello_req then handle_hello N fd (msg_lcore_count msg) pr d
          else Some (False, d));
       Some (if ok then d else free_process fd d)
     }
   }"

text \<open>A new connection; \<open>fd\<close> is the result of \<^verbatim>\<open>accept4\<close>, \<open>n_masks\<close> is \<^verbatim>\<open>RTE_MAX_LCORE / 32\<close>.\<close>

definition listen_data_ready :: "bool \<Rightarrow> nat option \<Rightarrow> bool \<Rightarrow> nat \<Rightarrow> usiw_driver \<Rightarrow> usiw_driver option" where
  "listen_data_ready malloc_ok fd epoll_ok n_masks d =
     (if \<not> malloc_ok then Some d
      else case fd of
        None \<Rightarrow> Some d
      | Some fd \<Rightarrow> do {
          assert_c epoll_ok;
          Some (d\<lparr>processes := processes d @ [(fd, \<lparr>owned_qps = [], pr_core_mask = replicate n_masks 0\<rparr>)]\<rparr>)
        })"

section \<open>A concrete environment\<close>

text \<open>A card that accepts everything and has nothing queued.\<close>

fun lowest_bit :: "nat \<Rightarrow> u32 \<Rightarrow> nat" where
  "lowest_bit 0 w = 31"
| "lowest_bit (Suc n) w = (if bit w (31 - n) then 31 - n else lowest_bit n w)"

definition example_nic :: nic where
  "example_nic = \<lparr>rte_bsf32 = lowest_bit 32, rte_eth_dev_filter_ctrl = \<lambda>t c. Ok, rx_queue_nb_desc = \<lambda>t. Some 512, tx_queue_nb_desc = \<lambda>t. None,
     rx_queue_start = \<lambda>t. Ok, tx_queue_start = \<lambda>t. Neg EOPNOTSUPP, drain_burst = \<lambda>t. 0, sock_send_ret = \<lambda>t. 16\<rparr>"

end
