(* ===== verification/Lifecycle.thy ===== *)
theory Lifecycle
  imports Lifeline Verbs_Correct Urdmad
begin

text \<open>
  The life of a queue pair across the components that share it: the application calls verbs on
  it, the progress thread drives it, and the daemon connects it. The two sides of the library
  hold one reference each; the last one to let go releases the queue pair and its references to
  the completion queues.
\<close>

section \<open>Set-up by the daemon\<close>

lemma called_simps [simp]:
  "ports (called cs d) = ports d" "processes (called cs d) = processes d" "orphans (called cs d) = orphans d"
  "core_mask (called cs d) = core_mask d" "core_avail (called cs d) = core_avail d"
  by (simp_all add: called_def)

lemma add_filter_qp:
  assumes "add_filter N ev i qp d = (r, d')" "i < length (ports d)"
  shows "length (ports d') = length (ports d)" "pt_qp (ports d' ! i) = pt_qp (ports d ! i)"
  using assms by (auto simp: add_filter_def Let_def upd_port_def split: if_splits prod.splits)

lemma setup_params_same [simp]:
  "conn_state (setup_params ev dev r t qp) = conn_state qp" "shm_qp_id (setup_params ev dev r t qp) = shm_qp_id qp"
  by (simp_all add: setup_params_def Let_def)

lemma do_setup_qp_shm:
  assumes "do_setup_qp N ev p d = Some (r, d')" "fst p < length (ports d)" "snd p < length (pt_qp (ports d ! fst p))"
  shows "shm_qp_id (qp_at d' p) = shm_qp_id (qp_at d p)"
    "conn_state (qp_at d' p) = conn_state (qp_at d p) \<or> conn_state (qp_at d' p) = usiw_qp_connected"
proof -
  let ?qp = "setup_params ev (ports d ! fst p) (rx_queue_nb_desc N (nic_tick d)) (tx_queue_nb_desc N (nic_tick d + 1)) (qp_at d p)"
  let ?d = "upd_port (fst p) (\<lambda>pt. pt\<lparr>pt_qp := (pt_qp pt)[snd p := ?qp]\<rparr>) (called [] (called [] d))"
  obtain ret d1 where f: "add_filter N ev (fst p) ?qp ?d = (ret, d1)" by (meson surj_pair)
  have len: "fst p < length (ports d1)" "snd p < length (pt_qp (ports d1 ! fst p))"
    and at: "qp_at d1 p = ?qp"
    using add_filter_qp [OF f] assms(2,3) by (simp_all add: upd_port_def qp_at_def)
  have "qp_at d' p = ?qp \<or> qp_at d' p = ?qp\<lparr>conn_state := usiw_qp_connected\<rparr>"
    using assms(1) f at len by (auto simp: do_setup_qp_def Let_def upd_port_def qp_at_def split: if_splits)
  then show "shm_qp_id (qp_at d' p) = shm_qp_id (qp_at d p)"
    "conn_state (qp_at d' p) = conn_state (qp_at d p) \<or> conn_state (qp_at d' p) = usiw_qp_connected" by auto
qed

section \<open>Steps\<close>

text \<open>
  The state: the context, the completion queues the application still holds, and the queue pair.
  The application may use the queue pair while the context lists its number in \<^verbatim>\<open>ctx->qp\<close>, the
  progress thread while it is on \<^verbatim>\<open>ctx->qp_active\<close>.
\<close>

inductive life_step ::
  "'r dpdk \<Rightarrow> nic \<Rightarrow> usiw_context \<times> nat set \<times> 'r usiw_qp \<Rightarrow> usiw_context \<times> nat set \<times> 'r usiw_qp \<Rightarrow> bool" for D N where
  run: "life_step D N (ctx, U, qp)
     (ctx\<lparr>qp_init_count := n, ctx_qp_active := (if stays then ctx_qp_active ctx else remove1 (qp_num qp) (ctx_qp_active ctx))\<rparr>, U, qp')"
    if "qp_num qp \<in> set (ctx_qp_active ctx)" "kni_qp_step D junk (qp_init_count ctx) qp = Some (n, stays, qp')"
| modify: "life_step D N (ctx, U, qp) (ctx, U, qp')"
    if "qp_num qp \<in> set (ctx_qp ctx)" "usiw_modify_qp cmd state qp = (ret, qp')"
| destroy: "life_step D N (ctx, U, qp) (ctx', U, qp')"
    if "qp_num qp \<in> set (ctx_qp ctx)" "usiw_destroy_qp cmd ctx qp = Some (ret, ctx', freed, qp')"
| post_send: "life_step D N (ctx, U, qp) (ctx, U, qp')"
    if "qp_num qp \<in> set (ctx_qp ctx)" "usiw_post_send D qp wrs = Some (ret, bad, qp')"
| post_recv: "life_step D N (ctx, U, qp) (ctx, U, qp')"
    if "qp_num qp \<in> set (ctx_qp ctx)" "usiw_post_recv D qp rrs = Some (ret, bad_r, qp')"
| destroy_cq: "life_step D N (ctx, U, qp)
     (ctx, if cq_qp_count (cqs qp i) \<noteq> 0 then U else U - {i},
      (if freed then urdma_do_destroy_cq i else (\<lambda>qp. qp)) (qp\<lparr>cqs := (cqs qp)(i := cq)\<rparr>))"
    if "i \<in> U" "usiw_destroy_cq cmd (cqs qp i) = (ret, cq, freed)"
| connect: "life_step D N (ctx, U, qp) (ctx, U, qp\<lparr>shm_qp := qp_at d' p\<rparr>)"
    if "fst p < length (ports d)" "snd p < length (pt_qp (ports d ! fst p))" "qp_at d p = shm_qp qp"
      "do_setup_qp N ev p d = Some (ret, d')"

section \<open>Reference counts\<close>

definition held :: "usiw_context \<Rightarrow> 'r usiw_qp \<Rightarrow> bool" where
  "held ctx qp \<longleftrightarrow> qp_num qp \<in> set (ctx_qp ctx) \<or> qp_num qp \<in> set (ctx_qp_active ctx)"

text \<open>
  \<open>life_ok qp0 s\<close>: what holds of every state \<open>s\<close> that comes from the new queue pair \<open>qp0\<close>.
  \<open>c\<close> and \<open>k\<close> are the references to a completion queue that neither the application nor this
  queue pair holds.
\<close>

definition life_ok :: "'r usiw_qp \<Rightarrow> (nat \<Rightarrow> u32) \<Rightarrow> (nat \<Rightarrow> u64) \<Rightarrow> usiw_context \<times> nat set \<times> 'r usiw_qp \<Rightarrow> bool" where
  "life_ok qp0 c k s \<longleftrightarrow> (case s of (ctx, U, qp) \<Rightarrow>
     distinct (ctx_qp ctx) \<and> distinct (ctx_qp_active ctx) \<and> qp_num qp = qp_num qp0 \<and> qp_dev qp = qp_dev qp0 \<and>
     shm_qp_id (shm_qp qp) = shm_qp_id (shm_qp qp0) \<and> send_cq qp = send_cq qp0 \<and> recv_cq qp = recv_cq qp0 \<and>
     qp_refcnt qp = of_bool (qp_num qp \<in> set (ctx_qp ctx)) + of_bool (qp_num qp \<in> set (ctx_qp_active ctx)) \<and>
     io_sock (io qp) = io_sock (io qp0) @
       (if held ctx qp then [] else [Sock_destroy_qp (dev_portid (qp_dev qp0)) (shm_qp_id (shm_qp qp0))]) \<and>
     (\<forall>i. cq_refcnt (cqs qp i) = c i + of_bool (i \<in> U) + of_bool (held ctx qp \<and> (i = send_cq qp0 \<or> i = recv_cq qp0)) \<and>
          cq_qp_count (cqs qp i) = k i + of_bool (qp_num qp \<in> set (ctx_qp ctx) \<and> (i = send_cq qp0 \<or> i = recv_cq qp0)) \<and>
          (c i = 0 \<and> (i = send_cq qp0 \<or> i = recv_cq qp0) \<longrightarrow>
             count_list (io_cq_freed (io qp)) i = count_list (io_cq_freed (io qp0)) i + of_bool (i \<notin> U \<and> \<not> held ctx qp))))"

lemma lifeline_life_ok:
  assumes "lifeline qp' = lifeline qp" "life_ok qp0 c k (ctx, U, qp)"
  shows "life_ok qp0 c k (ctx\<lparr>qp_init_count := n\<rparr>, U, qp')"
proof -
  have "cq_refcnt (cqs qp' i) = cq_refcnt (cqs qp i)" "cq_qp_count (cqs qp' i) = cq_qp_count (cqs qp i)" for i
    using assms(1) by (auto simp: lifeline_def dest: fun_cong)
  with assms show ?thesis by (auto simp: life_ok_def lifeline_def held_def)
qed

lemma kept_life_ok: "kept qp qp' \<Longrightarrow> life_ok qp0 c k (ctx, U, qp) \<Longrightarrow> life_ok qp0 c k (ctx, U, qp')"
  using lifeline_life_ok [of qp' qp qp0 c k ctx U "qp_init_count ctx"] by (simp add: kept_def)

lemma start_qp_lifeline: "start_qp D junk n qp = Some (n', qp') \<Longrightarrow> lifeline qp' = lifeline qp"
  unfolding start_qp_def
  by (auto simp: Let_def split: if_splits Option.bind_splits option.splits)

lemma usiw_do_destroy_qp_fields [simp]:
  "qp_num (usiw_do_destroy_qp qp) = qp_num qp" "qp_dev (usiw_do_destroy_qp qp) = qp_dev qp"
  "shm_qp (usiw_do_destroy_qp qp) = shm_qp qp" "send_cq (usiw_do_destroy_qp qp) = send_cq qp"
  "recv_cq (usiw_do_destroy_qp qp) = recv_cq qp" "qp_refcnt (usiw_do_destroy_qp qp) = qp_refcnt qp"
  "io_sock (io (usiw_do_destroy_qp qp)) = io_sock (io qp) @ [Sock_destroy_qp (dev_portid (qp_dev qp)) (shm_qp_id (shm_qp qp))]"
  "cq_refcnt (cqs (usiw_do_destroy_qp qp) i) = cq_refcnt (cqs qp i) - of_bool (i = send_cq qp \<or> i = recv_cq qp)"
  "cq_qp_count (cqs (usiw_do_destroy_qp qp) i) = cq_qp_count (cqs qp i)"
  "count_list (io_cq_freed (io (usiw_do_destroy_qp qp))) i = count_list (io_cq_freed (io qp)) i +
     of_bool ((i = send_cq qp \<or> i = recv_cq qp) \<and> cq_refcnt (cqs qp i) = 1)"
  by (simp_all add: usiw_do_destroy_qp_def put_cq_def urdma_do_destroy_cq_def Let_def)

lemma life_ok_fields:
  assumes "life_ok qp0 c k (ctx, U, qp)"
  shows "distinct (ctx_qp ctx)" "distinct (ctx_qp_active ctx)" "qp_num qp = qp_num qp0" "qp_dev qp = qp_dev qp0"
    "shm_qp_id (shm_qp qp) = shm_qp_id (shm_qp qp0)" "send_cq qp = send_cq qp0" "recv_cq qp = recv_cq qp0"
    "qp_refcnt qp = of_bool (qp_num qp0 \<in> set (ctx_qp ctx)) + of_bool (qp_num qp0 \<in> set (ctx_qp_active ctx))"
    "io_sock (io qp) = io_sock (io qp0) @
       (if held ctx qp then [] else [Sock_destroy_qp (dev_portid (qp_dev qp0)) (shm_qp_id (shm_qp qp0))])"
    "cq_refcnt (cqs qp i) = c i + of_bool (i \<in> U) + of_bool (held ctx qp \<and> (i = send_cq qp0 \<or> i = recv_cq qp0))"
    "cq_qp_count (cqs qp i) = k i + of_bool (qp_num qp0 \<in> set (ctx_qp ctx) \<and> (i = send_cq qp0 \<or> i = recv_cq qp0))"
    "c i = 0 \<Longrightarrow> i = send_cq qp0 \<or> i = recv_cq qp0 \<Longrightarrow>
       count_list (io_cq_freed (io qp)) i = count_list (io_cq_freed (io qp0)) i + of_bool (i \<notin> U \<and> \<not> held ctx qp)"
  using assms by (simp_all add: life_ok_def)

lemma retire_qp_life_ok:
  assumes ok: "life_ok qp0 c k (ctx, U, qp)" and act: "qp_num qp \<in> set (ctx_qp_active ctx)" and "retire_qp qp = (stays, qp')"
  shows "\<not> stays \<and> life_ok qp0 c k (ctx\<lparr>qp_init_count := n, ctx_qp_active := remove1 (qp_num qp) (ctx_qp_active ctx)\<rparr>, U, qp')"
proof -
  note f = life_ok_fields [OF ok]
  have held: "held ctx qp" using act by (simp add: held_def)
  show ?thesis
  proof (cases "qp_num qp0 \<in> set (ctx_qp ctx)")
    case True
    then have "qp' = qp\<lparr>qp_refcnt := 1\<rparr> \<and> \<not> stays" using assms(3) act f(3,8) by (simp add: retire_qp_def Let_def)
    then show ?thesis using True f held by (simp add: life_ok_def held_def)
  next
    case False
    then have "qp' = usiw_do_destroy_qp (qp\<lparr>qp_refcnt := 0\<rparr>) \<and> \<not> stays" using assms(3) act f(3,8) by (simp add: retire_qp_def Let_def)
    then show ?thesis using False f held by (simp add: life_ok_def held_def)
  qed
qed

lemma kni_qp_step_life_ok:
  assumes "life_ok qp0 c k (ctx, U, qp)" "qp_num qp \<in> set (ctx_qp_active ctx)"
    and "kni_qp_step D junk (qp_init_count ctx) qp = Some (n, stays, qp')"
  shows "life_ok qp0 c k (ctx\<lparr>qp_init_count := n,
     ctx_qp_active := (if stays then ctx_qp_active ctx else remove1 (qp_num qp) (ctx_qp_active ctx))\<rparr>, U, qp')"
proof -
  have stay: ?thesis if "stays" "lifeline qp' = lifeline qp"
    using lifeline_life_ok [OF that(2) assms(1), of n] that(1) by simp
  have retire: ?thesis if "retire_qp qp1 = (stays, qp')" "kept qp qp1" for qp1
  proof -
    have "qp_num qp1 = qp_num qp" using that(2) by (simp add: kept_def lifeline_def)
    then show ?thesis using retire_qp_life_ok [OF kept_life_ok [OF that(2) assms(1)] _ that(1), of n] assms(2) by simp
  qed
  show ?thesis
  proof (cases "conn_state (shm_qp qp)")
    case usiw_qp_connected
    then obtain n1 qp1 where qp1: "start_qp D junk (qp_init_count ctx) qp = Some (n1, qp1)"
      and "stays" "qp' = qp1 \<or> progress_qp D qp1 = Some qp'"
      using assms(3) by (auto simp: kni_qp_step_def split: Option.bind_splits if_splits)
    then have "stays" "lifeline qp' = lifeline qp1" by (auto simp: kept_def dest!: progress_qp_kept)
    with start_qp_lifeline [OF qp1] show ?thesis by (intro stay) simp_all
  next
    case usiw_qp_running
    then have "stays" "kept qp qp'" using assms(3) by (auto simp: kni_qp_step_def dest!: progress_qp_kept)
    then show ?thesis by (intro stay) (simp_all add: kept_def)
  next
    case usiw_qp_shutdown
    then obtain qp1 where "qp_shutdown D qp = Some qp1" "retire_qp qp1 = (stays, qp')"
      using assms(3) by (auto simp: kni_qp_step_def)
    then show ?thesis by (intro retire qp_shutdown_kept)
  next
    case usiw_qp_error
    then have "retire_qp qp = (stays, qp')" using assms(3) by (simp add: kni_qp_step_def)
    then show ?thesis by (rule retire) simp
  next
    case usiw_qp_unbound
    then have "stays" "qp' = qp" using assms(3) by (simp_all add: kni_qp_step_def)
    then show ?thesis by (intro stay) simp_all
  qed
qed

lemma usiw_modify_qp_lifeline: "usiw_modify_qp cmd st qp = (r, qp') \<Longrightarrow> lifeline qp' = lifeline qp"
  by (auto simp: usiw_modify_qp_def split: if_splits option.splits)

lemma drop_cq_fields [simp]:
  "qp_num (drop_cq i qp) = qp_num qp" "qp_dev (drop_cq i qp) = qp_dev qp" "shm_qp (drop_cq i qp) = shm_qp qp"
  "send_cq (drop_cq i qp) = send_cq qp" "recv_cq (drop_cq i qp) = recv_cq qp" "qp_refcnt (drop_cq i qp) = qp_refcnt qp"
  "io (drop_cq i qp) = io qp" "cq_refcnt (cqs (drop_cq i qp) j) = cq_refcnt (cqs qp j)"
  "cq_qp_count (cqs (drop_cq i qp) j) = cq_qp_count (cqs qp j) - of_bool (j = i)"
  by (simp_all add: drop_cq_def)

lemma detach_qp_fields [simp]:
  "qp_num (detach_qp qp) = qp_num qp" "qp_dev (detach_qp qp) = qp_dev qp" "shm_qp_id (shm_qp (detach_qp qp)) = shm_qp_id (shm_qp qp)"
  "send_cq (detach_qp qp) = send_cq qp" "recv_cq (detach_qp qp) = recv_cq qp" "qp_refcnt (detach_qp qp) = qp_refcnt qp"
  "io (detach_qp qp) = io qp" "cq_refcnt (cqs (detach_qp qp) i) = cq_refcnt (cqs qp i)"
  "cq_qp_count (cqs (detach_qp qp) i) = cq_qp_count (cqs qp i) - of_bool (i = send_cq qp \<or> i = recv_cq qp)"
  "conn_state (shm_qp (detach_qp qp)) = (if conn_state (shm_qp qp) = usiw_qp_connected \<or> conn_state (shm_qp qp) = usiw_qp_running
     then usiw_qp_error else conn_state (shm_qp qp))"
  by (auto simp: detach_qp_def Let_def set_conn_state_def)

lemma usiw_destroy_qp_cases:
  assumes "usiw_destroy_qp cmd ctx qp = Some (r, ctx', f, qp')"
  obtains m where "ctx' = ctx\<lparr>qp_init_count := m, ctx_qp := remove1 (qp_num qp) (ctx_qp ctx)\<rparr>" "f = (qp_refcnt qp = 1)"
    "qp' = (if f then usiw_do_destroy_qp else (\<lambda>qp. qp))
       ((detach_qp (qp\<lparr>io := (io qp)\<lparr>io_kernel := io_kernel (io qp) @ [Destroy_qp]\<rparr>\<rparr>))\<lparr>qp_refcnt := qp_refcnt qp - 1\<rparr>)"
proof -
  have "\<exists>m. ctx' = ctx\<lparr>qp_init_count := m, ctx_qp := remove1 (qp_num qp) (ctx_qp ctx)\<rparr>"
    using assms by (auto simp: usiw_destroy_qp_def Let_def split: if_splits Option.bind_splits intro: exI [of _ "qp_init_count ctx"])
  moreover have "f = (qp_refcnt qp = 1)" "qp' = (if f then usiw_do_destroy_qp else (\<lambda>qp. qp))
       ((detach_qp (qp\<lparr>io := (io qp)\<lparr>io_kernel := io_kernel (io qp) @ [Destroy_qp]\<rparr>\<rparr>))\<lparr>qp_refcnt := qp_refcnt qp - 1\<rparr>)"
    using assms by (auto simp: usiw_destroy_qp_def Let_def split: if_splits Option.bind_splits)
  ultimately show thesis using that by blast
qed

lemma usiw_destroy_qp_life_ok:
  assumes ok: "life_ok qp0 c k (ctx, U, qp)" and user: "qp_num qp \<in> set (ctx_qp ctx)"
    and d: "usiw_destroy_qp cmd ctx qp = Some (r, ctx', f, qp')"
  shows "life_ok qp0 c k (ctx', U, qp')"
proof -
  note f = life_ok_fields [OF ok]
  obtain m where 1: "ctx' = ctx\<lparr>qp_init_count := m, ctx_qp := remove1 (qp_num qp) (ctx_qp ctx)\<rparr>" "f = (qp_refcnt qp = 1)"
    "qp' = (if f then usiw_do_destroy_qp else (\<lambda>qp. qp))
       ((detach_qp (qp\<lparr>io := (io qp)\<lparr>io_kernel := io_kernel (io qp) @ [Destroy_qp]\<rparr>\<rparr>))\<lparr>qp_refcnt := qp_refcnt qp - 1\<rparr>)"
    using d by (rule usiw_destroy_qp_cases)
  have held: "held ctx qp" using user by (simp add: held_def)
  show ?thesis
  proof (cases "qp_num qp0 \<in> set (ctx_qp_active ctx)")
    case True
    with user f(3,8) 1(2) have "\<not> f" by simp
    then show ?thesis using 1(1,3) f True held user by (simp add: life_ok_def held_def)
  next
    case False
    with user f(3,8) 1(2) have "f" by simp
    then show ?thesis using 1(1,3) f False held user by (simp add: life_ok_def held_def)
  qed
qed

lemma usiw_destroy_cq_life_ok:
  assumes ok: "life_ok qp0 c k (ctx, U, qp)" and i: "i \<in> U" and d: "usiw_destroy_cq cmd (cqs qp i) = (r, cq, f)"
  shows "life_ok qp0 c k (ctx, if cq_qp_count (cqs qp i) \<noteq> 0 then U else U - {i},
      (if f then urdma_do_destroy_cq i else (\<lambda>qp. qp)) (qp\<lparr>cqs := (cqs qp)(i := cq)\<rparr>))"
proof (cases "cq_qp_count (cqs qp i) = 0")
  case True
  note f = life_ok_fields [OF ok]
  have "cq = (cqs qp i)\<lparr>cq_refcnt := cq_refcnt (cqs qp i) - 1\<rparr>" "f = (cq_refcnt (cqs qp i) = 1)"
    using d True by (simp_all add: usiw_destroy_cq_def)
  moreover from this(2) have "c i = 0 \<and> (i = send_cq qp0 \<or> i = recv_cq qp0) \<longrightarrow> f = (\<not> held ctx qp)"
    using f(10) i by simp
  ultimately show ?thesis using True f i by (simp add: life_ok_def held_def urdma_do_destroy_cq_def) auto
next
  case False
  then have "cq = cqs qp i \<and> \<not> f" using d by (simp add: usiw_destroy_cq_def)
  then show ?thesis using False ok by simp
qed

lemma life_step_life_ok: "life_step D N s s' \<Longrightarrow> life_ok qp0 c k s \<Longrightarrow> life_ok qp0 c k s'"
proof (induction rule: life_step.induct)
  case (run qp ctx junk n stays qp' U)
  then show ?case by (blast intro: kni_qp_step_life_ok)
next
  case (modify qp ctx cmd state ret qp' U)
  then show ?case using lifeline_life_ok [OF usiw_modify_qp_lifeline, of cmd state qp ret qp' qp0 c k ctx U "qp_init_count ctx"] by simp
next
  case (destroy qp ctx cmd ret ctx' freed qp' U)
  then show ?case by (blast intro: usiw_destroy_qp_life_ok)
next
  case (connect p d qp ev ret d' ctx U)
  then show ?case using do_setup_qp_shm [OF connect(4,1,2)] by (simp add: life_ok_def held_def)
next
  case (destroy_cq i U cmd qp ret cq freed ctx)
  then show ?case by (intro usiw_destroy_cq_life_ok)
qed (blast intro: kept_life_ok usiw_post_kept)+

section \<open>Release\<close>

lemma hold_cq_fields:
  "cq_refcnt (hold_cq i cs j) = cq_refcnt (cs j) + of_bool (j = i)" "cq_qp_count (hold_cq i cs j) = cq_qp_count (cs j) + of_bool (j = i)"
  by (simp_all add: hold_cq_def)

lemma usiw_create_qp_result:
  assumes "usiw_create_qp D pd attr e w = Some (Inr qp, w')"
  obtains n where "vw_ctx w' = (vw_ctx w)\<lparr>qp_init_count := n, ctx_qp := ce_qp_num e # ctx_qp (vw_ctx w),
      ctx_qp_active := ctx_qp_active (vw_ctx w) @ [ce_qp_num e]\<rparr>"
    "qp_num qp = ce_qp_num e" "qp_refcnt qp = 2" "conn_state (shm_qp qp) = usiw_qp_unbound" "qp_dev qp = ctx_dev (vw_ctx w)"
    "send_cq qp = init_send_cq attr" "recv_cq qp = init_recv_cq attr" 
    "\<And>i. cq_refcnt (cqs qp i) = cq_refcnt (vw_cqs w i) + of_bool (i = init_send_cq attr \<or> i = init_recv_cq attr)"
    "\<And>i. cq_qp_count (cqs qp i) = cq_qp_count (vw_cqs w i) + of_bool (i = init_send_cq attr \<or> i = init_recv_cq attr)"
    "io_cq_freed (io qp) = io_cq_freed (vw_out w)"
proof -
  obtain cap shm w1 where "create_qp_queues D pd attr cap e shm w1 = Some (Inr qp, w')"
    and w1: "vw_ctx w1 = vw_ctx w" "vw_cqs w1 = vw_cqs w" "io_cq_freed (vw_out w1) = io_cq_freed (vw_out w)"
    using assms by (auto simp: usiw_create_qp_def Let_def split: Option.bind_splits sum.splits if_splits option.splits prod.splits)
  note q = this(1) [unfolded create_qp_queues_def Let_def]
  show thesis
    by (rule that; use q w1 in \<open>auto simp: zero_qp_def hold_cq_fields split: prod.splits if_splits Option.bind_splits\<close>)
qed


text \<open>
  C3. From its creation on, whatever the application, the progress thread and the daemon do with
  a queue pair and in whatever order, its reference count is the number of sides that can still
  use it. It is released, and the daemon is told so, exactly once, when the last side lets go. A
  completion queue counts the queue pair until then, so it is freed exactly once, when neither
  the application nor the queue pair holds it, and never while the queue pair is in use.
\<close>

theorem qp_released_exactly_once:
  assumes "usiw_create_qp D pd attr e w = Some (Inr qp0, w0)"
    and "ce_qp_num e \<notin> set (ctx_qp (vw_ctx w)) \<union> set (ctx_qp_active (vw_ctx w))"
    and "distinct (ctx_qp (vw_ctx w))" "distinct (ctx_qp_active (vw_ctx w))"
    and "cq_refcnt (vw_cqs w (init_send_cq attr)) = 1" "cq_refcnt (vw_cqs w (init_recv_cq attr)) = 1"
    and "io_cq_freed (vw_out w) = []"
    and "(life_step D N)\<^sup>*\<^sup>* (vw_ctx w0, {init_send_cq attr, init_recv_cq attr}, qp0) (ctx, U, qp)"
    and "app \<longleftrightarrow> ce_qp_num e \<in> set (ctx_qp ctx)" "thread \<longleftrightarrow> ce_qp_num e \<in> set (ctx_qp_active ctx)"
  shows "qp_refcnt qp = of_bool app + of_bool thread \<and>
    io_sock (io qp) = io_sock (io qp0) @
      (if app \<or> thread then [] else [Sock_destroy_qp (dev_portid (qp_dev qp0)) (shm_qp_id (shm_qp qp0))]) \<and>
    (\<forall>i. i = init_send_cq attr \<or> i = init_recv_cq attr \<longrightarrow>
       cq_refcnt (cqs qp i) = of_bool (i \<in> U) + of_bool (app \<or> thread) \<and>
       cq_qp_count (cqs qp i) = cq_qp_count (vw_cqs w i) + of_bool app \<and>
       count_list (io_cq_freed (io qp)) i = of_bool (i \<notin> U \<and> \<not> app \<and> \<not> thread))"
proof -
  let ?U = "{init_send_cq attr, init_recv_cq attr}"
  define c where "c i = cq_refcnt (vw_cqs w i) - of_bool (i \<in> ?U)" for i
  define k where "k i = cq_qp_count (vw_cqs w i)" for i
  obtain n where new: "vw_ctx w0 = (vw_ctx w)\<lparr>qp_init_count := n, ctx_qp := ce_qp_num e # ctx_qp (vw_ctx w),
      ctx_qp_active := ctx_qp_active (vw_ctx w) @ [ce_qp_num e]\<rparr>"
    "qp_num qp0 = ce_qp_num e" "qp_refcnt qp0 = 2" "send_cq qp0 = init_send_cq attr" "recv_cq qp0 = init_recv_cq attr" 
    "\<And>i. cq_refcnt (cqs qp0 i) = cq_refcnt (vw_cqs w i) + of_bool (i = init_send_cq attr \<or> i = init_recv_cq attr)"
    "\<And>i. cq_qp_count (cqs qp0 i) = cq_qp_count (vw_cqs w i) + of_bool (i = init_send_cq attr \<or> i = init_recv_cq attr)"
    "io_cq_freed (io qp0) = io_cq_freed (vw_out w)"
    using assms(1) by (rule usiw_create_qp_result) blast
  have "life_ok qp0 c k (vw_ctx w0, ?U, qp0)"
    using new assms(2-4) by (simp add: life_ok_def held_def c_def k_def)
  with assms(8) have ok: "life_ok qp0 c k (ctx, U, qp)"
    by (induction rule: rtranclp_induct) (auto intro: life_step_life_ok)
  note f = life_ok_fields [OF ok]
  have "cq_refcnt (cqs qp i) = of_bool (i \<in> U) + of_bool (app \<or> thread) \<and>
       cq_qp_count (cqs qp i) = cq_qp_count (vw_cqs w i) + of_bool app \<and>
       count_list (io_cq_freed (io qp)) i = of_bool (i \<notin> U \<and> \<not> app \<and> \<not> thread)"
    if i: "i = init_send_cq attr \<or> i = init_recv_cq attr" for i
    using f(3) f(10-12) [of i] i assms(5-7,9,10) new(2,4,5,8) by (auto simp: c_def k_def held_def)
  then show ?thesis using f(3,8,9) new(2) assms(9,10) by (simp add: held_def)
qed

lemma example_create:
  obtains qp w n where "usiw_create_qp example_env (qp_pd example_qp) example_attr example_answers example_world = Some (Inr qp, w)"
    "vw_ctx w = (vw_ctx example_world)\<lparr>qp_init_count := n, ctx_qp := [7], ctx_qp_active := [7]\<rparr>"
    "qp_num qp = 7" "qp_refcnt qp = 2" "conn_state (shm_qp qp) = usiw_qp_unbound"
proof -
  obtain qp w where qp: "usiw_create_qp example_env (qp_pd example_qp) example_attr example_answers example_world = Some (Inr qp, w)"
    using usiw_create_qp_total [OF example_env_ring_spec example_env_ring_init_spec example_attr_ok(4,1,2,3,3), of "qp_pd example_qp"] by blast
  from qp show thesis
    by (rule usiw_create_qp_result) (rule that [OF qp]; simp add: example_answers_def example_world_def)
qed

theorem qp_released_exactly_once_witness:
  "\<exists>qp0 w0 ctx qp. usiw_create_qp example_env (qp_pd example_qp) example_attr example_answers example_world = Some (Inr qp0, w0) \<and>
     (life_step example_env example_nic)\<^sup>*\<^sup>* (vw_ctx w0, {0}, qp0) (ctx, {0}, qp) \<and> qp_refcnt qp = 0 \<and>
     io_sock (io qp) = io_sock (io qp0) @ [Sock_destroy_qp (dev_portid (qp_dev qp0)) (shm_qp_id (shm_qp qp0))]"
proof -
  obtain qp0 w0 n where new: "usiw_create_qp example_env (qp_pd example_qp) example_attr example_answers example_world = Some (Inr qp0, w0)"
    "vw_ctx w0 = (vw_ctx example_world)\<lparr>qp_init_count := n, ctx_qp := [7], ctx_qp_active := [7]\<rparr>"
    "qp_num qp0 = 7" "qp_refcnt qp0 = 2" "conn_state (shm_qp qp0) = usiw_qp_unbound"
    using example_create .
  define qp1 where "qp1 = set_conn_state usiw_qp_error qp0"
  have 1: "life_step example_env example_nic (vw_ctx w0, {0}, qp0) (vw_ctx w0, {0}, qp1)"
    using new by (intro life_step.modify [of _ _ Ok "Some IBV_QPS_ERR" Ok]) (simp_all add: usiw_modify_qp_def qp1_def)
  define ctx2 where "ctx2 = (vw_ctx w0)\<lparr>qp_init_count := qp_init_count (vw_ctx w0), ctx_qp_active := []\<rparr>"
  define qp2 where "qp2 = qp1\<lparr>qp_refcnt := 1\<rparr>"
  have q1: "qp_num qp1 = 7" "qp_refcnt qp1 = 2" "conn_state (shm_qp qp1) = usiw_qp_error" using new by (simp_all add: qp1_def set_conn_state_def)
  have "kni_qp_step example_env (\<lambda>_. []) (qp_init_count (vw_ctx w0)) qp1 = Some (qp_init_count (vw_ctx w0), False, qp2)"
    using q1 by (simp add: kni_qp_step_def retire_qp_def qp2_def)
  from life_step.run [OF _ this, of example_nic "{0}"] have 2: "life_step example_env example_nic (vw_ctx w0, {0}, qp1) (ctx2, {0}, qp2)"
    using q1(1) by (simp add: ctx2_def new(2))
  have "\<exists>ctx3 qp3. usiw_destroy_qp Ok ctx2 qp2 = Some (Ok, ctx3, True, qp3) \<and> ctx_qp ctx3 = [] \<and> ctx_qp_active ctx3 = []"
    using q1 new(2) by (simp add: usiw_destroy_qp_def qp2_def ctx2_def)
  then obtain ctx3 qp3 where d: "usiw_destroy_qp Ok ctx2 qp2 = Some (Ok, ctx3, True, qp3)" "ctx_qp ctx3 = []" "ctx_qp_active ctx3 = []" by blast
  have "qp_num qp2 \<in> set (ctx_qp ctx2)" using q1 new(2) by (simp add: qp2_def ctx2_def)
  note 3 = life_step.destroy [OF this d(1), of example_env example_nic "{0}"]
  have run: "(life_step example_env example_nic)\<^sup>*\<^sup>* (vw_ctx w0, {0}, qp0) (ctx3, {0}, qp3)"
    using 1 2 3 by (blast intro: rtranclp.rtrancl_into_rtrancl)
  have at: "{init_send_cq example_attr, init_recv_cq example_attr} = {0}" by (simp add: example_attr_def)
  have "qp_refcnt qp3 = of_bool False + of_bool False \<and>
    io_sock (io qp3) = io_sock (io qp0) @ (if False \<or> False then [] else [Sock_destroy_qp (dev_portid (qp_dev qp0)) (shm_qp_id (shm_qp qp0))])"
    using qp_released_exactly_once [OF new(1), of example_nic ctx3 "{0}" qp3 False False] run d(2,3) unfolding at
    by (auto simp: example_world_def)
  with run new(1) show ?thesis by auto
qed

section \<open>Connection states\<close>

fun state_rank :: "urdma_qp_state \<Rightarrow> nat" where
  "state_rank usiw_qp_unbound = 0"
| "state_rank usiw_qp_connected = 1"
| "state_rank usiw_qp_running = 2"
| "state_rank usiw_qp_shutdown = 3"
| "state_rank usiw_qp_error = 4"

lemma state_rank_error [simp]: "state_rank s \<le> 4"
  by (cases s) simp_all

lemma kept_rank: "kept qp qp' \<Longrightarrow> state_rank (conn_state (shm_qp qp)) \<le> state_rank (conn_state (shm_qp qp'))"
  by (auto simp: kept_def)

lemma start_qp_rank:
  "start_qp D junk n qp = Some (n', qp') \<Longrightarrow> state_rank (conn_state (shm_qp qp)) \<le> state_rank (conn_state (shm_qp qp'))"
  unfolding start_qp_def
  by (auto simp: Let_def set_conn_state_def split: if_splits Option.bind_splits option.splits)

lemma retire_qp_rank: "conn_state (shm_qp (snd (retire_qp qp))) = conn_state (shm_qp qp)"
  by (simp add: retire_qp_def Let_def)

lemma kni_qp_step_rank:
  assumes "kni_qp_step D junk n qp = Some (n', b, qp')"
  shows "state_rank (conn_state (shm_qp qp)) \<le> state_rank (conn_state (shm_qp qp'))"
proof (cases "conn_state (shm_qp qp)")
  case usiw_qp_connected
  then obtain n1 qp1 where "start_qp D junk n qp = Some (n1, qp1)" "qp' = qp1 \<or> progress_qp D qp1 = Some qp'"
    using assms by (auto simp: kni_qp_step_def split: Option.bind_splits if_splits)
  then show ?thesis using start_qp_rank [of D junk n qp n1 qp1] kept_rank [OF progress_qp_kept, of D qp1 qp'] by auto
next
  case usiw_qp_running
  then show ?thesis using assms by (auto simp: kni_qp_step_def dest!: progress_qp_kept kept_rank)
next
  case usiw_qp_shutdown
  then obtain qp1 where "qp_shutdown D qp = Some qp1" "retire_qp qp1 = (b, qp')" using assms by (auto simp: kni_qp_step_def)
  then show ?thesis using retire_qp_rank [of qp1] kept_rank [OF qp_shutdown_kept, of D qp qp1] by simp
next
  case usiw_qp_error
  then show ?thesis using assms retire_qp_rank [of qp] by (auto simp: kni_qp_step_def)
qed simp

lemma usiw_destroy_qp_state:
  assumes "usiw_destroy_qp cmd ctx qp = Some (r, ctx', f, qp')"
  shows "conn_state (shm_qp qp') = (if conn_state (shm_qp qp) = usiw_qp_connected \<or> conn_state (shm_qp qp) = usiw_qp_running
     then usiw_qp_error else conn_state (shm_qp qp))"
  using assms by (rule usiw_destroy_qp_cases) simp

text \<open>
  C25. The connection state of a queue pair only moves forward, from unbound over connected,
  running and shutdown to error, whatever the application and the progress thread do. The one
  exception is the set-up of a connection by the daemon, which stores the connected state over
  any other.
\<close>

theorem conn_state_moves_forward:
  assumes "life_step D N (ctx, U, qp) (ctx', U', qp')"
  shows "state_rank (conn_state (shm_qp qp)) \<le> state_rank (conn_state (shm_qp qp')) \<or>
    conn_state (shm_qp qp') = usiw_qp_connected \<and> (\<exists>ev p d r d'. do_setup_qp N ev p d = Some (r, d') \<and> qp_at d p = shm_qp qp \<and> qp_at d' p = shm_qp qp')"
  using assms
proof cases
  case (run junk n stays)
  then show ?thesis using kni_qp_step_rank by blast
next
  case (modify cmd state ret)
  then show ?thesis
    by (cases "conn_state (shm_qp qp)") (auto simp: usiw_modify_qp_def set_conn_state_def split: if_splits option.splits)
next
  case (destroy cmd ret freed)
  then show ?thesis using usiw_destroy_qp_state [OF destroy(3)] by auto
next
  case (destroy_cq i cmd ret cq freed)
  then show ?thesis by (auto simp: urdma_do_destroy_cq_def)
next
  case (connect p d ev ret d')
  then have "conn_state (shm_qp qp') = conn_state (shm_qp qp) \<or> conn_state (shm_qp qp') = usiw_qp_connected" "shm_qp qp' = qp_at d' p"
    using do_setup_qp_shm(2) [OF connect(7,4,5)] by auto
  then show ?thesis using connect(6,7) by (metis order_refl)
qed (use kept_rank usiw_post_kept in blast)+

text \<open>
  C31. A queue pair that is destroyed before it was ever connected is never released: the
  application has let go of it, its reference count stays at one, and the progress thread keeps
  it on its list as it is in every round.
\<close>

theorem unbound_qp_never_released:
  assumes "usiw_destroy_qp cmd ctx qp = Some (ret, ctx', freed, qp')"
    and "conn_state (shm_qp qp) = usiw_qp_unbound" "qp_refcnt qp = 2"
  shows "\<not> freed \<and> qp_refcnt qp' = 1 \<and> ctx_qp ctx' = remove1 (qp_num qp) (ctx_qp ctx) \<and>
    io_sock (io qp') = io_sock (io qp) \<and> (\<forall>D junk n. kni_qp_step D junk n qp' = Some (n, True, qp'))"
  using assms(1)
proof (rule usiw_destroy_qp_cases)
  fix m
  assume "ctx' = ctx\<lparr>qp_init_count := m, ctx_qp := remove1 (qp_num qp) (ctx_qp ctx)\<rparr>" "freed = (qp_refcnt qp = 1)"
    "qp' = (if freed then usiw_do_destroy_qp else (\<lambda>qp. qp))
       ((detach_qp (qp\<lparr>io := (io qp)\<lparr>io_kernel := io_kernel (io qp) @ [Destroy_qp]\<rparr>\<rparr>))\<lparr>qp_refcnt := qp_refcnt qp - 1\<rparr>)"
  then show ?thesis using assms(2,3) by (simp add: kni_qp_step_def)
qed

theorem conn_state_moves_forward_witness:
  "\<exists>ctx qp qp'. life_step example_env example_nic (ctx, {0}, qp) (ctx, {0}, qp') \<and> conn_state (shm_qp qp) = usiw_qp_running \<and>
     conn_state (shm_qp qp') = usiw_qp_shutdown \<and> state_rank (conn_state (shm_qp qp)) \<le> state_rank (conn_state (shm_qp qp'))"
proof -
  let ?ctx = "(vw_ctx example_world)\<lparr>ctx_qp := [1]\<rparr>" and ?qp = "set_conn_state usiw_qp_shutdown example_qp"
  have st: "conn_state (shm_qp example_qp) = usiw_qp_running" "conn_state (shm_qp ?qp) = usiw_qp_shutdown"
    by (simp_all add: example_qp_def example_shm_def set_conn_state_def)
  have step: "life_step example_env example_nic (?ctx, {0}, example_qp) (?ctx, {0}, ?qp)"
    using st(1) by (intro life_step.modify [of _ _ Ok "Some IBV_QPS_SQD" Ok]) (simp_all add: usiw_modify_qp_def example_qp_def example_shm_def)
  from conn_state_moves_forward [OF step] have "state_rank (conn_state (shm_qp example_qp)) \<le> state_rank (conn_state (shm_qp ?qp))"
    unfolding st by simp
  with st step show ?thesis by blast
qed

theorem unbound_qp_never_released_witness:
  "\<exists>(qp :: (nat list \<times> nat) usiw_qp) ctx' qp'. usiw_destroy_qp Ok ((vw_ctx example_world)\<lparr>qp_init_count := 1\<rparr>) qp = Some (Ok, ctx', False, qp') \<and>
     (\<forall>D junk n. kni_qp_step D junk n qp' = Some (n, True, qp'))"
proof -
  let ?qp = "set_conn_state usiw_qp_unbound example_qp"
  have st: "conn_state (shm_qp ?qp) = usiw_qp_unbound" "qp_refcnt ?qp = 2" by (simp_all add: example_qp_def set_conn_state_def)
  obtain ctx' f qp' where d: "usiw_destroy_qp Ok ((vw_ctx example_world)\<lparr>qp_init_count := 1\<rparr>) ?qp = Some (Ok, ctx', f, qp')"
    using st by (auto simp: usiw_destroy_qp_def Let_def)
  from unbound_qp_never_released [OF d st] d show ?thesis by (intro exI [of _ ?qp] exI [of _ ctx'] exI [of _ qp']) simp
qed

end
