(* ===== verification/Urdmad_Correct.thy ===== *)
theory Urdmad_Correct
  imports Urdmad
begin

text \<open>
  What the daemon keeps: no handler loses or duplicates a queue pair, and every processor core
  is free or reserved by one process, with the counter of free cores equal to their number. The
  last part follows a process from its first message to its end.
\<close>

section \<open>Who holds a queue pair\<close>

definition all_qps :: "usiw_driver \<Rightarrow> qp_ptr list" where
  "all_qps d = concat (map avail_qp (ports d)) @ concat (map (owned_qps \<circ> snd) (processes d)) @ concat (orphans d)"

definition driver_ok :: "usiw_driver \<Rightarrow> bool" where
  "driver_ok d \<longleftrightarrow> distinct (all_qps d) \<and> distinct (map fst (processes d))"

lemma called_fields [simp]:
  "ports (called cs d) = ports d" "processes (called cs d) = processes d" "orphans (called cs d) = orphans d"
  "core_mask (called cs d) = core_mask d" "core_avail (called cs d) = core_avail d" "qp_at (called cs d) p = qp_at d p"
  "all_qps (called cs d) = all_qps d"
  by (simp_all add: called_def qp_at_def all_qps_def)

lemma mset_concat_remove1:
  assumes "distinct (concat xss)" "p \<in> set (concat xss)"
  shows "mset (concat (map (remove1 p) xss)) = mset (concat xss) - {#p#}"
  using assms
proof (induction xss)
  case (Cons xs xss)
  show ?case
  proof (cases "p \<in> set xs")
    case True
    then have "map (remove1 p) xss = xss" using Cons.prems(1) by (auto intro!: map_idI remove1_idem)
    with True show ?thesis by (simp add: )
  next
    case False
    then show ?thesis using Cons by (simp add: remove1_idem)
  qed
qed simp

lemma concat_map_remove1_idem: "p \<notin> set (concat xss) \<Longrightarrow> concat (map (remove1 p) xss) = concat xss"
  by (induction xss) (simp_all add: remove1_idem)

lemma all_qps_unlink:
  assumes "distinct (all_qps d)" "linked p d"
  shows "mset (all_qps (unlink p d)) = mset (all_qps d) - {#p#}" "p \<in> set (all_qps d)"
proof -
  let ?A = "map avail_qp (ports d)" and ?P = "map (owned_qps \<circ> snd) (processes d)" and ?O = "orphans d"
  have eq: "all_qps (unlink p d) = concat (map (remove1 p) (?A @ ?P @ ?O))"
    by (simp add: all_qps_def unlink_def comp_def case_prod_beta)
  have all: "all_qps d = concat (?A @ ?P @ ?O)" by (simp add: all_qps_def)
  have "p \<in> set (concat ?O)" if "ps \<in> set ?O" "p \<in> set (butlast (tl ps))" for ps
    using that by (auto dest: in_set_butlastD list.set_sel(2) [rotated]) (metis in_set_butlastD list.set_sel(2) tl_Nil)
  then show p: "p \<in> set (all_qps d)" using assms(2) unfolding linked_def all_qps_def by fastforce
  show "mset (all_qps (unlink p d)) = mset (all_qps d) - {#p#}"
    unfolding eq all using assms(1) p unfolding all by (rule mset_concat_remove1)
qed

lemma list_del_all:
  assumes "list_del p d = Some d'" "driver_ok d"
  shows "mset (all_qps d') = mset (all_qps d) - {#p#}" "p \<in> set (all_qps d)" "length (ports d') = length (ports d)"
    "map fst (processes d') = map fst (processes d)"
  using assms all_qps_unlink [of d p] by (auto simp: list_del_def driver_ok_def unlink_def comp_def case_prod_beta)

lemma all_qps_add_avail:
  assumes "i < length (ports d)"
  shows "mset (all_qps (upd_port i (\<lambda>pt. pt\<lparr>avail_qp := avail_qp pt @ [p]\<rparr>) d)) = add_mset p (mset (all_qps d))"
proof -
  have "ports d = take i (ports d) @ ports d ! i # drop (Suc i) (ports d)" using assms by (simp add: id_take_nth_drop)
  then show ?thesis using assms
    by (simp add: all_qps_def upd_port_def upd_conv_take_nth_drop)
      (metis (no_types, lifting) concat.simps(2) concat_append list.simps(9) map_append mset_append union_assoc)
qed

lemma all_qps_add_owned:
  assumes "fd \<in> set (map fst (processes d))" "distinct (map fst (processes d))"
  shows "mset (all_qps (upd_process fd (\<lambda>pr. pr\<lparr>owned_qps := owned_qps pr @ [p]\<rparr>) d)) = add_mset p (mset (all_qps d))"
proof -
  have "mset (concat (map (owned_qps \<circ> snd) (map (\<lambda>(k, pr). (k, if k = fd then pr\<lparr>owned_qps := owned_qps pr @ [p]\<rparr> else pr)) ps)))
      = (if fd \<in> set (map fst ps) then add_mset p else id) (mset (concat (map (owned_qps \<circ> snd) ps)))"
    if "distinct (map fst ps)" for ps :: "(nat \<times> urdma_process) list"
    using that by (induction ps) (auto split: prod.splits intro: rev_image_eqI)
  from this [OF assms(2)] show ?thesis using assms(1) by (simp add: all_qps_def upd_process_def)
qed

lemma drain_queue_fields:
  assumes "drain_queue N d = Some d'"
  shows "ports d' = ports d \<and> processes d' = processes d \<and> orphans d' = orphans d \<and> core_mask d' = core_mask d \<and> core_avail d' = core_avail d"
  using assms
proof (induction rule: drain_queue.raw_induct [rotated 1, consumes 1])
  case (1 loop N d d')
  then show ?case by (auto split: if_splits)
qed

lemma all_qps_cong: "ports d' = ports d \<Longrightarrow> processes d' = processes d \<Longrightarrow> orphans d' = orphans d \<Longrightarrow> all_qps d' = all_qps d"
  by (simp add: all_qps_def)

lemma delete_filter_fields:
  assumes "delete_filter N dev qp d = (b, d')"
  shows "ports d' = ports d" "processes d' = processes d" "orphans d' = orphans d" "core_mask d' = core_mask d" "core_avail d' = core_avail d"
  using assms by (auto simp: delete_filter_def Let_def split: if_splits)

text \<open>What returning a queue pair does to the lists.\<close>

lemma return_qp_lists:
  assumes "return_qp N i p d = Some d'"
  obtains d1 where "i < length (ports d)" "list_del p d = Some d1"
    "ports d' = ports (upd_port i (\<lambda>pt. pt\<lparr>avail_qp := avail_qp pt @ [p]\<rparr>) d1)" "processes d' = processes d1" "orphans d' = orphans d1"
    "core_mask d' = core_mask d1" "core_avail d' = core_avail d1"
proof -
  obtain d1 where d1: "i < length (ports d)" "list_del p d = Some d1" using assms by (auto simp: return_qp_def split: Option.bind_splits)
  let ?d2 = "upd_port i (\<lambda>pt. pt\<lparr>avail_qp := avail_qp pt @ [p]\<rparr>) d1"
  obtain b d3 where f: "delete_filter N (ports ?d2 ! i) (qp_at ?d2 p) ?d2 = (b, d3)" by (meson surj_pair)
  have "d' = d3 \<or> (\<exists>d4 c1 c2. drain_queue N d3 = Some d4 \<and> d' = called c1 (called c2 d4))"
    using assms d1 f by (auto simp: return_qp_def Let_def split: Option.bind_splits if_splits)
  then show thesis
    using that [OF d1] delete_filter_fields [OF f] by (auto simp: upd_port_def dest!: drain_queue_fields)
qed

lemma list_del_ok: "list_del p d = Some d' \<Longrightarrow> driver_ok d \<Longrightarrow> driver_ok d'"
  using list_del_all [of p d d'] by (auto simp: driver_ok_def) (metis distinct_remove1 mset_eq_imp_distinct_iff mset_remove1)

lemma return_qp_all:
  assumes "return_qp N i p d = Some d'" "driver_ok d"
  shows "mset (all_qps d') = mset (all_qps d) \<and> map fst (processes d') = map fst (processes d) \<and> length (ports d') = length (ports d)"
proof -
  obtain d1 where d1: "i < length (ports d)" "list_del p d = Some d1"
    "ports d' = ports (upd_port i (\<lambda>pt. pt\<lparr>avail_qp := avail_qp pt @ [p]\<rparr>) d1)" "processes d' = processes d1" "orphans d' = orphans d1"
    using assms(1) by (rule return_qp_lists)
  note l = list_del_all [OF d1(2) assms(2)]
  have "all_qps d' = all_qps (upd_port i (\<lambda>pt. pt\<lparr>avail_qp := avail_qp pt @ [p]\<rparr>) d1)"
    using d1(3-5) by (intro all_qps_cong) (simp_all add: upd_port_def)
  then show ?thesis using all_qps_add_avail [of i d1 p] d1 l by (simp add: upd_port_def)
qed

lemma driver_ok_mset: "mset (all_qps d') = mset (all_qps d) \<Longrightarrow> map fst (processes d') = map fst (processes d) \<Longrightarrow> driver_ok d' = driver_ok d"
  unfolding driver_ok_def by (metis mset_eq_imp_distinct_iff)

lemma return_qps_all:
  assumes "for_each (\<lambda>p d. return_qp N (f d p) p d) ps d = Some d'" "driver_ok d"
  shows "mset (all_qps d') = mset (all_qps d) \<and> map fst (processes d') = map fst (processes d) \<and> length (ports d') = length (ports d)"
proof (rule for_each_invariant [OF assms(1)])
  fix p e e'
  assume e: "mset (all_qps e) = mset (all_qps d) \<and> map fst (processes e) = map fst (processes d) \<and> length (ports e) = length (ports d)"
    and r: "return_qp N (f e p) p e = Some e'"
  then have "driver_ok e" using driver_ok_mset [of e d] assms(2) by simp
  from return_qp_all [OF r this] e
  show "mset (all_qps e') = mset (all_qps d) \<and> map fst (processes e') = map fst (processes d) \<and> length (ports e') = length (ports d)"
    by simp
qed simp

lemma free_process_all: "mset (all_qps (free_process fd d)) = mset (all_qps d)"
proof -
  have "mset (concat (map (owned_qps \<circ> snd) (filter (\<lambda>(k, _). k \<noteq> fd) ps))) +
      mset (concat (map (owned_qps \<circ> snd) (filter (\<lambda>(k, pr). k = fd \<and> owned_qps pr \<noteq> []) ps))) = mset (concat (map (owned_qps \<circ> snd) ps))" for ps
    by (induction ps) (auto split: prod.splits simp: ac_simps)
  note e = this [of "processes d"]
  show ?thesis unfolding all_qps_def free_process_def using e by (simp add: ac_simps)
qed

lemma free_process_ok: "driver_ok d \<Longrightarrow> driver_ok (free_process fd d)"
proof -
  assume d: "driver_ok d"
  then have "distinct (all_qps (free_process fd d))"
    using mset_eq_imp_distinct_iff [OF free_process_all] by (simp add: driver_ok_def)
  moreover have "distinct (map fst (processes (free_process fd d)))"
    using d by (simp add: driver_ok_def free_process_def distinct_map_filter)
  ultimately show ?thesis by (simp add: driver_ok_def)
qed

lemma return_lcores_fields:
  assumes "return_lcores N m d = Some d'"
  shows "ports d' = ports d \<and> processes d' = processes d \<and> orphans d' = orphans d"
  using assms by (auto simp: return_lcores_def Let_def split: Option.bind_splits prod.splits)

lemma reserve_cores_fields:
  assumes "reserve_cores N c m d = Some (ok, m', d')"
  shows "ports d' = ports d \<and> processes d' = processes d \<and> orphans d' = orphans d"
  using assms by (auto simp: reserve_cores_def Let_def split: Option.bind_splits prod.splits if_splits)

section \<open>The sets of cores\<close>

definition cores :: "u32 list \<Rightarrow> (nat \<times> nat) set" where
  "cores m = {(j, k). j < length m \<and> bit (m ! j) k}"

text \<open>What \<^verbatim>\<open>rte_bsf32\<close> promises: the position of the lowest bit that is set.\<close>

definition bsf_spec :: "nic \<Rightarrow> bool" where
  "bsf_spec N \<longleftrightarrow> (\<forall>w. w \<noteq> 0 \<longrightarrow> bit w (rte_bsf32 N w) \<and> (\<forall>k < rte_bsf32 N w. \<not> bit w k))"

lemma bit_u32_less: "bit (w :: u32) k \<Longrightarrow> k < 32"
  using bit_imp_le_length [of w k] by simp

lemma bit_single: "k < 32 \<Longrightarrow> bit (2 ^ k :: u32) n \<longleftrightarrow> n = k"
  by (auto simp: bit_exp_iff possible_bit_def)

lemma bit_cleared: "k < 32 \<Longrightarrow> bit (w AND NOT (2 ^ k) :: u32) n \<longleftrightarrow> bit w n \<and> n \<noteq> k"
  by (auto simp: bit_and_iff bit_not_iff bit_single dest: bit_imp_possible_bit)

lemma cores_finite [simp]: "finite (cores m)"
  by (rule finite_subset [of _ "{..<length m} \<times> {..<32}"]) (auto simp: cores_def dest: bit_u32_less)

lemma cores_clear: "j < length m \<Longrightarrow> k < 32 \<Longrightarrow> cores (m[j := m ! j AND NOT (2 ^ k)]) = cores m - {(j, k)}"
  by (auto simp: cores_def nth_list_update bit_cleared split: if_splits)

lemma cores_set: "j < length m \<Longrightarrow> k < 32 \<Longrightarrow> cores (m[j := m ! j OR 2 ^ k]) = insert (j, k) (cores m)"
  by (auto simp: cores_def nth_list_update bit_or_iff bit_single split: if_splits)

lemma next_mask_Some: "next_mask m j = Some i \<Longrightarrow> j \<le> i \<and> i < length m \<and> m ! i \<noteq> 0"
proof (induction m j rule: next_mask.induct)
  case (1 m j)
  then show ?case using next_mask.simps [of m j] by (auto split: if_splits)
qed

lemma next_mask_zeros: "next_mask m j = r \<Longrightarrow> j \<le> n \<Longrightarrow> n < (case r of None \<Rightarrow> length m | Some i \<Rightarrow> i) \<Longrightarrow> m ! n = 0"
proof (induction m j rule: next_mask.induct)
  case (1 m j)
  show ?case
  proof (cases "j < length m \<and> m ! j = 0")
    case True
    then have "next_mask m (Suc j) = r" using 1(2) by (simp add: next_mask.simps [of m j])
    then show ?thesis using True 1 by (cases "n = j") auto
  next
    case False
    then show ?thesis using 1(2-4) by (auto simp: next_mask.simps [of m j] split: if_splits)
  qed
qed

lemma bsf_bit: "bsf_spec N \<Longrightarrow> w \<noteq> 0 \<Longrightarrow> bit w (rte_bsf32 N w) \<and> rte_bsf32 N w < 32"
  unfolding bsf_spec_def using bit_u32_less by blast

text \<open>With enough cores in the masks the loop finds one in every round.\<close>

lemma reserve_loop_takes:
  assumes "bsf_spec N" "length out = length m" "\<forall>i < j. i < length m \<longrightarrow> m ! i = 0" "n \<le> card (cores m)"
  shows "\<exists>m' out' S. reserve_loop N n j m out = Some (m', out') \<and> S \<subseteq> cores m \<and> card S = n \<and>
    cores m' = cores m - S \<and> cores out' = cores out \<union> S \<and> length m' = length m \<and> length out' = length m"
  using assms
proof (induction n arbitrary: j m out)
  case (Suc n)
  have "\<exists>i. next_mask m j = Some i"
  proof (rule ccontr)
    assume "\<nexists>i. next_mask m j = Some i"
    then have "m ! i = 0" if "i < length m" for i
      using next_mask_zeros [OF refl, of j i m] that Suc.prems(3) by (cases "i < j") auto
    then have "cores m = {}" by (auto simp: cores_def)
    then show False using Suc.prems(4) by simp
  qed
  then obtain i where i: "next_mask m j = Some i" "i < length m" "m ! i \<noteq> 0" using next_mask_Some by blast
  define k where "k = rte_bsf32 N (m ! i)"
  have k: "bit (m ! i) k" "k < 32" using bsf_bit [OF Suc.prems(1) i(3)] by (auto simp: k_def)
  then have mem: "(i, k) \<in> cores m" using i by (simp add: cores_def)
  let ?m = "m[i := m ! i AND NOT (2 ^ k)]" and ?o = "out[i := out ! i OR 2 ^ k]"
  have zero: "\<forall>h < i. h < length ?m \<longrightarrow> ?m ! h = 0"
    using next_mask_zeros [OF i(1), of _] Suc.prems(3) by (metis length_list_update linorder_not_le nat_neq_iff nth_list_update_neq option.simps(5))
  have c: "cores ?m = cores m - {(i, k)}" "cores ?o = insert (i, k) (cores out)"
    using cores_clear [OF i(2) k(2)] cores_set [of i out k] i(2) k(2) Suc.prems(2) by simp_all
  moreover have "n \<le> card (cores ?m)" using Suc.prems(4) mem c(1) by simp
  ultimately obtain m' out' S where r: "reserve_loop N n i ?m ?o = Some (m', out')" "S \<subseteq> cores ?m" "card S = n"
      "cores m' = cores ?m - S" "cores out' = cores ?o \<union> S" "length m' = length m" "length out' = length m"
    using Suc.IH [OF Suc.prems(1) _ zero, of ?o] Suc.prems(2) by auto
  have "finite S" using r(2) cores_finite finite_subset by blast
  then have "card (insert (i, k) S) = Suc n" using r(2,3) c(1) by (subst card_insert_disjoint) auto
  then show ?case using r c mem i by (auto simp: k_def [symmetric] intro!: exI [of _ "insert (i, k) S"])
qed auto

lemma return_word_adds:
  assumes "bsf_spec N"
  shows "return_word N tmp avail w = Some (avail + of_nat (card {k. bit tmp k}), w OR tmp)"
proof (induction "card {k. bit tmp k}" arbitrary: tmp avail w)
  case 0
  have "finite {k. bit tmp k}" by (rule finite_subset [of _ "{..<32}"]) (auto dest: bit_u32_less)
  then have "{k. bit tmp k} = {}" using 0 by simp
  then have "tmp = 0" by (intro bit_word_eqI) auto
  then show ?case by (simp add: return_word.simps)
next
  case (Suc n)
  have "tmp \<noteq> 0" using Suc.hyps(2) by (auto simp: bot_fun_def)
  define k where "k = rte_bsf32 N tmp"
  have k: "bit tmp k" "k < 32" using bsf_bit [OF assms \<open>tmp \<noteq> 0\<close>] by (auto simp: k_def)
  have s: "{n. bit (tmp AND NOT (2 ^ k)) n} = {n. bit tmp n} - {k}" using bit_cleared [OF k(2)] by auto
  have "finite {k. bit tmp k}" by (rule finite_subset [of _ "{..<32}"]) (auto dest: bit_u32_less)
  then have card: "card {n. bit tmp n} = Suc (card {n. bit (tmp AND NOT (2 ^ k)) n})"
    unfolding s using k(1) by (metis card_Suc_Diff1 mem_Collect_eq)
  have w: "(w OR 2 ^ k) OR (tmp AND NOT (2 ^ k)) = w OR tmp"
    using k(1) by (intro bit_word_eqI) (auto simp: bit_or_iff bit_cleared [OF k(2)] bit_single [OF k(2)])
  show ?case
    using Suc.hyps(1) [of "tmp AND NOT (2 ^ k)" "avail + 1" "w OR 2 ^ k"] Suc.hyps(2) \<open>tmp \<noteq> 0\<close> card w
    by (subst return_word.simps) (simp add: k_def [symmetric] Let_def)
qed

lemma cores_Cons: "cores (w # m) = Pair 0 ` {k. bit w k} \<union> (\<lambda>(j, k). (Suc j, k)) ` cores m"
  by (auto simp: cores_def image_iff less_Suc_eq_0_disj nth_Cons split: nat.splits)

lemma card_cores_Cons: "card (cores (w # m)) = card {k. bit w k} + card (cores m)"
proof -
  have "finite {k. bit w k}" by (rule finite_subset [of _ "{..<32}"]) (auto dest: bit_u32_less)
  then show ?thesis unfolding cores_Cons
    by (subst card_Un_disjoint) (auto simp: card_image inj_on_def intro!: card_image)
qed

lemma return_words_adds:
  assumes "bsf_spec N" "length ms = length m"
  shows "\<exists>m'. return_words N ms avail m = Some (avail + of_nat (card (cores ms)), m') \<and> cores m' = cores m \<union> cores ms \<and> length m' = length m"
  using assms(2)
proof (induction ms m arbitrary: avail rule: list_induct2)
  case (Cons t ts w ws)
  obtain m' where "return_words N ts (avail + of_nat (card {k. bit t k})) ws = Some (avail + of_nat (card {k. bit t k}) + of_nat (card (cores ts)), m')"
      "cores m' = cores ws \<union> cores ts" "length m' = length ws" using Cons.IH by blast
  moreover have "cores ((w OR t) # m') = cores (w # ws) \<union> cores (t # ts)"
    unfolding cores_Cons calculation(2) by (auto simp: bit_or_iff)
  ultimately show ?case by (simp add: return_word_adds [OF assms(1)] card_cores_Cons add.assoc)
qed (simp add: cores_def)

section \<open>The steps of the daemon\<close>

text \<open>
  The event loop calls one handler for each descriptor that is ready. A new socket has a number
  that no open socket has.
\<close>

inductive daemon_step :: "nic \<Rightarrow> usiw_driver \<Rightarrow> usiw_driver \<Rightarrow> bool" for N where
  message: "process_data_ready N fd msg d = Some d' \<Longrightarrow> daemon_step N d d'"
| accept: "fd = None \<or> the fd \<notin> fst ` set (processes d) \<Longrightarrow>
    listen_data_ready mok fd eok (length (core_mask d)) d = Some d' \<Longrightarrow> daemon_step N d d'"
| event: "chardev_data_ready N n ev d = Some d' \<Longrightarrow> daemon_step N d d'"

definition pmasks :: "usiw_driver \<Rightarrow> (nat \<times> u32 list) list" where
  "pmasks d = map (\<lambda>(k, pr). (k, pr_core_mask pr)) (processes d)"

text \<open>
  Every core is free or reserved by one process, and the counter is the number of free ones.
\<close>

definition cores_ok :: "u32 list \<Rightarrow> u32 \<Rightarrow> (nat \<times> u32 list) list \<Rightarrow> bool" where
  "cores_ok m avail ps \<longleftrightarrow> 32 * length m < 2 ^ 32 \<and> unat avail = card (cores m) \<and> distinct (map fst ps) \<and>
     (\<forall>fd pm. (fd, pm) \<in> set ps \<longrightarrow> length pm = length m \<and> cores pm \<inter> cores m = {}) \<and>
     (\<forall>fd pm fd' pm'. (fd, pm) \<in> set ps \<longrightarrow> (fd', pm') \<in> set ps \<longrightarrow> fd \<noteq> fd' \<longrightarrow> cores pm \<inter> cores pm' = {})"

definition cores_held :: "u32 list \<Rightarrow> (nat \<times> u32 list) list \<Rightarrow> (nat \<times> nat) set" where
  "cores_held m ps = cores m \<union> {c. \<exists>fd pm. (fd, pm) \<in> set ps \<and> c \<in> cores pm}"

lemma cores_okI:
  assumes "32 * length m < 2 ^ 32" "unat avail = card (cores m)" "distinct (map fst ps)"
    "\<And>fd pm. (fd, pm) \<in> set ps \<Longrightarrow> length pm = length m" "\<And>fd pm. (fd, pm) \<in> set ps \<Longrightarrow> cores pm \<inter> cores m = {}"
    "\<And>fd pm fd' pm'. (fd, pm) \<in> set ps \<Longrightarrow> (fd', pm') \<in> set ps \<Longrightarrow> fd \<noteq> fd' \<Longrightarrow> cores pm \<inter> cores pm' = {}"
  shows "cores_ok m avail ps"
  using assms unfolding cores_ok_def by blast

lemma cores_okD:
  assumes "cores_ok m avail ps"
  shows "32 * length m < 2 ^ 32" "unat avail = card (cores m)" "distinct (map fst ps)"
    "(fd, pm) \<in> set ps \<Longrightarrow> length pm = length m" "(fd, pm) \<in> set ps \<Longrightarrow> cores pm \<inter> cores m = {}"
    "(fd, pm) \<in> set ps \<Longrightarrow> (fd', pm') \<in> set ps \<Longrightarrow> fd \<noteq> fd' \<Longrightarrow> cores pm \<inter> cores pm' = {}"
  using assms unfolding cores_ok_def by blast+

definition others :: "nat \<Rightarrow> (nat \<times> u32 list) list \<Rightarrow> (nat \<times> nat) set" where
  "others fd ps = {c. \<exists>k pm. (k, pm) \<in> set ps \<and> k \<noteq> fd \<and> c \<in> cores pm}"

lemma cores_held_split:
  assumes "(fd, pm) \<in> set ps" "distinct (map fst ps)"
  shows "cores_held m ps = cores m \<union> cores pm \<union> others fd ps"
proof -
  have "x = pm" if "(fd, x) \<in> set ps" for x using assms that by (metis eq_key_imp_eq_value)
  then show ?thesis using assms(1) unfolding cores_held_def others_def by blast
qed

lemma set_mask_upd:
  assumes "fd \<in> fst ` set ps"
  shows "(k, x) \<in> set (map (\<lambda>(k, pm). (k, if k = fd then out else pm)) ps) \<longleftrightarrow> (if k = fd then x = out else (k, x) \<in> set ps)"
proof (cases "k = fd")
  case True
  then show ?thesis using assms by (auto simp: image_iff split: prod.splits intro!: bexI)
next
  case False
  then show ?thesis by (auto simp: image_iff intro!: bexI [of _ "(k, x)"])
qed

lemma card_cores_le: "card (cores m) \<le> 32 * length m"
proof -
  have "card (cores m) \<le> card ({..<length m} \<times> {..<32::nat})"
    by (rule card_mono) (auto simp: cores_def dest: bit_u32_less)
  then show ?thesis by simp
qed

lemma reserve_cores_ok:
  assumes "cores_ok m avail ps" "map_of ps fd = Some out" "bsf_spec N" "cnt \<le> avail"
  shows "\<exists>m' out'. reserve_loop N (unat cnt) 0 m out = Some (m', out') \<and>
    cores_ok m' (avail - cnt) (map (\<lambda>(k, pm). (k, if k = fd then out' else pm)) ps) \<and>
    cores_held m' (map (\<lambda>(k, pm). (k, if k = fd then out' else pm)) ps) = cores_held m ps \<and>
    card (cores out') = card (cores out) + unat cnt \<and>
    length m' = length m \<and> length out' = length m \<and> cores m' \<union> cores out' = cores m \<union> cores out"
proof -
  let ?ps = "\<lambda>out'. map (\<lambda>(k, pm). (k, if k = fd then out' else pm)) ps"
  note ok = cores_okD [OF assms(1)]
  have fd: "(fd, out) \<in> set ps" using assms(2) by (rule map_of_SomeD)
  then have fd': "fd \<in> fst ` set ps" by force
  note out = ok(4,5) [OF fd]
  have "unat cnt \<le> card (cores m)" using ok(2) assms(4) by (simp add: word_le_nat_alt)
  from reserve_loop_takes [OF assms(3) out(1) _ this, of 0]
  obtain m' out' S where r: "reserve_loop N (unat cnt) 0 m out = Some (m', out')" "S \<subseteq> cores m" "card S = unat cnt"
      "cores m' = cores m - S" "cores out' = cores out \<union> S" "length m' = length m" "length out' = length m" by auto
  note mem = set_mask_upd [OF fd', of _ _ out']
  have fin: "finite S" using r(2) cores_finite finite_subset by blast
  have fsts: "map fst (?ps out') = map fst ps" by (simp add: comp_def case_prod_beta)
  have dis: "cores pm \<inter> cores out' = {}" if "(k, pm) \<in> set ps" "k \<noteq> fd" for k pm
    using ok(5) [OF that(1)] ok(6) [OF that(1) fd that(2)] r(2,5) by blast
  have "cores_ok m' (avail - cnt) (?ps out')"
  proof (rule cores_okI)
    show "unat (avail - cnt) = card (cores m')" using ok(2) assms(4) r(2-4) fin by (simp add: unat_sub card_Diff_subset)
    show "cores pm \<inter> cores m' = {}" if "(k, pm) \<in> set (?ps out')" for k pm
      using that ok(5) [of k pm] r(4,5) out(2) unfolding mem by (cases "k = fd") auto
    show "cores pm \<inter> cores pm' = {}" if "(k, pm) \<in> set (?ps out')" "(k', pm') \<in> set (?ps out')" "k \<noteq> k'" for k pm k' pm'
      using that ok(6) [of k pm k' pm'] dis [of k pm] dis [of k' pm'] unfolding mem by (cases "k = fd"; cases "k' = fd") auto
    show "distinct (map fst (?ps out'))" unfolding fsts by (rule ok(3))
  qed (use ok(1,4) r(6,7) mem in \<open>auto split: if_splits\<close>)
  moreover have "cores_held m' (?ps out') = cores_held m ps"
  proof -
    have "(fd, out') \<in> set (?ps out')" unfolding mem by simp
    moreover have "others fd (?ps out') = others fd ps" unfolding others_def mem by auto
    ultimately have "cores_held m' (?ps out') = cores m' \<union> cores out' \<union> others fd ps"
      using cores_held_split [of fd out' "?ps out'" m'] unfolding fsts using ok(3) by metis
    then show ?thesis unfolding cores_held_split [OF fd ok(3), of m] r(4,5) using r(2) by blast
  qed
  moreover have "card (cores out') = card (cores out) + unat cnt"
    unfolding r(5) r(3) [symmetric] using fin out(2) r(2) by (intro card_Un_disjoint) auto
  moreover have "cores m' \<union> cores out' = cores m \<union> cores out" using r(2,4,5) by blast
  ultimately show ?thesis using r(1,6,7) by blast
qed

lemma drop_process_cores:
  assumes "cores_ok m avail ps"
  shows "cores_ok m avail (filter (\<lambda>(k, _). k \<noteq> fd) ps)" "cores_held m (filter (\<lambda>(k, _). k \<noteq> fd) ps) = cores m \<union> others fd ps"
    "cores m \<union> others fd ps \<subseteq> cores_held m ps"
proof -
  show "cores_ok m avail (filter (\<lambda>(k, _). k \<noteq> fd) ps)"
  proof (rule cores_okI)
    show "cores pm \<inter> cores m = {}" if "(k, pm) \<in> set (filter (\<lambda>(k, _). k \<noteq> fd) ps)" for k pm
      using that cores_okD(5) [OF assms] by simp blast
    show "cores pm \<inter> cores pm' = {}" if "(k, pm) \<in> set (filter (\<lambda>(k, _). k \<noteq> fd) ps)"
      "(k', pm') \<in> set (filter (\<lambda>(k, _). k \<noteq> fd) ps)" "k \<noteq> k'" for k pm k' pm'
      using that cores_okD(6) [OF assms] by simp blast
  qed (use cores_okD(1-4) [OF assms] in \<open>auto simp: distinct_map_filter\<close>)
qed (auto simp: cores_held_def others_def)

lemma return_cores_ok:
  assumes "cores_ok m avail ps" "map_of ps fd = Some pm" "bsf_spec N"
  shows "\<exists>m' avail'. return_words N pm avail m = Some (avail', m') \<and>
    cores_ok m' avail' (filter (\<lambda>(k, _). k \<noteq> fd) ps) \<and> cores_held m' (filter (\<lambda>(k, _). k \<noteq> fd) ps) = cores_held m ps \<and>
    cores m' = cores m \<union> cores pm \<and> length m' = length m"
proof -
  let ?ps = "filter (\<lambda>(k, _). k \<noteq> fd) ps"
  note ok = cores_okD [OF assms(1)]
  have fd: "(fd, pm) \<in> set ps" using assms(2) by (rule map_of_SomeD)
  note pm = ok(4,5) [OF fd]
  from return_words_adds [OF assms(3) pm(1)] obtain m' where
    r: "return_words N pm avail m = Some (avail + of_nat (card (cores pm)), m')" "cores m' = cores m \<union> cores pm" "length m' = length m" by blast
  have card: "card (cores m') = card (cores m) + card (cores pm)" unfolding r(2) using pm(2) by (intro card_Un_disjoint) auto
  then have "unat avail + card (cores pm) < 2 ^ 32" using card_cores_le [of m'] r(3) ok(1,2) by simp
  then have av: "unat (avail + of_nat (card (cores pm))) = card (cores m')"
    using card ok(2) by (simp add: unat_word_ariths unat_of_nat take_bit_eq_mod)
  have "cores_ok m' (avail + of_nat (card (cores pm))) ?ps"
  proof (rule cores_okI)
    show "cores x \<inter> cores m' = {}" if "(k, x) \<in> set ?ps" for k x
      using that ok(5) [of k x] ok(6) [of k x fd pm] fd unfolding r(2) by auto
    show "cores x \<inter> cores x' = {}" if "(k, x) \<in> set ?ps" "(k', x') \<in> set ?ps" "k \<noteq> k'" for k x k' x'
      using that ok(6) by simp blast
  qed (use ok(1-4) r(3) av in \<open>auto simp: distinct_map_filter\<close>)
  moreover have "cores_held m' ?ps = cores_held m ps"
    using cores_held_split [OF fd ok(3), of m] r(2) by (auto simp: cores_held_def others_def)
  ultimately show ?thesis using r by blast
qed

section \<open>What each handler leaves alone\<close>

text \<open>The part of the state that the accounting of cores is about.\<close>

definition core_view :: "usiw_driver \<Rightarrow> u32 list \<times> u32 \<times> (nat \<times> u32 list) list" where
  "core_view d = (core_mask d, core_avail d, pmasks d)"

lemma core_view_simps [simp]:
  "core_view (called cs d) = core_view d" "core_view (upd_port i f d) = core_view d"
  "core_view (upd_process fd (\<lambda>pr. pr\<lparr>owned_qps := g pr\<rparr>) d) = core_view d"
  "core_view (free_process fd d) = (core_mask d, core_avail d, filter (\<lambda>(k, _). k \<noteq> fd) (pmasks d))"
  by (auto simp: core_view_def pmasks_def upd_port_def upd_process_def free_process_def filter_map comp_def case_prod_unfold)

lemma list_del_view: "list_del p d = Some d' \<Longrightarrow> core_view d' = core_view d"
  by (auto simp: list_del_def unlink_def core_view_def pmasks_def comp_def case_prod_beta split: if_splits)

lemma return_qp_view: "return_qp N i p d = Some d' \<Longrightarrow> core_view d' = core_view d"
  by (erule return_qp_lists) (auto simp: core_view_def pmasks_def dest!: list_del_view)

lemma return_qps_view:
  "for_each (\<lambda>p d. return_qp N (f d p) p d) ps d = Some d' \<Longrightarrow> core_view d' = core_view d"
  by (erule for_each_invariant) (auto dest: return_qp_view)

text \<open>Setting a connection up changes queue pairs and the flags of ports only.\<close>

definition lists_same :: "usiw_driver \<Rightarrow> usiw_driver \<Rightarrow> bool" where
  "lists_same d d' \<longleftrightarrow> map avail_qp (ports d') = map avail_qp (ports d) \<and> processes d' = processes d \<and> orphans d' = orphans d \<and>
     core_mask d' = core_mask d \<and> core_avail d' = core_avail d"

lemma lists_same_refl [simp]: "lists_same d d"
  by (simp add: lists_same_def)

lemma lists_same_called [simp]: "lists_same d (called cs d') = lists_same d d'"
  by (simp add: lists_same_def)

lemma map_update_same: "f y = f (xs ! i) \<Longrightarrow> map f (xs[i := y]) = map f xs"
  by (rule nth_equalityI) (simp_all, metis nth_list_update_eq nth_list_update_neq)

lemma lists_same_upd_port: "(\<And>pt. avail_qp (f pt) = avail_qp pt) \<Longrightarrow> lists_same d (upd_port i f d') = lists_same d d'"
  by (simp add: lists_same_def upd_port_def map_update_same)

lemma lists_sameD: "lists_same d d' \<Longrightarrow> all_qps d' = all_qps d" "lists_same d d' \<Longrightarrow> core_view d' = core_view d"
  "lists_same d d' \<Longrightarrow> processes d' = processes d"
  by (auto simp: lists_same_def all_qps_def core_view_def pmasks_def)

lemma add_filter_same: "add_filter N ev i qp d = (r, d') \<Longrightarrow> lists_same e d \<Longrightarrow> lists_same e d'"
  by (auto simp: add_filter_def Let_def lists_same_upd_port split: if_splits)

lemma do_setup_qp_same:
  assumes "do_setup_qp N ev p d = Some (r, d')"
  shows "lists_same d d'"
proof -
  let ?store = "\<lambda>qp. upd_port (fst p) (\<lambda>pt. pt\<lparr>pt_qp := (pt_qp pt)[snd p := qp]\<rparr>)"
  let ?qp = "setup_params ev (ports d ! fst p) (rx_queue_nb_desc N (nic_tick d)) (tx_queue_nb_desc N (nic_tick d + 1)) (qp_at d p)"
  obtain ret d1 where f: "add_filter N ev (fst p) ?qp (?store ?qp (called [] (called [] d))) = (ret, d1)" by (meson surj_pair)
  from add_filter_same [OF f, of d] have "lists_same d d1" by (simp add: lists_same_upd_port)
  then show ?thesis using assms f by (auto simp: do_setup_qp_def Let_def lists_same_upd_port split: if_splits)
qed

lemma chardev_same: "chardev_data_ready N n ev d = Some d' \<Longrightarrow> lists_same d d'"
  by (auto simp: chardev_data_ready_def handle_qp_connected_event_def Let_def split: option.splits if_splits Option.bind_splits
      dest!: do_setup_qp_same)

section \<open>Every step keeps the books\<close>

lemma fst_upd_process [simp]: "map fst (processes (upd_process fd f d)) = map fst (processes d)"
  by (simp add: upd_process_def comp_def case_prod_beta)

lemma create_qp_req_all:
  assumes "create_qp_req N fd i d = Some (ok, d')" "driver_ok d" "fd \<in> set (map fst (processes d))"
  shows "mset (all_qps d') = mset (all_qps d)" "map fst (processes d') = map fst (processes d)" "core_view d' = core_view d"
proof -
  consider "d' = d" | p d1 where "list_del p d = Some d1"
      "d' = called [Create_resp fd p] (upd_process fd (\<lambda>pr. pr\<lparr>owned_qps := owned_qps pr @ [p]\<rparr>) d1)"
    using assms(1) by (auto simp: create_qp_req_def send_create_qp_resp_def split: if_splits list.splits Option.bind_splits)
  then have "mset (all_qps d') = mset (all_qps d) \<and> map fst (processes d') = map fst (processes d) \<and> core_view d' = core_view d"
  proof cases
    case 2
    note l = list_del_all [OF 2(1) assms(2)]
    have "distinct (map fst (processes d1))" "fd \<in> set (map fst (processes d1))" using l(4) assms(2,3) by (simp_all add: driver_ok_def)
    from all_qps_add_owned [OF this(2,1), of p] show ?thesis
      using 2 l list_del_view [OF 2(1)] by simp
  qed simp
  then show "mset (all_qps d') = mset (all_qps d)" "map fst (processes d') = map fst (processes d)" "core_view d' = core_view d" by simp_all
qed

lemma destroy_qp_req_all:
  assumes "destroy_qp_req N i q d = Some (ok, d')" "driver_ok d"
  shows "mset (all_qps d') = mset (all_qps d)" "map fst (processes d') = map fst (processes d)" "core_view d' = core_view d"
proof -
  have "d' = d \<or> return_qp N i (i, q) d = Some d'" using assms(1) by (auto simp: destroy_qp_req_def split: if_splits)
  then show "mset (all_qps d') = mset (all_qps d)" "map fst (processes d') = map fst (processes d)" "core_view d' = core_view d"
    using return_qp_all [OF _ assms(2)] return_qp_view by blast+
qed

lemma handle_hello_all:
  assumes "handle_hello N fd c pr d = Some (ok, d')"
  shows "mset (all_qps d') = mset (all_qps d)" "map fst (processes d') = map fst (processes d)"
proof -
  obtain ok' m d1 where r: "reserve_cores N c (pr_core_mask pr) d = Some (ok', m, d1)"
      "d' = upd_process fd (\<lambda>pr. pr\<lparr>pr_core_mask := m\<rparr>) d1 \<or> (\<exists>cs. d' = called cs (upd_process fd (\<lambda>pr. pr\<lparr>pr_core_mask := m\<rparr>) d1))"
    using assms by (auto simp: handle_hello_def Let_def split: Option.bind_splits if_splits) blast+
  have "map (owned_qps \<circ> snd) (map (\<lambda>(k, pr). (k, if k = fd then pr\<lparr>pr_core_mask := m\<rparr> else pr)) ps) = map (owned_qps \<circ> snd) ps"
    for ps :: "(nat \<times> urdma_process) list" by (induction ps) auto
  then have "all_qps (upd_process fd (\<lambda>pr. pr\<lparr>pr_core_mask := m\<rparr>) d1) = all_qps d1" unfolding all_qps_def upd_process_def by (simp del: map_map)
  moreover have "all_qps d1 = all_qps d" "processes d1 = processes d" using reserve_cores_fields [OF r(1)] by (auto simp: all_qps_def)
  ultimately show "mset (all_qps d') = mset (all_qps d)" "map fst (processes d') = map fst (processes d)" using r(2) by auto
qed

text \<open>The outcomes of a message: the end of the process after a return of what it held, a request that succeeded, or one that failed.\<close>

lemma process_data_ready_cases:
  assumes "process_data_ready N fd msg d = Some d'"
  obtains (eof) pr d1 d2 where "map_of (processes d) fd = Some pr"
      "for_each (\<lambda>p d. return_qp N (unat (shm_dev_id (qp_at d p))) p d) (owned_qps pr) d = Some d1"
      "return_lcores N (pr_core_mask pr) d1 = Some d2" "d' = free_process fd d2"
  | (request) pr ok d1 where "map_of (processes d) fd = Some pr" "d' = (if ok then d1 else free_process fd d1)"
      "create_qp_req N fd (unat (msg_dev_id msg)) d = Some (ok, d1) \<or> destroy_qp_req N (unat (msg_dev_id msg)) (unat (msg_qp_id msg)) d = Some (ok, d1) \<or>
        handle_hello N fd (msg_lcore_count msg) pr d = Some (ok, d1) \<or> (ok, d1) = (False, d)"
  using assms by (auto simp: process_data_ready_def split: Option.bind_splits if_splits)

lemma process_data_ready_all:
  assumes "process_data_ready N fd msg d = Some d'" "driver_ok d"
  shows "mset (all_qps d') = mset (all_qps d) \<and> driver_ok d'"
  using assms(1)
proof (cases rule: process_data_ready_cases)
  case (eof pr d1 d2)
  have "mset (all_qps d1) = mset (all_qps d)" "map fst (processes d1) = map fst (processes d)" using return_qps_all [OF eof(2) assms(2)] by auto
  moreover have "all_qps d2 = all_qps d1" "processes d2 = processes d1" using return_lcores_fields [OF eof(3)] by (auto simp: all_qps_def)
  ultimately show ?thesis using eof(4) free_process_all free_process_ok driver_ok_mset [of d2 d] assms(2) by simp
next
  case (request pr ok d1)
  have fd: "fd \<in> set (map fst (processes d))" using map_of_SomeD [OF request(1)] by force
  have "mset (all_qps d1) = mset (all_qps d) \<and> map fst (processes d1) = map fst (processes d)"
    using request(3) create_qp_req_all [OF _ assms(2) fd] destroy_qp_req_all [OF _ assms(2)] handle_hello_all by fastforce
  then show ?thesis using request(2) free_process_all free_process_ok driver_ok_mset [of d1 d] assms(2) by auto
qed

lemma daemon_step_all:
  assumes "daemon_step N d d'" "driver_ok d"
  shows "mset (all_qps d') = mset (all_qps d) \<and> driver_ok d'"
  using assms
proof cases
  case (message fd msg)
  then show ?thesis using process_data_ready_all assms(2) by blast
next
  case (accept fd mok eok)
  then have "all_qps d' = all_qps d" "distinct (map fst (processes d'))"
    using assms(2) by (auto simp: listen_data_ready_def all_qps_def driver_ok_def split: if_splits option.splits)
  then show ?thesis using assms(2) by (simp add: driver_ok_def)
next
  case (event n ev)
  then have "lists_same d d'" by (auto dest: chardev_same)
  from lists_sameD [OF this] show ?thesis using assms(2) by (simp add: driver_ok_def)
qed

lemma pmasks_upd: "pmasks (upd_process fd (\<lambda>pr. pr\<lparr>pr_core_mask := m\<rparr>) d) = map (\<lambda>(k, pm). (k, if k = fd then m else pm)) (pmasks d)"
  by (auto simp: pmasks_def upd_process_def)

lemma map_of_upd_process: "map_of (processes (upd_process fd f d)) fd = map_option f (map_of (processes d) fd)"
proof -
  have "map_of (map (\<lambda>(k, pr). (k, if k = fd then f pr else pr)) ps) fd = map_option f (map_of ps fd)" for ps :: "(nat \<times> urdma_process) list"
    by (induction ps) auto
  then show ?thesis by (simp add: upd_process_def)
qed

lemma map_of_pmasks: "map_of (pmasks d) fd = map_option pr_core_mask (map_of (processes d) fd)"
  by (simp add: pmasks_def map_of_map)

text \<open>The daemon's own books, as a predicate on its state.\<close>

definition books :: "usiw_driver \<Rightarrow> bool" where
  "books d \<longleftrightarrow> cores_ok (core_mask d) (core_avail d) (pmasks d)"

definition held_cores :: "usiw_driver \<Rightarrow> (nat \<times> nat) set" where
  "held_cores d = cores_held (core_mask d) (pmasks d)"

lemma books_cong: "core_view d' = core_view d \<Longrightarrow> books d' = books d \<and> held_cores d' = held_cores d"
  by (simp add: core_view_def books_def held_cores_def)

lemma free_process_books: "books d \<Longrightarrow> books (free_process fd d) \<and> held_cores (free_process fd d) \<subseteq> held_cores d"
  using drop_process_cores [of "core_mask d" "core_avail d" "pmasks d" fd] core_view_simps(4) [of fd d]
  by (simp add: core_view_def books_def held_cores_def)

lemma handle_hello_books:
  assumes "bsf_spec N" "books d" "map_of (processes d) fd = Some pr"
  shows "\<exists>ok d1. handle_hello N fd c pr d = Some (ok, d1) \<and> books d1 \<and> held_cores d1 = held_cores d \<and>
    (if core_avail d < c then \<not> ok \<and> core_view d1 = core_view d
     else core_avail d1 = core_avail d - c \<and>
       (ok \<longleftrightarrow> sock_send_ret N (nic_tick d) = int (12 + 4 * length (core_mask d) + 2 * length (ports d))) \<and>
       (\<exists>m. map_of (processes d1) fd = Some (pr\<lparr>pr_core_mask := m\<rparr>) \<and> length m = length (core_mask d1) \<and>
         length m = length (core_mask d) \<and> cores (core_mask d1) \<union> cores m = cores (core_mask d) \<union> cores (pr_core_mask pr) \<and>
         card (cores m) = card (cores (pr_core_mask pr)) + unat c))"
proof (cases "core_avail d < c")
  case True
  have "core_view (upd_process fd (\<lambda>q. q\<lparr>pr_core_mask := pr_core_mask pr\<rparr>) d) = core_view d"
  proof -
    have "map (\<lambda>(k, pm). (k, if k = fd then pr_core_mask pr else pm)) (pmasks d) = pmasks d"
      using cores_okD(3) [OF assms(2) [unfolded books_def]] assms(3) map_of_pmasks [of d fd]
      by (intro map_idI) (auto dest!: map_of_SomeD dest: eq_key_imp_eq_value)
    then have "pmasks (upd_process fd (\<lambda>q. q\<lparr>pr_core_mask := pr_core_mask pr\<rparr>) d) = pmasks d" unfolding pmasks_upd .
    then show ?thesis by (simp add: core_view_def) (simp add: upd_process_def)
  qed
  moreover from books_cong [OF this] assms(2) have "books (upd_process fd (\<lambda>q. q\<lparr>pr_core_mask := pr_core_mask pr\<rparr>) d)"
    "held_cores (upd_process fd (\<lambda>q. q\<lparr>pr_core_mask := pr_core_mask pr\<rparr>) d) = held_cores d" by simp_all
  moreover have "handle_hello N fd c pr d = Some (False, upd_process fd (\<lambda>q. q\<lparr>pr_core_mask := pr_core_mask pr\<rparr>) d)"
    using True by (simp add: handle_hello_def reserve_cores_def)
  ultimately show ?thesis using True by auto
next
  case False
  have pm: "map_of (pmasks d) fd = Some (pr_core_mask pr)" using assms(3) map_of_pmasks by simp
  let ?ps = "\<lambda>m. map (\<lambda>(k, pm). (k, if k = fd then m else pm)) (pmasks d)"
  obtain m' out' where r: "reserve_loop N (unat c) 0 (core_mask d) (pr_core_mask pr) = Some (m', out')"
      "cores_ok m' (core_avail d - c) (?ps out')" "cores_held m' (?ps out') = cores_held (core_mask d) (pmasks d)"
      "card (cores out') = card (cores (pr_core_mask pr)) + unat c"
    and l: "length m' = length (core_mask d)" "length out' = length (core_mask d)" "cores m' \<union> cores out' = cores (core_mask d) \<union> cores (pr_core_mask pr)"
    using reserve_cores_ok [OF assms(2) [unfolded books_def] pm assms(1), of c] False unfolding not_less by blast
  let ?d = "upd_process fd (\<lambda>pr. pr\<lparr>pr_core_mask := out'\<rparr>) (d\<lparr>core_mask := m', core_avail := core_avail d - c\<rparr>)"
  have f: "core_mask ?d = m'" "core_avail ?d = core_avail d - c" "ports ?d = ports d" "nic_tick ?d = nic_tick d" by (simp_all add: upd_process_def)
  have p: "pmasks ?d = ?ps out'" unfolding pmasks_upd by (simp add: pmasks_def)
  have mo: "map_of (processes ?d) fd = Some (pr\<lparr>pr_core_mask := out'\<rparr>)" using assms(3) by (simp add: map_of_upd_process)
  let ?r = "called [Hello_resp fd out' (map pt_max_qp (ports ?d))] ?d"
  have view: "core_view ?r = core_view ?d" by simp
  have "handle_hello N fd c pr d = Some (sock_send_ret N (nic_tick d) = int (12 + 4 * length (core_mask d) + 2 * length (ports d)), ?r)"
    using False r(1) by (simp add: handle_hello_def reserve_cores_def Let_def f l)
  moreover have "books ?r" "held_cores ?r = held_cores d"
    using r(2,3) books_cong [OF view] by (simp_all add: books_def held_cores_def f p)
  ultimately show ?thesis using False mo l r(4) by (auto simp: f)
qed

lemma eof_books:
  assumes "bsf_spec N" "books d" "map_of (processes d) fd = Some pr"
  shows "\<exists>d1. return_lcores N (pr_core_mask pr) d = Some d1 \<and> books (free_process fd d1) \<and> held_cores (free_process fd d1) = held_cores d \<and>
    cores (core_mask d1) = cores (core_mask d) \<union> cores (pr_core_mask pr) \<and> length (core_mask d1) = length (core_mask d)"
proof -
  have pm: "map_of (pmasks d) fd = Some (pr_core_mask pr)" using assms(3) map_of_pmasks by simp
  obtain m' a where r: "return_words N (pr_core_mask pr) (core_avail d) (core_mask d) = Some (a, m')"
      "cores_ok m' a (filter (\<lambda>(k, _). k \<noteq> fd) (pmasks d))" "cores_held m' (filter (\<lambda>(k, _). k \<noteq> fd) (pmasks d)) = cores_held (core_mask d) (pmasks d)"
      "cores m' = cores (core_mask d) \<union> cores (pr_core_mask pr)" "length m' = length (core_mask d)"
    using return_cores_ok [OF assms(2) [unfolded books_def] pm assms(1)] by blast
  show ?thesis using r core_view_simps(4) [of fd "d\<lparr>core_avail := a, core_mask := m'\<rparr>"]
    by (auto simp: return_lcores_def books_def held_cores_def core_view_def pmasks_def)
qed

lemma daemon_step_books:
  assumes "daemon_step N d d'" "bsf_spec N" "driver_ok d" "books d"
  shows "books d' \<and> held_cores d' \<subseteq> held_cores d"
  using assms(1)
proof cases
  case (message fd msg)
  from message show ?thesis
  proof (cases rule: process_data_ready_cases)
    case (eof pr d1 d2)
    note v = return_qps_view [OF eof(2)]
    then have "map_of (pmasks d1) fd = Some (pr_core_mask pr)" using eof(1) map_of_pmasks [of d fd] by (simp add: core_view_def)
    then obtain pr1 where pr1: "map_of (processes d1) fd = Some pr1" "pr_core_mask pr1 = pr_core_mask pr"
      using map_of_pmasks [of d1 fd] by auto
    have "books d1" "held_cores d1 = held_cores d" using books_cong [OF v] assms(4) by simp_all
    with eof_books [OF assms(2) _ pr1(1)] show ?thesis using eof(3,4) pr1(2) by force
  next
    case (request pr ok d1)
    have fd: "fd \<in> set (map fst (processes d))" using map_of_SomeD [OF request(1)] by force
    have "books d1 \<and> held_cores d1 = held_cores d"
      using request(3)
    proof (elim disjE)
      assume "handle_hello N fd (msg_lcore_count msg) pr d = Some (ok, d1)"
      with handle_hello_books [OF assms(2,4) request(1), of "msg_lcore_count msg"] show ?thesis by auto
    next
      assume "(ok, d1) = (False, d)"
      then show ?thesis using assms(4) by simp
    qed (use create_qp_req_all(3) [OF _ assms(3) fd] destroy_qp_req_all(3) [OF _ assms(3)] books_cong assms(4) in blast)+
    then show ?thesis using request(2) free_process_books [of d1 fd] by auto
  qed
next
  case (accept fd mok eok)
  have z: "cores (replicate n 0) = {}" for n by (auto simp: cores_def)
  have "d' = d \<or> (\<exists>k. k \<notin> fst ` set (pmasks d) \<and> core_mask d' = core_mask d \<and> core_avail d' = core_avail d \<and>
      pmasks d' = pmasks d @ [(k, replicate (length (core_mask d)) 0)])"
    using accept by (force simp: listen_data_ready_def pmasks_def split: if_splits option.splits)
  then show ?thesis using assms(4) z by (fastforce simp: books_def held_cores_def cores_held_def cores_ok_def)
next
  case (event n ev)
  then have "core_view d' = core_view d" using lists_sameD(2) chardev_same by blast
  from books_cong [OF this] assms(4) show ?thesis by simp
qed


section \<open>The daemon from start to end\<close>

text \<open>Two ports with one queue pair each, whose records are zero except for the queues, and two free cores.\<close>

definition example_port :: "nat \<Rightarrow> usiw_port" where
  "example_port i = \<lparr>pt_portid = of_nat i, pt_rx_desc_count = 512, pt_tx_desc_count = 512, pt_rx_burst_size = 32, pt_tx_burst_size = 8,
     pt_max_qp = 1, avail_qp = [(i, 1)],
     pt_qp = map (\<lambda>q. \<lparr>conn_state = usiw_qp_unbound, ord_max = 0, ird_max = 0, shm_dev_id = 0, shm_qp_id = q, shm_rx_queue = q, shm_tx_queue = q,
       local_udp_port = 0, remote_udp_port = 0, local_ipv4_addr = 0, remote_ipv4_addr = 0, remote_ether_addr = replicate 6 0,
       rx_desc_count = 0, tx_desc_count = 0, rx_burst_size = 0, tx_burst_size = 0, shm_mtu = 0\<rparr>) [0, 1],
     pt_flags = port_5tuple, pt_ipv4_addr = 0x0100000a, pt_mtu = 1500\<rparr>"

definition example_driver :: usiw_driver where
  "example_driver = \<lparr>ports = [example_port 0, example_port 1], processes = [(5, \<lparr>owned_qps = [], pr_core_mask = [0]\<rparr>)], orphans = [],
     core_mask = [6], core_avail = 2, nic_log = [], nic_tick = 0\<rparr>"

definition create_msg :: "u16 \<Rightarrow> sock_any_msg" where
  "create_msg i = \<lparr>msg_received = 16, msg_opcode = urdma_sock_create_qp_req, msg_dev_id = i, msg_qp_id = 0, msg_lcore_count = 0\<rparr>"

definition hello_msg :: "u32 \<Rightarrow> sock_any_msg" where
  "hello_msg n = \<lparr>msg_received = 16, msg_opcode = urdma_sock_hello_req, msg_dev_id = 0, msg_qp_id = 0, msg_lcore_count = n\<rparr>"

definition eof_msg :: sock_any_msg where
  "eof_msg = \<lparr>msg_received = 0, msg_opcode = 0, msg_dev_id = 0, msg_qp_id = 0, msg_lcore_count = 0\<rparr>"

lemmas example_driver_defs = example_driver_def example_port_def create_msg_def hello_msg_def eof_msg_def example_nic_def
  urdma_sock_create_qp_req_def urdma_sock_hello_req_def urdma_sock_destroy_qp_req_def

lemma example_driver_ok: "driver_ok example_driver" "books example_driver"
proof -
  have "cores [w] = set (map (Pair 0) (filter (bit w) [0..<32]))" for w by (auto simp: cores_def dest: bit_u32_less)
  moreover have "filter (bit (6 :: u32)) [0..<32] = [1, 2]" "filter (bit (0 :: u32)) [0..<32] = []" by code_simp+
  ultimately have "cores [6] = {(0, 1), (0, 2)}" "cores [0] = {}" by (simp_all only: list.map set_simps)
  then show "books example_driver" by (auto simp: books_def cores_ok_def pmasks_def example_driver_def)
qed (simp add: driver_ok_def all_qps_def example_driver_defs)

lemma lowest_bit_finds:
  assumes "n \<le> 32" "bit w k" "32 - n \<le> k"
  shows "bit w (lowest_bit n w) \<and> (\<forall>j. 32 - n \<le> j \<longrightarrow> j < lowest_bit n w \<longrightarrow> \<not> bit w j)"
  using assms
proof (induction n)
  case 0
  then show ?case using bit_u32_less [of w k] by simp
next
  case (Suc n)
  show ?case
  proof (cases "bit w (31 - n)")
    case False
    then have "k \<noteq> 31 - n" using Suc.prems(2) by auto
    then have "32 - n \<le> k" using Suc.prems by simp
    with Suc have ih: "bit w (lowest_bit n w)" "\<And>j. 32 - n \<le> j \<Longrightarrow> j < lowest_bit n w \<Longrightarrow> \<not> bit w j" by simp_all
    have "\<not> bit w j" if "32 - Suc n \<le> j" "j < lowest_bit n w" for j
      using False ih(2) [of j] that Suc.prems(1) by (cases "j = 31 - n") auto
    then show ?thesis using ih(1) False by simp
  qed auto
qed

lemma example_bsf: "bsf_spec example_nic"
proof -
  have "\<exists>k. bit w k" if "w \<noteq> 0" for w :: u32 using that bit_word_eqI [of w 0] by auto
  then show ?thesis using lowest_bit_finds [of 32] by (auto simp: bsf_spec_def example_nic_def)
qed

lemma daemon_run_all:
  assumes "(daemon_step N)\<^sup>*\<^sup>* d d'" "driver_ok d"
  shows "mset (all_qps d') = mset (all_qps d) \<and> driver_ok d'"
  using assms
proof (induction rule: rtranclp_induct)
  case (step y z)
  then show ?case using daemon_step_all [of N y z] by simp
qed simp

lemma daemon_run_books:
  assumes "(daemon_step N)\<^sup>*\<^sup>* d d'" "bsf_spec N" "driver_ok d" "books d"
  shows "books d' \<and> held_cores d' \<subseteq> held_cores d"
  using assms
proof (induction rule: rtranclp_induct)
  case (step y z)
  then show ?case using daemon_run_all [of N d y] daemon_step_books [of N y z] by blast
qed simp

lemma cores_inject: "cores m = cores m' \<Longrightarrow> length m = length m' \<Longrightarrow> m = m'"
proof (rule nth_equalityI)
  fix i
  assume c: "cores m = cores m'" "length m = length m'" "i < length m"
  have "bit (m ! i) k = bit (m' ! i) k" for k using c by (auto simp: cores_def set_eq_iff)
  then show "m ! i = m' ! i" by (intro bit_word_eqI) simp
qed

lemma free_process_lost:
  assumes "books d" "map_of (processes d) fd = Some pr"
  shows "card (held_cores (free_process fd d)) + card (cores (pr_core_mask pr)) = card (held_cores d)"
proof -
  let ?pm = "pr_core_mask pr"
  note ok = cores_okD [OF assms(1) [unfolded books_def]]
  have fd: "(fd, ?pm) \<in> set (pmasks d)" using assms(2) map_of_pmasks [of d fd] by (auto dest: map_of_SomeD)
  have h: "held_cores (free_process fd d) = cores (core_mask d) \<union> others fd (pmasks d)"
    using core_view_simps(4) [of fd d] by (simp add: core_view_def held_cores_def drop_process_cores(2) [OF assms(1) [unfolded books_def]])
  have "finite (others fd (pmasks d))"
    by (rule finite_subset [of _ "\<Union>(_, pm) \<in> set (pmasks d). cores pm"]) (auto simp: others_def)
  moreover have "(cores (core_mask d) \<union> others fd (pmasks d)) \<inter> cores ?pm = {}"
    using ok(5) [OF fd] ok(6) [OF _ fd] unfolding others_def by blast
  ultimately have "card ((cores (core_mask d) \<union> others fd (pmasks d)) \<union> cores ?pm) =
      card (held_cores (free_process fd d)) + card (cores ?pm)" unfolding h by (intro card_Un_disjoint) simp_all
  then show ?thesis using cores_held_split [OF fd ok(3), of "core_mask d"] by (simp add: held_cores_def Un_ac)
qed

lemma eof_returns:
  assumes "bsf_spec N" "books d" "map_of (processes d) fd = Some pr" "owned_qps pr = []" "msg_received eof < 8"
  shows "\<exists>d'. process_data_ready N fd eof d = Some d' \<and> books d' \<and> length (core_mask d') = length (core_mask d) \<and>
    cores (core_mask d') = cores (core_mask d) \<union> cores (pr_core_mask pr)"
proof -
  obtain d1 where "return_lcores N (pr_core_mask pr) d = Some d1" "books (free_process fd d1)"
      "cores (core_mask d1) = cores (core_mask d) \<union> cores (pr_core_mask pr)" "length (core_mask d1) = length (core_mask d)"
    using eof_books [OF assms(1-3)] by blast
  moreover have "core_mask (free_process fd d1) = core_mask d1" by (simp add: free_process_def)
  ultimately show ?thesis using assms(3-5) by (simp add: process_data_ready_def)
qed

text \<open>
  C33. Cores come back. A process that holds nothing asks for cores that are free and later closes
  its socket: the masks and the counter are then what they were before. When the response to the
  request cannot be sent, the process is closed at once and the cores it was given stay reserved
  although nobody holds them.
\<close>

theorem hello_eof_round_trip:
  assumes "bsf_spec N" "books d" "map_of (processes d) fd = Some pr" "owned_qps pr = []" "cores (pr_core_mask pr) = {}"
    "msg_opcode hello = urdma_sock_hello_req" "8 \<le> msg_received hello" "msg_lcore_count hello \<le> core_avail d" "msg_received eof < 8"
  defines "sent \<equiv> sock_send_ret N (nic_tick d) = int (12 + 4 * length (core_mask d) + 2 * length (ports d))"
  shows "\<exists>d1. process_data_ready N fd hello d = Some d1 \<and> core_avail d1 = core_avail d - msg_lcore_count hello \<and>
    (if sent then \<exists>d2. process_data_ready N fd eof d1 = Some d2 \<and> core_mask d2 = core_mask d \<and> core_avail d2 = core_avail d
     else map_of (processes d1) fd = None \<and> card (held_cores d1) + unat (msg_lcore_count hello) = card (held_cores d))"
proof -
  have free: "\<not> core_avail d < msg_lcore_count hello" using assms(8) by simp
  have none: "X \<union> cores (pr_core_mask pr) = X" "card (cores (pr_core_mask pr)) + n = n" for X n using assms(5) by simp_all
  obtain ok d1 where h: "handle_hello N fd (msg_lcore_count hello) pr d = Some (ok, d1)" "books d1" "held_cores d1 = held_cores d"
      "core_avail d1 = core_avail d - msg_lcore_count hello" "ok \<longleftrightarrow> sent"
    and m: "\<exists>m. map_of (processes d1) fd = Some (pr\<lparr>pr_core_mask := m\<rparr>) \<and> length m = length (core_mask d1) \<and>
      length m = length (core_mask d) \<and> cores (core_mask d1) \<union> cores m = cores (core_mask d) \<and> card (cores m) = unat (msg_lcore_count hello)"
    using handle_hello_books [OF assms(1-3), of "msg_lcore_count hello"] unfolding if_not_P [OF free] none sent_def [symmetric] by blast
  from m obtain m where m: "map_of (processes d1) fd = Some (pr\<lparr>pr_core_mask := m\<rparr>)" "length (core_mask d1) = length (core_mask d)"
      "cores (core_mask d1) \<union> cores m = cores (core_mask d)" "card (cores m) = unat (msg_lcore_count hello)" by auto
  have p: "process_data_ready N fd hello d = Some (if sent then d1 else free_process fd d1)"
    using h(1,5) assms(3,6,7) by (simp add: process_data_ready_def not_less [symmetric] urdma_sock_hello_req_def urdma_sock_create_qp_req_def
        urdma_sock_destroy_qp_req_def)
  show ?thesis
  proof (cases sent)
    case True
    obtain d2 where d2: "process_data_ready N fd eof d1 = Some d2" "books d2" "length (core_mask d2) = length (core_mask d1)"
        "cores (core_mask d2) = cores (core_mask d1) \<union> cores m"
      using eof_returns [OF assms(1) h(2) m(1) _ assms(9)] assms(4) by auto
    then have "core_mask d2 = core_mask d" using cores_inject m(2,3) by simp
    moreover from this have "core_avail d2 = core_avail d" using d2(2) assms(2) by (simp add: books_def cores_ok_def word_unat_eq_iff)
    ultimately show ?thesis using True p h(4) d2(1) by auto
  next
    case False
    have "core_avail (free_process fd d1) = core_avail d1" "map_of (processes (free_process fd d1)) fd = None"
      by (auto simp: free_process_def map_of_eq_None_iff)
    then show ?thesis using False p h(3,4) m(4) free_process_lost [OF h(2) m(1)] by simp
  qed
qed

theorem hello_eof_round_trip_witness:
  "\<exists>d1 d2. process_data_ready (example_nic\<lparr>sock_send_ret := \<lambda>t. 20\<rparr>) 5 (hello_msg 2) example_driver = Some d1 \<and> core_avail d1 = 0 \<and>
     process_data_ready (example_nic\<lparr>sock_send_ret := \<lambda>t. 20\<rparr>) 5 eof_msg d1 = Some d2 \<and> core_mask d2 = [6] \<and> core_avail d2 = 2"
proof -
  let ?N = "example_nic\<lparr>sock_send_ret := \<lambda>t. 20\<rparr>"
  have "bsf_spec (example_nic\<lparr>sock_send_ret := \<lambda>t. 20\<rparr>)" using example_bsf by (simp add: bsf_spec_def)
  moreover have "cores (pr_core_mask \<lparr>owned_qps = [], pr_core_mask = [0]\<rparr>) = {}" by (auto simp: cores_def)
  ultimately have "\<exists>d1. process_data_ready ?N 5 (hello_msg 2) example_driver = Some d1 \<and> core_avail d1 = core_avail example_driver - 2 \<and>
      (\<exists>d2. process_data_ready ?N 5 eof_msg d1 = Some d2 \<and> core_mask d2 = core_mask example_driver \<and> core_avail d2 = core_avail example_driver)"
    using hello_eof_round_trip [OF _ example_driver_ok(2), of ?N 5 "\<lparr>owned_qps = [], pr_core_mask = [0]\<rparr>" "hello_msg 2" eof_msg]
    by (simp add: example_driver_def hello_msg_def eof_msg_def)
  then show ?thesis by (simp add: example_driver_def)
qed

end
