(* ===== verification/Port_Config.thy ===== *)
theory Port_Config
  imports Prelude
begin

text \<open>
  The configuration file (\<^verbatim>\<open>util/config_file.c\<close>). JSON values and the functions of json-c on
  them, the two parsers of PCI addresses of DPDK, and the printing of floating point numbers are
  parameters: the fields of the record \<open>json_c\<close>, over an arbitrary type of JSON values. An
  \<^verbatim>\<open>int\<close> is a 32-bit word whose value is read with \<^const>\<open>sint\<close>.
\<close>

section \<open>JSON values\<close>

datatype json_type = json_type_null | json_type_boolean | json_type_double | json_type_int
  | json_type_object | json_type_array | json_type_string

type_synonym rte_pci_addr = "nat \<times> nat \<times> nat \<times> nat"

record 'j json_c =
  json_object_object_get_ex :: "'j \<Rightarrow> string \<Rightarrow> 'j option"
  json_object_get_type :: "'j \<Rightarrow> json_type"
  json_object_get_int :: "'j \<Rightarrow> u32"
  json_object_get_int64 :: "'j \<Rightarrow> int"
  json_object_get_boolean :: "'j \<Rightarrow> bool"
  json_object_get_string :: "'j \<Rightarrow> string"
  json_print_double :: "'j \<Rightarrow> string"
  json_object_array :: "'j \<Rightarrow> 'j list"
  json_object_members :: "'j \<Rightarrow> (string \<times> 'j) list"
  eal_parse_pci_DomBDF :: "string \<Rightarrow> rte_pci_addr option"
  eal_parse_pci_BDF :: "string \<Rightarrow> rte_pci_addr option"

abbreviation is_type :: "('j, 'z) json_c_scheme \<Rightarrow> 'j \<Rightarrow> json_type \<Rightarrow> bool" where
  "is_type J obj t \<equiv> json_object_get_type J obj = t"

section \<open>Numbers\<close>

definition DEFAULT_MTU :: u32 where "DEFAULT_MTU = 1500"
definition JUMBO_MTU :: u32 where "JUMBO_MTU = 9000"
definition UINT_MAX :: u32 where "UINT_MAX = 0xffffffff"
definition UINT16_MAX :: int where "UINT16_MAX = 0xffff"

text \<open>The result is \<open>None\<close> for \<^verbatim>\<open>-EINVAL\<close>.\<close>

definition get_int_value :: "'j json_c \<Rightarrow> 'j \<Rightarrow> string \<Rightarrow> int \<Rightarrow> int \<Rightarrow> u32 \<Rightarrow> u32 option" where
  "get_int_value J parent name min_v max_v def =
     (case json_object_object_get_ex J parent name of
        Some obj \<Rightarrow>
          if \<not> is_type J obj json_type_int \<and> \<not> is_type J obj json_type_string then None
          else let val = json_object_get_int J obj in
            if sint val < min_v \<or> sint val > max_v then None else Some val
      | None \<Rightarrow> Some def)"

definition get_uint_value :: "'j json_c \<Rightarrow> 'j \<Rightarrow> string \<Rightarrow> u32 \<Rightarrow> u32 \<Rightarrow> u32 \<Rightarrow> u32 option" where
  "get_uint_value J parent name min_v max_v def =
     (case json_object_object_get_ex J parent name of
        Some obj \<Rightarrow>
          if \<not> is_type J obj json_type_int \<and> \<not> is_type J obj json_type_string then None
          else let val = json_object_get_int J obj in
            if val < min_v \<or> val > max_v then None else Some val
      | None \<Rightarrow> Some def)"

definition parse_pci_addr :: "'j json_c \<Rightarrow> string \<Rightarrow> rte_pci_addr option" where
  "parse_pci_addr J str =
     (if length str = 12 then eal_parse_pci_DomBDF J str
      else if length str = 7 then eal_parse_pci_BDF J str
      else None)"

section \<open>Ports\<close>

datatype urdma_port_id_type = urdma_port_id_index | urdma_port_id_pci

definition ipv4_addr_len_max :: nat where "ipv4_addr_len_max = 20"

record usiw_port_config =
  id_type :: urdma_port_id_type
  pci_address :: rte_pci_addr
  cfg_mtu :: u32
  cfg_rx_desc_count :: u32
  cfg_tx_desc_count :: u32
  cfg_rx_burst_size :: u32
  cfg_tx_burst_size :: u32
  cfg_max_qp :: u32
  ipv4_address :: string

text \<open>\<^verbatim>\<open>strncpy\<close> fills up with zero bytes and does not end a long string.\<close>

definition strncpy :: "string \<Rightarrow> nat \<Rightarrow> string" where
  "strncpy src n = take n (src @ replicate n (CHR 0x00))"

definition parse_port_id :: "'j json_c \<Rightarrow> bool \<Rightarrow> 'j \<Rightarrow> (bool \<times> urdma_port_id_type \<times> rte_pci_addr) option" where
  "parse_port_id J can_use_index port =
     (case json_object_object_get_ex J port ''pci_address'' of
        Some obj \<Rightarrow> do {
          assert_c (is_type J obj json_type_string);
          addr \<leftarrow> parse_pci_addr J (json_object_get_string J obj);
          Some (False, urdma_port_id_pci, addr)
        }
      | None \<Rightarrow> if can_use_index then Some (can_use_index, urdma_port_id_index, (0, 0, 0, 0)) else None)"

definition parse_mtu :: "'j json_c \<Rightarrow> 'j \<Rightarrow> u32 option" where
  "parse_mtu J port =
     (case json_object_object_get_ex J port ''mtu'' of
        Some obj \<Rightarrow>
          if \<not> is_type J obj json_type_int \<and> \<not> is_type J obj json_type_string then None
          else let mtu = json_object_get_int J obj in
            if mtu \<noteq> DEFAULT_MTU \<and> mtu \<noteq> JUMBO_MTU then None else Some mtu
      | None \<Rightarrow> Some DEFAULT_MTU)"

definition parse_port :: "'j json_c \<Rightarrow> bool \<Rightarrow> 'j \<Rightarrow> (bool \<times> usiw_port_config) option" where
  "parse_port J can_use_index port = do {
     assert_c (is_type J port json_type_object);
     (can_use_index, idt, pci) \<leftarrow> parse_port_id J can_use_index port;
     obj \<leftarrow> json_object_object_get_ex J port ''ipv4_address'';
     assert_c (is_type J obj json_type_string);
     let addr = strncpy (json_object_get_string J obj) ipv4_addr_len_max;
     mtu \<leftarrow> parse_mtu J port;
     max_qp \<leftarrow> get_int_value J port ''max_qp'' 1 UINT16_MAX (-1);
     rxd \<leftarrow> get_uint_value J port ''rx_desc_count'' 1 UINT_MAX UINT_MAX;
     rxb \<leftarrow> get_uint_value J port ''rx_burst_size'' 1 rxd (if rxd > 32 then rxd else 32);
     txd \<leftarrow> get_uint_value J port ''tx_desc_count'' 1 UINT_MAX UINT_MAX;
     txb \<leftarrow> get_uint_value J port ''tx_burst_size'' 1 txd 8;
     Some (can_use_index, \<lparr>id_type = idt, pci_address = pci, cfg_mtu = mtu, cfg_rx_desc_count = rxd, cfg_tx_desc_count = txd,
       cfg_rx_burst_size = rxb, cfg_tx_burst_size = txb, cfg_max_qp = max_qp, ipv4_address = addr\<rparr>)
   }"

fun parse_ports :: "'j json_c \<Rightarrow> bool \<Rightarrow> 'j list \<Rightarrow> usiw_port_config list option" where
  "parse_ports J can_use_index [] = Some []"
| "parse_ports J can_use_index (port # rest) = do {
     (can_use_index, c) \<leftarrow> parse_port J can_use_index port;
     cs \<leftarrow> parse_ports J can_use_index rest;
     Some (c # cs)
   }"

definition config_file_get_ports :: "'j json_c \<Rightarrow> 'j \<Rightarrow> bool \<Rightarrow> errno + usiw_port_config list" where
  "config_file_get_ports J root calloc_ok =
     (case json_object_object_get_ex J root ''ports'' of
        None \<Rightarrow> Inl EINVAL
      | Some arr \<Rightarrow>
          if \<not> is_type J arr json_type_array then Inl EINVAL
          else if \<not> calloc_ok then Inl ENOMEM
          else case parse_ports J True (json_object_array J arr) of None \<Rightarrow> Inl EINVAL | Some cs \<Rightarrow> Inr cs)"

section \<open>The other settings\<close>

text \<open>
  The default name of the socket is in the runtime directory of the user; \<open>env\<close> is the value of
  \<^verbatim>\<open>XDG_RUNTIME_DIR\<close>.
\<close>

definition get_default_sock_name :: "string option \<Rightarrow> bool \<Rightarrow> string option" where
  "get_default_sock_name env malloc_ok =
     (case env of
        None \<Rightarrow> None
      | Some runtime_dir \<Rightarrow> if runtime_dir = [] \<or> \<not> malloc_ok then None else Some (runtime_dir @ ''/urdma/urdma.sock''))"

definition config_file_get_sock_name :: "'j json_c \<Rightarrow> 'j \<Rightarrow> string option \<Rightarrow> bool \<Rightarrow> string option" where
  "config_file_get_sock_name J root env malloc_ok =
     (case json_object_object_get_ex J root ''socket'' of
        None \<Rightarrow> get_default_sock_name env malloc_ok
      | Some obj \<Rightarrow> if \<not> is_type J obj json_type_string then None
          else if malloc_ok then Some (json_object_get_string J obj) else None)"

definition config_file_get_timer_interval :: "'j json_c \<Rightarrow> 'j \<Rightarrow> u32" where
  "config_file_get_timer_interval J root =
     (case json_object_object_get_ex J root ''stats_timer_interval'' of
        None \<Rightarrow> 0
      | Some obj \<Rightarrow> if \<not> is_type J obj json_type_int then 0 else json_object_get_int J obj)"

section \<open>Arguments of the EAL\<close>

fun print_nat :: "nat \<Rightarrow> string" where
  "print_nat n = (if n < 10 then [char_of (48 + n)] else print_nat (n div 10) @ [char_of (48 + n mod 10)])"

declare print_nat.simps [simp del]

definition print_int :: "int \<Rightarrow> string" where
  "print_int i = (if i < 0 then CHR ''-'' # print_nat (nat (- i)) else print_nat (nat i))"

definition get_arg_count :: "'j json_c \<Rightarrow> 'j \<Rightarrow> errno + nat" where
  "get_arg_count J root =
     (case json_object_object_get_ex J root ''eal_args'' of
        None \<Rightarrow> Inr 0
      | Some args \<Rightarrow> if \<not> is_type J args json_type_object then Inl EINVAL else Inr (length (json_object_members J args) + 1))"

text \<open>The arguments made from one member, when memory suffices: \<open>None\<close> for a value of another type.\<close>

definition eal_value :: "string \<Rightarrow> string \<Rightarrow> string list" where
  "eal_value key v = (if length key > 1 then [''--'' @ key @ ''='' @ v] else [''-'' @ key, v])"

definition eal_arg :: "'j json_c \<Rightarrow> string \<Rightarrow> 'j \<Rightarrow> string list option" where
  "eal_arg J key v =
     (case json_object_get_type J v of
        json_type_boolean \<Rightarrow> Some (if json_object_get_boolean J v then [''-'' @ (if length key > 1 then ''-'' else []) @ key] else [])
      | json_type_string \<Rightarrow> Some (eal_value key (json_object_get_string J v))
      | json_type_int \<Rightarrow> Some (eal_value key (print_int (json_object_get_int64 J v)))
      | json_type_double \<Rightarrow> Some (eal_value key (json_print_double J v))
      | _ \<Rightarrow> None)"

text \<open>
  The array of arguments: an entry is null, a string of its own, or a string that has been freed.
  A store outside the array, a walk over the members of an object that is not in the file, and a
  second \<^verbatim>\<open>free\<close> have no result. Allocations of strings are taken to succeed.
\<close>

datatype arg = Arg_null | Arg string | Arg_freed

definition arg_store :: "nat \<Rightarrow> arg \<Rightarrow> arg list \<Rightarrow> arg list option" where
  "arg_store i a argv = (if i < length argv then Some (argv[i := a]) else None)"

fun store_args :: "nat \<Rightarrow> string list \<Rightarrow> arg list \<Rightarrow> arg list option" where
  "store_args i [] argv = Some argv"
| "store_args i (s # ss) argv = arg_store i (Arg s) argv \<bind> store_args (Suc i) ss"

text \<open>The results: whether all members were understood, the number of strings stored, the array.\<close>

fun eal_args_loop :: "'j json_c \<Rightarrow> (string \<times> 'j) list \<Rightarrow> nat \<Rightarrow> arg list \<Rightarrow> (bool \<times> nat \<times> arg list) option" where
  "eal_args_loop J [] i argv = Some (True, i, argv)"
| "eal_args_loop J ((key, v) # ms) i argv =
     (case eal_arg J key v of
        None \<Rightarrow> Some (False, i, argv)
      | Some as \<Rightarrow> store_args i as argv \<bind> eal_args_loop J ms (i + length as))"

fun free_args :: "nat \<Rightarrow> arg list \<Rightarrow> arg list option" where
  "free_args n argv =
     (if Arg_freed \<in> set (take n argv) \<or> n > length argv then None
      else Some (map (\<lambda>a. if a = Arg_null then Arg_null else Arg_freed) (take n argv) @ drop n argv))"

text \<open>The call with an array; \<open>name\<close> is the name of the process.\<close>

definition config_file_get_eal_args :: "'j json_c \<Rightarrow> 'j \<Rightarrow> string \<Rightarrow> arg list \<Rightarrow> ((errno + nat) \<times> arg list) option" where
  "config_file_get_eal_args J root name argv = do {
     args \<leftarrow> json_object_object_get_ex J root ''eal_args'';
     argv \<leftarrow> arg_store 0 (Arg name) argv;
     (ok, i, argv) \<leftarrow> eal_args_loop J (json_object_members J args) 1 argv;
     if ok then do {
       argv \<leftarrow> arg_store i Arg_null argv;
       Some (Inr i, argv)
     }
     else do {
       argv \<leftarrow> free_args i argv;
       Some (Inl EINVAL, argv)
     }
   }"

section \<open>What a configuration that is accepted looks like\<close>

lemma get_int_value_range: "get_int_value J p name lo hi def = Some v \<Longrightarrow> v = def \<or> lo \<le> sint v \<and> sint v \<le> hi"
  by (auto simp: get_int_value_def Let_def not_less split: option.splits if_splits)

lemma get_uint_value_range: "get_uint_value J p name lo hi def = Some v \<Longrightarrow>
    (if json_object_object_get_ex J p name = None then v = def else lo \<le> v \<and> v \<le> hi)"
  by (auto simp: get_uint_value_def Let_def not_less split: option.splits if_splits)

text \<open>The ranges of one port; the burst sizes may come from the defaults.\<close>

definition port_config_ok :: "usiw_port_config \<Rightarrow> bool" where
  "port_config_ok c \<longleftrightarrow> cfg_mtu c \<in> {DEFAULT_MTU, JUMBO_MTU} \<and> (cfg_max_qp c = -1 \<or> sint (cfg_max_qp c) \<in> {1..UINT16_MAX}) \<and>
     1 \<le> cfg_rx_desc_count c \<and> 1 \<le> cfg_tx_desc_count c \<and> 1 \<le> cfg_rx_burst_size c \<and> 1 \<le> cfg_tx_burst_size c \<and>
     cfg_rx_burst_size c \<le> max 32 (cfg_rx_desc_count c) \<and> cfg_tx_burst_size c \<le> max 8 (cfg_tx_desc_count c) \<and>
     length (ipv4_address c) = ipv4_addr_len_max"

lemma parse_port_ok:
  assumes "parse_port J idx port = Some (idx', c)"
  shows "port_config_ok c" "idx' \<longrightarrow> idx" "id_type c = (if idx' then urdma_port_id_index else urdma_port_id_pci)"
    "json_object_object_get_ex J port ''rx_burst_size'' = None \<Longrightarrow> cfg_rx_burst_size c = max 32 (cfg_rx_desc_count c)"
proof -
  obtain idt pci obj mtu max_qp rxd rxb txd txb where c:
    "parse_port_id J idx port = Some (idx', idt, pci)" "parse_mtu J port = Some mtu"
    "get_int_value J port ''max_qp'' 1 UINT16_MAX (-1) = Some max_qp"
    "get_uint_value J port ''rx_desc_count'' 1 UINT_MAX UINT_MAX = Some rxd"
    "get_uint_value J port ''rx_burst_size'' 1 rxd (if rxd > 32 then rxd else 32) = Some rxb"
    "get_uint_value J port ''tx_desc_count'' 1 UINT_MAX UINT_MAX = Some txd"
    "get_uint_value J port ''tx_burst_size'' 1 txd 8 = Some txb"
    "c = \<lparr>id_type = idt, pci_address = pci, cfg_mtu = mtu, cfg_rx_desc_count = rxd, cfg_tx_desc_count = txd,
       cfg_rx_burst_size = rxb, cfg_tx_burst_size = txb, cfg_max_qp = max_qp, ipv4_address = strncpy (json_object_get_string J obj) ipv4_addr_len_max\<rparr>"
    using assms by (auto simp: parse_port_def Let_def split: Option.bind_splits)
  have id: "(idx' \<longrightarrow> idx) \<and> idt = (if idx' then urdma_port_id_index else urdma_port_id_pci)"
    using c(1) by (auto simp: parse_port_id_def split: option.splits Option.bind_splits if_splits)
  then show "idx' \<longrightarrow> idx" "id_type c = (if idx' then urdma_port_id_index else urdma_port_id_pci)" using c(8) by simp_all
  have mtu: "mtu \<in> {DEFAULT_MTU, JUMBO_MTU}" using c(2) by (auto simp: parse_mtu_def Let_def split: option.splits if_splits)
  have qp: "max_qp = -1 \<or> sint max_qp \<in> {1..UINT16_MAX}" using get_int_value_range [OF c(3)] by auto
  have rxd: "1 \<le> rxd" and txd: "1 \<le> txd" using get_uint_value_range [OF c(4)] get_uint_value_range [OF c(6)] by (auto simp: UINT_MAX_def split: if_splits)
  have rxb: "1 \<le> rxb" "rxb \<le> max 32 rxd" and txb: "1 \<le> txb" "txb \<le> max 8 txd"
    using get_uint_value_range [OF c(5)] get_uint_value_range [OF c(7)] rxd txd by (auto simp: max_def not_less split: if_splits)
  show "port_config_ok c" using mtu qp rxd txd rxb txb by (simp add: c(8) port_config_ok_def strncpy_def)
  show "cfg_rx_burst_size c = max 32 (cfg_rx_desc_count c)" if "json_object_object_get_ex J port ''rx_burst_size'' = None"
    using get_uint_value_range [OF c(5)] that by (auto simp: c(8) max_def)
qed

lemma parse_ports_ok:
  "parse_ports J idx objs = Some cs \<Longrightarrow> length cs = length objs \<and> list_all port_config_ok cs \<and>
     (\<exists>k. map id_type cs = replicate k urdma_port_id_index @ replicate (length cs - k) urdma_port_id_pci \<and> k \<le> length cs \<and> (\<not> idx \<longrightarrow> k = 0))"
proof (induction objs arbitrary: idx cs)
  case (Cons obj objs)
  then obtain idx' c cs' where c: "parse_port J idx obj = Some (idx', c)" "parse_ports J idx' objs = Some cs'" "cs = c # cs'"
    by (auto split: Option.bind_splits)
  obtain k where k: "length cs' = length objs" "list_all port_config_ok cs'" "k \<le> length cs'" "\<not> idx' \<longrightarrow> k = 0"
      "map id_type cs' = replicate k urdma_port_id_index @ replicate (length cs' - k) urdma_port_id_pci" using Cons.IH [OF c(2)] by blast
  note p = parse_port_ok [OF c(1)]
  show ?case
  proof (cases idx')
    case True
    then show ?thesis using k p c(3) by (auto intro!: exI [of _ "Suc k"])
  next
    case False
    then show ?thesis using k p c(3) by (auto intro!: exI [of _ 0])
  qed
qed simp

text \<open>
  C36. A configuration that is accepted is in range: there is one record for each element of the
  array, the MTU is 1500 or 9000, \<^verbatim>\<open>max_qp\<close> is absent or between 1 and 65535, counts and bursts are
  positive, and a burst is at most its ring size or its default. The addresses of the ports are
  not checked as the message says: PCI addresses are not asked for all ports, but only from the
  first port on that has one.
\<close>

theorem config_file_get_ports_in_range:
  assumes "config_file_get_ports J root calloc_ok = Inr cs"
  shows "list_all port_config_ok cs \<and> (\<exists>arr. json_object_object_get_ex J root ''ports'' = Some arr \<and> length cs = length (json_object_array J arr)) \<and>
    (\<exists>k \<le> length cs. map id_type cs = replicate k urdma_port_id_index @ replicate (length cs - k) urdma_port_id_pci)"
proof -
  obtain arr where arr: "json_object_object_get_ex J root ''ports'' = Some arr" "parse_ports J True (json_object_array J arr) = Some cs"
    using assms by (auto simp: config_file_get_ports_def split: option.splits if_splits)
  from parse_ports_ok [OF arr(2)] arr(1) show ?thesis by blast
qed

text \<open>A concrete library: JSON values as a tree.\<close>

datatype json = J_int u32 | J_string string | J_array "json list" | J_object "(string \<times> json) list"

definition example_json :: "json json_c" where
  "example_json = \<lparr>json_object_object_get_ex = \<lambda>j name. (case j of J_object ms \<Rightarrow> map_of ms name | _ \<Rightarrow> None),
     json_object_get_type = \<lambda>j. (case j of J_int _ \<Rightarrow> json_type_int | J_string _ \<Rightarrow> json_type_string | J_array _ \<Rightarrow> json_type_array | J_object _ \<Rightarrow> json_type_object),
     json_object_get_int = \<lambda>j. (case j of J_int i \<Rightarrow> i | _ \<Rightarrow> 0), json_object_get_int64 = \<lambda>j. (case j of J_int i \<Rightarrow> sint i | _ \<Rightarrow> 0),
     json_object_get_boolean = \<lambda>j. False, json_object_get_string = \<lambda>j. (case j of J_string s \<Rightarrow> s | _ \<Rightarrow> []),
     json_print_double = \<lambda>j. [], json_object_array = \<lambda>j. (case j of J_array js \<Rightarrow> js | _ \<Rightarrow> []),
     json_object_members = \<lambda>j. (case j of J_object ms \<Rightarrow> ms | _ \<Rightarrow> []),
     eal_parse_pci_DomBDF = \<lambda>s. None, eal_parse_pci_BDF = \<lambda>s. Some (0, 1, 0, 0)\<rparr>"

definition example_root :: json where
  "example_root = J_object [(''ports'', J_array [
     J_object [(''ipv4_address'', J_string ''10.0.0.1/24'')],
     J_object [(''pci_address'', J_string ''01:00.0''), (''ipv4_address'', J_string ''10.1.0.1/24''), (''max_qp'', J_int 4),
       (''rx_desc_count'', J_int 512)]])]"

theorem config_file_get_ports_in_range_witness:
  "\<exists>cs. config_file_get_ports example_json example_root True = Inr cs \<and> list_all port_config_ok cs \<and>
     map id_type cs = [urdma_port_id_index, urdma_port_id_pci]"
proof -
  have "(case config_file_get_ports example_json example_root True of Inl e \<Rightarrow> None | Inr cs \<Rightarrow> Some (map id_type cs)) =
      Some [urdma_port_id_index, urdma_port_id_pci]" by code_simp
  then obtain cs where cs: "config_file_get_ports example_json example_root True = Inr cs" "map id_type cs = [urdma_port_id_index, urdma_port_id_pci]"
    by (cases "config_file_get_ports example_json example_root True") simp_all
  from config_file_get_ports_in_range [OF cs(1)] cs show ?thesis by (intro exI [of _ cs]) simp
qed

end
