(* ===== verification/Urdmad_Start.thy ===== *)
theory Urdmad_Start
  imports Urdmad_Correct Port_Config
begin

text \<open>
  The start of the daemon (\<^verbatim>\<open>urdmad/main.c\<close>): the ports are set up from the configuration and
  the limits of the card, and every port gets its array and its pool of queue pairs. The calls
  into DPDK and the kernel interface are parameters. \<open>None\<close> is \<^verbatim>\<open>rte_exit\<close> or a crash: the daemon
  does not come up.
\<close>

section \<open>One port\<close>

record rte_eth_dev_info =
  max_rx_queues :: u16
  max_tx_queues :: u16
  max_vmdq_pools :: u16
  vmdq_queue_base :: u16
  vmdq_queue_num :: u16
  tx_offload_capa :: u32
  rx_nb_min :: u16
  rx_nb_max :: u16
  rx_nb_align :: u16
  tx_nb_min :: u16
  tx_nb_max :: u16
  tx_nb_align :: u16

text \<open>
  What DPDK answers for one port: which filters it supports, the bits of the transmit checksum
  capabilities, and whether each call of the setup succeeds.
\<close>

record port_answers =
  ntuple_supported :: bool
  fdir_supported :: bool
  tx_checksum_offloads :: u32
  mempools_ok :: bool
  dev_configure_ok :: bool
  queue_setup_ok :: "nat \<Rightarrow> bool"
  kni_ok :: bool
  set_mtu_ok :: bool
  dev_start_ok :: bool

definition port_init_flags :: "port_answers \<Rightarrow> rte_eth_dev_info \<Rightarrow> u64" where
  "port_init_flags A info =
     (if tx_offload_capa info AND tx_checksum_offloads A = tx_checksum_offloads A then port_checksum_offload else 0) OR
     (if ntuple_supported A then port_5tuple else if fdir_supported A then port_fdir else 0)"

definition usable_queues :: "rte_eth_dev_info \<Rightarrow> rte_eth_dev_info" where
  "usable_queues info =
     (if max_vmdq_pools info > 0 \<and> vmdq_queue_base info > 0
      then info\<lparr>max_rx_queues := max_rx_queues info - vmdq_queue_num info, max_tx_queues := max_tx_queues info - vmdq_queue_num info\<rparr>
      else info)"

text \<open>The number of queue pairs is kept in 16 bits.\<close>

definition port_max_qp :: "rte_eth_dev_info \<Rightarrow> usiw_port_config \<Rightarrow> u16 option" where
  "port_max_qp info cfg =
     (let n = (if sint (cfg_max_qp cfg) > 0 then ucast (cfg_max_qp cfg) else min (max_rx_queues info) (max_tx_queues info)) in
      if n \<ge> max_rx_queues info then None
      else if n \<ge> max_tx_queues info then None
      else Some n)"

text \<open>The test of the alignment divides; a card that reports no alignment would crash the daemon.\<close>

definition desc_count :: "u32 \<Rightarrow> u16 \<Rightarrow> u16 \<Rightarrow> u16 \<Rightarrow> u16 option" where
  "desc_count cfg nb_min nb_max nb_align =
     (if cfg = UINT_MAX then Some nb_min
      else if cfg > ucast nb_max then None
      else if cfg < ucast nb_min then None
      else if nb_align = 0 then None
      else if cfg mod ucast nb_align \<noteq> 0 then None
      else Some (ucast cfg))"

text \<open>
  The array has one more record than there are queue pairs, all zero; the first is never used.
  Number and queues are filled in, the device number is not.
\<close>

definition zero_urdmad_qp :: urdmad_qp where
  "zero_urdmad_qp = \<lparr>conn_state = usiw_qp_unbound, ord_max = 0, ird_max = 0, shm_dev_id = 0, shm_qp_id = 0, shm_rx_queue = 0, shm_tx_queue = 0,
     local_udp_port = 0, remote_udp_port = 0, local_ipv4_addr = 0, remote_ipv4_addr = 0, remote_ether_addr = replicate 6 0,
     rx_desc_count = 0, tx_desc_count = 0, rx_burst_size = 0, tx_burst_size = 0, shm_mtu = 0\<rparr>"

definition port_init_qp :: "nat \<Rightarrow> urdmad_qp" where
  "port_init_qp q = zero_urdmad_qp\<lparr>shm_qp_id := of_nat q, shm_tx_queue := of_nat q, shm_rx_queue := of_nat q, conn_state := usiw_qp_unbound\<rparr>"

definition usiw_port_init :: "port_answers \<Rightarrow> nat \<Rightarrow> u16 \<Rightarrow> rte_eth_dev_info \<Rightarrow> usiw_port_config \<Rightarrow> usiw_port option" where
  "usiw_port_init A i portid info cfg = do {
     let info = usable_queues info;
     n \<leftarrow> port_max_qp info cfg;
     rxd \<leftarrow> desc_count (cfg_rx_desc_count cfg) (rx_nb_min info) (rx_nb_max info) (rx_nb_align info);
     txd \<leftarrow> desc_count (cfg_tx_desc_count cfg) (tx_nb_min info) (tx_nb_max info) (tx_nb_align info);
     assert_c (mempools_ok A \<and> dev_configure_ok A);
     assert_c (\<forall>q \<in> set [0..<unat n + 1]. queue_setup_ok A q);
     assert_c (kni_ok A \<and> set_mtu_ok A \<and> dev_start_ok A);
     Some \<lparr>pt_portid = portid, pt_rx_desc_count = rxd, pt_tx_desc_count = txd,
       pt_rx_burst_size = ucast (cfg_rx_burst_size cfg), pt_tx_burst_size = ucast (cfg_tx_burst_size cfg), pt_max_qp = n,
       avail_qp = map (Pair i) [1..<unat n + 1], pt_qp = zero_urdmad_qp # map port_init_qp [1..<unat n + 1],
       pt_flags = port_init_flags A info, pt_ipv4_addr = 0, pt_mtu = ucast (cfg_mtu cfg)\<rparr>
   }"

section \<open>The whole driver\<close>

text \<open>
  The environment of the start: the answers for each port of the card, what the card is, the
  look-up of a PCI address, the addresses that the kernel interfaces are given, and the roles of
  the cores (whether each was detected, and whether the EAL leaves it alone).
\<close>

record start_env =
  dev_count :: nat
  answers :: "nat \<Rightarrow> port_answers"
  dev_info :: "nat \<Rightarrow> rte_eth_dev_info"
  lookup_pci :: "rte_pci_addr \<Rightarrow> nat option"
  ipv4_of :: "string \<Rightarrow> u32 option"
  lcores :: "(bool \<times> bool) list"
  setup_ok :: bool

fun port_number :: "start_env \<Rightarrow> nat \<Rightarrow> usiw_port_config \<Rightarrow> nat option" where
  "port_number E i cfg = (case id_type cfg of urdma_port_id_index \<Rightarrow> Some i | urdma_port_id_pci \<Rightarrow> lookup_pci E (pci_address cfg))"

fun init_ports :: "start_env \<Rightarrow> nat \<Rightarrow> usiw_port_config list \<Rightarrow> usiw_port list option" where
  "init_ports E i [] = Some []"
| "init_ports E i (cfg # cfgs) = do {
     n \<leftarrow> port_number E i cfg;
     assert_c (n < dev_count E);
     p \<leftarrow> usiw_port_init (answers E n) i (of_nat n) (dev_info E n) cfg;
     ps \<leftarrow> init_ports E (Suc i) cfgs;
     Some (p # ps)
   }"

fun set_addresses :: "start_env \<Rightarrow> usiw_port_config list \<Rightarrow> usiw_port list \<Rightarrow> usiw_port list option" where
  "set_addresses E (cfg # cfgs) (p # ps) = do {
     a \<leftarrow> ipv4_of E (ipv4_address cfg);
     ps \<leftarrow> set_addresses E cfgs ps;
     Some (p\<lparr>pt_ipv4_addr := a\<rparr> # ps)
   }"
| "set_addresses E _ ps = Some ps"

text \<open>\<open>n_masks\<close> is \<^verbatim>\<open>RTE_MAX_LCORE / 32\<close>; the masks are zero before \<^const>\<open>init_core_mask\<close>.\<close>

definition do_init_driver :: "start_env \<Rightarrow> nat \<Rightarrow> errno + usiw_port_config list \<Rightarrow> usiw_driver option" where
  "do_init_driver E n_masks cfg =
     (case init_core_mask (take (32 * n_masks) (lcores E)) 0 (replicate n_masks 0, 0) of (m, avail) \<Rightarrow>
      case cfg of
        Inl e \<Rightarrow> None
      | Inr cfgs \<Rightarrow> do {
          assert_c (cfgs \<noteq> [] \<and> length cfgs \<le> dev_count E);
          assert_c (setup_ok E);
          ps \<leftarrow> init_ports E 0 cfgs;
          ps \<leftarrow> set_addresses E cfgs ps;
          Some \<lparr>ports = ps, processes = [], orphans = [], core_mask = m, core_avail = avail, nic_log = [], nic_tick = 0\<rparr>
        })"

section \<open>What the start gives\<close>

lemma port_max_qp_Some: "port_max_qp info cfg = Some n \<Longrightarrow> n < max_rx_queues info \<and> n < max_tx_queues info \<and> 0 < sint (cfg_max_qp cfg)"
  by (auto simp: port_max_qp_def Let_def min_def not_le split: if_splits)

lemma u16_less: "unat (w :: u16) < 2 ^ 16"
  using unsigned_less [of w] by simp

lemma unat_up: "unat (ucast (w :: u16) :: u32) = unat w"
  using u16_less [of w] by (simp add: unsigned_ucast_eq take_bit_nat_eq_self)

lemma unat_down: "unat (c :: u32) < 2 ^ 16 \<Longrightarrow> unat (ucast c :: u16) = unat c"
  by (simp add: unsigned_ucast_eq take_bit_nat_eq_self)

lemma desc_count_Some:
  assumes "desc_count c lo hi al = Some n" "lo \<le> hi"
  shows "lo \<le> n \<and> n \<le> hi \<and> (c \<noteq> UINT_MAX \<longrightarrow> ucast n = c \<and> unat al dvd unat n)"
proof (cases "c = UINT_MAX")
  case False
  then have c: "\<not> c > ucast hi" "\<not> c < ucast lo" "al \<noteq> 0" "c mod ucast al = 0" "n = ucast c"
    using assms(1) by (auto simp: desc_count_def split: if_splits)
  have hi: "unat c \<le> unat hi" using c(1) by (simp add: word_le_nat_alt not_less unat_up)
  also have "unat hi < 2 ^ 16" by (rule u16_less)
  finally have n: "unat n = unat c" unfolding c(5) by (rule unat_down)
  then have "ucast n = c" by (simp add: word_unat_eq_iff unat_up)
  moreover have "unat al dvd unat n"
    using c(4) unfolding n by (simp add: word_unat_eq_iff unat_mod unat_up mod_eq_0_iff_dvd)
  ultimately show ?thesis using hi n c(2) by (simp add: word_le_nat_alt not_less unat_up)
qed (use assms in \<open>simp add: desc_count_def\<close>)

lemma usable_queues_limits [simp]:
  "rx_nb_min (usable_queues info) = rx_nb_min info" "rx_nb_max (usable_queues info) = rx_nb_max info" "rx_nb_align (usable_queues info) = rx_nb_align info"
  "tx_nb_min (usable_queues info) = tx_nb_min info" "tx_nb_max (usable_queues info) = tx_nb_max info" "tx_nb_align (usable_queues info) = tx_nb_align info"
  by (simp_all add: usable_queues_def)

lemma usiw_port_init_Some:
  assumes "usiw_port_init A i portid info cfg = Some p"
  shows "pt_max_qp p < max_rx_queues (usable_queues info) \<and> pt_max_qp p < max_tx_queues (usable_queues info) \<and> 0 < sint (cfg_max_qp cfg)"
    "avail_qp p = map (Pair i) [1..<unat (pt_max_qp p) + 1]" "pt_qp p = zero_urdmad_qp # map port_init_qp [1..<unat (pt_max_qp p) + 1]"
    "desc_count (cfg_rx_desc_count cfg) (rx_nb_min info) (rx_nb_max info) (rx_nb_align info) = Some (pt_rx_desc_count p)"
    "desc_count (cfg_tx_desc_count cfg) (tx_nb_min info) (tx_nb_max info) (tx_nb_align info) = Some (pt_tx_desc_count p)"
  using assms port_max_qp_Some [of "usable_queues info" cfg]
  by (auto simp: usiw_port_init_def Let_def simp del: upt_Suc split: Option.bind_splits)

lemma init_core_mask_counts:
  assumes "init_core_mask cs i (m, n) = (m', n')" "i + length cs \<le> 32 * length m" "32 * length m < 2 ^ 32"
    "\<forall>(j, k) \<in> cores m. 32 * j + k < i" "unat n = card (cores m)"
  shows "unat n' = card (cores m') \<and> length m' = length m"
  using assms
proof (induction cs i "(m, n)" arbitrary: m n rule: init_core_mask.induct)
  case (2 det off cs i m n)
  show ?case
  proof (cases "det \<and> off")
    case True
    let ?j = "i div 32" and ?k = "i mod 32"
    let ?m = "m[?j := m ! ?j OR push_bit ?k 1]"
    have j: "?j < length m" using 2(4) by simp
    have c: "cores ?m = insert (?j, ?k) (cores m)" using cores_set [OF j, of ?k] by simp
    have "(?j, ?k) \<notin> cores m" using 2(6) by (auto dest!: bspec)
    then have "card (cores ?m) = card (cores m) + 1" unfolding c by simp
    moreover have "card (cores ?m) \<le> 32 * length m" using card_cores_le [of ?m] by simp
    ultimately have n: "unat (n + 1) = card (cores ?m)" using 2(5,7) by (simp add: unat_word_ariths)
    have "init_core_mask cs (Suc i) (?m, n + 1) = (m', n')" using 2(3) True by simp
    moreover have "\<forall>(j, k) \<in> cores ?m. 32 * j + k < Suc i" unfolding c using 2(6) by auto
    ultimately show ?thesis using 2(1) True n 2(4,5) by simp
  next
    case False
    show ?thesis
    proof (cases det)
      case True
      then show ?thesis using 2(2) False 2(3-7) by (auto simp: less_Suc_eq)
    qed (use 2(3-7) in simp)
  qed
qed auto

lemma init_ports_Some:
  assumes "init_ports E i cfgs = Some ps" "k < length ps"
  shows "\<exists>n p cfg. usiw_port_init (answers E n) (i + k) (of_nat n) (dev_info E n) cfg = Some (ps ! k) \<and> cfg \<in> set cfgs"
  using assms
proof (induction cfgs arbitrary: i ps k)
  case (Cons cfg cfgs)
  obtain n p qs where c: "usiw_port_init (answers E n) i (of_nat n) (dev_info E n) cfg = Some p" "init_ports E (Suc i) cfgs = Some qs" "ps = p # qs"
    using Cons.prems(1) by (auto split: Option.bind_splits simp del: port_number.simps)
  show ?case
  proof (cases k)
    case 0
    then show ?thesis using c by auto
  next
    case (Suc j)
    then show ?thesis using Cons.IH [OF c(2), of j] c(3) Cons.prems(2) by auto
  qed
qed simp

lemma set_addresses_Some:
  "set_addresses E cfgs ps = Some qs \<Longrightarrow> length qs = length ps \<and> (\<forall>k < length ps. \<exists>a. qs ! k = (ps ! k)\<lparr>pt_ipv4_addr := a\<rparr>)"
proof (induction cfgs arbitrary: ps qs)
  case Nil
  have "p = p\<lparr>pt_ipv4_addr := pt_ipv4_addr p\<rparr>" for p :: usiw_port by simp
  with Nil show ?case by (metis option.inject set_addresses.simps(2))
next
  case (Cons cfg cfgs)
  show ?case
  proof (cases ps)
    case (Cons p rest)
    then obtain a rs where r: "set_addresses E cfgs rest = Some rs" "qs = p\<lparr>pt_ipv4_addr := a\<rparr> # rs"
      using Cons.prems by (auto split: Option.bind_splits)
    show ?thesis using Cons.IH [OF r(1)] unfolding r(2) Cons by (auto simp: less_Suc_eq_0_disj)
  qed (use Cons.prems in simp)
qed

text \<open>The pool of every port is its own queue pairs, numbered from one.\<close>

definition port_pool :: "nat \<Rightarrow> usiw_port \<Rightarrow> bool" where
  "port_pool i p \<longleftrightarrow> avail_qp p = map (Pair i) [1..<unat (pt_max_qp p) + 1] \<and>
     pt_qp p = zero_urdmad_qp # map port_init_qp [1..<unat (pt_max_qp p) + 1]"

lemma do_init_driver_Some:
  assumes "do_init_driver E n cfg = Some d"
  shows "\<And>i. i < length (ports d) \<Longrightarrow> port_pool i (ports d ! i)" "processes d = []" "orphans d = []"
    "init_core_mask (take (32 * n) (lcores E)) 0 (replicate n 0, 0) = (core_mask d, core_avail d)"
proof -
  obtain cfgs ps qs where c: "init_ports E 0 cfgs = Some ps" "set_addresses E cfgs ps = Some qs" "ports d = qs"
      and r: "processes d = []" "orphans d = []" "init_core_mask (take (32 * n) (lcores E)) 0 (replicate n 0, 0) = (core_mask d, core_avail d)"
    using assms by (auto simp: do_init_driver_def split: sum.splits Option.bind_splits prod.splits)
  show "processes d = []" "orphans d = []" "init_core_mask (take (32 * n) (lcores E)) 0 (replicate n 0, 0) = (core_mask d, core_avail d)"
    using r by simp_all
  fix i assume "i < length (ports d)"
  then have i: "i < length ps" "\<exists>a. ports d ! i = (ps ! i)\<lparr>pt_ipv4_addr := a\<rparr>" using set_addresses_Some [OF c(2)] c(3) by auto
  from init_ports_Some [OF c(1) i(1)] obtain m cfg where "usiw_port_init (answers E m) i (of_nat m) (dev_info E m) cfg = Some (ps ! i)" by auto
  from usiw_port_init_Some(2,3) [OF this] i(2) show "port_pool i (ports d ! i)" by (auto simp: port_pool_def)
qed

lemma count_pools:
  assumes "\<And>i. i < length ps \<Longrightarrow> port_pool (k + i) (ps ! i)"
  shows "count (mset (concat (map avail_qp ps))) (j, q) = (if k \<le> j \<and> j < k + length ps \<and> 1 \<le> q \<and> q \<le> unat (pt_max_qp (ps ! (j - k))) then 1 else 0)"
  using assms
proof (induction ps arbitrary: k)
  case (Cons p ps)
  have p: "avail_qp p = map (Pair k) [1..<unat (pt_max_qp p) + 1]" using Cons.prems [of 0] by (simp add: port_pool_def)
  have 1: "count (mset (avail_qp p)) (j, q) = (if j = k \<and> 1 \<le> q \<and> q \<le> unat (pt_max_qp p) then 1 else 0)"
  proof -
    have "distinct (avail_qp p)" unfolding p by (simp add: distinct_map inj_on_def del: upt_Suc)
    then have "count (mset (avail_qp p)) (j, q) = (if (j, q) \<in> set (avail_qp p) then 1 else 0)" by (simp add: distinct_count_atmost_1)
    then show ?thesis unfolding p by (auto simp del: upt_Suc)
  qed
  have "port_pool (Suc k + i) (ps ! i)" if "i < length ps" for i using Cons.prems [of "Suc i"] that by simp
  from Cons.IH [OF this] 1 show ?case by (auto simp: nth_Cons' Suc_le_eq)
qed simp

lemma do_init_driver_ok:
  assumes "do_init_driver E n cfg = Some d" "32 * n < 2 ^ 32"
  shows "driver_ok d" "books d"
    "count (mset (all_qps d)) (j, q) = (if j < length (ports d) \<and> 1 \<le> q \<and> q \<le> unat (pt_max_qp (ports d ! j)) then 1 else 0)"
proof -
  note s = do_init_driver_Some [OF assms(1)]
  have c: "count (mset (all_qps d)) (j, q) = (if j < length (ports d) \<and> 1 \<le> q \<and> q \<le> unat (pt_max_qp (ports d ! j)) then 1 else 0)" for j q
    using count_pools [of "ports d" 0 j q] s by (simp add: all_qps_def)
  then show "count (mset (all_qps d)) (j, q) = (if j < length (ports d) \<and> 1 \<le> q \<and> q \<le> unat (pt_max_qp (ports d ! j)) then 1 else 0)" .
  have "distinct (all_qps d)" unfolding distinct_count_atmost_1
  proof
    fix x show "count (mset (all_qps d)) x = (if x \<in> set (all_qps d) then 1 else 0)"
      using c [of "fst x" "snd x"] count_mset_0_iff [of "all_qps d" x] by (auto split: if_splits)
  qed
  then show "driver_ok d" using s by (simp add: driver_ok_def)
  have z: "cores (replicate n 0) = {}" by (auto simp: cores_def)
  have "unat (core_avail d) = card (cores (core_mask d)) \<and> length (core_mask d) = length (replicate n (0 :: u32))"
    by (rule init_core_mask_counts [OF s(4)]) (use assms(2) z in \<open>auto simp: min_def\<close>)
  then show "books d" using assms(2) s by (simp add: books_def cores_ok_def pmasks_def)
qed

section \<open>The daemon from its start on\<close>

text \<open>A card with two ports, one queue pair each, and a machine with three cores of which the EAL uses the first.\<close>

definition example_answers_port :: port_answers where
  "example_answers_port = \<lparr>ntuple_supported = True, fdir_supported = False, tx_checksum_offloads = 6, mempools_ok = True, dev_configure_ok = True,
     queue_setup_ok = \<lambda>q. True, kni_ok = True, set_mtu_ok = True, dev_start_ok = True\<rparr>"

definition example_info :: rte_eth_dev_info where
  "example_info = \<lparr>max_rx_queues = 8, max_tx_queues = 8, max_vmdq_pools = 0, vmdq_queue_base = 0, vmdq_queue_num = 0, tx_offload_capa = 6,
     rx_nb_min = 64, rx_nb_max = 4096, rx_nb_align = 32, tx_nb_min = 64, tx_nb_max = 4096, tx_nb_align = 32\<rparr>"

definition example_cfg :: "u32 \<Rightarrow> usiw_port_config" where
  "example_cfg n = \<lparr>id_type = urdma_port_id_index, pci_address = (0, 0, 0, 0), cfg_mtu = 1500, cfg_rx_desc_count = 512, cfg_tx_desc_count = UINT_MAX,
     cfg_rx_burst_size = 32, cfg_tx_burst_size = 8, cfg_max_qp = n, ipv4_address = ''10.0.0.1/24''\<rparr>"

definition example_start :: start_env where
  "example_start = \<lparr>dev_count = 2, answers = \<lambda>_. example_answers_port, dev_info = \<lambda>_. example_info, lookup_pci = \<lambda>_. None,
     ipv4_of = \<lambda>_. Some 0x0100000a, lcores = [(True, False), (True, True), (True, True), (False, False)], setup_ok = True\<rparr>"

lemmas example_start_defs = example_answers_port_def example_info_def example_cfg_def example_start_def

lemma example_port_init:
  "usiw_port_init example_answers_port i n example_info (example_cfg 1) = Some \<lparr>pt_portid = n, pt_rx_desc_count = 512, pt_tx_desc_count = 64,
     pt_rx_burst_size = 32, pt_tx_burst_size = 8, pt_max_qp = 1, avail_qp = [(i, 1)], pt_qp = [zero_urdmad_qp, port_init_qp 1],
     pt_flags = port_checksum_offload OR port_5tuple, pt_ipv4_addr = 0, pt_mtu = 1500\<rparr>"
  by (simp add: usiw_port_init_def usable_queues_def port_max_qp_def desc_count_def port_init_flags_def example_start_defs UINT_MAX_def word_le_nat_alt)

lemma example_started: "\<exists>d. do_init_driver example_start 1 (Inr [example_cfg 1, example_cfg 1]) = Some d \<and> length (ports d) = 2 \<and>
  processes d = [] \<and> core_mask d = [6] \<and> core_avail d = 2 \<and> pt_max_qp (ports d ! 0) = 1 \<and> pt_max_qp (ports d ! 1) = 1"
  using example_port_init by (simp add: do_init_driver_def example_start_def) (simp add: example_cfg_def)

text \<open>
  C4. Every queue pair has one place. Whatever sequence of messages, new connections and kernel
  events the daemon handles after its start, the queue pairs in the pools of the ports, in the
  lists of the processes and in the lists left behind by processes that were closed after an
  error are exactly those of the start, those with the numbers 1 to \<^verbatim>\<open>max_qp\<close> of each port, each
  of them once: none is lost, none is handed out twice.
\<close>

theorem daemon_keeps_every_qp:
  assumes "do_init_driver E n cfg = Some d" "32 * n < 2 ^ 32" "(daemon_step N)\<^sup>*\<^sup>* d d'"
  shows "distinct (all_qps d') \<and>
    set (all_qps d') = {(i, q). i < length (ports d) \<and> 1 \<le> q \<and> q \<le> unat (pt_max_qp (ports d ! i))}"
proof -
  note ok = do_init_driver_ok [OF assms(1,2)]
  have m: "mset (all_qps d') = mset (all_qps d)" "driver_ok d'" using daemon_run_all [OF assms(3) ok(1)] by auto
  have c: "x \<in> set (all_qps d') \<longleftrightarrow> count (mset (all_qps d)) x \<noteq> 0" for x using m(1) by (metis count_eq_zero_iff set_mset_mset)
  then have "(i, q) \<in> set (all_qps d') \<longleftrightarrow> i < length (ports d) \<and> 1 \<le> q \<and> q \<le> unat (pt_max_qp (ports d ! i))" for i q
    unfolding c ok(3) by simp
  then show ?thesis using m(2) unfolding driver_ok_def by blast
qed

theorem daemon_keeps_every_qp_witness:
  "\<exists>d d'. do_init_driver example_start 1 (Inr [example_cfg 1, example_cfg 1]) = Some d \<and> (daemon_step example_nic)\<^sup>*\<^sup>* d d' \<and>
     map fst (processes d') = [5] \<and> set (all_qps d') = {(0, 1), (1, 1)}"
proof -
  obtain d where d: "do_init_driver example_start 1 (Inr [example_cfg 1, example_cfg 1]) = Some d" "length (ports d) = 2" "processes d = []"
      "pt_max_qp (ports d ! 0) = 1" "pt_max_qp (ports d ! 1) = 1" using example_started by blast
  obtain d' where d': "listen_data_ready True (Some 5) True (length (core_mask d)) d = Some d'" "map fst (processes d') = [5]"
    using d(3) by (simp add: listen_data_ready_def)
  then have "daemon_step example_nic d d'" using d(3) by (intro daemon_step.accept [of "Some 5" d True True]) simp_all
  then have s: "(daemon_step example_nic)\<^sup>*\<^sup>* d d'" by blast
  have "{(i, q). i < 2 \<and> 1 \<le> q \<and> q \<le> unat (pt_max_qp (ports d ! i))} = {(0, 1), (1 :: nat, 1)}"
    using d(4,5) by (auto simp: less_2_cases_iff)
  then show ?thesis using daemon_keeps_every_qp [OF d(1) _ s] d(1,2) d'(2) s by fastforce
qed

text \<open>
  C10. The books on processor cores are right in every state that the daemon reaches from its
  start. A core is free or reserved by one process, no two processes share one, the counter is
  the number of free cores, and no core appears that was not free at the start. Every request
  for cores is answered, that is the assertion in the search for a free core never fails, and a
  successful one adds exactly the number asked for.
\<close>

theorem daemon_cores_accounted:
  assumes "do_init_driver E n cfg = Some d" "32 * n < 2 ^ 32" "bsf_spec N" "(daemon_step N)\<^sup>*\<^sup>* d d'"
  shows "books d' \<and> held_cores d' \<subseteq> cores (core_mask d) \<and>
    (\<forall>fd pr c. map_of (processes d') fd = Some pr \<longrightarrow> (\<exists>ok d1. handle_hello N fd c pr d' = Some (ok, d1) \<and>
       (ok \<longrightarrow> (\<exists>pr1. map_of (processes d1) fd = Some pr1 \<and> card (cores (pr_core_mask pr1)) = card (cores (pr_core_mask pr)) + unat c))))"
proof -
  have b: "books d'" "held_cores d' \<subseteq> held_cores d"
    using daemon_run_books [OF assms(4,3)] do_init_driver_ok [OF assms(1,2)] by simp_all
  moreover have "held_cores d = cores (core_mask d)"
    using do_init_driver_Some(2) [OF assms(1)] by (simp add: held_cores_def cores_held_def pmasks_def)
  moreover have "\<exists>ok d1. handle_hello N fd c pr d' = Some (ok, d1) \<and>
       (ok \<longrightarrow> (\<exists>pr1. map_of (processes d1) fd = Some pr1 \<and> card (cores (pr_core_mask pr1)) = card (cores (pr_core_mask pr)) + unat c))"
    if "map_of (processes d') fd = Some pr" for fd pr c
    using handle_hello_books [OF assms(3) b(1) that, of c] by (force split: if_splits)
  ultimately show ?thesis by blast
qed

theorem daemon_cores_accounted_witness:
  "\<exists>d d' pr ok d1. do_init_driver example_start 1 (Inr [example_cfg 1, example_cfg 1]) = Some d \<and> (daemon_step example_nic)\<^sup>*\<^sup>* d d' \<and>
     map_of (processes d') 5 = Some pr \<and> books d' \<and> handle_hello example_nic 5 2 pr d' = Some (ok, d1)"
proof -
  obtain d where d: "do_init_driver example_start 1 (Inr [example_cfg 1, example_cfg 1]) = Some d" "processes d = []" using example_started by blast
  obtain d' pr where d': "listen_data_ready True (Some 5) True (length (core_mask d)) d = Some d'" "map_of (processes d') 5 = Some pr"
    using d(2) by (simp add: listen_data_ready_def)
  then have "daemon_step example_nic d d'" using d(2) by (intro daemon_step.accept [of "Some 5" d True True]) simp_all
  then have s: "(daemon_step example_nic)\<^sup>*\<^sup>* d d'" by blast
  from daemon_cores_accounted [OF d(1) _ example_bsf s] d'(2) d(1) s show ?thesis by fastforce
qed

text \<open>
  What a port starts with. The setup of a port succeeds only with a positive \<^verbatim>\<open>max_qp\<close> in the
  configuration: the default, as many queue pairs as the card has queues, always fails the test
  that keeps one queue for the daemon, although leaving the setting out is meant to be allowed.
  On success there are fewer queue pairs than receive and than transmit queues, the ring sizes
  are within the limits of the card and are those configured, the pool holds the queue pairs 1
  to \<^verbatim>\<open>max_qp\<close>, and the record of each has its number as number and as queues, is unbound, and
  has the device number 0 whatever the port is.
\<close>

theorem usiw_port_init_outcome:
  assumes "rx_nb_min info \<le> rx_nb_max info" "tx_nb_min info \<le> tx_nb_max info"
  shows "(sint (cfg_max_qp cfg) \<le> 0 \<longrightarrow> usiw_port_init A i portid info cfg = None) \<and>
    (case usiw_port_init A i portid info cfg of
      None \<Rightarrow> True
    | Some p \<Rightarrow> pt_max_qp p < max_rx_queues (usable_queues info) \<and> pt_max_qp p < max_tx_queues (usable_queues info) \<and>
        pt_rx_desc_count p \<in> {rx_nb_min info..rx_nb_max info} \<and> pt_tx_desc_count p \<in> {tx_nb_min info..tx_nb_max info} \<and>
        (cfg_rx_desc_count cfg = UINT_MAX \<or> ucast (pt_rx_desc_count p) = cfg_rx_desc_count cfg) \<and>
        (cfg_tx_desc_count cfg = UINT_MAX \<or> ucast (pt_tx_desc_count p) = cfg_tx_desc_count cfg) \<and>
        avail_qp p = map (Pair i) [1..<unat (pt_max_qp p) + 1] \<and> length (pt_qp p) = unat (pt_max_qp p) + 1 \<and>
        list_all (\<lambda>q. shm_qp_id (pt_qp p ! q) = of_nat q \<and> shm_rx_queue (pt_qp p ! q) = of_nat q \<and> shm_tx_queue (pt_qp p ! q) = of_nat q \<and>
          conn_state (pt_qp p ! q) = usiw_qp_unbound \<and> shm_dev_id (pt_qp p ! q) = 0) [1..<unat (pt_max_qp p) + 1])"
proof (cases "usiw_port_init A i portid info cfg")
  case (Some p)
  note s = usiw_port_init_Some [OF Some]
  have q: "pt_qp p ! q = port_init_qp q" if "q \<in> set [1..<unat (pt_max_qp p) + 1]" for q
    using that unfolding s(3) by (auto simp: nth_Cons' simp del: upt_Suc)
  have "length (pt_qp p) = unat (pt_max_qp p) + 1" unfolding s(3) by (simp del: upt_Suc)
  moreover have "list_all (\<lambda>q. shm_qp_id (pt_qp p ! q) = of_nat q \<and> shm_rx_queue (pt_qp p ! q) = of_nat q \<and> shm_tx_queue (pt_qp p ! q) = of_nat q \<and>
      conn_state (pt_qp p ! q) = usiw_qp_unbound \<and> shm_dev_id (pt_qp p ! q) = 0) [1..<unat (pt_max_qp p) + 1]"
    unfolding list_all_iff using q by (simp add: port_init_qp_def zero_urdmad_qp_def del: upt_Suc)
  ultimately show ?thesis
    using Some s(1,2) desc_count_Some [OF s(4) assms(1)] desc_count_Some [OF s(5) assms(2)] by auto
qed simp

theorem usiw_port_init_outcome_example:
  "usiw_port_init example_answers_port 1 1 example_info (example_cfg (-1)) = None \<and>
   (\<exists>p. usiw_port_init example_answers_port 1 1 example_info (example_cfg 1) = Some p \<and> avail_qp p = [(1, 1)] \<and> shm_dev_id (pt_qp p ! 1) = 0)"
proof -
  have l: "rx_nb_min example_info \<le> rx_nb_max example_info" "tx_nb_min example_info \<le> tx_nb_max example_info" by (simp_all add: example_info_def)
  obtain p where p: "usiw_port_init example_answers_port 1 1 example_info (example_cfg 1) = Some p" "pt_max_qp p = 1" using example_port_init by simp
  have "sint (cfg_max_qp (example_cfg (-1))) \<le> 0" by (simp add: example_cfg_def)
  then show ?thesis
    using usiw_port_init_outcome [OF l, of "example_cfg (-1)" example_answers_port 1 1] usiw_port_init_outcome [OF l, of "example_cfg 1" example_answers_port 1 1] p
    by simp
qed

section \<open>Device numbers\<close>

text \<open>
  The device numbers in the records of all queue pairs. No handler of the daemon writes one.
\<close>

definition dev_ids :: "usiw_driver \<Rightarrow> u16 list list" where
  "dev_ids d = map (map shm_dev_id \<circ> pt_qp) (ports d)"

lemma dev_ids_cong: "ports d' = ports d \<Longrightarrow> dev_ids d' = dev_ids d"
  by (simp add: dev_ids_def)

lemma dev_ids_simps [simp]:
  "dev_ids (called cs d) = dev_ids d" "dev_ids (upd_process fd f d) = dev_ids d" "dev_ids (free_process fd d) = dev_ids d"
  "dev_ids (unlink p d) = dev_ids d"
  by (simp_all add: dev_ids_def upd_process_def free_process_def unlink_def comp_def)

lemma dev_ids_upd_port:
  assumes "map shm_dev_id (pt_qp (f (ports d ! i))) = map shm_dev_id (pt_qp (ports d ! i))"
  shows "dev_ids (upd_port i f d) = dev_ids d"
proof (cases "i < length (ports d)")
  case True
  have "map (map shm_dev_id \<circ> pt_qp) ((ports d)[i := f (ports d ! i)]) = (map (map shm_dev_id \<circ> pt_qp) (ports d))[i := map shm_dev_id (pt_qp (ports d ! i))]"
    using assms by (simp add: map_update)
  also have "\<dots> = map (map shm_dev_id \<circ> pt_qp) (ports d)" using True by (simp add: list_update_same_conv)
  finally show ?thesis by (simp add: dev_ids_def upd_port_def)
qed (simp add: upd_port_def list_update_beyond)

lemma list_del_dev_ids: "list_del p d = Some d' \<Longrightarrow> dev_ids d' = dev_ids d"
  by (auto simp: list_del_def split: if_splits)

lemma return_qp_dev_ids:
  assumes "return_qp N i p d = Some d'"
  shows "dev_ids d' = dev_ids d"
proof -
  obtain d1 where d1: "list_del p d = Some d1" "ports d' = ports (upd_port i (\<lambda>pt. pt\<lparr>avail_qp := avail_qp pt @ [p]\<rparr>) d1)"
    using assms by (rule return_qp_lists)
  have "dev_ids d' = dev_ids d1" using dev_ids_cong [OF d1(2)] by (simp add: dev_ids_upd_port)
  then show ?thesis using list_del_dev_ids [OF d1(1)] by simp
qed

lemma process_data_ready_dev_ids:
  assumes "process_data_ready N fd msg d = Some d'"
  shows "dev_ids d' = dev_ids d"
  using assms
proof (cases rule: process_data_ready_cases)
  case (eof pr d1 d2)
  have "dev_ids d1 = dev_ids d"
    by (rule for_each_invariant [OF eof(2)]) (auto dest: return_qp_dev_ids)
  then show ?thesis using return_lcores_fields [OF eof(3)] eof(4) dev_ids_cong [of d2 d1] by simp
next
  case (request pr ok d1)
  have "dev_ids d1 = dev_ids d" if "create_qp_req N fd i d = Some (ok, d1)" for i
    using that by (auto simp: create_qp_req_def send_create_qp_resp_def split: if_splits list.splits Option.bind_splits dest!: list_del_dev_ids)
  moreover have "dev_ids d1 = dev_ids d" if "destroy_qp_req N i q d = Some (ok, d1)" for i q
    using that by (auto simp: destroy_qp_req_def split: if_splits dest!: return_qp_dev_ids)
  moreover have "dev_ids d1 = dev_ids d" if h: "handle_hello N fd c pr d = Some (ok, d1)" for c
  proof -
    obtain ok' m d2 where r: "reserve_cores N c (pr_core_mask pr) d = Some (ok', m, d2)"
      using h by (cases "reserve_cores N c (pr_core_mask pr) d") (auto simp: handle_hello_def)
    then have "dev_ids d1 = dev_ids d2" using h by (auto simp: handle_hello_def Let_def split: if_splits)
    then show ?thesis using reserve_cores_fields [OF r] dev_ids_cong [of d2 d] by simp
  qed
  ultimately have "dev_ids d1 = dev_ids d" using request(3) by blast
  then show ?thesis using request(2) by simp
qed

lemma setup_params_dev_id [simp]: "shm_dev_id (setup_params ev dev rxi txi qp) = shm_dev_id qp"
  by (simp add: setup_params_def Let_def)

lemma add_filter_dev_ids: "add_filter N ev i qp d = (r, d') \<Longrightarrow> dev_ids d' = dev_ids d"
  by (auto simp: add_filter_def Let_def dev_ids_upd_port split: if_splits prod.splits)

lemma store_dev_ids:
  assumes "i < length (dev_ids d)" "q < length (dev_ids d ! i)" "shm_dev_id qp = dev_ids d ! i ! q"
  shows "dev_ids (upd_port i (\<lambda>pt. pt\<lparr>pt_qp := (pt_qp pt)[q := qp]\<rparr>) d) = dev_ids d"
proof (rule dev_ids_upd_port)
  have "dev_ids d ! i = map shm_dev_id (pt_qp (ports d ! i))" using assms(1) by (simp add: dev_ids_def)
  then show "map shm_dev_id (pt_qp ((ports d ! i)\<lparr>pt_qp := (pt_qp (ports d ! i))[q := qp]\<rparr>)) = map shm_dev_id (pt_qp (ports d ! i))"
    using assms by (simp add: map_update list_update_same_conv)
qed

lemma do_setup_qp_dev_ids:
  assumes "do_setup_qp N ev p d = Some (r, d')" "fst p < length (ports d)" "snd p < length (pt_qp (ports d ! fst p))"
  shows "dev_ids d' = dev_ids d"
proof -
  have r: "fst p < length (dev_ids d)" "snd p < length (dev_ids d ! fst p)" "shm_dev_id (qp_at d p) = dev_ids d ! fst p ! snd p"
    using assms(2,3) by (simp_all add: dev_ids_def qp_at_def)
  show ?thesis
    using assms(1) r
    by (auto simp: do_setup_qp_def Let_def store_dev_ids split: Option.bind_splits if_splits prod.splits dest!: add_filter_dev_ids)
qed

lemma daemon_step_dev_ids:
  assumes "daemon_step N d d'"
  shows "dev_ids d' = dev_ids d"
  using assms
proof cases
  case (message fd msg)
  then show ?thesis by (rule process_data_ready_dev_ids)
next
  case (accept fd mok eok)
  then show ?thesis by (auto simp: listen_data_ready_def split: if_splits option.splits intro!: dev_ids_cong)
next
  case (event n ev)
  then show ?thesis
    by (auto simp: chardev_data_ready_def handle_qp_connected_event_def Let_def split: if_splits option.splits Option.bind_splits
        dest!: do_setup_qp_dev_ids)
qed

lemma daemon_run_dev_ids: "(daemon_step N)\<^sup>*\<^sup>* d d' \<Longrightarrow> dev_ids d' = dev_ids d"
  by (induction rule: rtranclp_induct) (simp_all add: daemon_step_dev_ids)

lemma do_init_driver_dev_ids:
  assumes "do_init_driver E n cfg = Some d" "i < length (ports d)" "q \<le> unat (pt_max_qp (ports d ! i))"
  shows "i < length (dev_ids d)" "q < length (dev_ids d ! i)" "dev_ids d ! i ! q = 0"
proof -
  have q: "pt_qp (ports d ! i) = zero_urdmad_qp # map port_init_qp [1..<unat (pt_max_qp (ports d ! i)) + 1]"
    using do_init_driver_Some(1) [OF assms(1,2)] by (simp add: port_pool_def)
  show "i < length (dev_ids d)" using assms(2) by (simp add: dev_ids_def)
  show "q < length (dev_ids d ! i)" "dev_ids d ! i ! q = 0"
    using assms(2,3) unfolding dev_ids_def
    by (simp_all add: q nth_Cons' zero_urdmad_qp_def port_init_qp_def del: upt_Suc)
qed

text \<open>A queue pair that a process owns goes to the end of the pool, and no other pool changes.\<close>

lemma return_owned_qp:
  assumes "return_qp N i p d = Some d'" "driver_ok d" "map_of (processes d) fd = Some pr" "owned_qps pr = p # ps"
  shows "map avail_qp (ports d') = (map avail_qp (ports d))[i := avail_qp (ports d ! i) @ [p]]"
    "map_of (processes d') fd = Some (pr\<lparr>owned_qps := ps\<rparr>)" "driver_ok d'" "i < length (ports d)"
proof -
  obtain d1 where d1: "i < length (ports d)" "list_del p d = Some d1"
    "ports d' = ports (upd_port i (\<lambda>pt. pt\<lparr>avail_qp := avail_qp pt @ [p]\<rparr>) d1)" "processes d' = processes d1"
    using assms(1) by (rule return_qp_lists)
  have u: "d1 = unlink p d" using d1(2) by (simp add: list_del_def split: if_splits)
  have "p \<in> set (concat (map (owned_qps \<circ> snd) (processes d)))" using map_of_SomeD [OF assms(3)] assms(4) by force
  then have "\<forall>pt \<in> set (ports d). p \<notin> set (avail_qp pt)" using assms(2) by (auto simp: driver_ok_def all_qps_def)
  then have av: "map avail_qp (ports d1) = map avail_qp (ports d)" by (simp add: u unlink_def remove1_idem)
  then have "avail_qp (ports d1 ! i) = avail_qp (ports d ! i)" using d1(1) by (metis length_map nth_map)
  then show "map avail_qp (ports d') = (map avail_qp (ports d))[i := avail_qp (ports d ! i) @ [p]]"
    using d1(3) av by (simp add: upd_port_def map_update)
  have "map_of (map (\<lambda>(k, r). (k, r\<lparr>owned_qps := remove1 p (owned_qps r)\<rparr>)) xs) fd
      = map_option (\<lambda>r. r\<lparr>owned_qps := remove1 p (owned_qps r)\<rparr>) (map_of xs fd)" for xs :: "(nat \<times> urdma_process) list"
    by (induction xs) auto
  then show "map_of (processes d') fd = Some (pr\<lparr>owned_qps := ps\<rparr>)" using assms(3,4) by (simp add: d1(4) u unlink_def)
  show "driver_ok d'" using return_qp_all [OF assms(1,2)] driver_ok_mset [of d' d] assms(2) by simp
  show "i < length (ports d)" by (fact d1(1))
qed

lemma return_owned_qps:
  assumes "for_each (\<lambda>p d. return_qp N (unat (shm_dev_id (qp_at d p))) p d) ps d = Some d'" "driver_ok d"
    "map_of (processes d) fd = Some pr" "owned_qps pr = ps"
    "\<forall>p \<in> set ps. fst p < length (dev_ids d) \<and> snd p < length (dev_ids d ! fst p) \<and> dev_ids d ! fst p ! snd p = 0"
  shows "map avail_qp (ports d') = (map avail_qp (ports d))[0 := avail_qp (ports d ! 0) @ ps]"
  using assms
proof (induction ps arbitrary: d pr)
  case Nil
  then show ?case by (cases "ports d") simp_all
next
  case (Cons p ps)
  have z: "unat (shm_dev_id (qp_at d p)) = 0" "ports d \<noteq> []"
    using Cons.prems(5) by (auto simp: qp_at_def dev_ids_def)
  obtain d1 where d1: "return_qp N 0 p d = Some d1"
    "for_each (\<lambda>p d. return_qp N (unat (shm_dev_id (qp_at d p))) p d) ps d1 = Some d'"
    using Cons.prems(1) by (auto simp: z(1) split: Option.bind_splits)
  note o = return_owned_qp [OF d1(1) Cons.prems(2-4)] and i = return_qp_dev_ids [OF d1(1)]
  have ne: "ports d1 \<noteq> []" using o(1) z(2) by (metis length_0_conv length_list_update length_map)
  then have "avail_qp (ports d1 ! 0) = avail_qp (ports d ! 0) @ [p]"
    using arg_cong [OF o(1), of "\<lambda>xs. xs ! 0"] z(2) by simp
  then show ?case using Cons.IH [OF d1(2) o(3,2)] Cons.prems(5) i o(1) by simp
qed

text \<open>
  C35. A process that ends gives all its queue pairs to the pool of port 0. In every state that the
  daemon reaches from its start, the end of a process appends its queue pairs to the pool of port
  0 and leaves the pools of the other ports as they are: the daemon chooses the port by the
  device number in the record of the queue pair, which the start leaves at 0 for every port and
  which no handler writes. A queue pair of another port is from then on handed out to a process
  that asks for port 0.
\<close>

theorem closed_process_qps_to_port_zero:
  assumes "do_init_driver E n cfg = Some d" "32 * n < 2 ^ 32" "(daemon_step N)\<^sup>*\<^sup>* d d1"
    "map_of (processes d1) fd = Some pr" "msg_received msg < 8" "process_data_ready N fd msg d1 = Some d2"
  shows "map avail_qp (ports d2) = (map avail_qp (ports d1))[0 := avail_qp (ports d1 ! 0) @ owned_qps pr]"
proof -
  note ok = do_init_driver_ok [OF assms(1,2)]
  have m: "mset (all_qps d1) = mset (all_qps d)" "driver_ok d1" using daemon_run_all [OF assms(3) ok(1)] by auto
  have ids: "dev_ids d1 = dev_ids d" by (rule daemon_run_dev_ids [OF assms(3)])
  obtain d3 where d3: "for_each (\<lambda>p d. return_qp N (unat (shm_dev_id (qp_at d p))) p d) (owned_qps pr) d1 = Some d3" "ports d2 = ports d3"
    using assms(4-6) by (auto simp: process_data_ready_def free_process_def split: Option.bind_splits dest!: return_lcores_fields)
  have "fst p < length (dev_ids d1) \<and> snd p < length (dev_ids d1 ! fst p) \<and> dev_ids d1 ! fst p ! snd p = 0" if p: "p \<in> set (owned_qps pr)" for p
  proof -
    have "p \<in> set (all_qps d1)" using p map_of_SomeD [OF assms(4)] by (force simp: all_qps_def)
    then have "p \<in># mset (all_qps d)" using m(1) by (metis set_mset_mset)
    then have "count (mset (all_qps d)) (fst p, snd p) \<noteq> 0" by (metis count_eq_zero_iff prod.collapse)
    then show ?thesis unfolding ids using do_init_driver_dev_ids [OF assms(1)] ok(3) by (metis (no_types, lifting))
  qed
  then show ?thesis using return_owned_qps [OF d3(1) m(2) assms(4) refl] d3(2) by simp
qed


lemma example_start_ports:
  "\<exists>d p0 p1. do_init_driver example_start 1 (Inr [example_cfg 1, example_cfg 1]) = Some d \<and> ports d = [p0, p1] \<and>
     avail_qp p0 = [(0, 1)] \<and> avail_qp p1 = [(1, 1)] \<and> pt_qp p1 = [zero_urdmad_qp, port_init_qp 1] \<and> pt_flags p0 = port_checksum_offload OR port_5tuple \<and>
     processes d = [] \<and> orphans d = [] \<and> core_mask d = [6] \<and> core_avail d = 2 \<and> nic_tick d = 0"
  using example_port_init by (simp add: do_init_driver_def example_start_def) (simp add: example_cfg_def)

theorem closed_process_qps_to_port_zero_witness:
  "\<exists>d d1 d2. do_init_driver example_start 1 (Inr [example_cfg 1, example_cfg 1]) = Some d \<and> (daemon_step example_nic)\<^sup>*\<^sup>* d d1 \<and>
     process_data_ready example_nic 5 eof_msg d1 = Some d2 \<and>
     map avail_qp (ports d) = [[(0, 1)], [(1, 1)]] \<and> map avail_qp (ports d2) = [[(0, 1), (1, 1)], []]"
proof -
  obtain d p0 p1 where d: "do_init_driver example_start 1 (Inr [example_cfg 1, example_cfg 1]) = Some d" "ports d = [p0, p1]"
     "avail_qp p0 = [(0, 1)]" "avail_qp p1 = [(1, 1)]" "pt_qp p1 = [zero_urdmad_qp, port_init_qp 1]" "pt_flags p0 = port_checksum_offload OR port_5tuple"
     "processes d = []" "orphans d = []" "core_mask d = [6]" "core_avail d = 2" "nic_tick d = 0"
    using example_start_ports by blast
  let ?d' = "d\<lparr>processes := [(5, \<lparr>owned_qps = [], pr_core_mask = [0]\<rparr>)]\<rparr>"
  have a: "daemon_step example_nic d ?d'"
    by (rule daemon_step.accept [of "Some 5" d True True]) (simp_all add: d listen_data_ready_def)
  let ?pr = "\<lparr>owned_qps = [(1, 1)], pr_core_mask = [0]\<rparr>"
  have "\<exists>d1. process_data_ready example_nic 5 (create_msg 1) ?d' = Some d1 \<and> ports d1 = [p0, p1\<lparr>avail_qp := []\<rparr>] \<and> processes d1 = [(5, ?pr)] \<and> orphans d1 = [] \<and> core_mask d1 = [6] \<and> core_avail d1 = 2"
    by (simp add: process_data_ready_def create_qp_req_def list_del_def linked_def unlink_def upd_process_def send_create_qp_resp_def called_def
      example_driver_defs d remove1_idem)
  then obtain d1 where d1: "process_data_ready example_nic 5 (create_msg 1) ?d' = Some d1" "ports d1 = [p0, p1\<lparr>avail_qp := []\<rparr>]" "processes d1 = [(5, ?pr)]"
     "orphans d1 = []" "core_mask d1 = [6]" "core_avail d1 = 2" by blast
  have run: "(daemon_step example_nic)\<^sup>*\<^sup>* d d1" using a daemon_step.message [OF d1(1)] by (meson converse_rtranclp_into_rtranclp r_into_rtranclp)
  have "\<exists>d2. process_data_ready example_nic 5 eof_msg d1 = Some d2"
    by (simp add: process_data_ready_def return_qp_def list_del_def linked_def unlink_def upd_port_def qp_at_def delete_filter_def called_def
        drain_queue.simps return_lcores_def return_word.simps example_driver_defs port_5tuple_def d d1 zero_urdmad_qp_def port_init_qp_def)
  then obtain d2 where d2: "process_data_ready example_nic 5 eof_msg d1 = Some d2" by blast
  have "map avail_qp (ports d2) = (map avail_qp (ports d1))[0 := avail_qp (ports d1 ! 0) @ owned_qps ?pr]"
    by (rule closed_process_qps_to_port_zero [OF d(1) _ run _ _ d2]) (simp_all add: d1 eof_msg_def)
  then show ?thesis using d run d2 d1(2) by (intro exI [of _ d] exI [of _ d1] exI [of _ d2]) simp
qed

end
