(* ===== verification/Client_Start.thy ===== *)
theory Client_Start
  imports Urdmad_Start Bytes
begin

text \<open>
  The start of a client process (\<^verbatim>\<open>liburdma/driver.c\<close>): the arguments of the EAL are made from
  the configuration file, the daemon is asked for a core, and the mask it answers with becomes
  the last argument. Results of system calls are parameters.
\<close>

section \<open>Arguments\<close>

text \<open>
  The file can be opened, the value of \<^verbatim>\<open>XDG_RUNTIME_DIR\<close>, the name of the process, and the result
  of \<^verbatim>\<open>gethostname\<close>.
\<close>

record config_env =
  config_opens :: bool
  xdg_runtime_dir :: "string option"
  prctl_name :: string
  hostname :: "string option"

text \<open>
  The result of \<^verbatim>\<open>do_config\<close>: false, or the socket name with the arguments and their number; the
  last argument is still null. A negative count makes the size of the array wrap around, so that
  \<^verbatim>\<open>calloc\<close> fails.
\<close>

definition do_config :: "'j json_c \<Rightarrow> config_env \<Rightarrow> 'j \<Rightarrow> (string \<times> nat \<times> arg list) option option" where
  "do_config J E root =
     (if \<not> config_opens E then Some None
      else case config_file_get_sock_name J root (xdg_runtime_dir E) True of
        None \<Rightarrow> Some None
      | Some sock \<Rightarrow>
          case get_arg_count J root of
            Inl _ \<Rightarrow> Some None
          | Inr argc \<Rightarrow> do {
              (r, argv) \<leftarrow> config_file_get_eal_args J root (prctl_name E) (replicate (argc + 6) Arg_null);
              case r of
                Inl _ \<Rightarrow> free_args argc argv \<bind> (\<lambda>_. Some None)
              | Inr _ \<Rightarrow> do {
                  argv \<leftarrow> arg_store argc (Arg ''--proc-type=secondary'') argv;
                  argv \<leftarrow> arg_store (argc + 1) (Arg ''--file-prefix'') argv;
                  case hostname E of
                    None \<Rightarrow> free_args (argc + 2) argv \<bind> (\<lambda>_. Some None)
                  | Some h \<Rightarrow> do {
                      argv \<leftarrow> arg_store (argc + 2) (Arg h) argv;
                      argv \<leftarrow> arg_store (argc + 3) (Arg ''-c'') argv;
                      Some (Some (sock, argc + 5, argv))
                    }
                }
            })"

section \<open>Hello\<close>

text \<open>The bytes of the response that the daemon sends; \<open>max_lcore\<close> is \<^verbatim>\<open>RTE_MAX_LCORE\<close>.\<close>

definition hello_resp_bytes :: "u16 \<Rightarrow> u32 list \<Rightarrow> u16 list \<Rightarrow> u8 list" where
  "hello_resp_bytes max_lcore m qps =
     put_be 4 (5 :: u32) @ put_be 2 (0 :: u16) @ put_be 2 (0 :: u16) @ put_be 2 max_lcore @ put_be 2 (of_nat (length qps) :: u16) @
     concat (map (put_be 4) m) @ concat (map (put_be 2) qps)"

text \<open>
  \<open>sent\<close> says whether the request went out and the wait for the response succeeded, \<open>resp\<close> is the
  message received, and \<open>n\<close> the length of the mask. The result is false, or the mask, the number
  of devices and the number of queue pairs of each. A number of devices that is larger than the
  message makes the copy read behind its buffer.
\<close>

definition do_hello :: "nat \<Rightarrow> bool \<Rightarrow> u8 list option \<Rightarrow> (u32 list \<times> u16 \<times> u16 list) option option" where
  "do_hello n sent resp =
     (if \<not> sent then Some None
      else case resp of
        None \<Rightarrow> Some None
      | Some bs \<Rightarrow>
          if length bs < 12 + 4 * n then Some None
          else let buf = (\<lambda>i. bs ! i);
                   lcore_mask = map (\<lambda>i. get_be 4 buf (12 + 4 * i)) [0..<n];
                   count = get_be 2 buf 10 :: u16
            in if length bs < 12 + 4 * n + 2 * unat count then None
               else Some (Some (lcore_mask, count, map (\<lambda>i. get_be 2 buf (12 + 4 * n + 2 * i)) [0..<unat count])))"

section \<open>The core mask\<close>

text \<open>\<^verbatim>\<open>snprintf\<close> with a fixed width and \<^verbatim>\<open>PRIx32\<close>.\<close>

definition hex_digit :: "nat \<Rightarrow> char" where
  "hex_digit n = ''0123456789abcdef'' ! n"

fun hex_fixed :: "nat \<Rightarrow> nat \<Rightarrow> string" where
  "hex_fixed 0 n = []"
| "hex_fixed (Suc k) n = hex_fixed k (n div 16) @ [hex_digit (n mod 16)]"

definition format_coremask :: "u32 list \<Rightarrow> string" where
  "format_coremask m = ''0x'' @ concat (map (\<lambda>w. hex_fixed 8 (unat w)) (rev m))"

text \<open>
  The arguments that the master thread passes to the EAL: those of the configuration with the
  mask in the last place. \<open>None\<close> if there is no result, \<open>Some None\<close> if the driver does not start.
\<close>

definition eal_arguments :: "'j json_c \<Rightarrow> config_env \<Rightarrow> 'j \<Rightarrow> nat \<Rightarrow> bool \<Rightarrow> u8 list option \<Rightarrow> (nat \<times> arg list) option option" where
  "eal_arguments J E root n sent resp = do {
     c \<leftarrow> do_config J E root;
     case c of
       None \<Rightarrow> Some None
     | Some (sock, argc, argv) \<Rightarrow> do {
         h \<leftarrow> do_hello n sent resp;
         case h of
           None \<Rightarrow> Some None
         | Some (cores_mask, _, _) \<Rightarrow> do {
             argv \<leftarrow> arg_store (argc - 1) (Arg (format_coremask cores_mask)) argv;
             Some (Some (argc, argv))
           }
       }
   }"

section \<open>The mask that is read is the mask that was reserved\<close>

definition hex_val :: "char \<Rightarrow> nat" where
  "hex_val c = (let n = of_char c in if n < 58 then n - 48 else n - 87)"

definition hex_value :: "string \<Rightarrow> nat" where
  "hex_value s = foldl (\<lambda>v c. 16 * v + hex_val c) 0 s"

lemma hex_val_digit: "n < 16 \<Longrightarrow> hex_val (hex_digit n) = n"
proof -
  assume "n < 16"
  moreover have "\<forall>n \<in> set [0..<16]. hex_val (hex_digit n) = n" by code_simp
  ultimately show ?thesis by simp
qed

lemma foldl_hex: "foldl (\<lambda>v c. 16 * v + hex_val c) v s = v * 16 ^ length s + hex_value s"
  unfolding hex_value_def
proof (induction s arbitrary: v)
  case (Cons c s)
  show ?case using Cons [of "16 * v + hex_val c"] Cons [of "hex_val c"] by (simp add: algebra_simps)
qed simp

lemma hex_value_append: "hex_value (s @ t) = hex_value s * 16 ^ length t + hex_value t"
  using foldl_hex [of "hex_value s" t] by (simp add: hex_value_def)

lemma length_hex_fixed [simp]: "length (hex_fixed k n) = k"
  by (induction k arbitrary: n) auto

lemma hex_value_fixed: "hex_value (hex_fixed k n) = n mod 16 ^ k"
proof (induction k arbitrary: n)
  case (Suc k)
  have "hex_value (hex_fixed (Suc k) n) = (n div 16 mod 16 ^ k) * 16 + n mod 16"
    using Suc by (simp add: hex_value_append hex_val_digit) (simp add: hex_value_def hex_val_digit)
  then show ?case by (simp add: mod_mult2_eq mult.commute)
qed (simp add: hex_value_def)

fun mask_value :: "u32 list \<Rightarrow> nat" where
  "mask_value [] = 0"
| "mask_value (w # ws) = unat w + 2 ^ 32 * mask_value ws"

lemma hex_value_format: "hex_value (drop 2 (format_coremask m)) = mask_value m"
proof -
  have "hex_value (concat (map (\<lambda>w. hex_fixed 8 (unat w)) (rev m))) = mask_value m"
  proof (induction m)
    case (Cons w m)
    have "unat w < 16 ^ 8" using unsigned_less [of w] by simp
    then show ?case using Cons by (simp add: hex_value_append hex_value_fixed)
  qed (simp add: hex_value_def)
  then show ?thesis by (simp add: format_coremask_def)
qed

lemma cores_Cons_iff: "(0, k) \<in> cores (w # m) \<longleftrightarrow> bit w k" "(Suc j, k) \<in> cores (w # m) \<longleftrightarrow> (j, k) \<in> cores m"
  by (simp_all add: cores_def)

lemma bit_mask_value: "bit (mask_value m) b \<longleftrightarrow> (b div 32, b mod 32) \<in> cores m"
proof (induction m arbitrary: b)
  case Nil
  then show ?case by (simp add: cores_def)
next
  case (Cons w m)
  let ?x = "unat w + 2 ^ 32 * mask_value m"
  have w: "unat w < 2 ^ 32" using unsigned_less [of w] by simp
  have t: "take_bit 32 ?x = unat w" and d: "drop_bit 32 ?x = mask_value m"
    using w by (simp_all add: take_bit_eq_mod drop_bit_eq_div)
  show ?case
  proof (cases "b < 32")
    case True
    then have "bit ?x b = bit (take_bit 32 ?x) b" by (simp add: bit_take_bit_iff)
    then show ?thesis using True unfolding t by (simp add: cores_Cons_iff bit_unsigned_iff)
  next
    case False
    then obtain c where c: "b = 32 + c" by (metis le_Suc_ex not_less)
    have "bit ?x b = bit (drop_bit 32 ?x) c" by (simp add: bit_drop_bit_eq c add.commute)
    also have "\<dots> \<longleftrightarrow> (c div 32, c mod 32) \<in> cores m" unfolding d by (rule Cons)
    also have "\<dots> \<longleftrightarrow> (b div 32, b mod 32) \<in> cores (w # m)" by (simp add: c cores_Cons_iff div_add_self1)
    finally show ?thesis by simp
  qed
qed

lemma bytes_at_nth: "holds_at (\<lambda>k. (xs @ bs @ ys) ! k) (length xs) bs"
  by (simp add: holds_at_def nth_append)

lemma length_put_be_list: "length (concat (map (put_be n) vs)) = n * length vs"
  by (induction vs) auto

lemma get_be_list:
  assumes "LENGTH('a) = 8 * n" "i < length vs"
  shows "get_be n (\<lambda>k. (xs @ concat (map (put_be n) vs) @ ys) ! k) (length xs + n * i) = (vs ! i :: 'a :: len word)"
proof -
  have vs: "vs = take i vs @ vs ! i # drop (Suc i) vs" using assms(2) by (simp add: id_take_nth_drop)
  have len: "length (concat (map (put_be n) (take i vs))) = n * i" using assms(2) by (simp add: length_put_be_list)
  have "xs @ concat (map (put_be n) vs) @ ys =
      (xs @ concat (map (put_be n) (take i vs))) @ put_be n (vs ! i) @ (concat (map (put_be n) (drop (Suc i) vs)) @ ys)"
    by (subst vs) simp
  then have "holds_at (\<lambda>k. (xs @ concat (map (put_be n) vs) @ ys) ! k) (length xs + n * i) (put_be n (vs ! i))"
    using bytes_at_nth [of "xs @ concat (map (put_be n) (take i vs))" "put_be n (vs ! i)"] len by (simp only: length_append)
  then show ?thesis using get_be_put_be [OF assms(1)] by blast
qed

lemma length_hello: "length (hello_resp_bytes ml m qps) = 12 + 4 * length m + 2 * length qps"
  by (simp add: hello_resp_bytes_def length_put_be_list)

lemma do_hello_reads:
  assumes "length qps < 2 ^ 16"
  shows "do_hello (length m) True (Some (hello_resp_bytes ml m qps)) = Some (Some (m, of_nat (length qps), qps))"
proof -
  let ?bs = "hello_resp_bytes ml m qps"
  let ?h = "put_be 4 (5 :: u32) @ put_be 2 (0 :: u16) @ put_be 2 (0 :: u16) @ put_be 2 ml @ put_be 2 (of_nat (length qps) :: u16)"
  have c: "get_be 2 (\<lambda>i. ?bs ! i) 10 = (of_nat (length qps) :: u16)"
    using get_be_list [where xs = "put_be 4 (5 :: u32) @ put_be 2 (0 :: u16) @ put_be 2 (0 :: u16) @ put_be 2 ml" and n = 2 and i = 0
        and vs = "[of_nat (length qps) :: u16]" and ys = "concat (map (put_be 4) m) @ concat (map (put_be 2) qps)"]
    by (simp add: hello_resp_bytes_def)
  have n: "unat (of_nat (length qps) :: u16) = length qps" using assms by (simp add: unsigned_of_nat take_bit_nat_eq_self)
  have "get_be 4 (\<lambda>i. ?bs ! i) (12 + 4 * i) = m ! i" if "i < length m" for i
    using get_be_list [where xs = ?h and n = 4 and i = i and vs = m and ys = "concat (map (put_be 2) qps)"] that by (simp add: hello_resp_bytes_def)
  then have m: "map (\<lambda>i. get_be 4 (\<lambda>i. ?bs ! i) (12 + 4 * i)) [0..<length m] = m" by (intro nth_equalityI) simp_all
  have "get_be 2 (\<lambda>i. ?bs ! i) (12 + 4 * length m + 2 * i) = qps ! i" if "i < length qps" for i
  proof -
    show ?thesis
      using get_be_list [where xs = "?h @ concat (map (put_be 4) m)" and n = 2 and i = i and vs = qps and ys = "[]"] that
      by (simp add: hello_resp_bytes_def length_put_be_list)
  qed
  then have q: "map (\<lambda>i. get_be 2 (\<lambda>i. ?bs ! i) (12 + 4 * length m + 2 * i)) [0..<length qps] = qps" by (intro nth_equalityI) simp_all
  show ?thesis unfolding do_hello_def by (simp add: Let_def length_hello c n m q)
qed

lemma handle_hello_log:
  assumes "handle_hello N fd c pr d = Some (True, d1)" "map_of (processes d) fd = Some pr"
  shows "\<exists>m. map_of (processes d1) fd = Some (pr\<lparr>pr_core_mask := m\<rparr>) \<and> nic_log d1 = nic_log d @ [Hello_resp fd m (map pt_max_qp (ports d))]"
proof -
  obtain m d' where r: "reserve_cores N c (pr_core_mask pr) d = Some (True, m, d')"
      "d1 = called [Hello_resp fd m (map pt_max_qp (ports d'))] (upd_process fd (\<lambda>pr. pr\<lparr>pr_core_mask := m\<rparr>) d')"
    using assms(1) by (auto simp: handle_hello_def Let_def upd_process_def split: Option.bind_splits if_splits)
  have f: "ports d' = ports d" "processes d' = processes d" using reserve_cores_fields [OF r(1)] by simp_all
  moreover have "nic_log d' = nic_log d" using r(1) by (auto simp: reserve_cores_def split: Option.bind_splits if_splits)
  moreover have "map_of (processes d1) fd = Some (pr\<lparr>pr_core_mask := m\<rparr>)" using assms(2) f(2) by (simp add: r(2) map_of_upd_process)
  ultimately show ?thesis using r(2) by (intro exI [of _ m]) (simp add: called_def upd_process_def)
qed

lemma coremask_bits: "{b. bit (hex_value (drop 2 (format_coremask m))) b} = (\<lambda>(j, k). 32 * j + k) ` cores m"
  unfolding hex_value_format bit_mask_value
proof (intro set_eqI iffI)
  fix b assume "b \<in> {b. (b div 32, b mod 32) \<in> cores m}"
  then show "b \<in> (\<lambda>(j, k). 32 * j + k) ` cores m" by (intro image_eqI [of _ _ "(b div 32, b mod 32)"]) simp_all
next
  fix b assume "b \<in> (\<lambda>(j, k). 32 * j + k) ` cores m"
  then obtain j k where "b = 32 * j + k" "(j, k) \<in> cores m" by auto
  moreover from this have "k < 32" by (auto simp: cores_def dest: bit_u32_less)
  ultimately show "b \<in> {b. (b div 32, b mod 32) \<in> cores m}" by simp
qed

text \<open>
  C5. The client runs on exactly the cores that the daemon reserved for it. When a new process asks
  for cores and the answer goes out, the client reads from its bytes the mask of the process and
  the number of queue pairs of every port, and the hexadecimal number that it passes to the EAL
  has exactly the bits of that mask: as many cores as asked for, all of which were free and none
  of which is free any more.
\<close>

theorem client_runs_on_reserved_cores:
  assumes "bsf_spec N" "books d" "map_of (processes d) fd = Some pr" "cores (pr_core_mask pr) = {}" "length (ports d) < 2 ^ 16"
    "handle_hello N fd c pr d = Some (True, d1)"
  shows "\<exists>m qps. nic_log d1 = nic_log d @ [Hello_resp fd m qps] \<and> qps = map pt_max_qp (ports d) \<and>
    do_hello (length (core_mask d)) True (Some (hello_resp_bytes max_lcore m qps)) = Some (Some (m, of_nat (length qps), qps)) \<and>
    {b. bit (hex_value (drop 2 (format_coremask m))) b} = (\<lambda>(j, k). 32 * j + k) ` cores m \<and>
    cores m \<subseteq> cores (core_mask d) \<and> cores m \<inter> cores (core_mask d1) = {} \<and> card (cores m) = unat c"
proof -
  have free: "\<not> core_avail d < c" using handle_hello_books [OF assms(1-3), of c] assms(6) by (auto split: if_splits)
  have "\<exists>m. map_of (processes d1) fd = Some (pr\<lparr>pr_core_mask := m\<rparr>) \<and> length m = length (core_mask d) \<and>
      cores (core_mask d1) \<union> cores m = cores (core_mask d) \<and> card (cores m) = unat c \<and> books d1"
    using handle_hello_books [OF assms(1-3), of c] unfolding if_not_P [OF free] using assms(4,6) by fastforce
  then obtain m where m: "map_of (processes d1) fd = Some (pr\<lparr>pr_core_mask := m\<rparr>)" "length m = length (core_mask d)"
      "cores (core_mask d1) \<union> cores m = cores (core_mask d)" "card (cores m) = unat c" "books d1" by blast
  obtain m' where m': "map_of (processes d1) fd = Some (pr\<lparr>pr_core_mask := m'\<rparr>)"
      "nic_log d1 = nic_log d @ [Hello_resp fd m' (map pt_max_qp (ports d))]" using handle_hello_log [OF assms(6,3)] by blast
  have "pr\<lparr>pr_core_mask := m'\<rparr> = pr\<lparr>pr_core_mask := m\<rparr>" using m(1) m'(1) by simp
  then have "m' = m" by (metis urdma_process.select_convs(2) urdma_process.surjective urdma_process.update_convs(2))
  moreover have "map_of (pmasks d1) fd = Some m" using m(1) map_of_pmasks [of d1 fd] by simp
  then have "cores m \<inter> cores (core_mask d1) = {}" using cores_okD(5) [OF m(5) [unfolded books_def]] map_of_SomeD by fast
  ultimately show ?thesis using m'(2) m(2-4) do_hello_reads [of "map pt_max_qp (ports d)" m max_lcore] assms(5) coremask_bits [of m]
    by (intro exI [of _ m] exI [of _ "map pt_max_qp (ports d)"]) auto
qed

theorem client_runs_on_reserved_cores_witness:
  "\<exists>d1 m. handle_hello (example_nic\<lparr>sock_send_ret := \<lambda>t. 20\<rparr>) 5 1 \<lparr>owned_qps = [], pr_core_mask = [0]\<rparr> example_driver = Some (True, d1) \<and>
     do_hello 1 True (Some (hello_resp_bytes 32 m [1, 1])) = Some (Some (m, 2, [1, 1])) \<and> card (cores m) = 1 \<and> cores m \<subseteq> cores [6]"
proof -
  let ?N = "example_nic\<lparr>sock_send_ret := \<lambda>t. 20\<rparr>" and ?pr = "\<lparr>owned_qps = [], pr_core_mask = [0]\<rparr>"
  have N: "bsf_spec ?N" using example_bsf by (simp add: bsf_spec_def)
  have pr: "map_of (processes example_driver) 5 = Some ?pr" "cores (pr_core_mask ?pr) = {}" by (auto simp: example_driver_def cores_def)
  have "(case handle_hello ?N 5 1 ?pr example_driver of Some (ok, _) \<Rightarrow> ok | None \<Rightarrow> False)" by code_simp
  then obtain d1 where d1: "handle_hello ?N 5 1 ?pr example_driver = Some (True, d1)" by (auto split: option.splits)
  from client_runs_on_reserved_cores [OF N example_driver_ok(2) pr _ d1, of 32] d1 show ?thesis
    by (auto simp: example_driver_def example_port_def)
qed

section \<open>The arguments of the EAL\<close>

text \<open>All strings that the members of the object give, in order.\<close>

fun eal_strings :: "'j json_c \<Rightarrow> (string \<times> 'j) list \<Rightarrow> string list option" where
  "eal_strings J [] = Some []"
| "eal_strings J ((key, v) # ms) = do { as \<leftarrow> eal_arg J key v; bs \<leftarrow> eal_strings J ms; Some (as @ bs) }"

lemma store_args_result:
  "i \<le> length argv \<Longrightarrow> store_args i ss argv =
     (if i + length ss \<le> length argv then Some (take i argv @ map Arg ss @ drop (i + length ss) argv) else None)"
proof (induction ss arbitrary: i argv)
  case (Cons s ss)
  show ?case
  proof (cases "i < length argv")
    case True
    then have "take (Suc i) (argv[i := Arg s]) = take i argv @ [Arg s]" by (simp add: take_Suc_conv_app_nth)
    then show ?thesis using Cons.IH [of "Suc i" "argv[i := Arg s]"] True by (simp add: arg_store_def)
  qed (use Cons.prems in \<open>simp add: arg_store_def\<close>)
qed simp

lemma eal_args_loop_result:
  assumes "i \<le> length argv" "eal_strings J ms = Some as"
  shows "eal_args_loop J ms i argv =
    (if i + length as \<le> length argv then Some (True, i + length as, take i argv @ map Arg as @ drop (i + length as) argv) else None)"
  using assms
proof (induction ms arbitrary: i argv as)
  case (Cons m ms)
  obtain key v where m: "m = (key, v)" by (cases m)
  obtain bs cs where c: "eal_arg J key v = Some bs" "eal_strings J ms = Some cs" "as = bs @ cs"
    using Cons.prems(2) by (auto simp: m split: Option.bind_splits)
  show ?case
  proof (cases "i + length bs \<le> length argv")
    case True
    let ?argv = "take i argv @ map Arg bs @ drop (i + length bs) argv"
    have "eal_args_loop J (m # ms) i argv = eal_args_loop J ms (i + length bs) ?argv"
      using True Cons.prems(1) by (simp add: m c(1) store_args_result)
    then show ?thesis using Cons.IH [of "i + length bs" ?argv cs] True Cons.prems(1) c(2,3) by (simp add: ac_simps)
  qed (use Cons.prems(1) in \<open>simp add: m c store_args_result\<close>)
qed simp

lemma eal_args_loop_error:
  assumes "i \<le> length argv" "eal_strings J ms = None" "eal_args_loop J ms i argv = Some r"
  shows "\<exists>k argv'. r = (False, k, argv') \<and> i \<le> k \<and> take i argv' = take i argv \<and> k \<le> length argv' \<and> length argv' = length argv"
  using assms
proof (induction ms arbitrary: i argv)
  case (Cons m ms)
  obtain key v where m: "m = (key, v)" by (cases m)
  show ?case
  proof (cases "eal_arg J key v")
    case None
    then show ?thesis using Cons.prems by (auto simp: m)
  next
    case (Some bs)
    let ?argv = "take i argv @ map Arg bs @ drop (i + length bs) argv"
    have fits: "i + length bs \<le> length argv" "eal_args_loop J ms (i + length bs) ?argv = Some r"
      using Cons.prems(1,3) by (simp_all add: m Some store_args_result split: if_splits)
    have "eal_strings J ms = None" using Cons.prems(2) by (auto simp: m Some split: Option.bind_splits)
    from Cons.IH [OF _ this fits(2)] fits(1) obtain k argv' where k: "r = (False, k, argv')" "i + length bs \<le> k"
        "take (i + length bs) argv' = take (i + length bs) ?argv" "k \<le> length argv'" "length argv' = length argv" by auto
    have "take i argv' = take i (take (i + length bs) argv')" by simp
    also have "\<dots> = take i argv" unfolding k(3) using fits(1) by simp
    finally show ?thesis using k by simp
  qed
qed simp

text \<open>What a successful call leaves in the array of \<^verbatim>\<open>do_config\<close>.\<close>

lemma get_eal_args_result:
  assumes "json_object_object_get_ex J root ''eal_args'' = Some obj" "eal_strings J (json_object_members J obj) = Some as"
  shows "config_file_get_eal_args J root name (replicate (Suc k) Arg_null) =
    (if length as < k then Some (Inr (Suc (length as)), Arg name # map Arg as @ replicate (k - length as) Arg_null) else None)"
proof (cases "length as < k")
  case True
  then obtain j where j: "k - length as = Suc j" by (metis Suc_diff_Suc)
  show ?thesis using assms True by (simp add: config_file_get_eal_args_def arg_store_def eal_args_loop_result list_update_append) (simp add: j)
next
  case False
  then show ?thesis using assms by (auto simp: config_file_get_eal_args_def arg_store_def eal_args_loop_result)
qed

lemma get_eal_args_error:
  assumes "json_object_object_get_ex J root ''eal_args'' = Some obj" "eal_strings J (json_object_members J obj) = None"
    "config_file_get_eal_args J root name (replicate (Suc k) Arg_null) = Some (r, argv)"
  shows "r = Inl EINVAL \<and> argv \<noteq> [] \<and> hd argv = Arg_freed"
proof -
  obtain q where q: "eal_args_loop J (json_object_members J obj) 1 (Arg name # replicate k Arg_null) = Some q"
    using assms(1,3) by (auto simp: config_file_get_eal_args_def arg_store_def split: Option.bind_splits)
  from eal_args_loop_error [OF _ assms(2) q] obtain i argv' where i: "q = (False, i, argv')" "1 \<le> i" "take 1 argv' = [Arg name]"
      "i \<le> length argv'" by auto
  then obtain rest where "argv' = Arg name # rest" by (cases argv') auto
  then show ?thesis using assms(1,3) q i(1,2,4) by (cases i) (auto simp: config_file_get_eal_args_def arg_store_def split: if_splits Option.bind_splits)
qed

lemma store_fixed:
  assumes "n + 6 \<le> length g"
  shows "store_args (n + 1) [a, b, c, d] (x # take (n + 6) g) = Some (x # take n g @ map Arg [a, b, c, d] @ take 2 (drop (n + 4) g))"
  using assms by (subst store_args_result) (simp_all add: drop_take min_def eval_nat_numeral)

text \<open>
  C34. The arguments of the EAL. With a file that has the object, and for members that are all
  understood, the array has the layout of the comment if every member gives one argument:
  process name, the arguments, and the four fixed ones before the place of the mask. The code
  counts members, not arguments. A short option with a value gives two, a false flag gives none:
  then the fixed arguments overwrite the last ones or come after null entries, and with more
  than five arguments too many the array is written past its end. A member that is not
  understood makes the strings be freed twice.
\<close>

theorem do_config_arguments:
  assumes "config_opens E" "config_file_get_sock_name J root (xdg_runtime_dir E) True = Some sock" "hostname E = Some h"
    "json_object_object_get_ex J root ''eal_args'' = Some obj" "is_type J obj json_type_object"
  defines "ms \<equiv> json_object_members J obj"
  defines "n \<equiv> length ms"
  shows "do_config J E root =
    (case eal_strings J ms of
       None \<Rightarrow> None
     | Some as \<Rightarrow> let given = map Arg as @ replicate (n + 6) Arg_null in
         if n + 5 < length as then None
         else Some (Some (sock, n + 6, Arg (prctl_name E) # take n given @
           [Arg ''--proc-type=secondary'', Arg ''--file-prefix'', Arg h, Arg ''-c''] @ take 2 (drop (n + 4) given))))"
proof -
  let ?fixed = "[''--proc-type=secondary'', ''--file-prefix'', h, ''-c'']"
  have cnt: "get_arg_count J root = Inr (n + 1)" using assms(4,5) by (simp add: get_arg_count_def n_def ms_def)
  have cfg: "do_config J E root = config_file_get_eal_args J root (prctl_name E) (replicate (Suc (n + 6)) Arg_null) \<bind> (\<lambda>(r, argv). case r of
        Inl _ \<Rightarrow> free_args (n + 1) argv \<bind> (\<lambda>_. Some None)
      | Inr _ \<Rightarrow> store_args (n + 1) ?fixed argv \<bind> (\<lambda>argv. Some (Some (sock, n + 6, argv))))"
    using assms(1-3) cnt unfolding do_config_def by (simp add: numeral_eq_Suc cong: sum.case_cong)
  show ?thesis
  proof (cases "eal_strings J ms")
    case None
    have "free_args (n + 1) argv = None" if "argv \<noteq> []" "hd argv = Arg_freed" for argv
      using that by (cases argv) auto
    then show ?thesis using None get_eal_args_error [OF assms(4) None [unfolded ms_def], of "prctl_name E" "n + 6"]
      unfolding cfg by (auto split: Option.bind_splits sum.splits simp del: free_args.simps)
  next
    case (Some as)
    note g = get_eal_args_result [OF assms(4) Some [unfolded ms_def], of "prctl_name E" "n + 6"]
    show ?thesis
    proof (cases "n + 5 < length as")
      case True
      then show ?thesis using Some g unfolding cfg by simp
    next
      case False
      let ?given = "map Arg as @ replicate (n + 6) Arg_null"
      have arr: "map Arg as @ replicate (n + 6 - length as) Arg_null = take (n + 6) ?given" using False by simp
      have "do_config J E root = store_args (n + 1) ?fixed (Arg (prctl_name E) # take (n + 6) ?given) \<bind> (\<lambda>argv. Some (Some (sock, n + 6, argv)))"
        using g False unfolding cfg arr by simp
      also have "\<dots> = Some (Some (sock, n + 6, Arg (prctl_name E) # take n ?given @ map Arg ?fixed @ take 2 (drop (n + 4) ?given)))"
        by (subst store_fixed) simp_all
      finally show ?thesis using Some False by (simp add: Let_def)
    qed
  qed
qed

text \<open>The memory channels as \<^verbatim>\<open>-n 4\<close>: the number is overwritten.\<close>

definition channels_root :: json where
  "channels_root = J_object [(''socket'', J_string ''/s''), (''eal_args'', J_object [(''n'', J_int 4)])]"

theorem do_config_arguments_witness:
  "do_config example_json \<lparr>config_opens = True, xdg_runtime_dir = None, prctl_name = ''p'', hostname = Some ''h''\<rparr> channels_root =
     Some (Some (''/s'', 7, [Arg ''p'', Arg ''-n'', Arg ''--proc-type=secondary'', Arg ''--file-prefix'', Arg ''h'', Arg ''-c'', Arg_null, Arg_null]))"
proof -
  let ?E = "\<lparr>config_opens = True, xdg_runtime_dir = None, prctl_name = ''p'', hostname = Some ''h''\<rparr>"
  have c: "config_file_get_sock_name example_json channels_root (xdg_runtime_dir ?E) True = Some ''/s''" "hostname ?E = Some ''h''"
    "json_object_object_get_ex example_json channels_root ''eal_args'' = Some (J_object [(''n'', J_int 4)])"
    "is_type example_json (J_object [(''n'', J_int 4)]) json_type_object"
    by (simp_all add: config_file_get_sock_name_def example_json_def channels_root_def)
  have "eal_strings example_json (json_object_members example_json (J_object [(''n'', J_int 4)])) = Some [''-n'', ''4'']" by code_simp
  with do_config_arguments [OF _ c, simplified] show ?thesis by (simp add: example_json_def eval_nat_numeral)
qed

section \<open>Devices\<close>

text \<open>
  What the outside answers for one device: memory, the address of the kernel interface, the
  capabilities of the card (the bits \<open>need\<close> are those of the transmit checksums), and the two
  pools of the daemon.
\<close>

record device_answers =
  da_calloc_ok :: bool
  da_ipv4 :: "u32 option"
  da_tx_capa :: u32
  da_need :: u32
  da_fdir :: bool
  da_rx_mempool :: bool
  da_tx_mempool :: bool

text \<open>
  \<open>qps\<close> is the array from the response of the daemon; a port number behind its end has no result.
  The error is the value of \<^verbatim>\<open>errno\<close>.
\<close>

definition usiw_driver_init :: "device_answers \<Rightarrow> u16 list \<Rightarrow> u16 \<Rightarrow> (errno + usiw_device) option" where
  "usiw_driver_init A qps portid =
     (if \<not> da_calloc_ok A then Some (Inl ENOMEM)
      else case da_ipv4 A of
        None \<Rightarrow> Some (Inl ENOENT)
      | Some addr \<Rightarrow>
          let flags = (if da_tx_capa A AND da_need A = da_need A then port_checksum_offload else 0);
              flags = (if da_fdir A then flags OR port_fdir else flags)
          in if \<not> da_rx_mempool A then Some (Inl ENOENT)
             else if \<not> da_tx_mempool A then Some (Inl ENOENT)
             else if unat portid < length qps
               then Some (Inr \<lparr>dev_portid = portid, dev_max_qp = qps ! unat portid, dev_flags = flags, dev_ipv4_addr = addr\<rparr>)
               else None)"

text \<open>The limit that a device works with is the one of the daemon's port.\<close>

lemma device_limit_is_port_limit:
  assumes "do_hello (length m) True (Some (hello_resp_bytes max_lcore m (map pt_max_qp (ports d)))) = Some (Some (m', n, qps))"
    "usiw_driver_init A qps portid = Some (Inr dev)" "length (ports d) < 2 ^ 16"
  shows "unat portid < length (ports d) \<and> dev_max_qp dev = pt_max_qp (ports d ! unat portid)"
  using assms do_hello_reads [of "map pt_max_qp (ports d)" m max_lcore]
  by (auto simp: usiw_driver_init_def Let_def split: option.splits if_splits)

end
