(* ===== verification/Ipv4_Text.thy ===== *)
theory Ipv4_Text
  imports Port_Config Bytes
begin

text \<open>
  Internet addresses in text (\<^verbatim>\<open>util/util.c\<close>): the parser of \<^verbatim>\<open>a.b.c.d\<close> with an optional length of
  the network part. A C string is the list of its characters before the zero byte.
\<close>

section \<open>The parser\<close>

text \<open>
  \<^verbatim>\<open>strtol\<close> for base 10 on a 64-bit host: the number, whether it sets \<^verbatim>\<open>errno\<close>, and the rest of the
  string. Without digits the result is 0 and nothing is consumed; \<open>e\<close> says whether the library
  reports that, which the standard leaves open.
\<close>

definition is_digit :: "char \<Rightarrow> bool" where
  "is_digit c \<longleftrightarrow> (48 :: nat) \<le> of_char c \<and> of_char c \<le> (57 :: nat)"

definition is_space :: "char \<Rightarrow> bool" where
  "is_space c \<longleftrightarrow> c = CHR '' '' \<or> (9 :: nat) \<le> of_char c \<and> of_char c \<le> (13 :: nat)"

definition digits_value :: "string \<Rightarrow> int" where
  "digits_value s = foldl (\<lambda>v c. 10 * v + (of_char c - 48)) 0 s"

definition strtol :: "bool \<Rightarrow> string \<Rightarrow> int \<times> bool \<times> string" where
  "strtol e s =
     (let s1 = dropWhile is_space s;
          neg = (s1 \<noteq> [] \<and> hd s1 = CHR ''-'');
          s2 = (if s1 \<noteq> [] \<and> (hd s1 = CHR ''-'' \<or> hd s1 = CHR ''+'') then tl s1 else s1);
          ds = takeWhile is_digit s2;
          v = (if neg then - digits_value ds else digits_value ds)
      in if ds = [] then (0, e, s)
         else if v > 2 ^ 63 - 1 then (2 ^ 63 - 1, True, dropWhile is_digit s2)
         else if v < - (2 ^ 63) then (- (2 ^ 63), True, dropWhile is_digit s2)
         else (v, False, dropWhile is_digit s2))"

text \<open>The four numbers; a terminator is a character or the end of the string.\<close>

fun parse_octets :: "bool \<Rightarrow> char option list \<Rightarrow> string \<Rightarrow> u32 \<Rightarrow> (u32 \<times> string) option" where
  "parse_octets e [] str tmp = Some (tmp, str)"
| "parse_octets e (t # ts) str tmp =
     (case strtol e str of (v, err, endptr) \<Rightarrow>
        if err \<or> (case t of None \<Rightarrow> endptr \<noteq> [] | Some c \<Rightarrow> endptr = [] \<or> hd endptr \<noteq> c) \<or> v < 0 \<or> v > 255 then None
        else parse_octets e ts (tl endptr) (push_bit 8 tmp OR (of_int v AND 0xff)))"

text \<open>
  The result is the bytes of the address in memory, and the length of the network part if it is
  asked for; \<open>None\<close> is \<^verbatim>\<open>-EINVAL\<close>.
\<close>

definition parse_ipv4_address :: "bool \<Rightarrow> string \<Rightarrow> bool \<Rightarrow> (u8 list \<times> int option) option" where
  "parse_ipv4_address e str want_prefix =
     (case parse_octets e [Some (CHR ''.''), Some (CHR ''.''), Some (CHR ''.''), if want_prefix then Some (CHR ''/'') else None] str 0 of
        None \<Rightarrow> None
      | Some (tmp, str) \<Rightarrow>
          if \<not> want_prefix then Some (put_be 4 tmp, None)
          else case strtol e str of (v, err, endptr) \<Rightarrow>
            if err \<or> endptr \<noteq> [] \<or> v < 8 \<or> v > 32 then None else Some (put_be 4 tmp, Some v))"

section \<open>Text that is printed is read back\<close>

lemma digit_char:
  assumes "n < 10"
  shows "is_digit (char_of (48 + n))" "of_char (char_of (48 + n) :: char) = (48 + int n)"
    "\<not> is_space (char_of (48 + n))" "char_of (48 + n) \<noteq> CHR ''-''" "char_of (48 + n) \<noteq> CHR ''+''"
proof -
  have n: "(of_char (char_of (48 + n) :: char) :: nat) = 48 + n" using assms by (simp add: of_char_of)
  have ne: "char_of (48 + n) \<noteq> c" if "(of_char c :: nat) < 48" for c using n that by (metis not_add_less1)
  show "char_of (48 + n) \<noteq> CHR ''-''" "char_of (48 + n) \<noteq> CHR ''+''" by (rule ne, simp)+
  show "is_digit (char_of (48 + n))" "\<not> is_space (char_of (48 + n))" using n assms ne [of "CHR '' ''"] by (simp_all add: is_digit_def is_space_def)
  show "of_char (char_of (48 + n) :: char) = (48 + int n)" using n by (metis of_nat_add of_nat_numeral of_nat_of_char)
qed

lemma print_nat_digits: "list_all is_digit (print_nat n) \<and> print_nat n \<noteq> []"
proof (induction n rule: print_nat.induct)
  case (1 n)
  then show ?case by (cases "n < 10") (simp_all add: print_nat.simps [of n] digit_char)
qed

lemma digits_value_append: "digits_value (s @ [c]) = 10 * digits_value s + (of_char c - 48)"
  by (simp add: digits_value_def)

lemma print_nat_value: "digits_value (print_nat n) = int n"
proof (induction n rule: print_nat.induct)
  case (1 n)
  show ?case
  proof (cases "n < 10")
    case True
    then show ?thesis by (simp add: print_nat.simps [of n] digits_value_def digit_char)
  next
    case False
    then show ?thesis using 1 by (simp add: print_nat.simps [of n] digits_value_append digit_char zdiv_int zmod_int)
  qed
qed

lemma print_nat_start: "hd (print_nat n) \<noteq> CHR ''-'' \<and> hd (print_nat n) \<noteq> CHR ''+'' \<and> \<not> is_space (hd (print_nat n))"
proof (induction n rule: print_nat.induct)
  case (1 n)
  show ?case
  proof (cases "n < 10")
    case True
    then show ?thesis by (simp add: print_nat.simps [of n] digit_char)
  next
    case False
    then show ?thesis using 1 print_nat_digits [of "n div 10"] by (simp add: print_nat.simps [of n])
  qed
qed

lemma strtol_print:
  assumes "n < 2 ^ 63" "rest = [] \<or> \<not> is_digit (hd rest)"
  shows "strtol e (print_nat n @ rest) = (int n, False, rest)"
proof -
  obtain c s where s: "print_nat n = c # s" using print_nat_digits [of n] by (cases "print_nat n") auto
  have c: "c \<noteq> CHR ''-''" "c \<noteq> CHR ''+''" "\<not> is_space c" using print_nat_start [of n] by (simp_all add: s)
  have d: "takeWhile is_digit (c # s @ rest) = c # s" "dropWhile is_digit (c # s @ rest) = rest"
    using print_nat_digits [of n] assms(2) unfolding s by (auto simp: list_all_iff takeWhile_append dropWhile_append) (cases rest; simp)+
  have "digits_value (c # s) = int n" using print_nat_value [of n] by (simp add: s)
  then show ?thesis using assms(1) c d unfolding strtol_def Let_def by (simp add: s)
qed

text \<open>The usual way to write an address.\<close>

definition dotted :: "u8 \<Rightarrow> u8 \<Rightarrow> u8 \<Rightarrow> u8 \<Rightarrow> string" where
  "dotted a b c d = print_nat (unat a) @ ''.'' @ print_nat (unat b) @ ''.'' @ print_nat (unat c) @ ''.'' @ print_nat (unat d)"

lemma u8_less: "unat (a :: u8) < 256"
proof -
  have "unat a < 2 ^ LENGTH(8)" by (rule unsigned_less)
  then show ?thesis by simp
qed

definition octets_word :: "u8 \<Rightarrow> u8 \<Rightarrow> u8 \<Rightarrow> u8 \<Rightarrow> u32" where
  "octets_word a b c d = push_bit 8 (push_bit 8 (push_bit 8 (ucast a) OR ucast b) OR ucast c) OR ucast d"

lemma parse_octet:
  assumes "t = (if rest = [] then None else Some (hd rest))" "rest = [] \<or> \<not> is_digit (hd rest)"
  shows "parse_octets e (t # ts) (print_nat (unat (a :: u8)) @ rest) tmp = parse_octets e ts (tl rest) (push_bit 8 tmp OR ucast a)"
proof -
  have a: "unat a < 2 ^ 63" using u8_less [of a] by simp
  have a': "uint a \<le> 255" using u8_less [of a] unfolding uint_nat by linarith
  have "mask 8 = (0xff :: u32)" by (simp add: mask_eq_exp_minus_1)
  then have "(ucast a AND 0xff :: u32) = take_bit 8 (ucast a)" by (simp add: take_bit_eq_mask)
  also have "\<dots> = ucast a" by (rule bit_word_eqI) (auto simp: bit_simps dest: bit_imp_le_length)
  finally show ?thesis using assms a a' by (simp add: strtol_print)
qed

lemma parse_octets_dotted:
  assumes "rest = [] \<or> \<not> is_digit (hd rest)"
  shows "parse_octets e [Some (CHR ''.''), Some (CHR ''.''), Some (CHR ''.''), if rest = [] then None else Some (hd rest)] (dotted a b c d @ rest) 0 =
    Some (octets_word a b c d, tl rest)"
  using assms by (simp add: octets_word_def dotted_def parse_octet is_digit_def del: parse_octets.simps(2))

lemma u8_high: "8 \<le> n \<Longrightarrow> \<not> bit (a :: u8) n"
  using bit_imp_le_length [of a n] by auto

lemma put_be_octets: "put_be 4 (octets_word a b c d) = [a, b, c, d]"
proof -
  have "byte_at (octets_word a b c d) k = [d, c, b, a] ! k" if "k \<in> {0, 1, 2, 3}" for k
    using that by (auto intro!: bit_word_eqI simp: octets_word_def bit_byte_at bit_simps u8_high)
  then show ?thesis by (simp add: put_be_def put_le_def upt_rec)
qed

text \<open>
  C37. Addresses in the usual notation are read correctly: the bytes in memory are the four numbers
  in order, and the length of the network part is the number after the slash, if it is between 8
  and 32. Whatever is accepted has a length in that range.
\<close>

theorem parse_ipv4_address_reads:
  "parse_ipv4_address e (dotted a b c d) False = Some ([a, b, c, d], None) \<and>
   parse_ipv4_address e (dotted a b c d @ ''/'' @ print_nat (unat (p :: u8))) True =
     (if 8 \<le> p \<and> p \<le> 32 then Some ([a, b, c, d], Some (uint p)) else None) \<and>
   (case parse_ipv4_address e str True of Some (_, Some v) \<Rightarrow> v \<in> {8..32} | Some (_, None) \<Rightarrow> False | None \<Rightarrow> True)"
proof (intro conjI)
  show "parse_ipv4_address e (dotted a b c d) False = Some ([a, b, c, d], None)"
    using parse_octets_dotted [of "[]" e a b c d] by (simp add: parse_ipv4_address_def put_be_octets del: parse_octets.simps)
  have p: "unat p < 2 ^ 63" using u8_less [of p] by simp
  show "parse_ipv4_address e (dotted a b c d @ ''/'' @ print_nat (unat p)) True =
     (if 8 \<le> p \<and> p \<le> 32 then Some ([a, b, c, d], Some (uint p)) else None)"
    using parse_octets_dotted [of "''/'' @ print_nat (unat p)" e a b c d] strtol_print [OF p, of "[]" e]
    by (auto simp: parse_ipv4_address_def put_be_octets is_digit_def word_le_def simp del: parse_octets.simps)
  show "case parse_ipv4_address e str True of Some (_, Some v) \<Rightarrow> v \<in> {8..32} | Some (_, None) \<Rightarrow> False | None \<Rightarrow> True"
    by (auto simp: parse_ipv4_address_def split: option.splits prod.splits if_splits)
qed

end
