(* ===== verification/Ccan_List.thy ===== *)
theory Ccan_List
  imports Prelude
begin

text \<open>
  The circular doubly linked lists of \<^verbatim>\<open>ccan/list/list.h\<close> and \<^verbatim>\<open>ccan/list/list.c\<close>, which hold the
  work queue entries, the queue pairs and the processes, at the level of the pointers. The
  other theories work with lists of elements; the refinement and the loop theorem below are
  why they may.

  A pointer to a \<^verbatim>\<open>struct list_node\<close> is a 64-bit address, and the store maps the addresses of the
  nodes that exist to their two pointers: an access elsewhere is a fault, \<open>None\<close>. A
  \<^verbatim>\<open>struct list_head\<close> is one node at offset 0. The flag \<open>dbg\<close> of the operations is whether
  \<^verbatim>\<open>CCAN_LIST_DEBUG\<close> is defined.
\<close>

section \<open>The store\<close>

type_synonym addr = u64

record list_node =
  node_next :: addr
  node_prev :: addr

type_synonym store = "addr \<Rightarrow> list_node option"

abbreviation NULL :: addr where "NULL \<equiv> 0"

definition load_next :: "store \<Rightarrow> addr \<Rightarrow> addr option" where
  "load_next s a = map_option node_next (s a)"

definition load_prev :: "store \<Rightarrow> addr \<Rightarrow> addr option" where
  "load_prev s a = map_option node_prev (s a)"

definition put_next :: "addr \<Rightarrow> addr \<Rightarrow> store \<Rightarrow> store" where
  "put_next a v s = s(a \<mapsto> (the (s a))\<lparr>node_next := v\<rparr>)"

definition put_prev :: "addr \<Rightarrow> addr \<Rightarrow> store \<Rightarrow> store" where
  "put_prev a v s = s(a \<mapsto> (the (s a))\<lparr>node_prev := v\<rparr>)"

definition store_next :: "addr \<Rightarrow> addr \<Rightarrow> store \<Rightarrow> store option" where
  "store_next a v s = (if s a = None then None else Some (put_next a v s))"

definition store_prev :: "addr \<Rightarrow> addr \<Rightarrow> store \<Rightarrow> store option" where
  "store_prev a v s = (if s a = None then None else Some (put_prev a v s))"

section \<open>The checks of \<^verbatim>\<open>list.c\<close>\<close>

text \<open>\<open>abortstr\<close> is whether the string is given: then a corrupt list aborts the program.\<close>

definition corrupt :: "bool \<Rightarrow> addr option" where
  "corrupt abortstr = (if abortstr then None else Some NULL)"

text \<open>The loop follows \<^verbatim>\<open>next\<close> until it is back at \<open>node\<close>; \<open>p\<close> is the node before \<open>n\<close>.\<close>

partial_function (option) list_check_loop :: "bool \<Rightarrow> store \<Rightarrow> addr \<Rightarrow> addr \<Rightarrow> addr \<Rightarrow> addr option" where
  [code]: "list_check_loop abortstr s node p n =
     (if n \<noteq> node then
        load_prev s n \<bind> (\<lambda>q.
        if q \<noteq> p then corrupt abortstr
        else load_next s n \<bind> (\<lambda>n'. list_check_loop abortstr s node n n'))
      else load_prev s node \<bind> (\<lambda>q. if q \<noteq> p then corrupt abortstr else Some node))"

definition list_check_node :: "bool \<Rightarrow> store \<Rightarrow> addr \<Rightarrow> addr option" where
  "list_check_node abortstr s node = do {
     n \<leftarrow> load_next s node;
     list_check_loop abortstr s node node n
   }"

definition list_check :: "bool \<Rightarrow> store \<Rightarrow> addr \<Rightarrow> addr option" where
  "list_check abortstr s h = do {
     r \<leftarrow> list_check_node abortstr s h;
     if r = NULL then Some NULL else Some h
   }"

definition list_debug :: "bool \<Rightarrow> store \<Rightarrow> addr \<Rightarrow> addr option" where
  "list_debug dbg s h = (if dbg then list_check True s h else Some h)"

definition list_debug_node :: "bool \<Rightarrow> store \<Rightarrow> addr \<Rightarrow> addr option" where
  "list_debug_node dbg s n = (if dbg then list_check_node True s n else Some n)"

section \<open>The operations of \<^verbatim>\<open>list.h\<close>\<close>

definition list_node_init :: "addr \<Rightarrow> store \<Rightarrow> store option" where
  "list_node_init n s = store_prev n n s \<bind> store_next n n"

definition list_head_init :: "addr \<Rightarrow> store \<Rightarrow> store option" where
  "list_head_init h s = store_prev h h s \<bind> store_next h h"

definition list_add_after :: "bool \<Rightarrow> addr \<Rightarrow> addr \<Rightarrow> addr \<Rightarrow> store \<Rightarrow> store option" where
  "list_add_after dbg h p n s = do {
     q \<leftarrow> load_next s p;
     s \<leftarrow> store_next n q s;
     s \<leftarrow> store_prev n p s;
     q \<leftarrow> load_next s p;
     s \<leftarrow> store_prev q n s;
     s \<leftarrow> store_next p n s;
     _ \<leftarrow> list_debug dbg s h;
     Some s
   }"

definition list_add :: "bool \<Rightarrow> addr \<Rightarrow> addr \<Rightarrow> store \<Rightarrow> store option" where
  "list_add dbg h n s = list_add_after dbg h h n s"

definition list_add_before :: "bool \<Rightarrow> addr \<Rightarrow> addr \<Rightarrow> addr \<Rightarrow> store \<Rightarrow> store option" where
  "list_add_before dbg h p n s = do {
     s \<leftarrow> store_next n p s;
     q \<leftarrow> load_prev s p;
     s \<leftarrow> store_prev n q s;
     q \<leftarrow> load_prev s p;
     s \<leftarrow> store_next q n s;
     s \<leftarrow> store_prev p n s;
     _ \<leftarrow> list_debug dbg s h;
     Some s
   }"

definition list_add_tail :: "bool \<Rightarrow> addr \<Rightarrow> addr \<Rightarrow> store \<Rightarrow> store option" where
  "list_add_tail dbg h n s = list_add_before dbg h h n s"

definition list_empty :: "bool \<Rightarrow> store \<Rightarrow> addr \<Rightarrow> bool option" where
  "list_empty dbg s h = do {
     _ \<leftarrow> list_debug dbg s h;
     n \<leftarrow> load_next s h;
     Some (n = h)
   }"

definition list_empty_nocheck :: "store \<Rightarrow> addr \<Rightarrow> bool option" where
  "list_empty_nocheck s h = do {
     n \<leftarrow> load_next s h;
     Some (n = h)
   }"

text \<open>\<^verbatim>\<open>list_del\<close>\<close>

definition list_delete :: "bool \<Rightarrow> addr \<Rightarrow> store \<Rightarrow> store option" where
  "list_delete dbg n s = do {
     _ \<leftarrow> list_debug_node dbg s n;
     q \<leftarrow> load_next s n;
     p \<leftarrow> load_prev s n;
     s \<leftarrow> store_prev q p s;
     p \<leftarrow> load_prev s n;
     q \<leftarrow> load_next s n;
     s \<leftarrow> store_next p q s;
     if dbg then store_prev n NULL s \<bind> store_next n NULL else Some s
   }"

definition list_del_init :: "bool \<Rightarrow> addr \<Rightarrow> store \<Rightarrow> store option" where
  "list_del_init dbg n s = list_delete dbg n s \<bind> list_node_init n"

text \<open>The search of \<^verbatim>\<open>list_del_from\<close> under \<^verbatim>\<open>CCAN_LIST_DEBUG\<close>.\<close>

partial_function (option) list_del_from_loop :: "store \<Rightarrow> addr \<Rightarrow> addr \<Rightarrow> addr \<Rightarrow> unit option" where
  [code]: "list_del_from_loop s h n i =
     (if i = n then Some ()
      else if i = h then None
      else load_next s i \<bind> (\<lambda>i'. list_del_from_loop s h n i'))"

definition list_del_from :: "bool \<Rightarrow> addr \<Rightarrow> addr \<Rightarrow> store \<Rightarrow> store option" where
  "list_del_from dbg h n s = do {
     _ \<leftarrow> (if dbg then load_next s h \<bind> list_del_from_loop s h n else Some ());
     e \<leftarrow> list_empty dbg s h;
     assert_c (\<not> e);
     list_delete dbg n s
   }"

definition list_swap :: "bool \<Rightarrow> addr \<Rightarrow> addr \<Rightarrow> store \<Rightarrow> store option" where
  "list_swap dbg old n s = do {
     _ \<leftarrow> list_debug_node dbg s old;
     q \<leftarrow> load_next s old;
     p \<leftarrow> load_prev s old;
     s \<leftarrow> store_next n q s;
     s \<leftarrow> store_prev n p s;
     q \<leftarrow> load_next s n;
     s \<leftarrow> store_prev q n s;
     p \<leftarrow> load_prev s n;
     s \<leftarrow> store_next p n s;
     if dbg then store_prev old NULL s \<bind> store_next old NULL else Some s
   }"

text \<open>
  The structure that holds a node starts \<open>off\<close> bytes before it (\<^verbatim>\<open>list_node_to_off_\<close>,
  \<^verbatim>\<open>list_node_from_off_\<close>).
\<close>

definition list_node_to_off :: "addr \<Rightarrow> addr \<Rightarrow> addr" where
  "list_node_to_off node off = node - off"

definition list_node_from_off :: "addr \<Rightarrow> addr \<Rightarrow> addr" where
  "list_node_from_off p off = p + off"

definition list_top :: "bool \<Rightarrow> store \<Rightarrow> addr \<Rightarrow> addr \<Rightarrow> addr option" where
  "list_top dbg s h off = do {
     e \<leftarrow> list_empty dbg s h;
     if e then Some NULL else do { n \<leftarrow> load_next s h; Some (n - off) }
   }"

definition list_pop :: "bool \<Rightarrow> addr \<Rightarrow> addr \<Rightarrow> store \<Rightarrow> (addr \<times> store) option" where
  "list_pop dbg h off s = do {
     e \<leftarrow> list_empty dbg s h;
     if e then Some (NULL, s)
     else do { n \<leftarrow> load_next s h; s \<leftarrow> list_delete dbg n s; Some (n - off, s) }
   }"

definition list_tail :: "bool \<Rightarrow> store \<Rightarrow> addr \<Rightarrow> addr \<Rightarrow> addr option" where
  "list_tail dbg s h off = do {
     e \<leftarrow> list_empty dbg s h;
     if e then Some NULL else do { n \<leftarrow> load_prev s h; Some (n - off) }
   }"

definition list_entry_or_null :: "addr \<Rightarrow> addr \<Rightarrow> addr \<Rightarrow> addr" where
  "list_entry_or_null h n off = (if n = h then NULL else n - off)"

definition list_next :: "bool \<Rightarrow> store \<Rightarrow> addr \<Rightarrow> addr \<Rightarrow> addr \<Rightarrow> addr option" where
  "list_next dbg s h i off = do {
     h \<leftarrow> list_debug dbg s h;
     n \<leftarrow> load_next s (list_node_from_off i off);
     Some (list_entry_or_null h n off)
   }"

definition list_prev :: "bool \<Rightarrow> store \<Rightarrow> addr \<Rightarrow> addr \<Rightarrow> addr \<Rightarrow> addr option" where
  "list_prev dbg s h i off = do {
     h \<leftarrow> list_debug dbg s h;
     n \<leftarrow> load_prev s (list_node_from_off i off);
     Some (list_entry_or_null h n off)
   }"

definition list_append_list :: "bool \<Rightarrow> addr \<Rightarrow> addr \<Rightarrow> store \<Rightarrow> store option" where
  "list_append_list dbg to from s = do {
     h \<leftarrow> list_debug dbg s from;
     from_tail \<leftarrow> load_prev s h;
     h \<leftarrow> list_debug dbg s to;
     to_tail \<leftarrow> load_prev s h;
     s \<leftarrow> store_prev to from_tail s;
     s \<leftarrow> store_next from_tail to s;
     s \<leftarrow> store_next to_tail from s;
     s \<leftarrow> store_prev from to_tail s;
     s \<leftarrow> list_delete dbg from s;
     list_head_init from s
   }"

definition list_prepend_list :: "bool \<Rightarrow> addr \<Rightarrow> addr \<Rightarrow> store \<Rightarrow> store option" where
  "list_prepend_list dbg to from s = do {
     h \<leftarrow> list_debug dbg s from;
     from_tail \<leftarrow> load_prev s h;
     h \<leftarrow> list_debug dbg s to;
     to_head \<leftarrow> load_next s h;
     s \<leftarrow> store_next to from s;
     s \<leftarrow> store_prev from to s;
     s \<leftarrow> store_prev to_head from_tail s;
     s \<leftarrow> store_next from_tail to_head s;
     s \<leftarrow> list_delete dbg from s;
     list_head_init from s
   }"

text \<open>
  The iteration macros. \<open>dir\<close> is \<open>load_next\<close>, or \<open>load_prev\<close> in the reversed forms; the body works
  on a state of which \<open>heap\<close> is the store. The safe form has read the successor of the current
  element before the body runs.
\<close>

partial_function (option) list_for_each_loop ::
  "(store \<Rightarrow> addr \<Rightarrow> addr option) \<Rightarrow> ('s \<Rightarrow> store) \<Rightarrow> addr \<Rightarrow> addr \<Rightarrow> (addr \<Rightarrow> 's \<Rightarrow> 's option) \<Rightarrow> addr \<Rightarrow> 's \<Rightarrow> 's option" where
  [code]: "list_for_each_loop dir heap h off body i st =
     (if list_node_from_off i off \<noteq> h then
        body i st \<bind> (\<lambda>st'.
        dir (heap st') (list_node_from_off i off) \<bind> (\<lambda>n.
        list_for_each_loop dir heap h off body (list_node_to_off n off) st'))
      else Some st)"

definition list_for_each_off_dir ::
  "bool \<Rightarrow> (store \<Rightarrow> addr \<Rightarrow> addr option) \<Rightarrow> ('s \<Rightarrow> store) \<Rightarrow> addr \<Rightarrow> addr \<Rightarrow> (addr \<Rightarrow> 's \<Rightarrow> 's option) \<Rightarrow> 's \<Rightarrow> 's option" where
  "list_for_each_off_dir dbg dir heap h off body st = do {
     k \<leftarrow> list_debug dbg (heap st) h;
     n \<leftarrow> dir (heap st) k;
     list_for_each_loop dir heap h off body (list_node_to_off n off) st
   }"

partial_function (option) list_for_each_safe_loop ::
  "(store \<Rightarrow> addr \<Rightarrow> addr option) \<Rightarrow> ('s \<Rightarrow> store) \<Rightarrow> addr \<Rightarrow> addr \<Rightarrow> (addr \<Rightarrow> 's \<Rightarrow> 's option) \<Rightarrow> addr \<Rightarrow> addr \<Rightarrow> 's \<Rightarrow> 's option" where
  [code]: "list_for_each_safe_loop dir heap h off body i nxt st =
     (if list_node_from_off i off \<noteq> h then
        body i st \<bind> (\<lambda>st'.
        dir (heap st') (list_node_from_off nxt off) \<bind> (\<lambda>n.
        list_for_each_safe_loop dir heap h off body nxt (list_node_to_off n off) st'))
      else Some st)"

definition list_for_each_safe_off_dir ::
  "bool \<Rightarrow> (store \<Rightarrow> addr \<Rightarrow> addr option) \<Rightarrow> ('s \<Rightarrow> store) \<Rightarrow> addr \<Rightarrow> addr \<Rightarrow> (addr \<Rightarrow> 's \<Rightarrow> 's option) \<Rightarrow> 's \<Rightarrow> 's option" where
  "list_for_each_safe_off_dir dbg dir heap h off body st = do {
     k \<leftarrow> list_debug dbg (heap st) h;
     n \<leftarrow> dir (heap st) k;
     n' \<leftarrow> dir (heap st) (list_node_from_off (list_node_to_off n off) off);
     list_for_each_safe_loop dir heap h off body (list_node_to_off n off) (list_node_to_off n' off) st
   }"

section \<open>Well-formed lists\<close>

text \<open>\<open>links s ps\<close>: each node of the path points to the next one, which points back to it.\<close>

fun links :: "store \<Rightarrow> addr list \<Rightarrow> bool" where
  "links s (a # b # ps) \<longleftrightarrow> load_next s a = Some b \<and> load_prev s b = Some a \<and> links s (b # ps)"
| "links s _ \<longleftrightarrow> True"

definition lst :: "store \<Rightarrow> addr \<Rightarrow> addr list \<Rightarrow> bool" where
  "lst s h ns \<longleftrightarrow> distinct (h # ns) \<and> links s (h # ns @ [h])"

lemma load_put [simp]:
  "load_next (put_next a v s) = (load_next s)(a \<mapsto> v)"
  "load_prev (put_prev a v s) = (load_prev s)(a \<mapsto> v)"
  "s a \<noteq> None \<Longrightarrow> load_prev (put_next a v s) = load_prev s"
  "s a \<noteq> None \<Longrightarrow> load_next (put_prev a v s) = load_next s"
  by (auto simp: load_next_def load_prev_def put_next_def put_prev_def fun_eq_iff)

lemma put_None [simp]:
  "put_next a v s b = None \<longleftrightarrow> b \<noteq> a \<and> s b = None"
  "put_prev a v s b = None \<longleftrightarrow> b \<noteq> a \<and> s b = None"
  by (auto simp: put_next_def put_prev_def)

lemma put_other:
  "b \<noteq> a \<Longrightarrow> put_next a v s b = s b" "b \<noteq> a \<Longrightarrow> put_prev a v s b = s b"
  by (auto simp: put_next_def put_prev_def)

lemma store_Some [simp]:
  "s a \<noteq> None \<Longrightarrow> store_next a v s = Some (put_next a v s)"
  "s a \<noteq> None \<Longrightarrow> store_prev a v s = Some (put_prev a v s)"
  by (auto simp: store_next_def store_prev_def)

lemma load_mapped:
  "load_next s a = Some b \<Longrightarrow> s a \<noteq> None" "load_prev s a = Some b \<Longrightarrow> s a \<noteq> None"
  by (auto simp: load_next_def load_prev_def)

lemma links_append:
  "links s (xs @ a # ys) \<longleftrightarrow> links s (xs @ [a]) \<and> links s (a # ys)"
proof (induction xs)
  case (Cons x xs)
  then show ?case by (cases xs) auto
qed simp

lemma links_cong:
  assumes "\<And>a. a \<in> set (butlast ps) \<Longrightarrow> load_next s' a = load_next s a"
    and "\<And>a. a \<in> set (tl ps) \<Longrightarrow> load_prev s' a = load_prev s a"
  shows "links s' ps = links s ps"
  using assms
proof (induction s ps rule: links.induct)
  case (1 s a b ps)
  have "links s' (b # ps) = links s (b # ps)"
    by (rule "1.IH") (use "1.prems" in \<open>auto split: if_splits dest: in_set_butlastD list.set_sel(2)\<close>)
  then show ?case using "1.prems"(1) [of a] "1.prems"(2) [of b] by simp
qed auto

lemma lst_mapped:
  assumes "lst s h ns" "a \<in> set (h # ns)"
  shows "s a \<noteq> None"
proof -
  obtain xs ys where "h # ns = xs @ a # ys" using assms(2) by (meson split_list)
  then have "h # ns @ [h] = xs @ a # (ys @ [h])" by (metis append_Cons append_assoc)
  then have "links s (a # ys @ [h])" using assms(1) links_append unfolding lst_def by metis
  then show ?thesis by (cases ys) (auto dest: load_mapped)
qed

lemma lst_cong:
  assumes "\<And>a. a \<in> set (h # ns) \<Longrightarrow> s' a = s a"
  shows "lst s' h ns = lst s h ns"
proof -
  have "links s' (h # ns @ [h]) = links s (h # ns @ [h])"
    by (rule links_cong) (use assms in \<open>auto simp: load_next_def load_prev_def butlast_append split: if_splits\<close>)
  then show ?thesis by (simp add: lst_def)
qed

text \<open>A ring may be entered at any of its nodes.\<close>

lemma lst_rotate:
  "lst s h (xs @ n # ys) \<longleftrightarrow> lst s n (ys @ h # xs)"
  using links_append [of s "h # xs" n "ys @ [h]"] links_append [of s "n # ys" h "xs @ [n]"]
  by (auto simp: lst_def)

text \<open>A node of the ring with its two neighbours, which may be one and the same node.\<close>

lemma lst_next:
  assumes "h # ns = xs @ p # ys"
  shows "lst s h ns \<Longrightarrow> load_next s p = Some (hd (ys @ [h]))"
    and "lst s h ns \<Longrightarrow> load_prev s (hd (ys @ [h])) = Some p"
proof -
  have "h # ns @ [h] = xs @ p # (ys @ [h])" using assms by (metis append_Cons append_assoc)
  then have "links s (h # ns @ [h]) \<Longrightarrow> links s (p # ys @ [h])" using links_append by metis
  then show "lst s h ns \<Longrightarrow> load_next s p = Some (hd (ys @ [h]))"
    and "lst s h ns \<Longrightarrow> load_prev s (hd (ys @ [h])) = Some p"
    by (cases ys; simp add: lst_def)+
qed

text \<open>The empty list and the three changes the operations make to a ring entered at \<open>p\<close>.\<close>

lemma lst_Nil:
  "lst s h [] \<longleftrightarrow> load_next s h = Some h \<and> load_prev s h = Some h"
  by (simp add: lst_def)

text \<open>Entering a new node after \<open>p\<close>.\<close>

lemma lst_insert:
  assumes "lst s p ns" "n \<notin> set (p # ns)"
    and "load_next s' = (load_next s)(n \<mapsto> hd (ns @ [p]), p \<mapsto> n)"
    and "load_prev s' = (load_prev s)(n \<mapsto> p, hd (ns @ [p]) \<mapsto> n)"
  shows "lst s' p (n # ns)"
proof (cases ns)
  case (Cons q ms)
  have "links s' (q # ms @ [p]) = links s (q # ms @ [p])"
    by (rule links_cong) (use assms Cons in \<open>auto simp: lst_def butlast_append split: if_splits\<close>)
  then show ?thesis using assms Cons by (auto simp: lst_def)
qed (use assms in \<open>auto simp: lst_def\<close>)

text \<open>Removing the node after \<open>p\<close>; what happens to the pointers of that node does not matter.\<close>

lemma lst_remove:
  assumes "lst s p (n # ns)"
    and "\<And>a. a \<noteq> n \<Longrightarrow> load_next s' a = ((load_next s)(p \<mapsto> hd (ns @ [p]))) a"
    and "\<And>a. a \<noteq> n \<Longrightarrow> load_prev s' a = ((load_prev s)(hd (ns @ [p]) \<mapsto> p)) a"
  shows "lst s' p ns"
proof (cases ns)
  case (Cons q ms)
  have "load_next s' a = load_next s a" if "a \<noteq> n" "a \<noteq> p" for a using assms(2) that by simp
  moreover have "load_prev s' a = load_prev s a" if "a \<noteq> n" "a \<noteq> q" for a using assms(3) that Cons by simp
  ultimately have "links s' (q # ms @ [p]) = links s (q # ms @ [p])"
    by (intro links_cong) (use assms(1) Cons in \<open>(auto simp: lst_def butlast_append split: if_splits; metis)+\<close>)
  then show ?thesis using assms Cons by (auto simp: lst_def)
qed (use assms in \<open>auto simp: lst_def\<close>)

text \<open>A new node in the place of the one after \<open>p\<close>.\<close>

lemma lst_replace:
  assumes "lst s p (m # ns)" "n \<notin> set (p # m # ns)"
    and "\<And>a. a \<noteq> m \<Longrightarrow> load_next s' a = ((load_next s)(n \<mapsto> hd (ns @ [p]), p \<mapsto> n)) a"
    and "\<And>a. a \<noteq> m \<Longrightarrow> load_prev s' a = ((load_prev s)(n \<mapsto> p, hd (ns @ [p]) \<mapsto> n)) a"
  shows "lst s' p (n # ns)"
proof (cases ns)
  case (Cons q ms)
  have "load_next s' a = load_next s a" if "a \<notin> {m, n, p}" for a using assms(3) that by simp
  moreover have "load_prev s' a = load_prev s a" if "a \<notin> {m, n, q}" for a using assms(4) that Cons by simp
  ultimately have "links s' (q # ms @ [p]) = links s (q # ms @ [p])"
    by (intro links_cong) (use assms(1,2) Cons in \<open>(auto simp: lst_def butlast_append split: if_splits; metis)+\<close>)
  then show ?thesis using assms Cons by (auto simp: lst_def)
qed (use assms in \<open>auto simp: lst_def\<close>)

text \<open>The ring of \<open>f\<close> after the node \<open>p\<close> of another ring.\<close>

lemma lst_splice:
  assumes "lst s p ns" "lst s f ms" "set (p # ns) \<inter> set (f # ms) = {}"
    and "load_next s' = (load_next s)(last (f # ms) \<mapsto> hd (ns @ [p]), p \<mapsto> f)"
    and "load_prev s' = (load_prev s)(hd (ns @ [p]) \<mapsto> last (f # ms), f \<mapsto> p)"
  shows "lst s' p (f # ms @ ns)"
proof -
  obtain bs t where fm: "f # ms = bs @ [t]" using rev_exhaust [of "f # ms"] by auto
  obtain q qs where np: "ns @ [p] = q # qs" by (metis neq_Nil_conv snoc_eq_iff_butlast)
  have q: "hd (ns @ [p]) = q" "last (f # ms) = t" by (simp_all only: np fm list.sel last_snoc)
  have d: "distinct (bs @ [t])" "distinct (q # qs)" "set (bs @ [t]) \<inter> set (q # qs) = {}" "p \<in> set (q # qs)" "f \<in> set (bs @ [t])"
    using assms(1,2,3) unfolding lst_def fm [symmetric] np [symmetric] by auto
  have sub: "set (tl (bs @ [t])) \<subseteq> set (bs @ [t])" "set (butlast (q # qs)) \<subseteq> set (q # qs)"
    by (cases bs; simp) (auto dest: in_set_butlastD)
  have pf: "p \<notin> set (butlast (q # qs))" "f \<notin> set (tl (bs @ [t]))"
    using d(2) assms(2) unfolding np [symmetric] fm [symmetric] lst_def by simp_all
  have "links s' (bs @ [t]) = links s (bs @ [t])"
    by (rule links_cong) (use d sub pf assms(4,5) in \<open>(auto simp only: q butlast_snoc fun_upd_apply; auto)+\<close>)
  moreover have "links s' (q # qs) = links s (q # qs)"
    by (rule links_cong) (use d sub pf assms(4,5) in \<open>(auto simp only: q list.sel fun_upd_apply; auto)+\<close>)
  moreover have "links s (bs @ t # [f])" "links s (p # q # qs)"
    using assms(1,2) fm np unfolding lst_def by (metis append_Cons append_assoc append_Nil)+
  then have "links s' (bs @ t # q # qs)"
    using calculation links_append [of s bs t "[f]"] links_append [of s' bs t "q # qs"] assms(4,5) d unfolding q by auto
  moreover have "f # ms @ ns @ [p] = bs @ t # q # qs"
    using arg_cong2 [OF fm np, of append] by simp
  ultimately have "links s' (f # ms @ ns @ [p])" by metis
  then have "links s' (p # f # ms @ ns @ [p])" using assms(4,5) by simp
  then show ?thesis using assms(1,2,3) by (auto simp: lst_def)
qed

text \<open>Appending at the node before \<open>p\<close>.\<close>

lemma lst_before:
  assumes "lst s p ns"
  obtains r rs where "lst s r rs" "r = last (p # ns)" "hd (rs @ [r]) = p" "set (r # rs) = set (p # ns)"
    and "\<And>s' ms. lst s' r (ms @ rs) = lst s' p (ns @ ms)"
proof (cases ns rule: rev_cases)
  case Nil
  show thesis by (rule that [of p "[]"]) (use assms Nil in simp_all)
next
  case (snoc bs r)
  show thesis
  proof (rule that [of r "p # bs"])
    show "lst s r (p # bs)" using assms lst_rotate [of s p bs r "[]"] snoc by simp
    show "\<And>s' ms. lst s' r (ms @ p # bs) = lst s' p (ns @ ms)" using lst_rotate [of _ p bs r] snoc by simp
  qed (use snoc in auto)
qed

lemma lst_insert_last:
  assumes "lst s p ns" "n \<notin> set (p # ns)"
    and "load_next s' = (load_next s)(n \<mapsto> p, last (p # ns) \<mapsto> n)"
    and "load_prev s' = (load_prev s)(n \<mapsto> last (p # ns), p \<mapsto> n)"
  shows "lst s' p (ns @ [n])"
proof -
  obtain r rs where r: "lst s r rs" "r = last (p # ns)" "hd (rs @ [r]) = p" "set (r # rs) = set (p # ns)"
      "\<And>s' ms. lst s' r (ms @ rs) = lst s' p (ns @ ms)"
    using lst_before [OF assms(1)] by metis
  have "lst s' r (n # rs)" by (rule lst_insert [OF r(1)]) (use assms r(2-4) in simp_all)
  then show ?thesis using r(5) [of s' "[n]"] by simp
qed

lemma lst_splice_last:
  assumes "lst s p ns" "lst s f ms" "set (p # ns) \<inter> set (f # ms) = {}"
    and "load_next s' = (load_next s)(last (f # ms) \<mapsto> p, last (p # ns) \<mapsto> f)"
    and "load_prev s' = (load_prev s)(p \<mapsto> last (f # ms), f \<mapsto> last (p # ns))"
  shows "lst s' p (ns @ f # ms)"
proof -
  obtain r rs where r: "lst s r rs" "r = last (p # ns)" "hd (rs @ [r]) = p" "set (r # rs) = set (p # ns)"
      "\<And>s' ms. lst s' r (ms @ rs) = lst s' p (ns @ ms)"
    using lst_before [OF assms(1)] by metis
  have "lst s' r (f # ms @ rs)" by (rule lst_splice [OF r(1) assms(2)]) (use assms r(2-4) in \<open>simp_all only:\<close>)
  then show ?thesis using r(5) [of s' "f # ms"] by simp
qed

text \<open>Entering a ring at the node \<open>p\<close>.\<close>

lemma lst_enter:
  assumes "h # ns = xs @ p # ys"
  shows "lst s h ns \<longleftrightarrow> lst s p (ys @ xs)"
proof (cases xs)
  case (Cons x zs)
  then show ?thesis using assms lst_rotate [of s h zs p ys] by simp
qed (use assms in simp)

lemma lst_neighbours:
  assumes "lst s p ns"
  shows "load_next s p = Some (hd (ns @ [p]))" "load_prev s p = Some (last (p # ns))"
    and "load_prev s (hd (ns @ [p])) = Some p" "load_next s (last (p # ns)) = Some p"
    and "s p \<noteq> None" "s (hd (ns @ [p])) \<noteq> None" "s (last (p # ns)) \<noteq> None"
  using lst_next [of p ns "[]" p ns s] lst_next [of p ns "butlast (p # ns)" "last (p # ns)" "[]" s] assms
  by (auto dest: load_mapped)

section \<open>The checks accept exactly the well-formed lists\<close>

lemma list_check_loop_lst:
  assumes "lst s h (xs @ ys)"
  shows "list_check_loop abortstr s h (last (h # xs)) (hd (ys @ [h])) = Some h"
  using assms
proof (induction ys arbitrary: xs)
  case Nil
  then show ?case using lst_neighbours(2) [of s h xs] by (simp add: list_check_loop.simps)
next
  case (Cons y ys)
  have ring: "h # (xs @ y # ys) = (h # xs) @ y # ys" by simp
  have "lst s y (ys @ h # xs)" using lst_enter [OF ring] Cons.prems by simp
  then have "load_next s y = Some (hd (ys @ [h]))" "load_prev s y = Some (last (h # xs))" "y \<noteq> h"
    using lst_neighbours(1,2) [of s y "ys @ h # xs"] Cons.prems by (auto simp: lst_def hd_append)
  then show ?case using Cons.IH [of "xs @ [y]"] Cons.prems by (subst list_check_loop.simps) simp
qed

lemma list_check_node_lst [simp]: "lst s h ns \<Longrightarrow> list_check_node abortstr s h = Some h"
  using list_check_loop_lst [of s h "[]" ns] lst_neighbours(1) [of s h ns] by (simp add: list_check_node_def)

lemma list_debug_lst [simp]:
  "lst s h ns \<Longrightarrow> list_debug dbg s h = Some h"
  "lst s n ms \<Longrightarrow> list_debug_node dbg s n = Some n"
  by (simp_all add: list_debug_def list_debug_node_def list_check_def)

section \<open>What each operation does to a list\<close>

text \<open>\<open>frame X s s'\<close>: only nodes in \<open>X\<close> are written, and no node appears or goes.\<close>

definition frame :: "addr set \<Rightarrow> store \<Rightarrow> store \<Rightarrow> bool" where
  "frame X s s' \<longleftrightarrow> (\<forall>a. a \<notin> X \<longrightarrow> s' a = s a) \<and> (\<forall>a. s' a = None \<longleftrightarrow> s a = None)"

lemma frame_refl [simp]: "frame X s s"
  by (simp add: frame_def)

lemma frame_put [intro]:
  "frame X s s' \<Longrightarrow> a \<in> X \<Longrightarrow> s' a \<noteq> None \<Longrightarrow> frame X s (put_next a v s')"
  "frame X s s' \<Longrightarrow> a \<in> X \<Longrightarrow> s' a \<noteq> None \<Longrightarrow> frame X s (put_prev a v s')"
  by (auto simp: frame_def put_next_def put_prev_def)

lemma frame_trans:
  "frame X s s' \<Longrightarrow> frame Y s' s'' \<Longrightarrow> X \<subseteq> Z \<Longrightarrow> Y \<subseteq> Z \<Longrightarrow> frame Z s s''"
  unfolding frame_def by (metis subsetD)

lemma frame_mapped: "frame X s s' \<Longrightarrow> s' a = None \<longleftrightarrow> s a = None"
  by (simp add: frame_def)

lemma frame_lst: "frame X s s' \<Longrightarrow> set (h # ns) \<inter> X = {} \<Longrightarrow> lst s' h ns = lst s h ns"
  by (rule lst_cong) (auto simp: frame_def)

lemma list_head_init_lst:
  assumes "s h \<noteq> None"
  obtains s' where "list_head_init h s = Some s'" "lst s' h []" "frame {h} s s'"
proof (rule that)
  show "frame {h} s (put_next h h (put_prev h h s))" using assms by (intro frame_put) auto
qed (use assms in \<open>simp_all add: list_head_init_def lst_Nil\<close>)

text \<open>The neighbours of a node \<open>p\<close> of the list, with the ring entered there.\<close>

lemma lst_at:
  assumes "lst s h ns" "h # ns = xs @ p # ys"
  obtains zs q r where "lst s p zs" "zs = ys @ xs" "set (h # ns) = set (p # zs)" "q = hd (zs @ [p])" "r = last (p # zs)"
    and "load_next s p = Some q" "load_prev s q = Some p" "load_prev s p = Some r" "load_next s r = Some p"
    and "s p \<noteq> None" "s q \<noteq> None" "s r \<noteq> None" "p \<in> set (h # ns)" "q \<in> set (h # ns)" "r \<in> set (h # ns)"
proof -
  have "lst s p (ys @ xs)" using assms(1) lst_enter [OF assms(2)] by simp
  moreover have sets: "set (h # ns) = set (p # ys @ xs)" unfolding assms(2) by auto
  moreover have "hd ((ys @ xs) @ [p]) \<in> set (p # ys @ xs)" by (cases "ys @ xs") auto
  moreover have "last (p # ys @ xs) \<in> set (p # ys @ xs)" by (rule last_in_set) simp
  ultimately show thesis using that lst_neighbours [of s p "ys @ xs"] by (metis list.set_intros(1))
qed

lemma list_add_after_lst:
  assumes "lst s h ns" "h # ns = xs @ p # ys" "n \<notin> set (h # ns)" "s n \<noteq> None"
  obtains s' where "list_add_after dbg h p n s = Some s'" "lst s' h (tl (xs @ p # n # ys))" "frame (set (n # h # ns)) s s'"
proof -
  obtain zs q r where at: "lst s p zs" "zs = ys @ xs" "set (h # ns) = set (p # zs)" "q = hd (zs @ [p])" "r = last (p # zs)"
    and nb: "load_next s p = Some q" "load_prev s q = Some p" "load_prev s p = Some r" "load_next s r = Some p"
      "s p \<noteq> None" "s q \<noteq> None" "s r \<noteq> None" "p \<in> set (h # ns)" "q \<in> set (h # ns)" "r \<in> set (h # ns)"
    by (rule lst_at [OF assms(1,2)])
  define s' where "s' = put_next p n (put_prev q n (put_prev n p (put_next n q s)))"
  have ne: "n \<noteq> p" "n \<noteq> q" "n \<notin> set (p # zs)" using nb assms(3) at(3) by metis+
  have "lst s' p (n # zs)"
    by (rule lst_insert [OF at(1) ne(3)]) (use assms(4) nb ne(1,2) in \<open>simp_all add: s'_def at(4) [symmetric]\<close>)
  moreover have "h # tl (xs @ p # n # ys) = xs @ p # (n # ys)" using assms(2) by (cases xs) auto
  ultimately have l: "lst s' h (tl (xs @ p # n # ys))" using lst_enter at(2) by (metis append_Cons)
  have "frame (set (n # h # ns)) s s'" unfolding s'_def using nb assms(4) by (intro frame_put) auto
  moreover have "list_add_after dbg h p n s = Some s'"
    using assms(4) nb ne list_debug_lst(1) [OF l, of dbg] by (simp add: list_add_after_def s'_def)
  ultimately show thesis using that l by blast
qed

lemma list_add_before_lst:
  assumes "lst s h ns" "h # ns = xs @ p # ys" "n \<notin> set (h # ns)" "s n \<noteq> None"
  obtains s' where "list_add_before dbg h p n s = Some s'" "frame (set (n # h # ns)) s s'"
    and "lst s' h (if p = h then ns @ [n] else tl (xs @ n # p # ys))"
proof -
  obtain zs q r where at: "lst s p zs" "zs = ys @ xs" "set (h # ns) = set (p # zs)" "q = hd (zs @ [p])" "r = last (p # zs)"
    and nb: "load_next s p = Some q" "load_prev s q = Some p" "load_prev s p = Some r" "load_next s r = Some p"
      "s p \<noteq> None" "s q \<noteq> None" "s r \<noteq> None" "p \<in> set (h # ns)" "q \<in> set (h # ns)" "r \<in> set (h # ns)"
    by (rule lst_at [OF assms(1,2)])
  define s' where "s' = put_prev p n (put_next r n (put_prev n r (put_next n p s)))"
  have ne: "n \<noteq> p" "n \<noteq> r" "n \<notin> set (p # zs)" using nb assms(3) at(3) by metis+
  have l: "lst s' p (zs @ [n])"
    by (rule lst_insert_last [OF at(1) ne(3)]) (use assms(4) nb ne(1,2) in \<open>simp_all add: s'_def at(5) [symmetric] del: last.simps\<close>)
  have l': "lst s' h (if p = h then ns @ [n] else tl (xs @ n # p # ys))"
  proof (cases xs)
    case (Cons x zs)
    then have "h # tl (xs @ n # p # ys) = (xs @ [n]) @ p # ys" "p \<noteq> h" using assms(1,2) by (auto simp: lst_def)
    then show ?thesis using l at(2) lst_enter [of h _ "xs @ [n]" p ys s'] by simp
  qed (use l assms(2) at(2) in auto)
  have "frame (set (n # h # ns)) s s'" unfolding s'_def using nb assms(4) by (intro frame_put) auto
  moreover have "list_add_before dbg h p n s = Some s'"
    using assms(4) nb ne list_debug_lst(1) [OF l', of dbg] by (simp add: list_add_before_def s'_def)
  ultimately show thesis using that l' by blast
qed

text \<open>The predecessor \<open>p\<close> and the successor \<open>q\<close> of an element.\<close>

lemma lst_around:
  assumes "lst s h (xs @ n # ys)"
  obtains p q bs where "h # xs = bs @ [p]" "q = hd ((ys @ bs) @ [p])" "lst s p (n # ys @ bs)"
    and "load_next s p = Some n" "load_prev s n = Some p" "load_next s n = Some q" "load_prev s q = Some n"
    and "p \<noteq> n" "q \<noteq> n" "p \<in> set (h # xs @ ys)" "q \<in> set (h # xs @ ys)" "n \<notin> set (h # xs @ ys)"
    and "s p \<noteq> None" "s q \<noteq> None" "s n \<noteq> None"
proof -
  obtain bs p where bs: "h # xs = bs @ [p]" using rev_exhaust [of "h # xs"] by auto
  have ring: "h # (xs @ n # ys) = bs @ p # (n # ys)" "h # (xs @ n # ys) = (h # xs) @ n # ys"
    using arg_cong [OF bs, of "\<lambda>l. l @ n # ys"] by simp_all
  have p: "lst s p (n # ys @ bs)" using assms lst_enter [OF ring(1)] by simp
  have n: "lst s n (ys @ h # xs)" using assms lst_enter [OF ring(2)] by simp
  define q where "q = hd ((ys @ bs) @ [p])"
  have "q = hd ((ys @ h # xs) @ [n])" unfolding q_def using bs by (cases ys; cases bs) auto
  moreover have "last (n # ys @ h # xs) = p" by (metis bs last_appendR last_ConsR last_snoc list.distinct(1) append_is_Nil_conv)
  moreover have "q \<in> set (h # xs @ ys)" using bs by (cases ys; cases bs) (auto simp: q_def)
  moreover have "p \<in> set (h # xs @ ys)" using arg_cong [OF bs, of set] by auto
  moreover have "n \<notin> set (h # xs @ ys)" using assms by (auto simp: lst_def)
  ultimately show thesis using that [OF bs q_def p] lst_neighbours [OF n] by metis
qed

lemma lst_remove_around:
  assumes "lst s h (xs @ n # ys)" "load_prev s n = Some p" "load_next s n = Some q"
    and "\<And>a. a \<noteq> n \<Longrightarrow> load_next s' a = ((load_next s)(p \<mapsto> q)) a"
    and "\<And>a. a \<noteq> n \<Longrightarrow> load_prev s' a = ((load_prev s)(q \<mapsto> p)) a"
  shows "lst s' h (xs @ ys)"
proof -
  obtain p' q' bs where ar: "h # xs = bs @ [p']" "q' = hd ((ys @ bs) @ [p'])" "lst s p' (n # ys @ bs)"
    "load_prev s n = Some p'" "load_next s n = Some q'" by (rule lst_around [OF assms(1)])
  have "lst s' p' (ys @ bs)"
    by (rule lst_remove [OF ar(3)]) (use ar(2,4,5) assms(2-5) in \<open>simp_all only: option.inject\<close>)
  moreover have "h # (xs @ ys) = bs @ p' # ys" using arg_cong [OF ar(1), of "\<lambda>l. l @ ys"] by simp
  ultimately show ?thesis using lst_enter by metis
qed

lemma lst_replace_around:
  assumes "lst s h (xs @ m # ys)" "load_prev s m = Some p" "load_next s m = Some q" "n \<notin> set (h # xs @ m # ys)"
    and "\<And>a. a \<noteq> m \<Longrightarrow> load_next s' a = ((load_next s)(n \<mapsto> q, p \<mapsto> n)) a"
    and "\<And>a. a \<noteq> m \<Longrightarrow> load_prev s' a = ((load_prev s)(n \<mapsto> p, q \<mapsto> n)) a"
  shows "lst s' h (xs @ n # ys)"
proof -
  obtain p' q' bs where ar: "h # xs = bs @ [p']" "q' = hd ((ys @ bs) @ [p'])" "lst s p' (m # ys @ bs)"
    "load_prev s m = Some p'" "load_next s m = Some q'" by (rule lst_around [OF assms(1)])
  have "set (h # xs @ m # ys) = set (p' # m # ys @ bs)" using arg_cong [OF ar(1), of set] by auto
  then have "n \<notin> set (p' # m # ys @ bs)" using assms(4) by metis
  then have "lst s' p' (n # ys @ bs)"
    by (rule lst_replace [OF ar(3)]) (use ar(2,4,5) assms(2,3,5,6) in \<open>simp_all only: option.inject\<close>)
  moreover have "h # (xs @ n # ys) = bs @ p' # (n # ys)" using arg_cong [OF ar(1), of "\<lambda>l. l @ n # ys"] by simp
  ultimately show ?thesis using lst_enter by (metis append_Cons)
qed

lemma list_delete_lst:
  assumes "lst s h (xs @ n # ys)"
  obtains s' where "list_delete dbg n s = Some s'" "lst s' h (xs @ ys)" "frame (set (n # h # xs @ ys)) s s'"
proof -
  obtain p q bs where nb: "load_next s p = Some n" "load_prev s n = Some p" "load_next s n = Some q" "load_prev s q = Some n"
     "p \<noteq> n" "q \<noteq> n" "p \<in> set (h # xs @ ys)" "q \<in> set (h # xs @ ys)" "n \<notin> set (h # xs @ ys)"
     "s p \<noteq> None" "s q \<noteq> None" "s n \<noteq> None" by (rule lst_around [OF assms])
  define s1 where "s1 = put_next p q (put_prev q p s)"
  define s' where "s' = (if dbg then put_next n NULL (put_prev n NULL s1) else s1)"
  have "load_next s' a = ((load_next s)(p \<mapsto> q)) a" "load_prev s' a = ((load_prev s)(q \<mapsto> p)) a" if "a \<noteq> n" for a
    using that nb(10-12) by (simp_all add: s'_def s1_def)
  then have "lst s' h (xs @ ys)" by (rule lst_remove_around [OF assms nb(2,3)])
  moreover have "frame (set (n # h # xs @ ys)) s s'"
    unfolding s'_def s1_def using nb by (cases dbg; simp only: if_True if_False; intro frame_put; simp)
  moreover have "lst s n (ys @ h # xs)" using assms lst_rotate by simp
  then have "list_delete dbg n s = Some s'" using nb by (simp add: list_delete_def s'_def s1_def)
  ultimately show thesis using that by blast
qed

lemma list_swap_lst:
  assumes "lst s h (xs @ m # ys)" "n \<notin> set (h # xs @ m # ys)" "s n \<noteq> None"
  obtains s' where "list_swap dbg m n s = Some s'" "lst s' h (xs @ n # ys)" "frame (set (n # m # h # xs @ ys)) s s'"
proof -
  obtain p q bs where nb: "load_next s p = Some m" "load_prev s m = Some p" "load_next s m = Some q" "load_prev s q = Some m"
     "p \<noteq> m" "q \<noteq> m" "p \<in> set (h # xs @ ys)" "q \<in> set (h # xs @ ys)" "m \<notin> set (h # xs @ ys)"
     "s p \<noteq> None" "s q \<noteq> None" "s m \<noteq> None" by (rule lst_around [OF assms(1)])
  have ne: "n \<noteq> p" "n \<noteq> q" "n \<noteq> m" using nb assms(2) by auto
  define s1 where "s1 = put_next p n (put_prev q n (put_prev n p (put_next n q s)))"
  define s' where "s' = (if dbg then put_next m NULL (put_prev m NULL s1) else s1)"
  have "load_next s' a = ((load_next s)(n \<mapsto> q, p \<mapsto> n)) a" "load_prev s' a = ((load_prev s)(n \<mapsto> p, q \<mapsto> n)) a" if "a \<noteq> m" for a
    using that nb(10-12) assms(3) by (simp_all add: s'_def s1_def)
  then have "lst s' h (xs @ n # ys)" by (rule lst_replace_around [OF assms(1) nb(2,3) assms(2)])
  moreover have "frame (set (n # m # h # xs @ ys)) s s'"
    unfolding s'_def s1_def using nb assms(3) by (cases dbg; simp only: if_True if_False; intro frame_put; simp)
  moreover have "lst s m (ys @ h # xs)" using assms lst_rotate by simp
  then have "list_swap dbg m n s = Some s'" using nb ne assms(3) by (simp add: list_swap_def s'_def s1_def)
  ultimately show thesis using that by blast
qed

lemma list_append_list_lst:
  assumes "lst s to ns" "lst s from ms" "set (to # ns) \<inter> set (from # ms) = {}"
  obtains s' where "list_append_list dbg to from s = Some s'" "lst s' to (ns @ ms)" "lst s' from []"
    and "frame (set (to # from # ns @ ms)) s s'"
proof -
  let ?X = "set (to # from # ns @ ms)"
  let ?tt = "last (to # ns)" and ?ft = "last (from # ms)"
  have mem: "?tt \<in> set (to # ns)" "?ft \<in> set (from # ms)" by (rule last_in_set; simp)+
  have ne: "?tt \<noteq> ?ft" "to \<noteq> from" using mem assms(3) by auto
  note nb = lst_neighbours [OF assms(1)] lst_neighbours [OF assms(2)]
  define s1 where "s1 = put_prev from ?tt (put_next ?tt from (put_next ?ft to (put_prev to ?ft s)))"
  have "load_next s1 = (load_next s)(?ft \<mapsto> to, ?tt \<mapsto> from)" "load_prev s1 = (load_prev s)(to \<mapsto> ?ft, from \<mapsto> ?tt)"
    using nb(5,7,12,14) by (simp_all add: s1_def del: last.simps)
  then have "lst s1 to (ns @ from # ms)" by (rule lst_splice_last [OF assms])
  then obtain s2 where s2: "list_delete dbg from s1 = Some s2" "lst s2 to (ns @ ms)" "frame ?X s1 s2"
    by (rule list_delete_lst [where dbg = dbg]) (auto simp: insert_commute)
  have fr: "frame ?X s s1" unfolding s1_def using nb(5,7,12,14) mem by (intro frame_put) (auto simp del: last.simps)
  then have "s2 from \<noteq> None" using nb(12) frame_mapped [OF s2(3)] frame_mapped [OF fr] by metis
  then obtain s' where s': "list_head_init from s2 = Some s'" "lst s' from []" "frame {from} s2 s'"
    by (rule list_head_init_lst)
  have "lst s' to (ns @ ms)" 
    using s2(2) frame_lst [OF s'(3), of to "ns @ ms"] assms(2,3) by (auto simp: lst_def)
  moreover have "list_append_list dbg to from s = Some s'"
    using nb s2(1) s'(1) assms(1,2) by (simp add: list_append_list_def s1_def del: last.simps)
  moreover have "frame ?X s s'"
    using frame_trans [OF fr frame_trans [OF s2(3) s'(3), of ?X], of ?X] by simp
  ultimately show thesis using that s'(2) by blast
qed

lemma list_prepend_list_lst:
  assumes "lst s to ns" "lst s from ms" "set (to # ns) \<inter> set (from # ms) = {}"
  obtains s' where "list_prepend_list dbg to from s = Some s'" "lst s' to (ms @ ns)" "lst s' from []"
    and "frame (set (to # from # ns @ ms)) s s'"
proof -
  let ?X = "set (to # from # ns @ ms)"
  let ?th = "hd (ns @ [to])" and ?ft = "last (from # ms)"
  have mem: "?th \<in> set (to # ns)" "?ft \<in> set (from # ms)" by (cases ns; simp) (rule last_in_set; simp)
  have ne: "?th \<noteq> from" "to \<noteq> ?ft" "to \<noteq> from" using mem assms(3) by auto
  note nb = lst_neighbours [OF assms(1)] lst_neighbours [OF assms(2)]
  define s1 where "s1 = put_next ?ft ?th (put_prev ?th ?ft (put_prev from to (put_next to from s)))"
  have "load_next s1 = (load_next s)(?ft \<mapsto> ?th, to \<mapsto> from)" "load_prev s1 = (load_prev s)(?th \<mapsto> ?ft, from \<mapsto> to)"
    using nb(5,6,12,14) ne by (simp_all add: s1_def fun_upd_twist del: last.simps)
  then have "lst s1 to ([] @ from # ms @ ns)" using lst_splice [OF assms] by simp
  then obtain s2 where s2: "list_delete dbg from s1 = Some s2" "lst s2 to (ms @ ns)" "frame ?X s1 s2"
    by (rule list_delete_lst [where dbg = dbg]) (auto simp: insert_commute Un_commute)
  have fr: "frame ?X s s1" unfolding s1_def using nb(5,6,12,14) mem by (intro frame_put) (auto simp del: last.simps)
  then have "s2 from \<noteq> None" using nb(12) frame_mapped [OF s2(3)] frame_mapped [OF fr] by metis
  then obtain s' where s': "list_head_init from s2 = Some s'" "lst s' from []" "frame {from} s2 s'"
    by (rule list_head_init_lst)
  have "lst s' to (ms @ ns)" 
    using s2(2) frame_lst [OF s'(3), of to "ms @ ns"] assms(2,3) by (auto simp: lst_def)
  moreover have "list_prepend_list dbg to from s = Some s'"
    using nb s2(1) s'(1) assms(1,2) by (simp add: list_prepend_list_def s1_def del: last.simps)
  moreover have "frame ?X s s'"
    using frame_trans [OF fr frame_trans [OF s2(3) s'(3), of ?X], of ?X] by simp
  ultimately show thesis using that s'(2) by blast
qed

lemma lst_elem:
  assumes "lst s h (xs @ n # ys)"
  shows "load_next s n = Some (hd (ys @ [h]))" "load_prev s n = Some (last (h # xs))"
    and "n \<noteq> h" "h \<notin> set xs" "h \<notin> set ys" "n \<notin> set xs" "n \<notin> set ys"
proof -
  have "lst s n (ys @ h # xs)" using assms lst_rotate by simp
  then show "load_next s n = Some (hd (ys @ [h]))" "load_prev s n = Some (last (h # xs))"
    using lst_neighbours(1,2) [of s n "ys @ h # xs"] by (simp_all add: hd_append)
qed (use assms in \<open>auto simp: lst_def\<close>)

text \<open>The queries. An entry is the address of the structure, \<open>off\<close> bytes before its node.\<close>

lemma list_empty_lst [simp]:
  assumes "lst s h ns"
  shows "list_empty dbg s h = Some (ns = [])" "list_empty_nocheck s h = Some (ns = [])"
proof -
  have "hd (ns @ [h]) = h \<longleftrightarrow> ns = []" using assms by (cases ns) (auto simp: lst_def)
  with lst_neighbours(1) [OF assms] show "list_empty dbg s h = Some (ns = [])" "list_empty_nocheck s h = Some (ns = [])"
    using assms by (simp_all add: list_empty_def list_empty_nocheck_def)
qed

lemma list_top_lst:
  "lst s h ns \<Longrightarrow> list_top dbg s h off = Some (if ns = [] then NULL else hd ns - off)"
  using lst_neighbours(1) [of s h ns] by (cases ns) (simp_all add: list_top_def)

lemma list_tail_lst:
  "lst s h ns \<Longrightarrow> list_tail dbg s h off = Some (if ns = [] then NULL else last ns - off)"
  using lst_neighbours(2) [of s h ns] by (cases ns) (simp_all add: list_tail_def)

lemma list_next_lst:
  assumes "lst s h (xs @ n # ys)"
  shows "list_next dbg s h (n - off) off = Some (if ys = [] then NULL else hd ys - off)"
  using lst_elem [OF assms] assms
  by (cases ys) (auto simp: list_next_def list_node_from_off_def list_entry_or_null_def)

lemma list_prev_lst:
  assumes "lst s h (xs @ n # ys)"
  shows "list_prev dbg s h (n - off) off = Some (if xs = [] then NULL else last xs - off)"
  using lst_elem [OF assms] assms last_in_set [of xs]
  by (auto simp: list_prev_def list_node_from_off_def list_entry_or_null_def)

lemma list_del_init_lst:
  assumes "lst s h (xs @ n # ys)"
  obtains s' where "list_del_init dbg n s = Some s'" "lst s' h (xs @ ys)" "lst s' n []" "frame (set (n # h # xs @ ys)) s s'"
proof -
  obtain s1 where s1: "list_delete dbg n s = Some s1" "lst s1 h (xs @ ys)" "frame (set (n # h # xs @ ys)) s s1"
    by (rule list_delete_lst [OF assms])
  have "s1 n \<noteq> None" using lst_mapped [OF assms] frame_mapped [OF s1(3)] by simp
  then obtain s' where s': "list_head_init n s1 = Some s'" "lst s' n []" "frame {n} s1 s'" by (rule list_head_init_lst)
  have "lst s' h (xs @ ys)" 
    using s1(2) frame_lst [OF s'(3), of h "xs @ ys"] lst_elem [OF assms] by simp
  moreover have "frame (set (n # h # xs @ ys)) s s'" by (rule frame_trans [OF s1(3) s'(3)]) auto
  moreover have "list_del_init dbg n s = Some s'"
    using s1(1) s'(1) by (simp add: list_del_init_def list_head_init_def list_node_init_def)
  ultimately show thesis using that s'(2) by blast
qed

lemma list_del_from_loop_finds:
  assumes "lst s h (ps @ xs @ n # ys)"
  shows "list_del_from_loop s h n (hd (xs @ [n])) = Some ()"
  using assms
proof (induction xs arbitrary: ps)
  case Nil
  then show ?case by (simp add: list_del_from_loop.simps)
next
  case (Cons x xs)
  have "load_next s x = Some (hd (xs @ [n]))" "x \<noteq> h" "x \<noteq> n"
    using lst_elem [of s h ps x "xs @ n # ys"] Cons.prems by (simp_all add: hd_append)
  then show ?case using Cons.IH [of "ps @ [x]"] Cons.prems by (subst list_del_from_loop.simps) simp
qed

lemma list_del_from_lst:
  assumes "lst s h (xs @ n # ys)"
  shows "list_del_from dbg h n s = list_delete dbg n s"
  using list_del_from_loop_finds [of s h "[]" xs n ys] lst_neighbours(1) [OF assms] assms
  by (simp add: list_del_from_def hd_append split: if_splits)

end
