(* ===== verification/Ccan_List_Refine.thy ===== *)
theory Ccan_List_Refine
  imports Ccan_List "HOL-Library.Sublist"
begin

text \<open>
  The linked lists of \<^verbatim>\<open>ccan/list\<close> against their contract: sequences of operations on any number of
  lists refine operations on plain lists, the consistency check decides exactly whether a node
  is on a well-formed ring, and \<^verbatim>\<open>list_for_each_safe\<close> runs its body once on each element the list
  had on entry.
\<close>

section \<open>Operations as commands\<close>

datatype list_cmd =
    Head_Init addr
  | Add addr addr
  | Add_Tail addr addr
  | Add_After addr addr addr
  | Add_Before addr addr addr
  | Del addr
  | Del_Init addr
  | Del_From addr addr
  | Swap addr addr
  | Pop addr addr
  | Append_List addr addr
  | Prepend_List addr addr

fun list_exec :: "bool \<Rightarrow> list_cmd \<Rightarrow> store \<Rightarrow> store option" where
  "list_exec dbg (Head_Init h) s = list_head_init h s"
| "list_exec dbg (Add h n) s = list_add dbg h n s"
| "list_exec dbg (Add_Tail h n) s = list_add_tail dbg h n s"
| "list_exec dbg (Add_After h p n) s = list_add_after dbg h p n s"
| "list_exec dbg (Add_Before h p n) s = list_add_before dbg h p n s"
| "list_exec dbg (Del n) s = list_delete dbg n s"
| "list_exec dbg (Del_Init n) s = list_del_init dbg n s"
| "list_exec dbg (Del_From h n) s = list_del_from dbg h n s"
| "list_exec dbg (Swap m n) s = list_swap dbg m n s"
| "list_exec dbg (Pop h off) s = map_option snd (list_pop dbg h off s)"
| "list_exec dbg (Append_List to from) s = list_append_list dbg to from s"
| "list_exec dbg (Prepend_List to from) s = list_prepend_list dbg to from s"

text \<open>
  The contract. The lists by their heads; an operation that breaks what its documentation asks
  of the caller (a node that is new, an element that is on a list) has no specified result.
\<close>

type_synonym lists = "(addr \<times> addr list) list"

definition cells :: "lists \<Rightarrow> addr list" where
  "cells A = concat (map (\<lambda>(h, ns). h # ns) A)"

definition upd :: "addr \<Rightarrow> (addr list \<Rightarrow> addr list) \<Rightarrow> lists \<Rightarrow> lists" where
  "upd h f A = map (\<lambda>(k, ns). (k, if k = h then f ns else ns)) A"

fun ins_after :: "addr \<Rightarrow> addr \<Rightarrow> addr list \<Rightarrow> addr list" where
  "ins_after p n [] = []"
| "ins_after p n (x # xs) = (if x = p then x # n # xs else x # ins_after p n xs)"

fun ins_before :: "addr \<Rightarrow> addr \<Rightarrow> addr list \<Rightarrow> addr list" where
  "ins_before p n [] = []"
| "ins_before p n (x # xs) = (if x = p then n # x # xs else x # ins_before p n xs)"

definition guarded :: "bool \<Rightarrow> 'a \<Rightarrow> 'a option" where
  "guarded b x = (if b then Some x else None)"

definition elems_of :: "addr \<Rightarrow> lists \<Rightarrow> addr list" where
  "elems_of h A = (case map_of A h of Some ns \<Rightarrow> ns | None \<Rightarrow> [])"

definition is_head :: "addr \<Rightarrow> lists \<Rightarrow> bool" where
  "is_head h A = (map_of A h \<noteq> None)"

definition is_elem :: "addr \<Rightarrow> lists \<Rightarrow> bool" where
  "is_elem n A = list_ex (\<lambda>(h, ns). n \<in> set ns) A"

fun list_spec :: "addr list \<Rightarrow> list_cmd \<Rightarrow> lists \<Rightarrow> lists option" where
  "list_spec D (Head_Init h) A = guarded (h \<in> set D \<and> h \<notin> set (cells A)) ((h, []) # A)"
| "list_spec D (Add h n) A = guarded (n \<in> set D \<and> n \<notin> set (cells A) \<and> is_head h A) (upd h (\<lambda>ns. n # ns) A)"
| "list_spec D (Add_Tail h n) A = guarded (n \<in> set D \<and> n \<notin> set (cells A) \<and> is_head h A) (upd h (\<lambda>ns. ns @ [n]) A)"
| "list_spec D (Add_After h p n) A =
     guarded (n \<in> set D \<and> n \<notin> set (cells A) \<and> is_head h A \<and> p \<in> set (elems_of h A)) (upd h (ins_after p n) A)"
| "list_spec D (Add_Before h p n) A =
     guarded (n \<in> set D \<and> n \<notin> set (cells A) \<and> is_head h A \<and> p \<in> set (elems_of h A)) (upd h (ins_before p n) A)"
| "list_spec D (Del n) A = guarded (is_elem n A) (map (\<lambda>(h, ns). (h, remove1 n ns)) A)"
| "list_spec D (Del_Init n) A = guarded (is_elem n A) ((n, []) # map (\<lambda>(h, ns). (h, remove1 n ns)) A)"
| "list_spec D (Del_From h n) A = guarded (is_head h A \<and> n \<in> set (elems_of h A)) (upd h (remove1 n) A)"
| "list_spec D (Swap m n) A =
     guarded (is_elem m A \<and> n \<in> set D \<and> n \<notin> set (cells A)) (map (\<lambda>(h, ns). (h, map (\<lambda>x. if x = m then n else x) ns)) A)"
| "list_spec D (Pop h off) A = guarded (is_head h A) (upd h tl A)"
| "list_spec D (Append_List to from) A =
     guarded (is_head to A \<and> is_head from A \<and> to \<noteq> from) (upd from (\<lambda>_. []) (upd to (\<lambda>ns. ns @ elems_of from A) A))"
| "list_spec D (Prepend_List to from) A =
     guarded (is_head to A \<and> is_head from A \<and> to \<noteq> from) (upd from (\<lambda>_. []) (upd to (\<lambda>ns. elems_of from A @ ns) A))"

text \<open>The store holds these lists, on separate nodes.\<close>

definition represents :: "store \<Rightarrow> lists \<Rightarrow> bool" where
  "represents s A \<longleftrightarrow> distinct (cells A) \<and> (\<forall>(h, ns) \<in> set A. lst s h ns)"

lemma cells_simps [simp]: "cells [] = []" "cells ((h, ns) # A) = h # ns @ cells A" "cells (A @ B) = cells A @ cells B"
  by (simp_all add: cells_def)

lemma mset_cells: "mset A = mset A' \<Longrightarrow> mset (cells A) = mset (cells A')"
  unfolding cells_def mset_concat mset_map by (metis (no_types, lifting) map_map mset_map sum_mset_sum_list)

text \<open>Replacing some of the lists, all others left alone.\<close>

lemma represents_replace:
  assumes "represents s A" "mset A = mset (B @ R)" "mset A' = mset (B' @ R)"
    and "frame (set (cells B) \<union> N) s s'" "N \<inter> set (cells A) = {}"
    and "distinct (cells B')" "set (cells B') \<subseteq> set (cells B) \<union> N" "\<forall>(h, ns) \<in> set B'. lst s' h ns"
  shows "represents s' A'"
proof -
  have d: "distinct (cells (B @ R))" "set (cells A) = set (cells (B @ R))"
    using assms(1) mset_cells [OF assms(2)] mset_eq_imp_distinct_iff mset_eq_setD unfolding represents_def by blast+
  have "distinct (cells (B' @ R))" using d assms(5,6,7) by auto
  then have "distinct (cells A')" using mset_cells [OF assms(3)] mset_eq_imp_distinct_iff by blast
  moreover have "lst s' h ns" if "(h, ns) \<in> set R" for h ns
  proof -
    have "set (h # ns) \<subseteq> set (cells R)" using that by (auto simp: cells_def)
    then have "set (h # ns) \<inter> (set (cells B) \<union> N) = {}" using d assms(5) by auto
    moreover have "(h, ns) \<in> set A" using that mset_eq_setD [OF assms(2)] by auto
    then have "lst s h ns" using assms(1) unfolding represents_def by blast
    ultimately show ?thesis using frame_lst [OF assms(4)] by blast
  qed
  moreover have "set A' = set B' \<union> set R" using mset_eq_setD [OF assms(3)] by simp
  ultimately show ?thesis using assms(8) unfolding represents_def by auto
qed

lemma represents_one:
  assumes "represents s (A1 @ (h, ns) # A2)" "frame (set (h # ns) \<union> N) s s'" "N \<inter> set (cells (A1 @ (h, ns) # A2)) = {}"
    and "lst s' h ns'" "set ns' \<subseteq> set (h # ns) \<union> N"
  shows "represents s' (A1 @ (h, ns') # A2)"
  by (rule represents_replace [OF assms(1), where B = "[(h, ns)]" and B' = "[(h, ns')]" and R = "A1 @ A2" and N = N])
    (use assms(2-5) in \<open>auto simp: lst_def\<close>)

lemma represents_lst: "represents s (A1 @ (h, ns) # A2) \<Longrightarrow> lst s h ns"
  by (auto simp: represents_def)

lemma cells_mem: "(h, ns) \<in> set A \<Longrightarrow> a \<in> set (h # ns) \<Longrightarrow> a \<in> set (cells A)"
  by (auto simp: cells_def)

lemma cells_others:
  assumes "distinct (cells (A1 @ (h, ns) # A2))" "a \<in> set (h # ns)"
  shows "(k, ms) \<in> set A1 \<Longrightarrow> a \<notin> set (k # ms)" "(k, ms) \<in> set A2 \<Longrightarrow> a \<notin> set (k # ms)"
  using assms cells_mem [of k ms A1 a] cells_mem [of k ms A2 a] by auto

lemma is_head_split:
  assumes "represents s A" "is_head h A"
  obtains A1 A2 ns where "A = A1 @ (h, ns) # A2" "elems_of h A = ns" "\<forall>f. upd h f A = A1 @ (h, f ns) # A2"
proof -
  obtain ns where m: "map_of A h = Some ns" using assms(2) by (auto simp: is_head_def)
  then obtain A1 A2 where A: "A = A1 @ (h, ns) # A2" by (meson map_of_SomeD split_list)
  have "distinct (cells (A1 @ (h, ns) # A2))" using assms(1) unfolding represents_def A by simp
  then have "upd h f A = A1 @ (h, f ns) # A2" for f
    unfolding A upd_def by (auto intro!: map_idI dest: cells_mem [OF _ list.set_intros(1)])
  then show thesis using that A m by (auto simp: elems_of_def)
qed

lemma is_elem_split:
  assumes "represents s A" "is_elem n A"
  obtains A1 A2 h xs ys where "A = A1 @ (h, xs @ n # ys) # A2"
    and "map (\<lambda>(h, ns). (h, remove1 n ns)) A = A1 @ (h, xs @ ys) # A2"
    and "\<forall>m. map (\<lambda>(h, ns). (h, map (\<lambda>x. if x = n then m else x) ns)) A = A1 @ (h, xs @ m # ys) # A2"
proof -
  obtain h ns where m: "(h, ns) \<in> set A" "n \<in> set ns" using assms(2) by (auto simp: is_elem_def list_ex_iff)
  obtain A1 A2 where A: "A = A1 @ (h, ns) # A2" using m(1) by (meson split_list)
  obtain xs ys where ns: "ns = xs @ n # ys" using m(2) by (meson split_list)
  have d: "distinct (cells A)" using assms(1) by (simp add: represents_def)
  have n: "(k, ms) \<in> set A1 \<Longrightarrow> n \<notin> set ms" "(k, ms) \<in> set A2 \<Longrightarrow> n \<notin> set ms" for k ms
    using cells_others [of A1 h ns A2 n k ms] d m(2) unfolding A by auto
  have "n \<notin> set xs" "n \<notin> set ys" using d unfolding A ns by auto
  then have "remove1 n ns = xs @ ys" "\<And>m. map (\<lambda>x. if x = n then m else x) ns = xs @ m # ys"
    unfolding ns by (auto simp: remove1_append intro!: map_idI)
  moreover have "map (\<lambda>(h, ns). (h, remove1 n ns)) A1 = A1" "map (\<lambda>(h, ns). (h, remove1 n ns)) A2 = A2"
    "\<And>m. map (\<lambda>(h, ns). (h, map (\<lambda>x. if x = n then m else x) ns)) A1 = A1"
    "\<And>m. map (\<lambda>(h, ns). (h, map (\<lambda>x. if x = n then m else x) ns)) A2 = A2"
    using n by (auto intro!: map_idI remove1_idem)
  ultimately show thesis using that [of A1 h xs ys A2] A ns by simp
qed

lemma ins_after_split: "p \<notin> set xs \<Longrightarrow> ins_after p n (xs @ p # ys) = xs @ p # n # ys"
  by (induction xs) auto

lemma ins_before_split: "p \<notin> set xs \<Longrightarrow> ins_before p n (xs @ p # ys) = xs @ n # p # ys"
  by (induction xs) auto

section \<open>Each operation refines its specification\<close>

lemma guarded_Some [simp]: "guarded b x = Some y \<longleftrightarrow> b \<and> x = y"
  by (simp add: guarded_def)

text \<open>The result of an operation, with the nodes that exist.\<close>

definition refines :: "store \<Rightarrow> store option \<Rightarrow> lists \<Rightarrow> bool" where
  "refines s r A' \<longleftrightarrow> (\<exists>s'. r = Some s' \<and> represents s' A' \<and> (\<forall>a. s' a = None \<longleftrightarrow> s a = None))"

lemma refines_one:
  assumes "represents s (A1 @ (h, ns) # A2)" "r = Some s'" "frame (set (h # ns) \<union> N) s s'"
    and "N \<inter> set (cells (A1 @ (h, ns) # A2)) = {}" "lst s' h ns'" "set ns' \<subseteq> set (h # ns) \<union> N"
  shows "refines s r (A1 @ (h, ns') # A2)"
  using represents_one [OF assms(1,3-6)] assms(2) frame_mapped [OF assms(3)] unfolding refines_def by blast

lemma refines_add_after:
  assumes "represents s (A1 @ (h, ns) # A2)" "h # ns = xs @ p # ys" "n \<notin> set (cells (A1 @ (h, ns) # A2))" "s n \<noteq> None"
  shows "refines s (list_add_after dbg h p n s) (A1 @ (h, tl (xs @ p # n # ys)) # A2)"
proof -
  have "n \<notin> set (h # ns)" using assms(3) by simp
  then obtain s' where s': "list_add_after dbg h p n s = Some s'" "lst s' h (tl (xs @ p # n # ys))" "frame (set (n # h # ns)) s s'"
    by (rule list_add_after_lst [OF represents_lst [OF assms(1)] assms(2) _ assms(4)])
  have "set (tl (xs @ p # n # ys)) \<subseteq> set (h # ns) \<union> {n}"
    using arg_cong [OF assms(2), of set] by (cases xs) auto
  then show ?thesis by (intro refines_one [OF assms(1) s'(1), of "{n}"]) (use s' assms(3) in auto)
qed

lemma refines_add_before:
  assumes "represents s (A1 @ (h, ns) # A2)" "h # ns = xs @ p # ys" "n \<notin> set (cells (A1 @ (h, ns) # A2))" "s n \<noteq> None"
  shows "refines s (list_add_before dbg h p n s) (A1 @ (h, if p = h then ns @ [n] else tl (xs @ n # p # ys)) # A2)"
    (is "refines _ _ (_ @ (_, ?ns) # _)")
proof -
  have "n \<notin> set (h # ns)" using assms(3) by simp
  then obtain s' where s': "list_add_before dbg h p n s = Some s'" "frame (set (n # h # ns)) s s'" "lst s' h ?ns"
    by (rule list_add_before_lst [OF represents_lst [OF assms(1)] assms(2) _ assms(4)])
  have "set ?ns \<subseteq> set (h # ns) \<union> {n}"
    using arg_cong [OF assms(2), of set] by (cases xs) auto
  then show ?thesis by (intro refines_one [OF assms(1) s'(1), of "{n}"]) (use s' assms(3) in auto)
qed

lemma refines_delete:
  assumes "represents s (A1 @ (h, xs @ n # ys) # A2)"
  shows "refines s (list_delete dbg n s) (A1 @ (h, xs @ ys) # A2)"
proof -
  obtain s' where s': "list_delete dbg n s = Some s'" "lst s' h (xs @ ys)" "frame (set (n # h # xs @ ys)) s s'"
    by (rule list_delete_lst [OF represents_lst [OF assms]])
  then show ?thesis by (intro refines_one [OF assms s'(1), of "{}"]) (auto simp: insert_commute)
qed

lemma refines_swap:
  assumes "represents s (A1 @ (h, xs @ m # ys) # A2)" "n \<notin> set (cells (A1 @ (h, xs @ m # ys) # A2))" "s n \<noteq> None"
  shows "refines s (list_swap dbg m n s) (A1 @ (h, xs @ n # ys) # A2)"
proof -
  have "n \<notin> set (h # xs @ m # ys)" using assms(2) by simp
  then obtain s' where s': "list_swap dbg m n s = Some s'" "lst s' h (xs @ n # ys)" "frame (set (n # m # h # xs @ ys)) s s'"
    by (rule list_swap_lst [OF represents_lst [OF assms(1)] _ assms(3)])
  then show ?thesis using assms(2) by (intro refines_one [OF assms(1) s'(1), of "{n}"]) (auto simp: insert_commute)
qed

text \<open>Operations that change two lists, or add one.\<close>

lemma refines_replace:
  assumes "represents s A" "mset A = mset (B @ R)" "mset A' = mset (B' @ R)" "r = Some s'"
    and "frame (set (cells B) \<union> N) s s'" "N \<inter> set (cells A) = {}"
    and "distinct (cells B')" "set (cells B') \<subseteq> set (cells B) \<union> N" "\<forall>(h, ns) \<in> set B'. lst s' h ns"
  shows "refines s r A'"
  using represents_replace [OF assms(1-3,5-9)] assms(4) frame_mapped [OF assms(5)] unfolding refines_def by blast

lemma refines_head_init:
  assumes "represents s A" "h \<notin> set (cells A)" "s h \<noteq> None"
  shows "refines s (list_head_init h s) ((h, []) # A)"
proof -
  obtain s' where s': "list_head_init h s = Some s'" "lst s' h []" "frame {h} s s'" using assms(3) by (rule list_head_init_lst)
  then show ?thesis
    by (intro refines_replace [OF assms(1) _ _ s'(1), of "[]" A _ "[(h, [])]" "{h}"]) (use assms(2) in auto)
qed

lemma refines_del_init:
  assumes "represents s (A1 @ (h, xs @ n # ys) # A2)"
  shows "refines s (list_del_init dbg n s) ((n, []) # A1 @ (h, xs @ ys) # A2)"
proof -
  note l = represents_lst [OF assms]
  obtain s' where s': "list_del_init dbg n s = Some s'" "lst s' h (xs @ ys)" "lst s' n []" "frame (set (n # h # xs @ ys)) s s'"
    by (rule list_del_init_lst [OF l])
  show ?thesis
    by (rule refines_replace [OF assms _ _ s'(1), of "[(h, xs @ n # ys)]" "A1 @ A2" _ "[(n, []), (h, xs @ ys)]" "{}"])
      (use s' lst_elem [OF l] l in \<open>auto simp: lst_def insert_commute\<close>)
qed

text \<open>Two different lists of the store.\<close>

lemma upd_simps [simp]:
  "upd h f [] = []" "upd h f ((k, ns) # A) = (k, if k = h then f ns else ns) # upd h f A" "upd h f (A @ B) = upd h f A @ upd h f B"
  by (simp_all add: upd_def)

lemma upd_other: "h \<notin> set (cells A) \<Longrightarrow> upd h f A = A"
  unfolding upd_def by (auto intro!: map_idI dest: cells_mem [OF _ list.set_intros(1)])

lemma two_heads:
  assumes "represents s A" "is_head to A" "is_head fr A" "to \<noteq> fr"
  obtains R where "mset A = mset ([(to, elems_of to A), (fr, elems_of fr A)] @ R)"
    and "\<forall>f g. mset (upd fr f (upd to g A)) = mset ([(to, g (elems_of to A)), (fr, f (elems_of fr A))] @ R)"
    and "lst s to (elems_of to A)" "lst s fr (elems_of fr A)"
    and "set (to # elems_of to A) \<inter> set (fr # elems_of fr A) = {}"
proof -
  obtain A1 ns A2 where A: "A = A1 @ (to, ns) # A2" "elems_of to A = ns" by (rule is_head_split [OF assms(1,2)])
  obtain B1 ms B2 where B: "A = B1 @ (fr, ms) # B2" "elems_of fr A = ms" by (rule is_head_split [OF assms(1,3)])
  have rep: "distinct (cells A)" "lst s to ns" "lst s fr ms"
    using assms(1) represents_lst [of s A1 to ns A2] represents_lst [of s B1 fr ms B2] A(1) B(1) unfolding represents_def by metis+
  have "(fr, ms) \<in> set A" unfolding B(1) by simp
  then have "(fr, ms) \<in> set A1 \<or> (fr, ms) \<in> set A2" using assms(4) unfolding A(1) by auto
  then consider P Q where "A = P @ (fr, ms) # Q @ (to, ns) # A2" | P Q where "A = A1 @ (to, ns) # P @ (fr, ms) # Q"
    using A(1) by (metis append_Cons append_assoc split_list)
  then show thesis
  proof cases
    case 1
    then show thesis using that [of "P @ Q @ A2"] rep assms(4) A(2) B(2) by (auto simp: upd_other)
  next
    case 2
    then show thesis using that [of "A1 @ P @ Q"] rep assms(4) A(2) B(2) by (auto simp: upd_other)
  qed
qed

lemma refines_append_list:
  assumes "represents s A" "is_head to A" "is_head fr A" "to \<noteq> fr"
  shows "refines s (list_append_list dbg to fr s) (upd fr (\<lambda>_. []) (upd to (\<lambda>ns. ns @ elems_of fr A) A))"
proof -
  obtain R where R: "mset A = mset ([(to, elems_of to A), (fr, elems_of fr A)] @ R)"
    "\<forall>f g. mset (upd fr f (upd to g A)) = mset ([(to, g (elems_of to A)), (fr, f (elems_of fr A))] @ R)"
    and l: "lst s to (elems_of to A)" "lst s fr (elems_of fr A)" "set (to # elems_of to A) \<inter> set (fr # elems_of fr A) = {}"
    by (rule two_heads [OF assms])
  obtain s' where s': "list_append_list dbg to fr s = Some s'" "lst s' to (elems_of to A @ elems_of fr A)" "lst s' fr []"
    "frame (set (to # fr # elems_of to A @ elems_of fr A)) s s'" by (rule list_append_list_lst [OF l])
  show ?thesis
    by (rule refines_replace [OF assms(1) R(1) R(2) [rule_format] s'(1), of "{}"]) (use s' l in \<open>auto simp: lst_def insert_commute\<close>)
qed

lemma refines_prepend_list:
  assumes "represents s A" "is_head to A" "is_head fr A" "to \<noteq> fr"
  shows "refines s (list_prepend_list dbg to fr s) (upd fr (\<lambda>_. []) (upd to (\<lambda>ns. elems_of fr A @ ns) A))"
proof -
  obtain R where R: "mset A = mset ([(to, elems_of to A), (fr, elems_of fr A)] @ R)"
    "\<forall>f g. mset (upd fr f (upd to g A)) = mset ([(to, g (elems_of to A)), (fr, f (elems_of fr A))] @ R)"
    and l: "lst s to (elems_of to A)" "lst s fr (elems_of fr A)" "set (to # elems_of to A) \<inter> set (fr # elems_of fr A) = {}"
    by (rule two_heads [OF assms])
  obtain s' where s': "list_prepend_list dbg to fr s = Some s'" "lst s' to (elems_of fr A @ elems_of to A)" "lst s' fr []"
    "frame (set (to # fr # elems_of to A @ elems_of fr A)) s s'" by (rule list_prepend_list_lst [OF l])
  show ?thesis
    by (rule refines_replace [OF assms(1) R(1) R(2) [rule_format] s'(1), of "{}"]) (use s' l in \<open>auto simp: lst_def insert_commute\<close>)
qed

lemma refines_pop:
  assumes "represents s (A1 @ (h, ns) # A2)"
  shows "refines s (map_option snd (list_pop dbg h off s)) (A1 @ (h, tl ns) # A2)"
proof (cases ns)
  case Nil
  then show ?thesis using assms represents_lst [OF assms] by (auto simp: refines_def list_pop_def)
next
  case (Cons n ms)
  have "refines s (list_delete dbg n s) (A1 @ (h, ms) # A2)"
    using refines_delete [of s A1 h "[]" n ms A2] assms Cons by simp
  moreover have "load_next s h = Some n" using lst_neighbours(1) [OF represents_lst [OF assms]] Cons by simp
  ultimately show ?thesis using represents_lst [OF assms] Cons by (auto simp: refines_def list_pop_def)
qed

lemma refines_add_at:
  assumes "represents s A" "is_head h A" "n \<notin> set (cells A)" "s n \<noteq> None"
  shows "refines s (list_add dbg h n s) (upd h (\<lambda>ns. n # ns) A)"
    and "refines s (list_add_tail dbg h n s) (upd h (\<lambda>ns. ns @ [n]) A)"
    and "p \<in> set (elems_of h A) \<Longrightarrow> refines s (list_add_after dbg h p n s) (upd h (ins_after p n) A)"
    and "p \<in> set (elems_of h A) \<Longrightarrow> refines s (list_add_before dbg h p n s) (upd h (ins_before p n) A)"
proof -
  obtain A1 ns A2 where A: "A = A1 @ (h, ns) # A2" "elems_of h A = ns" "\<forall>f. upd h f A = A1 @ (h, f ns) # A2"
    by (rule is_head_split [OF assms(1,2)])
  note pre = assms(1,3) [unfolded A(1)]
  show "refines s (list_add dbg h n s) (upd h (\<lambda>ns. n # ns) A)"
    using refines_add_after [OF pre(1) _ pre(2) assms(4), of "[]" h ns] A(3) by (simp add: list_add_def)
  show "refines s (list_add_tail dbg h n s) (upd h (\<lambda>ns. ns @ [n]) A)"
    using refines_add_before [OF pre(1) _ pre(2) assms(4), of "[]" h ns] A(3) by (simp add: list_add_tail_def)
  assume "p \<in> set (elems_of h A)"
  then obtain xs ys where ns: "ns = xs @ p # ys" using A(2) by (meson split_list)
  have "p \<noteq> h" "p \<notin> set xs" using represents_lst [OF pre(1)] unfolding ns by (auto simp: lst_def)
  then show "refines s (list_add_after dbg h p n s) (upd h (ins_after p n) A)"
    and "refines s (list_add_before dbg h p n s) (upd h (ins_before p n) A)"
    using refines_add_after [OF pre(1) _ pre(2) assms(4), of "h # xs" p ys]
      refines_add_before [OF pre(1) _ pre(2) assms(4), of "h # xs" p ys] A(3) ns
    by (simp_all add: ins_after_split ins_before_split)
qed

lemma refines_del_at:
  assumes "represents s A" "is_elem n A"
  shows "refines s (list_delete dbg n s) (map (\<lambda>(h, ns). (h, remove1 n ns)) A)"
    and "refines s (list_del_init dbg n s) ((n, []) # map (\<lambda>(h, ns). (h, remove1 n ns)) A)"
    and "m \<notin> set (cells A) \<Longrightarrow> s m \<noteq> None \<Longrightarrow>
      refines s (list_swap dbg n m s) (map (\<lambda>(h, ns). (h, map (\<lambda>x. if x = n then m else x) ns)) A)"
proof -
  obtain A1 h xs ys A2 where A: "A = A1 @ (h, xs @ n # ys) # A2"
    "map (\<lambda>(h, ns). (h, remove1 n ns)) A = A1 @ (h, xs @ ys) # A2"
    "\<forall>m. map (\<lambda>(h, ns). (h, map (\<lambda>x. if x = n then m else x) ns)) A = A1 @ (h, xs @ m # ys) # A2"
    by (rule is_elem_split [OF assms])
  note pre = assms(1) [unfolded A(1)]
  show "refines s (list_delete dbg n s) (map (\<lambda>(h, ns). (h, remove1 n ns)) A)"
    and "refines s (list_del_init dbg n s) ((n, []) # map (\<lambda>(h, ns). (h, remove1 n ns)) A)"
    using refines_delete [OF pre] refines_del_init [OF pre] A(2) by simp_all
  show "refines s (list_swap dbg n m s) (map (\<lambda>(h, ns). (h, map (\<lambda>x. if x = n then m else x) ns)) A)"
    if "m \<notin> set (cells A)" "s m \<noteq> None"
    using refines_swap [OF pre that(1) [unfolded A(1)] that(2)] A(3) by simp
qed

lemma refines_head_at:
  assumes "represents s A" "is_head h A"
  shows "refines s (map_option snd (list_pop dbg h off s)) (upd h tl A)"
    and "n \<in> set (elems_of h A) \<Longrightarrow> refines s (list_del_from dbg h n s) (upd h (remove1 n) A)"
proof -
  obtain A1 ns A2 where A: "A = A1 @ (h, ns) # A2" "elems_of h A = ns" "\<forall>f. upd h f A = A1 @ (h, f ns) # A2"
    by (rule is_head_split [OF assms])
  note pre = assms(1) [unfolded A(1)]
  show "refines s (map_option snd (list_pop dbg h off s)) (upd h tl A)" using refines_pop [OF pre] A(3) by simp
  assume "n \<in> set (elems_of h A)"
  then obtain xs ys where ns: "ns = xs @ n # ys" using A(2) by (meson split_list)
  then have "n \<notin> set xs" using represents_lst [OF pre] by (auto simp: lst_def)
  then show "refines s (list_del_from dbg h n s) (upd h (remove1 n) A)"
    using refines_delete [OF pre [unfolded ns]] list_del_from_lst [OF represents_lst [OF pre [unfolded ns]]] A(3) ns
    by (simp add: remove1_append)
qed

theorem list_exec_refines:
  assumes "represents s A" "list_spec D c A = Some A'" "\<And>a. a \<in> set D \<Longrightarrow> s a \<noteq> None"
  shows "refines s (list_exec dbg c s) A'"
  using assms(2,3)
  by (cases c; clarsimp) (auto intro: refines_add_at refines_del_at refines_head_at refines_head_init refines_append_list
      refines_prepend_list assms(1))

section \<open>Sequences of operations\<close>

text \<open>
  What a user of the lists relies on: whatever carries out the commands keeps to the
  specification and neither creates nor destroys nodes.
\<close>

locale list_impl =
  fixes exec :: "list_cmd \<Rightarrow> store \<Rightarrow> store option"
  assumes exec_step: "represents s A \<Longrightarrow> list_spec D c A = Some A' \<Longrightarrow> (\<And>a. a \<in> set D \<Longrightarrow> s a \<noteq> None) \<Longrightarrow> refines s (exec c s) A'"
begin

lemma exec_run:
  assumes "represents s A" "for_each (list_spec D) cs A = Some A'" "\<And>a. a \<in> set D \<Longrightarrow> s a \<noteq> None"
  shows "refines s (for_each exec cs s) A'"
  using assms
proof (induction cs arbitrary: s A)
  case Nil
  then show ?case by (simp add: refines_def)
next
  case (Cons c cs)
  obtain A1 where A1: "list_spec D c A = Some A1" "for_each (list_spec D) cs A1 = Some A'"
    using Cons.prems(2) by (auto split: Option.bind_splits)
  obtain s1 where s1: "exec c s = Some s1" "represents s1 A1" "\<forall>a. s1 a = None \<longleftrightarrow> s a = None"
    using exec_step [OF Cons.prems(1) A1(1) Cons.prems(3)] by (auto simp: refines_def)
  have "refines s1 (for_each exec cs s1) A'" using Cons.IH [OF s1(2) A1(2)] Cons.prems(3) s1(3) by simp
  then show ?case using s1 by (auto simp: refines_def)
qed

end

interpretation ccan: list_impl "list_exec dbg" for dbg
  by unfold_locales (rule list_exec_refines)

section \<open>The consistency check\<close>

lemma links_snoc:
  "links s (h # xs @ [n]) \<longleftrightarrow> links s (h # xs) \<and> load_next s (last (h # xs)) = Some n \<and> load_prev s n = Some (last (h # xs))"
  by (induction xs arbitrary: h) auto

lemma links_cut:
  assumes "links s (h # xs @ n # zs)"
  shows "load_next s (last (h # xs)) = Some n" "load_prev s n = Some (last (h # xs))" "links s (h # xs)"
  using assms links_append [of s "h # xs" n zs] links_snoc [of s h xs n] by auto

lemma lst_cut:
  assumes "lst s h (xs @ zs)"
  shows "load_next s (last (h # xs)) = Some (hd (zs @ [h]))" "load_prev s (hd (zs @ [h])) = Some (last (h # xs))"
  using assms links_cut(1,2) [of s h xs "hd (zs @ [h])" "tl (zs @ [h])"] by (simp_all add: lst_def)

lemma links_prefix:
  assumes "lst s h ns" "links s (h # xs)" "h \<notin> set xs"
  shows "\<exists>zs. ns = xs @ zs"
  using assms(2,3)
proof (induction xs rule: rev_induct)
  case (snoc y ys)
  then obtain zs where zs: "ns = ys @ zs" using links_snoc by auto
  have "hd (zs @ [h]) = y" using lst_cut(1) [of s h ys zs] assms(1) zs snoc.prems(1) links_snoc by simp
  then show ?case using snoc.prems(2) zs by (cases zs) auto
qed simp

text \<open>
  On a finite store whose next pointers all lead to nodes the check ends: a node that is
  visited again has two predecessors, and its back pointer tells them apart.
\<close>

definition closed_store :: "store \<Rightarrow> bool" where
  "closed_store s \<longleftrightarrow> finite {a. s a \<noteq> None} \<and> (\<forall>a b. load_next s a = Some b \<longrightarrow> s b \<noteq> None)"

lemma load_Some: "s a \<noteq> None \<Longrightarrow> \<exists>b. load_next s a = Some b" "s a \<noteq> None \<Longrightarrow> \<exists>b. load_prev s a = Some b"
  by (auto simp: load_next_def load_prev_def)

lemma links_fresh:
  assumes "links s (h # xs)" "distinct (h # xs)" "load_prev s n = Some (last (h # xs))"
  shows "n \<notin> set xs"
proof
  assume "n \<in> set xs"
  then obtain ys zs where xs: "xs = ys @ n # zs" by (meson split_list)
  have "last (h # ys) = last (n # zs)" using links_cut(2) [of s h ys n zs] assms(1,3) xs by simp
  moreover have "last (h # ys) \<in> set (h # ys)" "last (n # zs) \<in> set (n # zs)" by (rule last_in_set; simp)+
  ultimately show False using assms(2) xs by (metis append_Cons disjoint_iff distinct_append)
qed

text \<open>What the loop knows when it compares a back pointer.\<close>

lemma check_position:
  assumes "links s (h # xs)" "distinct (h # xs)" "load_next s (last (h # xs)) = Some n" "load_prev s n = Some q"
  shows "q \<noteq> last (h # xs) \<Longrightarrow> \<not> lst s h ns" "n = h \<Longrightarrow> q = last (h # xs) \<Longrightarrow> lst s h xs"
proof -
  show "\<not> lst s h ns" if "q \<noteq> last (h # xs)"
  proof
    assume ns: "lst s h ns"
    then obtain zs where "ns = xs @ zs" using links_prefix assms(1,2) by fastforce
    then show False using lst_cut [of s h xs zs] ns assms(3,4) that by simp
  qed
  show "lst s h xs" if "n = h" "q = last (h # xs)"
    using assms that links_snoc [of s h xs h] by (simp add: lst_def)
qed

lemma list_check_loop_decides:
  assumes "closed_store s" "links s (h # xs)" "distinct (h # xs)" "set (h # xs) \<subseteq> {a. s a \<noteq> None}" "load_next s (last (h # xs)) = Some n"
  shows "list_check_loop False s h (last (h # xs)) n = Some (if \<exists>ns. lst s h ns then h else NULL)"
  using assms(2-)
proof (induction "card {a. s a \<noteq> None} - length xs" arbitrary: xs n rule: less_induct)
  case less
  have n: "s n \<noteq> None" using assms(1) less.prems(4) by (auto simp: closed_store_def)
  then obtain q where q: "load_prev s n = Some q" using load_Some(2) by blast
  note pos = check_position [OF less.prems(1,2,4) q]
  consider "q \<noteq> last (h # xs)" | "q = last (h # xs)" "n = h" | "q = last (h # xs)" "n \<noteq> h" by blast
  then show ?case
  proof cases
    case 1
    then show ?thesis using q pos(1) by (subst list_check_loop.simps) (auto simp: corrupt_def)
  next
    case 2
    then have "\<exists>ns. lst s h ns" using pos(2) by blast
    then show ?thesis using q 2 by (subst list_check_loop.simps) (simp del: last.simps)
  next
    case 3
    have d: "distinct (h # xs @ [n])" using links_fresh [OF less.prems(1,2)] q 3 less.prems(2) by auto
    have sub: "set (h # xs @ [n]) \<subseteq> {a. s a \<noteq> None}" using less.prems(3) n by auto
    have "card (set (h # xs @ [n])) \<le> card {a. s a \<noteq> None}"
      using assms(1) sub by (intro card_mono) (auto simp: closed_store_def)
    then have less: "card {a. s a \<noteq> None} - length (xs @ [n]) < card {a. s a \<noteq> None} - length xs"
      using distinct_card [OF d] by simp
    obtain n' where n': "load_next s n = Some n'" using load_Some(1) n by blast
    have "list_check_loop False s h (last (h # xs @ [n])) n' = Some (if \<exists>ns. lst s h ns then h else NULL)"
      by (rule less.hyps [OF less]) (use d sub n' less.prems(1,4) q 3 links_snoc [of s h xs n] in auto)
    then show ?thesis using q 3 n' by (subst list_check_loop.simps) (simp del: last.simps add: last_ConsR)
  qed
qed

section \<open>The safe loop\<close>

text \<open>
  A body that, in states with \<open>I\<close>, keeps the list as it is or removes the element it is called
  for.
\<close>

definition drops_at_most_current ::
  "('s \<Rightarrow> store) \<Rightarrow> ('s \<Rightarrow> bool) \<Rightarrow> addr \<Rightarrow> addr \<Rightarrow> addr list \<Rightarrow> (addr \<Rightarrow> 's \<Rightarrow> 's option) \<Rightarrow> bool" where
  "drops_at_most_current heap I h off ns body \<longleftrightarrow>
     (\<forall>xs i ys st st'. subseq (xs @ i # ys) ns \<longrightarrow> I st \<longrightarrow> lst (heap st) h (xs @ i # ys) \<longrightarrow> body (i - off) st = Some st' \<longrightarrow>
        I st' \<and> (lst (heap st') h (xs @ i # ys) \<or> lst (heap st') h (xs @ ys)))"

lemma list_for_each_safe_loop_runs:
  assumes "drops_at_most_current heap I h off ns body" "lst (heap st) h (xs @ ys)" "subseq (xs @ ys) ns" "I st"
    and "\<And>i zs. ys = i # zs \<Longrightarrow> nxt = hd (zs @ [h]) - off"
  shows "list_for_each_safe_loop load_next heap h off body (hd (ys @ [h]) - off) nxt st = for_each (\<lambda>i. body (i - off)) ys st
    \<and> (\<forall>st'. for_each (\<lambda>i. body (i - off)) ys st = Some st' \<longrightarrow> I st' \<and> (\<exists>ns'. lst (heap st') h ns' \<and> subseq ns' ns))"
  using assms(2-)
proof (induction ys arbitrary: xs nxt st)
  case Nil
  then show ?case by (subst list_for_each_safe_loop.simps) (auto simp: list_node_from_off_def)
next
  case (Cons i ys)
  have nxt: "nxt = hd (ys @ [h]) - off" using Cons.prems(4) by simp
  have ne: "i \<noteq> h" using Cons.prems(1) lst_elem(3) by blast
  show ?case
  proof (cases "body (i - off) st")
    case None
    then show ?thesis using ne by (subst list_for_each_safe_loop.simps) (simp add: list_node_from_off_def)
  next
    case (Some st1)
    have st1: "I st1" "lst (heap st1) h (xs @ i # ys) \<or> lst (heap st1) h (xs @ ys)"
      using assms(1) Cons.prems(1-3) Some unfolding drops_at_most_current_def by blast+
    obtain xs' where xs': "lst (heap st1) h (xs' @ ys)" "subseq (xs' @ ys) ns"
    proof -
      from st1(2) show thesis
      proof
        assume "lst (heap st1) h (xs @ ys)"
        moreover have "subseq (xs @ ys) ns" using Cons.prems(2) by (meson list_emb_append_mono subseq_Cons' subseq_order.order_refl subseq_order.order_trans subseq_append' subseq_append)
        ultimately show thesis by (rule that)
      qed (use that [of "xs @ [i]"] Cons.prems(2) in simp)
    qed
    have "hd (ys @ [h]) \<in> set (h # xs' @ ys)" by (cases ys) auto
    then obtain n' where n': "load_next (heap st1) (hd (ys @ [h])) = Some n'"
      using lst_mapped [OF xs'(1)] load_Some(1) by blast
    have "n' - off = hd (zs @ [h]) - off" if "ys = j # zs" for j zs
      using lst_elem(1) [of "heap st1" h xs' j zs] xs'(1) n' that by simp
    from Cons.IH [OF xs' st1(1) this] show ?thesis
      using Some ne nxt n' by (subst list_for_each_safe_loop.simps) (simp add: list_node_from_off_def list_node_to_off_def)
  qed
qed

lemma list_for_each_safe_runs:
  assumes "lst (heap st) h ns" "I st" "drops_at_most_current heap I h off ns body"
  shows "list_for_each_safe_off_dir dbg load_next heap h off body st = for_each (\<lambda>i. body (i - off)) ns st"
    and "for_each (\<lambda>i. body (i - off)) ns st = Some st' \<Longrightarrow> I st' \<and> (\<exists>ns'. lst (heap st') h ns' \<and> subseq ns' ns)"
proof -
  obtain n' where n': "load_next (heap st) (hd (ns @ [h])) = Some n'" using lst_neighbours(6) [OF assms(1)] load_Some(1) by blast
  have "n' = hd (zs @ [h])" if "ns = i # zs" for i zs
    using lst_elem(1) [of "heap st" h "[]" i zs] assms(1) n' that by simp
  then have loop: "list_for_each_safe_loop load_next heap h off body (hd (ns @ [h]) - off) (n' - off) st = for_each (\<lambda>i. body (i - off)) ns st
    \<and> (\<forall>st'. for_each (\<lambda>i. body (i - off)) ns st = Some st' \<longrightarrow> I st' \<and> (\<exists>ns'. lst (heap st') h ns' \<and> subseq ns' ns))"
    by (intro list_for_each_safe_loop_runs [OF assms(3), where xs = "[]"]) (use assms(1,2) in auto)
  then show "list_for_each_safe_off_dir dbg load_next heap h off body st = for_each (\<lambda>i. body (i - off)) ns st"
    using assms(1) lst_neighbours(1) [OF assms(1)] n'
    by (simp add: list_for_each_safe_off_dir_def list_node_to_off_def list_node_from_off_def)
  show "I st' \<and> (\<exists>ns'. lst (heap st') h ns' \<and> subseq ns' ns)" if "for_each (\<lambda>i. body (i - off)) ns st = Some st'" using loop that by blast
qed

text \<open>
  The list work of \<^verbatim>\<open>return_qp\<close> (\<^verbatim>\<open>urdmad/main.c\<close>) for the queue pair at \<open>qp\<close>, and of the loop that
  returns all queue pairs of a process that has gone.
\<close>

definition return_qp_entry :: "bool \<Rightarrow> addr \<Rightarrow> addr \<Rightarrow> addr \<Rightarrow> store \<Rightarrow> store option" where
  "return_qp_entry dbg avail off qp s = list_delete dbg (qp + off) s \<bind> list_add_tail dbg avail (qp + off)"

definition return_qp_entries :: "bool \<Rightarrow> addr \<Rightarrow> addr \<Rightarrow> addr \<Rightarrow> store \<Rightarrow> store option" where
  "return_qp_entries dbg owned avail off s = list_for_each_safe_off_dir dbg load_next (\<lambda>s. s) owned off (return_qp_entry dbg avail off) s"

lemma lst_unique: "lst s h ns \<Longrightarrow> lst s h ms \<Longrightarrow> ns = ms"
proof -
  assume l: "lst s h ns" "lst s h ms"
  have "links s (h # ns)" "links s (h # ms)" "h \<notin> set ns" "h \<notin> set ms"
    using l links_snoc [of s h ns h] links_snoc [of s h ms h] by (auto simp: lst_def)
  then obtain xs ys where "ms = ns @ xs" "ns = ms @ ys" using l links_prefix by metis
  then show ?thesis by simp
qed

lemma return_qp_entry_moves:
  assumes "lst s owned (xs @ n # ys)" "lst s avail ms" "set (owned # xs @ n # ys) \<inter> set (avail # ms) = {}"
  obtains s' where "return_qp_entry dbg avail off (n - off) s = Some s'" "lst s' owned (xs @ ys)" "lst s' avail (ms @ [n])"
proof -
  have "represents s ([] @ (owned, xs @ n # ys) # [(avail, ms)])" using assms by (auto simp: represents_def lst_def)
  from refines_delete [OF this, of dbg] obtain s1 where s1: "list_delete dbg n s = Some s1" "represents s1 [(owned, xs @ ys), (avail, ms)]"
      "\<forall>a. s1 a = None \<longleftrightarrow> s a = None" by (auto simp: refines_def)
  have "n \<notin> set (cells [(owned, xs @ ys), (avail, ms)])" "s1 n \<noteq> None"
    using lst_elem [OF assms(1)] assms(3) lst_mapped [OF assms(1)] s1(3) by auto
  then have "refines s1 (list_add_tail dbg avail n s1) (upd avail (\<lambda>ns. ns @ [n]) [(owned, xs @ ys), (avail, ms)])"
    using refines_add_at(2) [OF s1(2), of avail n dbg] assms(3) by (auto simp: is_head_def)
  then show thesis using that s1(1) assms(3) by (auto simp: refines_def represents_def return_qp_entry_def)
qed

lemma for_each_return_qp_entry:
  assumes "lst s owned ns" "lst s avail ms" "set (owned # ns) \<inter> set (avail # ms) = {}"
  shows "\<exists>s'. for_each (\<lambda>i. return_qp_entry dbg avail off (i - off)) ns s = Some s' \<and> lst s' owned [] \<and> lst s' avail (ms @ ns)"
  using assms
proof (induction ns arbitrary: s ms)
  case (Cons n ns)
  obtain s1 where s1: "return_qp_entry dbg avail off (n - off) s = Some s1" "lst s1 owned ns" "lst s1 avail (ms @ [n])"
    using return_qp_entry_moves [of s owned "[]" n ns avail ms dbg off] Cons.prems by auto
  have "set (owned # ns) \<inter> set (avail # ms @ [n]) = {}" using Cons.prems by (auto simp: lst_def)
  from Cons.IH [OF s1(2,3) this] show ?case using s1(1) by simp
qed simp

text \<open>Both lists are well formed and apart.\<close>

definition two_lists :: "addr \<Rightarrow> addr \<Rightarrow> store \<Rightarrow> bool" where
  "two_lists owned avail s \<longleftrightarrow> (\<exists>ns ms. lst s owned ns \<and> lst s avail ms \<and> set (owned # ns) \<inter> set (avail # ms) = {})"

lemma return_qp_entry_drops:
  "drops_at_most_current (\<lambda>s. s) (two_lists owned avail) owned off ns (return_qp_entry dbg avail off)"
  unfolding drops_at_most_current_def
proof (intro allI impI)
  fix xs i ys s s'
  assume "two_lists owned avail s" and l: "lst s owned (xs @ i # ys)" and r: "return_qp_entry dbg avail off (i - off) s = Some s'"
  then obtain ms where ms: "lst s avail ms" "set (owned # xs @ i # ys) \<inter> set (avail # ms) = {}"
    using lst_unique unfolding two_lists_def by metis
  obtain s1 where "return_qp_entry dbg avail off (i - off) s = Some s1" "lst s1 owned (xs @ ys)" "lst s1 avail (ms @ [i])"
    by (rule return_qp_entry_moves [OF l ms])
  moreover have "set (owned # xs @ ys) \<inter> set (avail # ms @ [i]) = {}" using ms(2) lst_elem [OF l] by auto
  ultimately show "two_lists owned avail s' \<and> (lst s' owned (xs @ i # ys) \<or> lst s' owned (xs @ ys))"
    using r unfolding two_lists_def by (metis option.inject)
qed

lemma return_qp_entries_moves_all:
  assumes "lst s owned ns" "lst s avail ms" "set (owned # ns) \<inter> set (avail # ms) = {}"
  shows "\<exists>s'. return_qp_entries dbg owned avail off s = Some s' \<and> lst s' owned [] \<and> lst s' avail (ms @ ns)"
proof -
  have "two_lists owned avail s" using assms unfolding two_lists_def by blast
  then show ?thesis using for_each_return_qp_entry [OF assms]
      list_for_each_safe_runs(1) [where heap = "\<lambda>s. s", OF assms(1) _ return_qp_entry_drops]
    unfolding return_qp_entries_def by simp
qed

section \<open>Properties\<close>

definition example_nodes :: "addr list" where
  "example_nodes = [16, 32, 48, 64]"

definition example_store :: store where
  "example_store = (\<lambda>a. if a \<in> set example_nodes then Some \<lparr>node_next = NULL, node_prev = NULL\<rparr> else None)"

definition example_cmds :: "list_cmd list" where
  "example_cmds = [Head_Init 16, Head_Init 32, Add_Tail 16 48, Add 16 64, Del 48, Add_Tail 32 48, Append_List 16 32]"

text \<open>
  C8. Refinement of the linked lists: from a store that holds well-formed lists, every
  sequence of list operations that the contract allows (new nodes are new, removed nodes are on
  a list) runs without a fault, with and without the debugging checks, and leaves a store that
  holds exactly the lists the operations on plain lists give, all of them well formed and apart.
\<close>

theorem list_commands_refine:
  assumes "represents s A" "for_each (list_spec D) cs A = Some A'" "\<forall>a \<in> set D. s a \<noteq> None"
  shows "\<exists>s'. for_each (list_exec dbg) cs s = Some s' \<and> represents s' A' \<and> (\<forall>a. s' a = None \<longleftrightarrow> s a = None)"
  using ccan.exec_run [OF assms(1,2), of dbg] assms(3) unfolding refines_def by blast

theorem list_commands_refine_witness:
  "represents example_store [] \<and> for_each (list_spec example_nodes) example_cmds [] = Some [(32, []), (16, [64, 48])] \<and>
   (\<exists>s'. for_each (list_exec True) example_cmds example_store = Some s' \<and> represents s' [(32, []), (16, [64, 48])] \<and>
     (\<forall>a. s' a = None \<longleftrightarrow> example_store a = None))"
proof -
  have A: "represents example_store []" by (simp add: represents_def)
  have B: "for_each (list_spec example_nodes) example_cmds [] = Some [(32, []), (16, [64, 48])]"
    by (simp add: example_cmds_def example_nodes_def guarded_def is_head_def is_elem_def elems_of_def)
  have C: "\<forall>a \<in> set example_nodes. example_store a \<noteq> None" by (simp add: example_store_def)
  show ?thesis using A B list_commands_refine [OF A B C] by simp
qed

text \<open>
  C38. The consistency check decides whether a node is on a well-formed ring: on a finite store
  whose next pointers lead to nodes it always ends, and it returns the node if a well-formed
  list starts there and the null pointer otherwise.
\<close>

theorem list_check_node_decides:
  assumes "closed_store s" "s h \<noteq> None"
  shows "list_check_node False s h = Some (if \<exists>ns. lst s h ns then h else NULL)"
proof -
  obtain n where "load_next s h = Some n" using load_Some(1) assms(2) by blast
  then show ?thesis using list_check_loop_decides [OF assms(1), of h "[]" n] assms(2) by (simp add: list_check_node_def)
qed

definition broken_store :: store where
  "broken_store = [16 \<mapsto> \<lparr>node_next = 32, node_prev = 32\<rparr>, 32 \<mapsto> \<lparr>node_next = 48, node_prev = 16\<rparr>, 48 \<mapsto> \<lparr>node_next = 32, node_prev = 32\<rparr>]"

theorem list_check_node_decides_witness:
  "closed_store broken_store \<and> broken_store 16 \<noteq> None \<and> list_check_node False broken_store 16 = Some NULL \<and> (\<forall>ns. \<not> lst broken_store 16 ns)"
proof -
  have "{a. broken_store a \<noteq> None} = {16, 32, 48}" by (auto simp: broken_store_def)
  then have A: "closed_store broken_store" by (auto simp: closed_store_def load_next_def broken_store_def split: if_splits)
  have B: "broken_store 16 \<noteq> None" by (simp add: broken_store_def)
  have C: "list_check_node False broken_store 16 = Some NULL"
    by (simp add: list_check_node_def list_check_loop.simps load_next_def load_prev_def broken_store_def corrupt_def)
  show ?thesis using A B C list_check_node_decides [OF A B] by (auto split: if_splits)
qed

text \<open>
  C39. The safe loop: when the body keeps the list or removes the element it is called for,
  \<^verbatim>\<open>list_for_each_safe\<close> does what running the body once on each element of the list on entry, in
  order, does, and the list it leaves is well formed and a sublist of the one on entry.
\<close>

theorem list_for_each_safe_visits:
  assumes "lst (heap st) h ns" "I st" "drops_at_most_current heap I h off ns body"
  shows "list_for_each_safe_off_dir dbg load_next heap h off body st = for_each (\<lambda>i. body (i - off)) ns st \<and>
    (\<forall>st'. for_each (\<lambda>i. body (i - off)) ns st = Some st' \<longrightarrow> (\<exists>ns'. lst (heap st') h ns' \<and> subseq ns' ns))"
  using list_for_each_safe_runs [OF assms] by blast

definition example_owned :: store where
  "example_owned = [16 \<mapsto> \<lparr>node_next = 48, node_prev = 48\<rparr>, 48 \<mapsto> \<lparr>node_next = 16, node_prev = 16\<rparr>, 32 \<mapsto> \<lparr>node_next = 32, node_prev = 32\<rparr>]"

theorem list_for_each_safe_visits_witness:
  "lst example_owned 16 [48] \<and> two_lists 16 32 example_owned \<and>
   return_qp_entries True 16 32 8 example_owned = for_each (\<lambda>i. return_qp_entry True 32 8 (i - 8)) [48] example_owned \<and>
   (\<exists>s'. return_qp_entries True 16 32 8 example_owned = Some s' \<and> lst s' 16 [] \<and> lst s' 32 [48])"
proof -
  have A: "lst example_owned 16 [48]" "lst example_owned 32 []" by (simp_all add: lst_def load_next_def load_prev_def example_owned_def)
  then have B: "two_lists 16 32 example_owned"
    unfolding two_lists_def by (intro exI [of _ "[48]"] exI [of _ "[]"]) simp
  have C: "return_qp_entries True 16 32 8 example_owned = for_each (\<lambda>i. return_qp_entry True 32 8 (i - 8)) [48] example_owned"
    unfolding return_qp_entries_def
    using list_for_each_safe_visits [where heap = "\<lambda>s. s", OF A(1) B return_qp_entry_drops] by simp
  have D: "\<exists>s'. return_qp_entries True 16 32 8 example_owned = Some s' \<and> lst s' 16 [] \<and> lst s' 32 [48]"
    using return_qp_entries_moves_all [OF A, of True 8] by simp
  show ?thesis using A(1) B C D by blast
qed

end
