(* ===== verification/Spec2Isabelle.thy ===== *)
theory Spec2Isabelle
  imports End_To_End Lifecycle Client_Start Ipv4_Text Ccan_List_Refine
begin

text \<open>
  Verification of \<^bold>\<open>urdma\<close>: a user-space implementation of the verbs interface with the iWARP protocols
  (RDMAP and DDP) over UDP datagrams and a small reliable transport (TRP), on top of DPDK.

  \<^bold>\<open>Parts and how they interact.\<close> The library \<^verbatim>\<open>src/src/liburdma\<close> runs in the application. The verbs calls
  (\<^verbatim>\<open>verbs.c\<close>) create objects and put work requests on rings. One progress thread (\<^verbatim>\<open>interface.c\<close>)
  takes them from the rings, cuts messages into segments, hands datagrams to the network card,
  processes what arrives, and puts completions on rings that the application polls. The daemon
  \<^verbatim>\<open>src/src/urdmad\<close> owns the queues of the card: it gives queue pairs and processor cores to client
  processes over a socket and sets a queue pair up when the kernel reports its connection, in a
  record that daemon and client share. Clients start (\<^verbatim>\<open>driver.c\<close>) from the same configuration file
  (\<^verbatim>\<open>src/src/util/config_file.c\<close>) as the daemon.

  \<^bold>\<open>Theories.\<close>
  \<^item> \<open>Prelude\<close>: words, errors, assertions, loops over lists. \<open>Bytes\<close>: byte images of integers, and the
    contract \<open>field_codec\<close> of a field that is read back as it was written.
  \<^item> \<open>Serial\<close> (\<^verbatim>\<open>serial_less_32\<close>), \<open>Binheap\<close> (\<^verbatim>\<open>util/binheap.c\<close>; contract \<open>min_queue\<close>), \<open>Proto\<close>
    (\<^verbatim>\<open>include/proto.h\<close>, \<^verbatim>\<open>include/proto_trp.h\<close>), \<open>Iov\<close> (the copy loops), \<open>Mr_Table\<close> (memory regions;
    contract \<open>region_store\<close>).
  \<^item> \<open>Dpdk\<close>: the environment record of the library, one field for each DPDK function it calls, with the
    documented behaviour of rings, buffers and transmit bursts as named predicates.
  \<^item> \<open>Qp_State\<close>: the structures of \<^verbatim>\<open>interface.h\<close> and the shared record \<^verbatim>\<open>struct urdmad_qp\<close>.
  \<^item> \<open>Queues\<close>, \<open>Tx_Path\<close>, \<open>Trp_Recv\<close>, \<open>Rdmap_Send\<close> (contract \<open>segment_loop\<close> of the three loops that cut
    messages), \<open>Trp_Ack\<close>, \<open>Rdmap_Recv\<close>, \<open>Progress\<close>: the functions of \<^verbatim>\<open>interface.c\<close> in the order of the
    file, one definition for each, from \<^verbatim>\<open>usiw_send_wqe_queue_init\<close> to the step of \<^verbatim>\<open>kni_loop\<close>.
  \<^item> \<open>Reassembly\<close> and \<open>End_To_End\<close>: arriving segments put together; the composition of sender and
    receiver.
  \<^item> \<open>Verbs_Post\<close>, \<open>Verbs_Objects\<close>: the calls of \<^verbatim>\<open>verbs.c\<close>. \<open>Verbs_Correct\<close>: what they promise.
  \<^item> \<open>Lifeline\<close>: what no operation of the library changes (state, reference counts, completion queues of
    a queue pair), for all operations. \<open>Lifecycle\<close>: interleavings of application, progress thread and
    daemon as a step relation, and its invariant.
  \<^item> \<open>Urdmad\<close> (\<^verbatim>\<open>urdmad/main.c\<close>, the handlers), \<open>Urdmad_Correct\<close> (conservation of queue pairs, accounting of
    cores), \<open>Port_Config\<close> (\<^verbatim>\<open>config_file.c\<close>), \<open>Urdmad_Start\<close> (port setup and start; the daemon from its
    start on), \<open>Client_Start\<close> (\<^verbatim>\<open>driver.c\<close>), \<open>Ipv4_Text\<close> (\<^verbatim>\<open>parse_ipv4_address\<close>).
  \<^item> \<open>Ccan_List\<close> (\<^verbatim>\<open>src/ccan/list\<close>: the linked lists on a store of nodes, with pointers and faults),
    \<open>Ccan_List_Refine\<close> (contract \<open>list_impl\<close>; sequences of operations refine plain lists, the
    consistency check, the safe loop).

  \<^bold>\<open>How code becomes definitions.\<close> A structure is a record, an enumeration a datatype, an integer of
  \<open>w\<close> bits a word of \<open>w\<close> bits. Functions take the state and return it updated. The result \<open>None\<close> of an
  operation means that it does not return normally: a failed assertion, a use of memory that is
  not there, or a loop without end; errors that the code reports are values of \<open>ret\<close> or of a sum.
  Loops that need not end (retries, drains, loops over rings) are \<^verbatim>\<open>partial_function\<close>s in the option
  monad, so that no fuel is chosen anywhere; where such a loop ends, that is proved. Code outside
  the repository (DPDK, the kernel, sockets, json-c) is a field of an environment record. Calls whose
  outcome may differ from call to call get the number of calls made so far, so that every pattern
  of outcomes is covered. Application memory is a function from addresses to bytes, and intrusive
  lists are lists of indices of the structures they thread; \<open>Ccan_List_Refine\<close> shows that the linked
  lists behave like that.

  \<^bold>\<open>What is shown.\<close> Messages: in any order of arrival, a SEND reaches the receive buffers and completes
  once, an RDMA WRITE changes its target and nothing else; RDMA READ requests are answered with the
  memory they ask for; a segment leaves as a valid UDP datagram with right lengths and checksums;
  windows and acknowledgements are right, and acknowledged requests are completed; data is placed
  inside registered regions except where the bounds test overflows. Objects: the table of memory
  regions refines stacks of regions, what creation gives, what posting does on every branch, what
  polling and flushing do, and that in every interleaving a queue pair is released at most once.
  Daemon: from the start on, every queue pair is in one list and every core in one hand; a client
  runs on the cores it was given. Where the code does not do what it means to, the theorem states
  what it does, with the conditions.

  \<^bold>\<open>Not modelled.\<close> Locks and the memory model: an operation between lock and unlock is one step. Log
  output and statistics. The start of threads, files, sockets, netlink and the kernel network
  interface (\<^verbatim>\<open>kni.c\<close>, parts of \<^verbatim>\<open>driver.c\<close> and \<^verbatim>\<open>verbs.c\<close>), which are I/O with a success or failure.
  The kernel module (\<^verbatim>\<open>src/src/kmod\<close>), which is made of calls into the kernel. The example programs
  (\<^verbatim>\<open>kvstore_*\<close>, \<^verbatim>\<open>*_pingpong\<close>), tests, and imported headers.
\<close>

section \<open>Properties that span the components\<close>

text \<open>
  C1. A SEND from end to end. When the window of the sender has room for the message, \<^verbatim>\<open>do_rdmap_send\<close>
  returns and adds its segments to the window. In whatever order these segments reach the receiver,
  each of them once, with no hole before the last one, processing them returns, the message is
  exactly what is in the buffers of the receive request at the head of the queue, and exactly one
  successful completion, with the context of that request and the length of the message, is added to
  the completion queue of the receiver.
\<close>

theorem send_end_to_end:
  assumes "send_ready E base s k msg" "mtu = unat (shm_mtu (shm_qp s))" "msg \<noteq> []" "length msg < 2 ^ 32"
    and "ring_spec D q cap" "qp_ok q cap r" "rq_active (rq0 r) = i # rest"
    and "recv_ready (length msg) (sw_msn (send_wqe s k)) (recv_wqe r i)"
    and "rest = [] \<or> \<not> rw_complete (recv_wqe r (hd rest))" "q (cq_free_ring (cqs r (recv_cq r))) \<noteq> []"
  shows "\<exists>s'. do_rdmap_send E s k = Some s' \<and> length (new_segments base s s') = frag_count mtu msg \<and>
    (\<forall>js origs. mset js = mset [0..<frag_count mtu msg] \<and> delivered (new_segments base s s') js origs \<and>
        serial_less_32 (ctx_psn (last origs)) (recv_ack_psn (remote_ep r)) \<longrightarrow>
      (\<exists>r' wc. for_each (\<lambda>orig r. process_ddp_segment D r orig) origs r = Some r' \<and> qp_ok q cap r' \<and>
        take (length msg) (gather (qp_mem r') (recv_buffers (recv_wqe r i))) = msg \<and>
        cq_view q (cqs r' (recv_cq r)) = cq_view q (cqs r (recv_cq r)) @ [wc] \<and>
        wc_wr_context wc = rw_wr_context (recv_wqe r i) \<and> wc_status wc = IBV_WC_SUCCESS \<and> wc_opcode wc = IBV_WC_RECV \<and>
        wc_byte_len wc = of_nat (length msg) \<and> rq_active (rq0 r') = rest))"
proof -
  obtain s' where s': "do_rdmap_send E s k = Some s'"
    "new_segments base s s' = map (\<lambda>j. (Some k, None, send_bytes mtu msg (sw_msn (send_wqe s k)) (j * mtu))) [0..<frag_count mtu msg]"
    using send_ready_segments(1) [OF assms(1,2)] by blast
  have mtu: "0 < mtu" using assms(1,2) by (simp add: send_ready_def Let_def)
  show ?thesis
  proof (intro exI [of _ s'] conjI allI impI s'(1))
    fix js origs
    assume d: "mset js = mset [0..<frag_count mtu msg] \<and> delivered (new_segments base s s') js origs \<and>
      serial_less_32 (ctx_psn (last origs)) (recv_ack_psn (remote_ep r))"
    have c: "list_all2 (\<lambda>orig j. carries orig (send_bytes mtu msg (sw_msn (send_wqe s k)) (j * mtu))) origs js"
      by (rule delivered_map(1) [where a = "\<lambda>_. Some k" and b = "\<lambda>_. None" and n = "frag_count mtu msg"]) (use d in \<open>simp add: s'(2)\<close>)
    have "process_ddp_segment D r orig = process_send D r orig" if o: "orig \<in> set origs" for orig r
    proof -
      obtain j where "carries orig (send_bytes mtu msg (sw_msn (send_wqe s k)) (j * mtu))"
        using c o by (metis in_set_conv_nth list_all2_conv_all_nth)
      then show ?thesis by (rule process_ddp_segment_send)
    qed
    then have "for_each (\<lambda>orig r. process_ddp_segment D r orig) origs r = for_each (\<lambda>orig r. process_send D r orig) origs r"
      by (rule for_each_cong)
    then show "\<exists>r' wc. for_each (\<lambda>orig r. process_ddp_segment D r orig) origs r = Some r' \<and> qp_ok q cap r' \<and>
        take (length msg) (gather (qp_mem r') (recv_buffers (recv_wqe r i))) = msg \<and>
        cq_view q (cqs r' (recv_cq r)) = cq_view q (cqs r (recv_cq r)) @ [wc] \<and>
        wc_wr_context wc = rw_wr_context (recv_wqe r i) \<and> wc_status wc = IBV_WC_SUCCESS \<and> wc_opcode wc = IBV_WC_RECV \<and>
        wc_byte_len wc = of_nat (length msg) \<and> rq_active (rq0 r') = rest"
      using process_send_reassembles [OF assms(5,6) mtu assms(3,4,7-10) _ c] d by metis
  qed (simp add: s'(2))
qed

definition recv_example :: "(nat list \<times> nat) usiw_qp" where
  "recv_example = map_ep (\<lambda>ep. ep\<lparr>recv_ack_psn := 2\<rparr>) example_qp"

lemma example_send_ready: "send_ready example_env 0 example_qp 0 [100, 101, 102, 200, 201, 202, 203]"
proof -
  have "unat (shm_mtu (shm_qp example_qp)) = 4" "sw_bytes_sent (send_wqe example_qp 0) = 0"
    "sw_remote_ep (send_wqe example_qp 0)" "psn_room example_qp = 8"
    by (simp_all add: example_qp_def example_shm_def example_send_wqe_def zero_send_wqe_def psn_room_def example_ep_def)
  then show ?thesis
    using example_seg_env example_open_window example_wqe_data by (simp add: send_ready_def frag_count_def)
qed

lemma ctx_of_carries: "carries (ctx_of bs) bs"
  by (simp add: carries_def ctx_of_def holds_at_def)

theorem send_end_to_end_witness:
  "\<exists>s' r' wc. do_rdmap_send example_env example_qp 0 = Some s' \<and>
     for_each (\<lambda>orig r. process_ddp_segment example_env r orig)
       (map (\<lambda>j. ctx_of (snd (snd (new_segments 0 example_qp s' ! j)))) [1, 0]) recv_example = Some r' \<and>
     cq_view fst (cqs r' 0) = [wc] \<and> wc_byte_len wc = 7 \<and> rq_active (rq0 r') = []"
proof -
  let ?msg = "[100, 101, 102, 200, 201, 202, 203] :: u8 list"
  have ok: "qp_ok fst snd recv_example" using example_qp_ok by (simp add: recv_example_def)
  have f: "rq_active (rq0 recv_example) = [0]" "recv_cq recv_example = 0" "fst (cq_free_ring (cqs recv_example 0)) \<noteq> []"
    "cq_view fst (cqs recv_example 0) = []" "recv_ack_psn (remote_ep recv_example) = 2" "unat (shm_mtu (shm_qp example_qp)) = 4"
    by (simp_all add: recv_example_def example_qp_def example_cq_def cq_view_def example_shm_def)
  have "length two_segments = 2" "iov_total two_segments = 7" by (simp_all add: two_segments_def iov_total_def)
  then have iovs: "iovs_of (iov_image two_segments) 2 = two_segments" "iov_total two_segments = 7" "length two_segments = 2"
    using iovs_of_image [of two_segments "[]"] by simp_all
  have "recv_ready (length ?msg) (sw_msn (send_wqe example_qp 0)) (recv_wqe recv_example 0)"
    using two_segments_disjoint iovs
    by (simp add: recv_ready_def recv_buffers_def recv_example_def example_qp_def example_recv_wqe_def zero_recv_wqe_def
        example_send_wqe_def zero_send_wqe_def)
  note e2e = send_end_to_end [OF example_send_ready f(6) [symmetric] _ _ example_env_ring_spec ok f(1) this]
  obtain s' where s': "do_rdmap_send example_env example_qp 0 = Some s'" "length (new_segments 0 example_qp s') = frag_count 4 ?msg"
    and d: "\<And>js origs. mset js = mset [0..<frag_count 4 ?msg] \<and> delivered (new_segments 0 example_qp s') js origs \<and>
        serial_less_32 (ctx_psn (last origs)) (recv_ack_psn (remote_ep recv_example)) \<Longrightarrow>
      \<exists>r' wc. for_each (\<lambda>orig r. process_ddp_segment example_env r orig) origs recv_example = Some r' \<and>
        cq_view fst (cqs r' (recv_cq recv_example)) = cq_view fst (cqs recv_example (recv_cq recv_example)) @ [wc] \<and>
        wc_byte_len wc = of_nat (length ?msg) \<and> rq_active (rq0 r') = []"
    using e2e f(2,3) by simp blast
  have n: "frag_count 4 ?msg = 2" by (simp add: frag_count_def)
  define origs where "origs = map (\<lambda>j. ctx_of (snd (snd (new_segments 0 example_qp s' ! j)))) [1, 0]"
  have "delivered (new_segments 0 example_qp s') [1, 0] origs"
    using s'(2) by (simp add: delivered_def ctx_of_carries n origs_def)
  moreover have "ctx_psn (last origs) = 0" by (simp add: origs_def ctx_of_def)
  moreover have "mset [1, 0] = mset [0..<frag_count 4 ?msg]" by (simp add: n upt_rec)
  moreover have "serial_less_32 0 2" by (simp add: serial_less_32_def)
  ultimately obtain r' wc where "for_each (\<lambda>orig r. process_ddp_segment example_env r orig) origs recv_example = Some r'"
    "cq_view fst (cqs r' 0) = [wc]" "wc_byte_len wc = 7" "rq_active (rq0 r') = []"
    using d [of "[1, 0]" origs] f(2,4,5) by auto
  then show ?thesis using s'(1) unfolding origs_def by blast
qed

text \<open>
  C2. An RDMA WRITE from end to end. The segments that \<^verbatim>\<open>do_rdmap_write\<close> adds to the window of the
  sender can reach the receiver in any order, any of them any number of times: processing them
  returns, changes nothing but memory, and no memory outside the target of the message. Once each
  segment has arrived at least once, the target holds exactly the message.
\<close>

theorem write_end_to_end:
  assumes "send_ready E base s k msg" "mtu = unat (shm_mtu (shm_qp s))" "addr = sw_remote_addr (send_wqe s k)"
    and "mr_table_inv (qp_pd r)" "mr_of (qp_pd r) (sw_rkey (send_wqe s k)) = Some mr" "covers mr addr (length msg)"
  shows "\<exists>s'. do_rdmap_write E s k = Some s' \<and> length (new_segments base s s') = frag_count mtu msg \<and>
    (\<forall>js origs. delivered (new_segments base s s') js origs \<longrightarrow>
      (\<exists>m'. for_each (\<lambda>orig r. process_ddp_segment D r orig) origs r = Some (r\<lparr>qp_mem := m'\<rparr>) \<and>
        (set js = {..<frag_count mtu msg} \<longrightarrow> mem_read m' addr (length msg) = msg) \<and>
        (\<forall>x. length msg \<le> unat (x - addr) \<longrightarrow> m' x = qp_mem r x)))"
proof -
  obtain s' where s': "do_rdmap_write E s k = Some s'"
    "new_segments base s s' = map (\<lambda>j. (Some k, None, write_bytes mtu msg (sw_rkey (send_wqe s k)) addr (j * mtu))) [0..<frag_count mtu msg]"
    using send_ready_segments(2) [OF assms(1,2)] assms(3) by blast
  have mtu: "0 < mtu" "mtu < 65536" using assms(1,2) unat_bound [of "shm_mtu (shm_qp s)"] by (simp_all add: send_ready_def Let_def)
  show ?thesis
  proof (intro exI [of _ s'] conjI allI impI s'(1))
    fix js origs
    assume del: "delivered (new_segments base s s') js origs"
    have d: "list_all2 (\<lambda>orig j. carries orig (write_bytes mtu msg (sw_rkey (send_wqe s k)) addr (j * mtu))) origs js"
      "set js \<subseteq> {..<frag_count mtu msg}"
      by (rule delivered_map [where a = "\<lambda>_. Some k" and b = "\<lambda>_. None" and n = "frag_count mtu msg"],
          use del in \<open>simp add: s'(2)\<close>)+
    obtain m' where m': "for_each (\<lambda>orig r. process_ddp_segment D r orig) origs r = Some (r\<lparr>qp_mem := m'\<rparr>)"
      "\<And>j. j < 2 ^ 64 \<Longrightarrow> m' (addr + of_nat j) = (if j < length msg \<and> j div mtu \<in> set js then msg ! j else qp_mem r (addr + of_nat j))"
      using process_writes [OF mtu assms(6) d assms(4,5), of D] by blast
    have small: "length msg < 2 ^ 64" using assms(6) by (auto simp: covers_def)
    have "mem_read m' addr (length msg) = msg" if "set js = {..<frag_count mtu msg}"
    proof (rule nth_equalityI)
      fix j assume "j < length (mem_read m' addr (length msg))"
      then have j: "j < length msg" by simp
      then have "j div mtu < frag_count mtu msg"
        using frag_count_less [OF mtu(1), of "j div mtu" msg] div_times_less_eq_dividend [of j mtu] by linarith
      then show "mem_read m' addr (length msg) ! j = msg ! j" using m'(2) [of j] j small that by simp
    qed simp
    moreover have "m' x = qp_mem r x" if "length msg \<le> unat (x - addr)" for x
      using m'(2) [of "unat (x - addr)"] that unat_bound [of "x - addr"] by simp
    ultimately show "\<exists>m'. for_each (\<lambda>orig r. process_ddp_segment D r orig) origs r = Some (r\<lparr>qp_mem := m'\<rparr>) \<and>
        (set js = {..<frag_count mtu msg} \<longrightarrow> mem_read m' addr (length msg) = msg) \<and>
        (\<forall>x. length msg \<le> unat (x - addr) \<longrightarrow> m' x = qp_mem r x)"
      using m'(1) by blast
  qed (simp add: s'(2))
qed

definition write_example :: "(nat list \<times> nat) usiw_qp" where
  "write_example = upd_send_wqe 0 (\<lambda>w. w\<lparr>sw_opcode := usiw_wr_write, sw_rkey := 5, sw_remote_addr := 4104\<rparr>) example_qp"

theorem write_end_to_end_witness:
  "\<exists>s' m'. do_rdmap_write example_env write_example 0 = Some s' \<and>
     for_each (\<lambda>orig r. process_ddp_segment example_env r orig)
       (map (\<lambda>j. ctx_of (snd (snd (new_segments 0 write_example s' ! j)))) [1, 0, 1]) region_qp = Some (region_qp\<lparr>qp_mem := m'\<rparr>) \<and>
     mem_read m' 4104 7 = [100, 101, 102, 200, 201, 202, 203]"
proof -
  let ?msg = "[100, 101, 102, 200, 201, 202, 203] :: u8 list"
  have w: "send_wqe write_example 0 = (send_wqe example_qp 0)\<lparr>sw_opcode := usiw_wr_write, sw_rkey := 5, sw_remote_addr := 4104\<rparr>"
    "remote_ep write_example = remote_ep example_qp" "qp_mem write_example = qp_mem example_qp" "shm_qp write_example = shm_qp example_qp"
    "txq write_example = txq example_qp"
    by (simp_all add: write_example_def upd_send_wqe_def)
  have mtu: "unat (shm_mtu (shm_qp write_example)) = 4" by (simp add: w example_qp_def example_shm_def)
  have "send_ready example_env 0 write_example 0 ?msg"
    using example_send_ready unfolding send_ready_def open_window_def psn_room_def tx_ready_def wqe_data_def Let_def w by simp
  note e2e = write_end_to_end [OF this mtu [symmetric] refl region_qp_pd(1), of region_mr example_env]
  obtain s' where s': "do_rdmap_write example_env write_example 0 = Some s'" "length (new_segments 0 write_example s') = frag_count 4 ?msg"
    and d: "\<And>js origs. delivered (new_segments 0 write_example s') js origs \<Longrightarrow>
      \<exists>m'. for_each (\<lambda>orig r. process_ddp_segment example_env r orig) origs region_qp = Some (region_qp\<lparr>qp_mem := m'\<rparr>) \<and>
        (set js = {..<frag_count 4 ?msg} \<longrightarrow> mem_read m' 4104 (length ?msg) = ?msg)"
    using e2e region_qp_pd(2) by (simp add: w covers_def region_mr_def) blast
  have n: "frag_count 4 ?msg = 2" by (simp add: frag_count_def)
  define origs where "origs = map (\<lambda>j. ctx_of (snd (snd (new_segments 0 write_example s' ! j)))) [1, 0, 1]"
  have "delivered (new_segments 0 write_example s') [1, 0, 1] origs"
    using s'(2) by (simp add: delivered_def ctx_of_carries n origs_def)
  from d [OF this] obtain m' where "for_each (\<lambda>orig r. process_ddp_segment example_env r orig) origs region_qp = Some (region_qp\<lparr>qp_mem := m'\<rparr>)"
    "set [1, 0, 1] = {..<frag_count 4 ?msg} \<longrightarrow> mem_read m' 4104 (length ?msg) = ?msg" by blast
  moreover have "set [1, 0, 1] = {..<frag_count 4 ?msg}" unfolding n by (simp add: numeral_2_eq_2 lessThan_Suc insert_commute)
  ultimately have "mem_read m' 4104 7 = ?msg" "for_each (\<lambda>orig r. process_ddp_segment example_env r orig) origs region_qp = Some (region_qp\<lparr>qp_mem := m'\<rparr>)"
    by (simp_all add: numeral_eq_Suc)
  then show ?thesis using s'(1) unfolding origs_def by blast
qed

end
